(* ===== verification/Prelude.thy ===== *)
theory Prelude
  imports Main "HOL-Library.Word" "HOL-Library.Sublist"
begin

text \<open>
  Shared vocabulary of the development: machine integer types, the C view of characters
  (the \<open>unsigned char\<close> value, the "C" locale's \<open>isspace\<close>, \<open>isdigit\<close> and
  \<open>tolower\<close>), C strings as HOL strings without their terminating NUL, the bounded copy
  that every fixed-size buffer of the program goes through, splitting at a separator, and
  the generic list lemmas the component theories share.  The collections declared here
  gather the facts that the component proofs pass to the simplifier.
\<close>

unbundle bit_operations_syntax

named_theorems ctype_simps \<open>character class facts\<close>
named_theorems cstr_bounds \<open>length bounds of C string operations\<close>

section \<open>Machine integers\<close>

type_synonym byte = "8 word"
type_synonym u16 = "16 word"
type_synonym u32 = "32 word"
type_synonym u64 = "64 word"

text \<open>A conversion to a signed 32-bit \<open>int\<close>: two's complement truncation.\<close>

definition to_int32 :: "int \<Rightarrow> int" where
  "to_int32 n = sint (word_of_int n :: u32)"

lemma to_int32_id: "- (2 ^ 31) \<le> n \<Longrightarrow> n < 2 ^ 31 \<Longrightarrow> to_int32 n = n"
  by (simp add: to_int32_def int_word_sint)

lemma to_int32_range: "- (2 ^ 31) \<le> to_int32 n \<and> to_int32 n < 2 ^ 31"
  using sint_range_size [of "word_of_int n :: u32"] by (simp add: to_int32_def word_size)

section \<open>Characters\<close>

definition uchar :: "char \<Rightarrow> nat" where
  "uchar c = of_char c"

lemma uchar_less [simp]: "uchar c < 256"
  by (simp add: uchar_def)

lemma uchar_eq_iff: "uchar c = uchar d \<longleftrightarrow> c = d"
  by (simp add: uchar_def)

lemma uchar_char_of [simp]: "n < 256 \<Longrightarrow> uchar (char_of n) = n"
  by (simp add: uchar_def)

lemma char_of_uchar [simp]: "char_of (uchar c) = c"
  by (simp add: uchar_def)

definition is_digit :: "char \<Rightarrow> bool" where
  "is_digit c \<longleftrightarrow> 48 \<le> uchar c \<and> uchar c \<le> 57"

definition is_upper :: "char \<Rightarrow> bool" where
  "is_upper c \<longleftrightarrow> 65 \<le> uchar c \<and> uchar c \<le> 90"

definition is_lower :: "char \<Rightarrow> bool" where
  "is_lower c \<longleftrightarrow> 97 \<le> uchar c \<and> uchar c \<le> 122"

definition c_isspace :: "char \<Rightarrow> bool" where
  "c_isspace c \<longleftrightarrow> uchar c = 32 \<or> (9 \<le> uchar c \<and> uchar c \<le> 13)"

definition c_tolower :: "char \<Rightarrow> char" where
  "c_tolower c = (if is_upper c then char_of (uchar c + 32) else c)"

abbreviation is_ows :: "char \<Rightarrow> bool" where
  "is_ows c \<equiv> c = CHR '' '' \<or> c = CHR 0x09"

abbreviation CR :: char where "CR \<equiv> CHR 0x0D"
abbreviation LF :: char where "LF \<equiv> CHR 0x0A"
abbreviation NUL :: char where "NUL \<equiv> CHR 0x00"
abbreviation CRLF :: string where "CRLF \<equiv> [CR, LF]"

lemma uchar_tolower: "uchar (c_tolower c) = (if is_upper c then uchar c + 32 else uchar c)"
  by (simp add: c_tolower_def is_upper_def)

lemma is_upper_tolower [simp]: "\<not> is_upper (c_tolower c)"
  by (simp add: is_upper_def uchar_tolower)

lemma tolower_non_upper [simp]: "\<not> is_upper c \<Longrightarrow> c_tolower c = c"
  by (simp add: c_tolower_def)

lemma tolower_idem [simp]: "c_tolower (c_tolower c) = c_tolower c"
  by simp

lemma tolower_eq_non_letter:
  assumes "\<not> is_lower d" and "\<not> is_upper d"
  shows "c_tolower c = d \<longleftrightarrow> c = d"
proof
  assume eq: "c_tolower c = d"
  show "c = d"
  proof (cases "is_upper c")
    case True
    then have "is_lower (c_tolower c)" by (simp add: is_lower_def uchar_tolower is_upper_def)
    with eq assms show ?thesis by simp
  next
    case False
    with eq show ?thesis by simp
  qed
next
  assume "c = d"
  with assms show "c_tolower c = d" by simp
qed

lemma is_digit_not_space: "is_digit c \<Longrightarrow> \<not> c_isspace c"
  by (simp add: is_digit_def c_isspace_def)

lemma is_digit_CHR [ctype_simps]:
  "\<not> is_digit (CHR ''-'')" "\<not> is_digit (CHR ''+'')" "\<not> is_digit (CHR '' '')"
  "\<not> is_digit (CHR ''.'')" "\<not> is_digit (CHR '':'')" "\<not> is_digit (CHR 0x09)"
  by (simp_all add: is_digit_def uchar_def)

lemma c_isspace_CHR [ctype_simps]:
  "c_isspace (CHR '' '')" "c_isspace (CHR 0x09)" "c_isspace CR" "c_isspace LF"
  "\<not> c_isspace (CHR ''-'')" "\<not> c_isspace (CHR ''+'')"
  by (simp_all add: c_isspace_def uchar_def)

lemma c_tolower_upper [ctype_simps]:
  "c_tolower (CHR ''A'') = CHR ''a''"
  "c_tolower (CHR ''B'') = CHR ''b''"
  "c_tolower (CHR ''C'') = CHR ''c''"
  "c_tolower (CHR ''D'') = CHR ''d''"
  "c_tolower (CHR ''E'') = CHR ''e''"
  "c_tolower (CHR ''F'') = CHR ''f''"
  "c_tolower (CHR ''G'') = CHR ''g''"
  "c_tolower (CHR ''H'') = CHR ''h''"
  "c_tolower (CHR ''I'') = CHR ''i''"
  "c_tolower (CHR ''J'') = CHR ''j''"
  "c_tolower (CHR ''K'') = CHR ''k''"
  "c_tolower (CHR ''L'') = CHR ''l''"
  "c_tolower (CHR ''M'') = CHR ''m''"
  "c_tolower (CHR ''N'') = CHR ''n''"
  "c_tolower (CHR ''O'') = CHR ''o''"
  "c_tolower (CHR ''P'') = CHR ''p''"
  "c_tolower (CHR ''Q'') = CHR ''q''"
  "c_tolower (CHR ''R'') = CHR ''r''"
  "c_tolower (CHR ''S'') = CHR ''s''"
  "c_tolower (CHR ''T'') = CHR ''t''"
  "c_tolower (CHR ''U'') = CHR ''u''"
  "c_tolower (CHR ''V'') = CHR ''v''"
  "c_tolower (CHR ''W'') = CHR ''w''"
  "c_tolower (CHR ''X'') = CHR ''x''"
  "c_tolower (CHR ''Y'') = CHR ''y''"
  "c_tolower (CHR ''Z'') = CHR ''z''"
  by code_simp+

section \<open>C strings\<close>

text \<open>
  A \<open>char *\<close> is the list of its characters before the NUL.  \<open>cstr\<close> reads a memory
  region as a C string; \<open>starts_with\<close> is the \<open>strncmp\<close> prefix test.
\<close>

definition cstr :: "string \<Rightarrow> string" where
  "cstr s = takeWhile (\<lambda>c. c \<noteq> NUL) s"

lemma cstr_id: "NUL \<notin> set s \<Longrightarrow> cstr s = s"
  by (auto simp: cstr_def takeWhile_eq_all_conv)

lemma NUL_notin_cstr [simp]: "NUL \<notin> set (cstr s)"
  by (auto simp: cstr_def dest: set_takeWhileD)

lemma length_cstr [cstr_bounds]: "length (cstr s) \<le> length s"
  by (simp add: cstr_def length_takeWhile_le)

definition starts_with :: "string \<Rightarrow> string \<Rightarrow> bool" where
  "starts_with s p \<longleftrightarrow> take (length p) s = p"

lemma starts_with_append [simp]: "starts_with (p @ s) p"
  by (simp add: starts_with_def)

lemma starts_with_iff: "starts_with s p \<longleftrightarrow> (\<exists>t. s = p @ t)"
  by (metis append_eq_conv_conj append_take_drop_id starts_with_def)

lemma starts_with_Nil [simp]: "starts_with s []"
  by (simp add: starts_with_def)

lemma starts_with_Cons [simp]: "starts_with (c # s) (d # p) \<longleftrightarrow> c = d \<and> starts_with s p"
  by (auto simp: starts_with_def)

lemma starts_with_empty [simp]: "starts_with [] p \<longleftrightarrow> p = []"
  by (auto simp: starts_with_def)

section \<open>Trimming\<close>

definition rtrim :: "(char \<Rightarrow> bool) \<Rightarrow> string \<Rightarrow> string" where
  "rtrim P s = rev (dropWhile P (rev s))"

definition trim :: "(char \<Rightarrow> bool) \<Rightarrow> string \<Rightarrow> string" where
  "trim P s = rtrim P (dropWhile P s)"

lemma rtrim_decomp: "\<exists>t. s = rtrim P s @ t \<and> (\<forall>c \<in> set t. P c)"
proof (intro exI conjI)
  have "rev s = takeWhile P (rev s) @ dropWhile P (rev s)" by simp
  then show "s = rtrim P s @ rev (takeWhile P (rev s))"
    unfolding rtrim_def by (metis rev_append rev_rev_ident)
  show "\<forall>c \<in> set (rev (takeWhile P (rev s))). P c"
    by (auto dest: set_takeWhileD)
qed

lemma length_rtrim [cstr_bounds]: "length (rtrim P s) \<le> length s"
  using length_dropWhile_le [of P "rev s"] by (simp add: rtrim_def)

lemma length_trim [cstr_bounds]: "length (trim P s) \<le> length s"
  unfolding trim_def by (rule order_trans [OF length_rtrim length_dropWhile_le])

lemma set_rtrim: "set (rtrim P s) \<subseteq> set s"
  by (auto simp: rtrim_def dest: set_dropWhileD)

lemma set_trim: "set (trim P s) \<subseteq> set s"
  unfolding trim_def using set_rtrim by (fastforce dest: set_dropWhileD)

lemma last_rtrim: "rtrim P s \<noteq> [] \<Longrightarrow> \<not> P (last (rtrim P s))"
  by (simp add: rtrim_def last_rev hd_dropWhile)

lemma rtrim_id: "s = [] \<or> \<not> P (last s) \<Longrightarrow> rtrim P s = s"
  by (cases s rule: rev_cases) (auto simp: rtrim_def)

lemma rtrim_eq_Nil [simp]: "rtrim P s = [] \<longleftrightarrow> (\<forall>c \<in> set s. P c)"
  by (auto simp: rtrim_def dropWhile_eq_Nil_conv)

lemma rtrim_Nil [simp]: "rtrim P [] = []"
  by (simp add: rtrim_def)

section \<open>Splitting at a separator\<close>

text \<open>
  The reference notion behind the program's scanning loops: the (possibly empty) pieces
  of a string between separator characters.
\<close>

fun split_on :: "char \<Rightarrow> string \<Rightarrow> string list" where
  "split_on d [] = [[]]"
| "split_on d (c # cs) =
     (if c = d then [] # split_on d cs
      else (c # hd (split_on d cs)) # tl (split_on d cs))"

lemma split_on_not_Nil [simp]: "split_on d s \<noteq> []"
  by (cases s) auto

lemma split_on_no_sep: "p \<in> set (split_on d s) \<Longrightarrow> d \<notin> set p"
proof (induction s arbitrary: p)
  case Nil
  then show ?case by simp
next
  case (Cons c cs)
  have "hd (split_on d cs) \<in> set (split_on d cs)" by simp
  moreover have "set (tl (split_on d cs)) \<subseteq> set (split_on d cs)"
    by (cases "split_on d cs") auto
  ultimately show ?case
    using Cons by (auto split: if_splits)
qed

lemma split_on_no_sep_single: "d \<notin> set s \<Longrightarrow> split_on d s = [s]"
  by (induction s) auto

lemma split_on_append_sep: "d \<notin> set a \<Longrightarrow> split_on d (a @ d # b) = a # split_on d b"
  by (induction a) auto

lemma split_on_mem_decomp:
  "p \<in> set (split_on d s) \<longleftrightarrow>
     d \<notin> set p \<and> (\<exists>a b. s = a @ p @ b \<and> (a = [] \<or> last a = d) \<and> (b = [] \<or> hd b = d))"
proof (induction s arbitrary: p rule: length_induct)
  case (1 s)
  show ?case
  proof (cases "d \<in> set s")
    case False
    then have "split_on d s = [s]" by (rule split_on_no_sep_single)
    moreover have "(\<exists>a b. s = a @ p @ b \<and> (a = [] \<or> last a = d) \<and> (b = [] \<or> hd b = d)) \<longleftrightarrow> p = s"
      (is "?E \<longleftrightarrow> _")
    proof
      assume ?E
      then obtain a b where "s = a @ p @ b" "a = [] \<or> last a = d" "b = [] \<or> hd b = d" by blast
      then show "p = s" using False by (cases a rule: rev_cases; cases b) auto
    next
      assume "p = s"
      then show ?E by (intro exI [of _ "[]"]) simp
    qed
    ultimately show ?thesis using False by (cases "p = s") simp_all
  next
    case True
    then obtain u v where s: "s = u @ d # v" and u: "d \<notin> set u"
      by (meson split_list_first)
    have IH: "p \<in> set (split_on d v) \<longleftrightarrow> d \<notin> set p \<and>
        (\<exists>a b. v = a @ p @ b \<and> (a = [] \<or> last a = d) \<and> (b = [] \<or> hd b = d))" for p
      using 1 s by simp
    have split: "split_on d s = u # split_on d v" using s u by (simp add: split_on_append_sep)
    show ?thesis
    proof
      assume "p \<in> set (split_on d s)"
      then consider "p = u" | "p \<in> set (split_on d v)" using split by auto
      then show "d \<notin> set p \<and> (\<exists>a b. s = a @ p @ b \<and> (a = [] \<or> last a = d) \<and> (b = [] \<or> hd b = d))"
      proof cases
        assume "p = u"
        then show ?thesis using s u by (intro conjI exI [of _ "[]"] exI [of _ "d # v"]) auto
      next
        assume "p \<in> set (split_on d v)"
        then obtain a b where "d \<notin> set p" "v = a @ p @ b" "a = [] \<or> last a = d" "b = [] \<or> hd b = d"
          using IH by blast
        then show ?thesis using s
          by (intro conjI exI [of _ "u @ d # a"] exI [of _ b]) auto
      qed
    next
      assume "d \<notin> set p \<and> (\<exists>a b. s = a @ p @ b \<and> (a = [] \<or> last a = d) \<and> (b = [] \<or> hd b = d))"
      then obtain a b where p: "d \<notin> set p" and eq: "s = a @ p @ b"
        and a: "a = [] \<or> last a = d" and b: "b = [] \<or> hd b = d" by blast
      show "p \<in> set (split_on d s)"
      proof (cases "a = []")
        case True
        then have "p @ b = u @ d # v" using eq s by simp
        moreover have "takeWhile (\<lambda>x. x \<noteq> d) (p @ b) = p"
          using p b by (cases b) (auto simp: takeWhile_append takeWhile_eq_all_conv)
        moreover have "takeWhile (\<lambda>x. x \<noteq> d) (u @ d # v) = u"
          using u by (auto simp: takeWhile_append takeWhile_eq_all_conv)
        ultimately have "p = u" by simp
        then show ?thesis by (simp add: split)
      next
        case False
        with a obtain a' where a': "a = a' @ [d]"
          by (metis append_butlast_last_id)
        then have "a' @ d # p @ b = u @ d # v" using eq s by simp
        then have "\<exists>w. a = u @ d # w \<and> v = w @ p @ b"
          using u a' by (auto simp: append_eq_append_conv2 append_eq_Cons_conv Cons_eq_append_conv)
        then obtain w where w: "a = u @ d # w" "v = w @ p @ b" by blast
        then have "w = [] \<or> last w = d" using a by (auto split: if_splits)
        then have "p \<in> set (split_on d v)" using IH p b w by blast
        then show ?thesis by (simp add: split)
      qed
    qed
  qed
qed

section \<open>Generic list facts\<close>

lemma dropWhile_neq_hd: "dropWhile (\<lambda>x. x \<noteq> d) s = c # t \<Longrightarrow> c = d"
  by (induction s) (auto split: if_splits)

lemma span_neq_split: "d \<in> set s \<Longrightarrow> s = takeWhile (\<lambda>x. x \<noteq> d) s @ d # tl (dropWhile (\<lambda>x. x \<noteq> d) s)"
  by (induction s) auto

lemma takeWhile_sep [simp]: "d \<notin> set a \<Longrightarrow> takeWhile (\<lambda>x. x \<noteq> d) (a @ d # b) = a"
  by (induction a) auto

lemma dropWhile_sep [simp]: "d \<notin> set a \<Longrightarrow> dropWhile (\<lambda>x. x \<noteq> d) (a @ d # b) = d # b"
  by (induction a) auto

lemma takeWhile_none [simp]: "d \<notin> set a \<Longrightarrow> takeWhile (\<lambda>x. x \<noteq> d) a = a"
  by (induction a) auto

lemma dropWhile_none [simp]: "d \<notin> set a \<Longrightarrow> dropWhile (\<lambda>x. x \<noteq> d) a = []"
  by (induction a) auto

lemma takeWhile_not_in: "d \<notin> set (takeWhile (\<lambda>x. x \<noteq> d) s)"
  by (auto dest: set_takeWhileD)

lemma list_all_take: "list_all P xs \<Longrightarrow> list_all P (take n xs)"
  by (auto simp: list_all_iff dest: in_set_takeD)

lemma list_all_update: "list_all P xs \<Longrightarrow> P x \<Longrightarrow> list_all P (xs[i := x])"
  by (auto simp: list_all_iff dest: set_update_subset_insert [THEN subsetD])

end
