(* ===== verification/CString.thy ===== *)
theory CString
  imports Prelude
begin

text \<open>
  The parts of the C library that the program computes with: character and substring
  search (\<open>strchr\<close>, \<open>strrchr\<close>, \<open>memmem\<close>/\<open>strstr\<close>), number parsing (\<open>strtoull\<close>,
  \<open>strtol\<close>, \<open>atoi\<close>) with their saturation and \<open>ERANGE\<close>, and the number conversions of
  \<open>snprintf\<close>.  A pointer into a string is the pair of the text before it and the text
  from it on.
\<close>

section \<open>Search\<close>

definition strchr :: "char \<Rightarrow> string \<Rightarrow> (string \<times> string) option" where
  "strchr c s =
     (if c \<in> set s then Some (takeWhile (\<lambda>x. x \<noteq> c) s, dropWhile (\<lambda>x. x \<noteq> c) s) else None)"

lemma strchr_None [simp]: "strchr c s = None \<longleftrightarrow> c \<notin> set s"
  by (simp add: strchr_def)

lemma strchr_Some:
  "strchr c s = Some (a, b) \<longleftrightarrow> (\<exists>r. s = a @ c # r \<and> b = c # r \<and> c \<notin> set a)"
proof
  assume "strchr c s = Some (a, b)"
  then have c: "c \<in> set s" and a: "a = takeWhile (\<lambda>x. x \<noteq> c) s" and b: "b = dropWhile (\<lambda>x. x \<noteq> c) s"
    by (auto simp: strchr_def split: if_splits)
  from c have "b = c # tl b" unfolding b by (induction s) auto
  with a b takeWhile_not_in [of c s] show "\<exists>r. s = a @ c # r \<and> b = c # r \<and> c \<notin> set a"
    by (metis takeWhile_dropWhile_id)
next
  assume "\<exists>r. s = a @ c # r \<and> b = c # r \<and> c \<notin> set a"
  then show "strchr c s = Some (a, b)"
    by (auto simp: strchr_def takeWhile_append dropWhile_append takeWhile_eq_all_conv)
qed

lemma strchr_append: "c \<notin> set a \<Longrightarrow> strchr c (a @ c # r) = Some (a, c # r)"
  by (simp add: strchr_Some)

definition strrchr :: "char \<Rightarrow> string \<Rightarrow> (string \<times> string) option" where
  "strrchr c s =
     (case strchr c (rev s) of None \<Rightarrow> None | Some (a, b) \<Rightarrow> Some (rev (tl b), c # rev a))"

lemma strrchr_None [simp]: "strrchr c s = None \<longleftrightarrow> c \<notin> set s"
proof -
  have "strrchr c s = None \<longleftrightarrow> strchr c (rev s) = None"
    by (auto simp only: strrchr_def split: option.splits)
  then show ?thesis by simp
qed

lemma strrchr_Some:
  "strrchr c s = Some (a, b) \<longleftrightarrow> (\<exists>r. s = a @ c # r \<and> b = c # r \<and> c \<notin> set r)"
proof
  assume "strrchr c s = Some (a, b)"
  then obtain u v where "strchr c (rev s) = Some (u, v)" "a = rev (tl v)" "b = c # rev u"
    by (auto simp: strrchr_def split: option.splits)
  then show "\<exists>r. s = a @ c # r \<and> b = c # r \<and> c \<notin> set r"
    by (auto simp: strchr_Some rev_eq_append_conv)
next
  assume "\<exists>r. s = a @ c # r \<and> b = c # r \<and> c \<notin> set r"
  then show "strrchr c s = Some (a, b)"
    by (auto simp: strrchr_def strchr_append)
qed

fun memmem :: "string \<Rightarrow> string \<Rightarrow> (string \<times> string) option" where
  "memmem p [] = (if p = [] then Some ([], []) else None)"
| "memmem p (c # s) =
     (if starts_with (c # s) p then Some ([], c # s)
      else (case memmem p s of None \<Rightarrow> None | Some (a, b) \<Rightarrow> Some (c # a, b)))"

lemma memmem_Some: "memmem p s = Some (a, b) \<Longrightarrow> s = a @ b \<and> starts_with b p"
  by (induction p s arbitrary: a rule: memmem.induct) (auto split: if_splits option.splits)

lemma memmem_first:
  "memmem p s = Some (a, b) \<Longrightarrow> s = u @ v \<Longrightarrow> starts_with v p \<Longrightarrow> length a \<le> length u"
proof (induction p s arbitrary: a u rule: memmem.induct)
  case (2 p c s)
  then show ?case
    by (cases u) (auto split: if_splits option.splits)
qed auto

lemma memmem_None: "memmem p s = None \<longleftrightarrow> (\<forall>u v. s = u @ v \<longrightarrow> \<not> starts_with v p)"
proof (induction p s rule: memmem.induct)
  case (2 p c s)
  show ?case (is "?L \<longleftrightarrow> ?R")
  proof
    assume ?L
    with 2 have "\<not> starts_with (c # s) p" "\<forall>u v. s = u @ v \<longrightarrow> \<not> starts_with v p"
      by (auto split: if_splits option.splits)
    then show ?R by (metis Cons_eq_append_conv)
  next
    assume r: ?R
    from r [rule_format, of "[]"] have "\<not> starts_with (c # s) p" by simp
    moreover have "\<forall>u v. s = u @ v \<longrightarrow> \<not> starts_with v p"
      using r by (metis append_Cons)
    ultimately show ?L using 2 by simp
  qed
qed auto

lemma memmem_length: "memmem p s = Some (a, b) \<Longrightarrow> length a + length p \<le> length s"
  by (auto dest!: memmem_Some simp: starts_with_iff)

text \<open>A match found in a buffer is still the first one when more bytes arrive.\<close>

lemma memmem_append:
  "memmem p s = Some (a, b) \<Longrightarrow> memmem p (s @ t) = Some (a, b @ t)"
proof (induction p s arbitrary: a rule: memmem.induct)
  case (1 p)
  then show ?case by (cases t) (auto split: if_splits)
next
  case (2 p c s)
  then have len: "length p \<le> length (c # s)"
    using memmem_length [of p "c # s" a b] by simp
  have sw: "starts_with (c # s @ t) p \<longleftrightarrow> starts_with (c # s) p"
    using len by (simp add: starts_with_def take_Cons')
  show ?case
    using 2 sw by (auto split: if_splits option.splits)
qed

text \<open>The first occurrence of CRLF cannot start inside a line without CR.\<close>

lemma memmem_CRLF_append: "CR \<notin> set a \<Longrightarrow> memmem CRLF (a @ CR # LF # r) = Some (a, CR # LF # r)"
  by (induction a) (auto simp: starts_with_def)

lemma memmem_CRLF_None: "CR \<notin> set a \<Longrightarrow> memmem CRLF a = None"
  by (induction a) (auto simp: starts_with_def)

definition strstr_found :: "string \<Rightarrow> string \<Rightarrow> bool" where
  "strstr_found s p \<longleftrightarrow> memmem p s \<noteq> None"

section \<open>Decimal and hexadecimal numbers\<close>

definition nat_of_digits :: "string \<Rightarrow> nat" where
  "nat_of_digits ds = foldl (\<lambda>n c. 10 * n + (uchar c - 48)) 0 ds"

lemma nat_of_digits_snoc: "nat_of_digits (ds @ [c]) = 10 * nat_of_digits ds + (uchar c - 48)"
  by (simp add: nat_of_digits_def)

definition sign_split :: "string \<Rightarrow> bool \<times> string" where
  "sign_split t =
     (case t of [] \<Rightarrow> (False, [])
      | c # r \<Rightarrow> if c = CHR ''-'' then (True, r) else if c = CHR ''+'' then (False, r) else (False, t))"

text \<open>
  \<open>strtoull (s, &end, 10)\<close>: \<open>None\<close> when nothing is converted (\<open>end == s\<close>, value 0),
  otherwise the value, the text from \<open>end\<close> on, and whether \<open>errno\<close> became \<open>ERANGE\<close>.
  A minus sign negates modulo \<open>2 ^ 64\<close>.
\<close>

definition strtoull :: "string \<Rightarrow> (u64 \<times> string \<times> bool) option" where
  "strtoull s =
     (let (neg, u) = sign_split (dropWhile c_isspace s);
          ds = takeWhile is_digit u; rest = dropWhile is_digit u; n = nat_of_digits ds in
      if ds = [] then None
      else if 2 ^ 64 \<le> n then Some (- 1, rest, True)
      else Some (if neg then - word_of_nat n else word_of_nat n, rest, False))"

definition LONG_MAX :: int where "LONG_MAX = 2 ^ 63 - 1"
definition LONG_MIN :: int where "LONG_MIN = - (2 ^ 63)"

definition strtol :: "string \<Rightarrow> (int \<times> string \<times> bool) option" where
  "strtol s =
     (let (neg, u) = sign_split (dropWhile c_isspace s);
          ds = takeWhile is_digit u; rest = dropWhile is_digit u;
          n = (if neg then - int (nat_of_digits ds) else int (nat_of_digits ds)) in
      if ds = [] then None
      else if n > LONG_MAX then Some (LONG_MAX, rest, True)
      else if n < LONG_MIN then Some (LONG_MIN, rest, True)
      else Some (n, rest, False))"

lemma strtol_range: "strtol s = Some (n, r, e) \<Longrightarrow> LONG_MIN \<le> n \<and> n \<le> LONG_MAX"
  by (auto simp: strtol_def LONG_MIN_def LONG_MAX_def Let_def split: prod.splits if_splits)

definition atoi :: "string \<Rightarrow> int" where
  "atoi s = (case strtol s of None \<Rightarrow> 0 | Some (n, _) \<Rightarrow> to_int32 n)"

fun dec :: "nat \<Rightarrow> string" where
  "dec n = (if n < 10 then [char_of (48 + n)] else dec (n div 10) @ [char_of (48 + n mod 10)])"

declare dec.simps [simp del]

definition dec_int :: "int \<Rightarrow> string" where
  "dec_int i = (if i < 0 then CHR ''-'' # dec (nat (- i)) else dec (nat i))"

definition hex_digit :: "nat \<Rightarrow> char" where
  "hex_digit d = char_of (if d < 10 then 48 + d else 87 + d)"

fun hex :: "nat \<Rightarrow> string" where
  "hex n = (if n < 16 then [hex_digit n] else hex (n div 16) @ [hex_digit (n mod 16)])"

declare hex.simps [simp del]

lemma dec_not_Nil [simp]: "dec n \<noteq> []"
  by (subst dec.simps) simp

lemma hex_not_Nil [simp]: "hex n \<noteq> []"
  by (subst hex.simps) simp

lemma dec_digits: "\<forall>c \<in> set (dec n). is_digit c"
proof (induction n rule: dec.induct)
  case (1 n)
  show ?case
  proof (cases "n < 10")
    case True
    then show ?thesis by (subst dec.simps) (simp add: is_digit_def)
  next
    case False
    with 1 show ?thesis
      by (subst dec.simps) (auto simp: is_digit_def)
  qed
qed

lemma nat_of_digits_dec [simp]: "nat_of_digits (dec n) = n"
proof (induction n rule: dec.induct)
  case (1 n)
  show ?case
  proof (cases "n < 10")
    case True
    then show ?thesis by (subst dec.simps) (simp add: nat_of_digits_def)
  next
    case False
    with 1 show ?thesis
      by (subst dec.simps) (simp add: nat_of_digits_snoc)
  qed
qed

lemma takeWhile_digits_dec:
  "rest = [] \<or> \<not> is_digit (hd rest) \<Longrightarrow> takeWhile is_digit (dec n @ rest) = dec n"
  "rest = [] \<or> \<not> is_digit (hd rest) \<Longrightarrow> dropWhile is_digit (dec n @ rest) = rest"
  using dec_digits [of n] by (cases rest; force simp: takeWhile_append dropWhile_append)+

lemma dec_Cons: "\<exists>c r. dec n = c # r \<and> is_digit c"
  using dec_digits [of n] by (cases "dec n") auto

lemma sign_split_digit: "is_digit c \<Longrightarrow> sign_split (c # r) = (False, c # r)"
  by (auto simp: sign_split_def ctype_simps)

lemma strtoull_dec:
  assumes "rest = [] \<or> \<not> is_digit (hd rest)" and "n < 2 ^ 64"
  shows "strtoull (dec n @ rest) = Some (word_of_nat n, rest, False)"
proof -
  obtain c r where c: "dec n = c # r" "is_digit c" using dec_Cons by blast
  then have "sign_split (dropWhile c_isspace (dec n @ rest)) = (False, dec n @ rest)"
    by (simp add: is_digit_not_space sign_split_digit)
  with assms show ?thesis by (simp add: strtoull_def takeWhile_digits_dec)
qed

lemma strtol_dec:
  assumes "rest = [] \<or> \<not> is_digit (hd rest)"
  shows "strtol (dec n @ rest) =
     (if int n > LONG_MAX then Some (LONG_MAX, rest, True) else Some (int n, rest, False))"
proof -
  obtain c r where c: "dec n = c # r" "is_digit c" using dec_Cons by blast
  then have "sign_split (dropWhile c_isspace (dec n @ rest)) = (False, dec n @ rest)"
    by (simp add: is_digit_not_space sign_split_digit)
  with assms show ?thesis by (simp add: strtol_def takeWhile_digits_dec LONG_MIN_def)
qed

end
