(* ===== verification/Util.thy ===== *)
theory Util
  imports CString
begin

text \<open>
  \<open>src/util.c\<close>: bounded copies, trimming, case-insensitive comparison, the parsers for
  sizes, durations and booleans of the configuration, percent-decoding, the path checks,
  the MIME table and \<open>rpsiod_strip_port\<close>.  Functions that fill a caller's buffer take the
  buffer's size and return its contents; \<open>None\<close> is the C functions' error return.
\<close>

section \<open>Copying, trimming, comparing\<close>

text \<open>
  \<open>safe_copy n s\<close> is what \<open>rpsiod_safe_copy\<close> leaves in a buffer of \<open>n > 0\<close> bytes for a
  non-NULL source; \<open>rpsiod_safe_copy\<close> is the whole function, with the buffer's old contents.
\<close>

definition safe_copy :: "nat \<Rightarrow> string \<Rightarrow> string" where
  "safe_copy n s = take (n - 1) s"

definition rpsiod_safe_copy :: "string \<Rightarrow> nat \<Rightarrow> string option \<Rightarrow> string" where
  "rpsiod_safe_copy dst dst_len src =
     (if dst_len = 0 then dst
      else case src of None \<Rightarrow> [] | Some s \<Rightarrow> safe_copy dst_len s)"

lemma length_safe_copy [cstr_bounds]: "0 < n \<Longrightarrow> length (safe_copy n s) < n"
  by (simp add: safe_copy_def)

lemma length_safe_copy_le [cstr_bounds]: "length (safe_copy n s) \<le> length s"
  by (simp add: safe_copy_def)

lemma safe_copy_id [simp]: "length s < n \<Longrightarrow> safe_copy n s = s"
  by (simp add: safe_copy_def)

lemma set_safe_copy: "set (safe_copy n s) \<subseteq> set s"
  by (simp add: safe_copy_def set_take_subset)

definition rpsiod_trim :: "string \<Rightarrow> string" where
  "rpsiod_trim s =
     (let t = trim c_isspace s in
      if 2 \<le> length t \<and>
         ((hd t = CHR 0x22 \<and> last t = CHR 0x22) \<or> (hd t = CHR 0x27 \<and> last t = CHR 0x27))
      then butlast (tl t) else t)"

lemma length_rpsiod_trim [cstr_bounds]: "length (rpsiod_trim s) \<le> length s"
  using length_trim [of c_isspace s] by (auto simp: rpsiod_trim_def Let_def)

fun rpsiod_streq_ci :: "string \<Rightarrow> string \<Rightarrow> bool" where
  "rpsiod_streq_ci (a # as) (b # bs) =
     (if c_tolower a \<noteq> c_tolower b then False else rpsiod_streq_ci as bs)"
| "rpsiod_streq_ci as bs = (as = [] \<and> bs = [])"

lemma streq_ci_iff: "rpsiod_streq_ci a b \<longleftrightarrow> map c_tolower a = map c_tolower b"
  by (induction a b rule: rpsiod_streq_ci.induct) auto

declare rpsiod_streq_ci.simps [simp del]

lemma streq_ci_refl [simp]: "rpsiod_streq_ci a a"
  by (simp add: streq_ci_iff)

lemma streq_ci_sym: "rpsiod_streq_ci a b \<longleftrightarrow> rpsiod_streq_ci b a"
  by (auto simp: streq_ci_iff)

lemma streq_ci_trans: "rpsiod_streq_ci a b \<Longrightarrow> rpsiod_streq_ci b c \<Longrightarrow> rpsiod_streq_ci a c"
  by (simp add: streq_ci_iff)

lemma streq_ci_subst: "rpsiod_streq_ci k a \<Longrightarrow> rpsiod_streq_ci k b \<longleftrightarrow> rpsiod_streq_ci a b"
  by (auto simp: streq_ci_iff)

lemma streq_ci_Nil [simp]: "rpsiod_streq_ci [] b \<longleftrightarrow> b = []" "rpsiod_streq_ci a [] \<longleftrightarrow> a = []"
  by (auto simp: streq_ci_iff)

lemma streq_ci_length: "rpsiod_streq_ci a b \<Longrightarrow> length a = length b"
  by (metis length_map streq_ci_iff)

definition rpsiod_starts_with :: "string \<Rightarrow> string \<Rightarrow> bool" where
  "rpsiod_starts_with s pre = starts_with s pre"

section \<open>Configuration scalars\<close>

definition size_multiplier :: "string \<Rightarrow> u64" where
  "size_multiplier e =
     (if rpsiod_streq_ci e ''kb'' \<or> rpsiod_streq_ci e ''k'' then 1024
      else if rpsiod_streq_ci e ''mb'' \<or> rpsiod_streq_ci e ''m'' then 1024 * 1024
      else if rpsiod_streq_ci e ''gb'' \<or> rpsiod_streq_ci e ''g'' then 1024 * 1024 * 1024
      else 1)"

definition rpsiod_parse_size :: "string \<Rightarrow> u64 \<Rightarrow> u64" where
  "rpsiod_parse_size text fallback =
     (if text = [] then fallback
      else case strtoull text of
             None \<Rightarrow> fallback
           | Some (value, end, _) \<Rightarrow> value * size_multiplier (dropWhile c_isspace end))"

definition INT_MAX :: int where "INT_MAX = 2147483647"

definition rpsiod_parse_duration_sec :: "string \<Rightarrow> int \<Rightarrow> int" where
  "rpsiod_parse_duration_sec text fallback =
     (if text = [] then fallback
      else case strtol text of
             None \<Rightarrow> fallback
           | Some (value, end, _) \<Rightarrow>
               if value < 0 \<or> value > INT_MAX div 86400 then fallback
               else let e = dropWhile c_isspace end in
                 if rpsiod_streq_ci e ''ms'' then (if value > 0 then 1 else 0)
                 else if rpsiod_streq_ci e ''m'' then value * 60
                 else if rpsiod_streq_ci e ''h'' then value * 3600
                 else if rpsiod_streq_ci e ''d'' then value * 86400
                 else value)"

definition rpsiod_parse_bool :: "string \<Rightarrow> bool \<Rightarrow> bool" where
  "rpsiod_parse_bool text fallback =
     (if rpsiod_streq_ci text ''true'' \<or> rpsiod_streq_ci text ''yes'' \<or> text = ''1'' then True
      else if rpsiod_streq_ci text ''false'' \<or> rpsiod_streq_ci text ''no'' \<or> text = ''0'' then False
      else fallback)"

section \<open>Request paths\<close>

definition hexval :: "char \<Rightarrow> nat option" where
  "hexval c =
     (if is_digit c then Some (uchar c - 48)
      else if 97 \<le> uchar c \<and> uchar c \<le> 102 then Some (uchar c - 97 + 10)
      else if 65 \<le> uchar c \<and> uchar c \<le> 70 then Some (uchar c - 65 + 10)
      else None)"

lemma hexval_bound: "hexval c = Some v \<Longrightarrow> v < 16"
  by (auto simp: hexval_def is_digit_def split: if_splits)

definition path_char_ok :: "char \<Rightarrow> bool" where
  "path_char_ok ch \<longleftrightarrow> \<not> (ch = NUL \<or> ch = CHR 0x5C \<or> uchar ch < 32)"

text \<open>The loop over \<open>in\<close>: \<open>oi\<close> characters are already written to \<open>out\<close>.\<close>

fun percent_decode_loop :: "nat \<Rightarrow> nat \<Rightarrow> string \<Rightarrow> string option" where
  "percent_decode_loop out_len oi [] = Some []"
| "percent_decode_loop out_len oi (c # cs) =
     (if c = CHR ''?'' then Some []
      else if c = CHR ''%'' then
        (case cs of
           h # l # cs' \<Rightarrow>
             (case (hexval h, hexval l) of
                (Some hi, Some lo) \<Rightarrow>
                  (let ch = char_of (16 * hi + lo) in
                   if \<not> path_char_ok ch then None
                   else if out_len \<le> oi + 1 then None
                   else map_option (Cons ch) (percent_decode_loop out_len (oi + 1) cs'))
              | _ \<Rightarrow> None)
         | _ \<Rightarrow> None)
      else if \<not> path_char_ok c then None
      else if out_len \<le> oi + 1 then None
      else map_option (Cons c) (percent_decode_loop out_len (oi + 1) cs))"

definition rpsiod_percent_decode_path :: "string \<Rightarrow> nat \<Rightarrow> string option" where
  "rpsiod_percent_decode_path s out_len =
     (if out_len = 0 then None
      else case percent_decode_loop out_len 0 s of
             None \<Rightarrow> None
           | Some out \<Rightarrow> Some (if out = [] then safe_copy out_len ''/'' else out))"

function forbidden_loop :: "string \<Rightarrow> bool" where
  "forbidden_loop p =
     (if p = [] then False
      else let start = dropWhile (\<lambda>c. c = CHR ''/'') p;
               seg = takeWhile (\<lambda>c. c \<noteq> CHR ''/'') start in
        if seg = ''.'' \<or> seg = ''..'' then True
        else forbidden_loop (dropWhile (\<lambda>c. c \<noteq> CHR ''/'') start))"
  by pat_completeness auto
termination
proof (relation "measure length", simp, goal_cases)
  case (1 p x xa)
  have "length (dropWhile (\<lambda>c. c \<noteq> CHR ''/'') (dropWhile (\<lambda>c. c = CHR ''/'') p)) < length p"
  proof (cases p)
    case Nil
    with 1 show ?thesis by simp
  next
    case (Cons c cs)
    then show ?thesis
      using length_dropWhile_le [of "\<lambda>c. c \<noteq> CHR ''/''" "dropWhile (\<lambda>c. c = CHR ''/'') cs"]
        length_dropWhile_le [of "\<lambda>c. c = CHR ''/''" cs]
        length_dropWhile_le [of "\<lambda>c. c \<noteq> CHR ''/''" cs]
      by (cases "c = CHR ''/''") auto
  qed
  with 1 show ?case by simp
qed

declare forbidden_loop.simps [simp del]

definition rpsiod_path_has_forbidden_segment :: "string \<Rightarrow> bool" where
  "rpsiod_path_has_forbidden_segment path =
     (if path = [] \<or> hd path \<noteq> CHR ''/'' then True else forbidden_loop path)"

definition rpsiod_path_join :: "nat \<Rightarrow> string \<Rightarrow> string \<Rightarrow> string option" where
  "rpsiod_path_join out_len root request_path =
     (if request_path = [] \<or> hd request_path \<noteq> CHR ''/'' then None
      else if out_len \<le> length (root @ request_path) then None
      else Some (root @ request_path))"

definition rpsiod_path_within_root :: "string \<Rightarrow> string \<Rightarrow> bool" where
  "rpsiod_path_within_root root_real target_real =
     (if \<not> starts_with target_real root_real then False
      else let t = drop (length root_real) target_real in t = [] \<or> hd t = CHR ''/'')"

definition rpsiod_mime_type :: "string \<Rightarrow> string" where
  "rpsiod_mime_type path =
     (case strrchr (CHR ''.'') path of
        None \<Rightarrow> ''application/octet-stream''
      | Some (_, ext) \<Rightarrow>
          if rpsiod_streq_ci ext ''.html'' \<or> rpsiod_streq_ci ext ''.htm'' then ''text/html; charset=utf-8''
          else if rpsiod_streq_ci ext ''.css'' then ''text/css; charset=utf-8''
          else if rpsiod_streq_ci ext ''.js'' then ''application/javascript; charset=utf-8''
          else if rpsiod_streq_ci ext ''.json'' then ''application/json; charset=utf-8''
          else if rpsiod_streq_ci ext ''.txt'' then ''text/plain; charset=utf-8''
          else if rpsiod_streq_ci ext ''.png'' then ''image/png''
          else if rpsiod_streq_ci ext ''.jpg'' \<or> rpsiod_streq_ci ext ''.jpeg'' then ''image/jpeg''
          else if rpsiod_streq_ci ext ''.gif'' then ''image/gif''
          else if rpsiod_streq_ci ext ''.svg'' then ''image/svg+xml''
          else if rpsiod_streq_ci ext ''.webp'' then ''image/webp''
          else if rpsiod_streq_ci ext ''.ico'' then ''image/x-icon''
          else if rpsiod_streq_ci ext ''.pdf'' then ''application/pdf''
          else ''application/octet-stream'')"

definition rpsiod_strip_port :: "string \<Rightarrow> string" where
  "rpsiod_strip_port host =
     (let h = takeWhile (\<lambda>c. c \<notin> {CHR '' '', CHR 0x09, CR, LF}) host in
      if h \<noteq> [] \<and> hd h = CHR ''['' then
        (case strchr (CHR '']'') h of None \<Rightarrow> h | Some (a, _) \<Rightarrow> a @ [CHR '']''])
      else (case strrchr (CHR '':'') h of None \<Rightarrow> h | Some (a, _) \<Rightarrow> a))"

section \<open>Facts\<close>

lemma percent_decode_loop_chars:
  "percent_decode_loop n oi s = Some out \<Longrightarrow> list_all path_char_ok out"
  by (induction n oi s arbitrary: out rule: percent_decode_loop.induct)
     (auto simp: Let_def split: if_splits list.splits option.splits)

lemma percent_decode_loop_length:
  "percent_decode_loop n oi s = Some out \<Longrightarrow> oi < n \<Longrightarrow> oi + length out < n"
  by (induction n oi s arbitrary: out rule: percent_decode_loop.induct)
     (fastforce simp: Let_def split: if_splits list.splits option.splits)+

text \<open>The reference segments of a path: its non-empty pieces between slashes.\<close>

definition segments :: "string \<Rightarrow> string list" where
  "segments p = filter (\<lambda>s. s \<noteq> []) (split_on (CHR ''/'') p)"

lemma segments_Nil [simp]: "segments [] = []"
  by (simp add: segments_def)

lemma segments_slash [simp]: "segments (CHR ''/'' # p) = segments p"
  by (simp add: segments_def)

lemma segments_skip: "segments (dropWhile (\<lambda>c. c = CHR ''/'') p) = segments p"
  by (induction p) auto

lemma segments_step:
  assumes "p \<noteq> []" and "hd p \<noteq> CHR ''/''"
  shows "segments p = takeWhile (\<lambda>c. c \<noteq> CHR ''/'') p # segments (dropWhile (\<lambda>c. c \<noteq> CHR ''/'') p)"
proof (cases "CHR ''/'' \<in> set p")
  case True
  then obtain a b where p: "p = a @ CHR ''/'' # b" and a: "CHR ''/'' \<notin> set a"
    by (meson split_list_first)
  have "takeWhile (\<lambda>c. c \<noteq> CHR ''/'') p = a" "dropWhile (\<lambda>c. c \<noteq> CHR ''/'') p = CHR ''/'' # b"
    using a p by (auto simp: takeWhile_append dropWhile_append takeWhile_eq_all_conv)
  moreover have "a \<noteq> []" using assms p by auto
  ultimately show ?thesis using p a by (simp add: segments_def split_on_append_sep)
next
  case False
  then have sp: "split_on (CHR ''/'') p = [p]" by (rule split_on_no_sep_single)
  have tw: "takeWhile (\<lambda>c. c \<noteq> CHR ''/'') p = p" and dw: "dropWhile (\<lambda>c. c \<noteq> CHR ''/'') p = []"
    using False by (auto simp: takeWhile_eq_all_conv dropWhile_eq_Nil_conv)
  show ?thesis using assms unfolding tw dw segments_def sp by simp
qed

lemma forbidden_loop_iff: "forbidden_loop p \<longleftrightarrow> ''.'' \<in> set (segments p) \<or> ''..'' \<in> set (segments p)"
proof (induction p rule: forbidden_loop.induct)
  case (1 p)
  let ?start = "dropWhile (\<lambda>c. c = CHR ''/'') p"
  show ?case
  proof (cases "?start = []")
    case True
    then have sn: "segments p = []" using segments_skip [of p] by (simp only: segments_Nil)
    show ?thesis unfolding forbidden_loop.simps [of p] Let_def True sn
      by (simp add: forbidden_loop.simps [of "[]"])
  next
    case False
    then have p: "p \<noteq> []" by auto
    have "hd ?start \<noteq> CHR ''/''" using hd_dropWhile [OF False] .
    then have seg: "segments p = takeWhile (\<lambda>c. c \<noteq> CHR ''/'') ?start #
        segments (dropWhile (\<lambda>c. c \<noteq> CHR ''/'') ?start)"
      using segments_step [OF False] segments_skip [of p] by simp
    let ?s = "takeWhile (\<lambda>c. c \<noteq> CHR ''/'') ?start" and ?r = "dropWhile (\<lambda>c. c \<noteq> CHR ''/'') ?start"
    have step: "forbidden_loop p \<longleftrightarrow> (?s = ''.'' \<or> ?s = ''..'') \<or> forbidden_loop ?r"
      using p forbidden_loop.simps [of p] unfolding Let_def by (simp only: if_False if_bool_eq_disj) blast
    have IH: "\<not> (?s = ''.'' \<or> ?s = ''..'') \<Longrightarrow>
        forbidden_loop ?r \<longleftrightarrow> ''.'' \<in> set (segments ?r) \<or> ''..'' \<in> set (segments ?r)"
      using 1 [OF p refl refl] .
    have sym: "''.'' = ?s \<longleftrightarrow> ?s = ''.''" "''..'' = ?s \<longleftrightarrow> ?s = ''..''" by (rule eq_commute)+
    show ?thesis unfolding step seg using IH by (simp only: list.set insert_iff sym) blast
  qed
qed

end
