(* ===== verification/ListScan.thy ===== *)
theory ListScan
  imports Prelude
begin

text \<open>
  The comma-separated header lists (\<open>Connection\<close>, \<open>If-None-Match\<close>, \<open>Transfer-Encoding\<close>,
  \<open>Accept-Encoding\<close>) are scanned by four hand-written pointer loops of the program.  Each
  skips blanks and commas, takes the characters up to the next comma as an item, decides
  about the item, and goes on behind it.  The locales state that shape as an interface; what
  they prove is that such a loop visits exactly the comma-separated fields of the value, so
  a reader can think of the value as the list \<open>split_on '','' s\<close>.
\<close>

definition list_skip :: "char \<Rightarrow> bool" where
  "list_skip c \<longleftrightarrow> is_ows c \<or> c = CHR '',''"

lemma scan_decreases:
  assumes "s \<noteq> []"
  shows "length (dropWhile (\<lambda>c. c \<noteq> CHR '','') (dropWhile list_skip s)) < length s"
proof (cases s)
  case Nil
  with assms show ?thesis by simp
next
  case (Cons c cs)
  show ?thesis
  proof (cases "list_skip c")
    case True
    have "length (dropWhile (\<lambda>c. c \<noteq> CHR '','') (dropWhile list_skip cs)) \<le> length (dropWhile list_skip cs)"
      by (rule length_dropWhile_le)
    also have "\<dots> \<le> length cs" by (rule length_dropWhile_le)
    finally show ?thesis using True Cons by simp
  next
    case False
    then have "c \<noteq> CHR '',''" by (simp add: list_skip_def)
    then show ?thesis
      using False Cons length_dropWhile_le [of "\<lambda>c. c \<noteq> CHR '',''" cs] by simp
  qed
qed

fun first_some :: "('a \<Rightarrow> 'r option) \<Rightarrow> 'a list \<Rightarrow> 'r option" where
  "first_some f [] = None"
| "first_some f (x # xs) = (case f x of None \<Rightarrow> first_some f xs | Some r \<Rightarrow> Some r)"

lemma first_some_unit:
  "first_some (\<lambda>x. if P x then Some () else None) xs = (if list_ex P xs then Some () else None)"
  by (induction xs) auto

text \<open>Leading blanks and commas only add blank fields.\<close>

lemma first_some_skip:
  assumes "f [] = None"
  shows "first_some (\<lambda>x. f (dropWhile is_ows x)) (split_on (CHR '','') (dropWhile list_skip s)) =
         first_some (\<lambda>x. f (dropWhile is_ows x)) (split_on (CHR '','') s)"
proof (induction s)
  case Nil
  then show ?case by simp
next
  case (Cons c cs)
  show ?case
  proof (cases "list_skip c")
    case True
    obtain h t where ht: "split_on (CHR '','') cs = h # t"
      by (cases "split_on (CHR '','') cs") auto
    have d: "dropWhile list_skip (c # cs) = dropWhile list_skip cs" using True by simp
    show ?thesis unfolding d Cons
      using True assms ht by (cases "c = CHR '',''") (auto simp: list_skip_def)
  next
    case False
    then show ?thesis by simp
  qed
qed

section \<open>A scanner that stops at the first item with a verdict\<close>

locale comma_first =
  fixes scan :: "'p \<Rightarrow> string \<Rightarrow> 'r option"
    and item :: "'p \<Rightarrow> string \<Rightarrow> 'r option"
    and ok :: "'p \<Rightarrow> bool"
  assumes scan_Nil: "scan p [] = None"
    and scan_Cons: "s \<noteq> [] \<Longrightarrow> scan p s =
        (case item p (takeWhile (\<lambda>c. c \<noteq> CHR '','') (dropWhile list_skip s)) of
           Some r \<Rightarrow> Some r
         | None \<Rightarrow> scan p (dropWhile (\<lambda>c. c \<noteq> CHR '','') (dropWhile list_skip s)))"
    and item_Nil: "ok p \<Longrightarrow> item p [] = None"
begin

lemma scan_fields:
  assumes "ok p"
  shows "scan p s = first_some (\<lambda>f. item p (dropWhile is_ows f)) (split_on (CHR '','') s)"
proof (induction s rule: length_induct)
  case (1 s)
  let ?F = "\<lambda>f. item p (dropWhile is_ows f)"
  let ?t = "dropWhile list_skip s"
  let ?i = "takeWhile (\<lambda>c. c \<noteq> CHR '','') ?t" and ?r = "dropWhile (\<lambda>c. c \<noteq> CHR '','') ?t"
  show ?case
  proof (cases "s = []")
    case True
    then show ?thesis using item_Nil [OF assms] by (simp add: scan_Nil)
  next
    case False
    have IH: "scan p ?r = first_some ?F (split_on (CHR '','') ?r)"
      using 1 scan_decreases [OF False] by blast
    have "dropWhile is_ows ?i = ?i"
    proof (cases ?t)
      case Nil
      show ?thesis unfolding Nil by simp
    next
      case (Cons c cs)
      then have "\<not> list_skip c" by (metis dropWhile_eq_Cons_conv)
      then show ?thesis unfolding Cons by (auto simp: list_skip_def)
    qed
    moreover have "first_some ?F (split_on (CHR '','') ?t) =
        (case ?F ?i of Some r \<Rightarrow> Some r | None \<Rightarrow> first_some ?F (split_on (CHR '','') ?r))"
    proof (cases "CHR '','' \<in> set ?t")
      case True
      then obtain a b where t: "?t = a @ CHR '','' # b" and a: "CHR '','' \<notin> set a"
        by (meson split_list_first)
      show ?thesis unfolding t using a item_Nil [OF assms]
        by (simp add: split_on_append_sep split: option.splits)
    next
      case False
      have i: "?i = ?t" and r: "?r = []"
        using False by simp_all
      show ?thesis unfolding i r split_on_no_sep_single [OF False] using item_Nil [OF assms]
        by (simp split: option.splits)
    qed
    ultimately show ?thesis
      using scan_Cons [OF False, of p] IH first_some_skip [of "item p", OF item_Nil [OF assms], of s]
      by (simp split: option.splits)
  qed
qed

end

section \<open>A scanner that asks whether some item passes a test\<close>

locale comma_any =
  fixes scan :: "'p \<Rightarrow> string \<Rightarrow> bool"
    and test :: "'p \<Rightarrow> string \<Rightarrow> bool"
    and ok :: "'p \<Rightarrow> bool"
  assumes scan_Nil: "\<not> scan p []"
    and scan_Cons: "s \<noteq> [] \<Longrightarrow> scan p s \<longleftrightarrow>
        test p (takeWhile (\<lambda>c. c \<noteq> CHR '','') (dropWhile list_skip s)) \<or>
        scan p (dropWhile (\<lambda>c. c \<noteq> CHR '','') (dropWhile list_skip s))"
    and test_Nil: "ok p \<Longrightarrow> \<not> test p []"

sublocale comma_any \<subseteq> firstu: comma_first
    "\<lambda>p s. if scan p s then Some () else None" "\<lambda>p s. if test p s then Some () else None" ok
proof (unfold_locales, goal_cases)
  case (1 p)
  then show ?case by (simp add: scan_Nil)
next
  case (2 s p)
  then show ?case using scan_Cons [OF 2, of p] by simp
next
  case (3 p)
  then show ?case by (simp add: test_Nil)
qed

context comma_any
begin

lemma scan_iff:
  assumes "ok p"
  shows "scan p s \<longleftrightarrow> (\<exists>f \<in> set (split_on (CHR '','') s). test p (dropWhile is_ows f))"
  using firstu.scan_fields [OF assms, of s]
  by (auto simp: first_some_unit list_ex_iff split: if_splits)

end

end
