(* ===== verification/Http.thy ===== *)
theory Http
  imports Util ListScan
begin

text \<open>
  \<open>src/http.h\<close> and \<open>src/http.c\<close>: the HTTP/1.x request parser.  The request record has the
  fields of \<open>rpsiod_http_request\<close> (prefixed \<open>r_\<close>); a parse of the received bytes is
  \<open>Incomplete\<close> (C result 0), \<open>Malformed\<close> (-1, with the request as far as it was filled in) or
  \<open>Parsed\<close> (1).  The header block is validated to hold no control characters but tabs before
  any field is copied, so the C strings of the request never contain a NUL.
\<close>

section \<open>Request record\<close>

record http_request =
  r_method :: string
  r_path :: string
  r_host :: string
  r_accept_encoding :: string
  r_if_none_match :: string
  r_if_modified_since :: string
  r_query_string :: string
  r_header_len :: nat
  r_content_length :: u64
  r_range_start :: u64
  r_range_end :: u64
  r_keep_alive :: bool
  r_head_only :: bool
  r_upgrade_websocket :: bool
  r_internal_https :: bool
  r_range_present :: bool
  r_range_suffix :: bool
  r_range_has_end :: bool
  r_trace_request :: bool
  r_absolute_form :: bool

definition empty_request :: http_request where
  "empty_request = \<lparr>
     r_method = [], r_path = [], r_host = [], r_accept_encoding = [], r_if_none_match = [],
     r_if_modified_since = [], r_query_string = [], r_header_len = 0, r_content_length = 0,
     r_range_start = 0, r_range_end = 0, r_keep_alive = False, r_head_only = False,
     r_upgrade_websocket = False, r_internal_https = False, r_range_present = False,
     r_range_suffix = False, r_range_has_end = False, r_trace_request = False,
     r_absolute_form = False\<rparr>"

abbreviation METHOD_LEN :: nat where "METHOD_LEN \<equiv> 16"
abbreviation PATH_LEN :: nat where "PATH_LEN \<equiv> 2048"
abbreviation HOST_LEN :: nat where "HOST_LEN \<equiv> 256"
abbreviation ENCODING_LEN :: nat where "ENCODING_LEN \<equiv> 256"
abbreviation VALIDATOR_LEN :: nat where "VALIDATOR_LEN \<equiv> 256"

datatype parse_result = Incomplete | Malformed http_request | Parsed http_request

section \<open>Character and field validation\<close>

fun valid_header_block_newlines :: "string \<Rightarrow> bool" where
  "valid_header_block_newlines [] = True"
| "valid_header_block_newlines (c # cs) =
     (if c = CR then (case cs of [] \<Rightarrow> False | d # ds \<Rightarrow> d = LF \<and> valid_header_block_newlines ds)
      else if c = LF then False
      else valid_header_block_newlines cs)"

definition valid_token_char :: "char \<Rightarrow> bool" where
  "valid_token_char ch \<longleftrightarrow>
     is_digit ch \<or> is_upper ch \<or> is_lower ch \<or>
     ch \<in> {CHR ''!'', CHR ''#'', CHR ''$'', CHR ''%'', CHR ''&'', CHR 0x27, CHR ''*'', CHR ''+'',
           CHR ''-'', CHR ''.'', CHR ''^'', CHR ''_'', CHR 0x60, CHR ''|'', CHR ''~''}"

definition valid_header_name :: "string \<Rightarrow> bool" where
  "valid_header_name name = (if name = [] then False else list_all valid_token_char name)"

definition header_value_char :: "char \<Rightarrow> bool" where
  "header_value_char ch \<longleftrightarrow> \<not> ((uchar ch < 32 \<and> ch \<noteq> CHR 0x09) \<or> uchar ch = 127)"

definition valid_header_value :: "string \<Rightarrow> bool" where
  "valid_header_value value = list_all header_value_char value"

definition copy_trimmed_value :: "nat \<Rightarrow> string \<Rightarrow> string option" where
  "copy_trimmed_value out_len value =
     (let v = trim is_ows value in if out_len \<le> length v then None else Some v)"

section \<open>Host and Content-Length values\<close>

fun port_digits_loop :: "nat \<Rightarrow> string \<Rightarrow> bool" where
  "port_digits_loop port [] = True"
| "port_digits_loop port (c # cs) =
     (if \<not> is_digit c then False
      else let port' = port * 10 + (uchar c - 48) in
        if 65535 < port' then False else port_digits_loop port' cs)"

definition host_char_ok :: "char \<Rightarrow> bool" where
  "host_char_ok p \<longleftrightarrow> \<not> (uchar p \<le> 32 \<or> 127 \<le> uchar p \<or> p = CHR ''/'' \<or> p = CHR 0x5C)"

definition strip_host_port :: "string \<Rightarrow> string option" where
  "strip_host_port host =
     (if hd host = CHR ''['' then
        (case strchr (CHR '']'') host of
           None \<Rightarrow> None
         | Some (a, b) \<Rightarrow>
             if length a = 1 then None
             else (case tl b of
                     [] \<Rightarrow> Some (a @ [CHR '']''])
                   | c # port_text \<Rightarrow>
                       if c \<noteq> CHR '':'' then None
                       else if port_text = [] then None
                       else if \<not> port_digits_loop 0 port_text then None
                       else Some (a @ [CHR '']''])))
      else
        (case strrchr (CHR '':'') host of
           None \<Rightarrow> Some host
         | Some (a, b) \<Rightarrow>
             if (case strchr (CHR '':'') host of None \<Rightarrow> False | Some (a', _) \<Rightarrow> a' = a) then
               (let port_text = tl b in
                if port_text = [] then None
                else if \<not> port_digits_loop 0 port_text then None
                else Some a)
             else Some host))"

definition parse_host_value :: "nat \<Rightarrow> string \<Rightarrow> string option" where
  "parse_host_value out_len value =
     (case copy_trimmed_value HOST_LEN value of
        None \<Rightarrow> None
      | Some host \<Rightarrow>
          if host = [] then None
          else if \<not> list_all host_char_ok host then None
          else case strip_host_port host of
                 None \<Rightarrow> None
               | Some h \<Rightarrow> if h = [] \<or> out_len \<le> length h then None else Some h)"

definition parse_content_length :: "string \<Rightarrow> u64 option" where
  "parse_content_length value =
     (if value = [] then None
      else if \<not> list_all is_digit value then None
      else case strtoull value of
             None \<Rightarrow> None
           | Some (n, num_end, erange) \<Rightarrow>
               if erange then None
               else if dropWhile is_ows num_end \<noteq> [] then None
               else Some n)"

section \<open>Request line\<close>

definition valid_method :: "string \<Rightarrow> bool" where
  "valid_method m =
     (if m = [] \<or> METHOD_LEN \<le> length m then False else list_all valid_token_char m)"

definition valid_request_target_bytes :: "string \<Rightarrow> bool" where
  "valid_request_target_bytes target =
     (if target = [] \<or> PATH_LEN \<le> length target then False
      else list_all (\<lambda>ch. \<not> (uchar ch \<le> 32 \<or> uchar ch = 127)) target)"

definition authority_matches_host :: "string \<Rightarrow> string \<Rightarrow> bool" where
  "authority_matches_host authority host =
     (case (parse_host_value HOST_LEN authority, parse_host_value HOST_LEN host) of
        (Some parsed_authority, Some host_line) \<Rightarrow> rpsiod_streq_ci parsed_authority host_line
      | _ \<Rightarrow> False)"

text \<open>\<open>strncasecmp (s, p, strlen (p)) == 0\<close> on a string at least as long as \<open>p\<close>.\<close>

definition starts_with_ci :: "string \<Rightarrow> string \<Rightarrow> bool" where
  "starts_with_ci s p \<longleftrightarrow> length p \<le> length s \<and> rpsiod_streq_ci (take (length p) s) p"

definition parse_request_target ::
  "string \<Rightarrow> nat \<Rightarrow> nat \<Rightarrow> (string \<times> string \<times> bool) option" where
  "parse_request_target target path_len authority_len =
     (if \<not> valid_request_target_bytes target then None
      else
        let origin_form = (\<lambda>origin authority absolute.
              if origin = [] \<or> hd origin \<noteq> CHR ''/'' \<or> path_len \<le> length origin then None
              else Some (origin, authority, absolute)) in
        if starts_with_ci target ''http://'' \<or> starts_with_ci target ''https://'' then
          (let rest = drop (if target ! 4 = CHR '':'' then 7 else 8) target in
           case strchr (CHR ''/'') rest of
             None \<Rightarrow>
               if rest = [] \<or> authority_len \<le> length rest then None
               else origin_form ''/'' rest True
           | Some (authority, slash) \<Rightarrow>
               if authority = [] \<or> authority_len \<le> length authority then None
               else origin_form slash authority True)
        else origin_form target [] False)"

record request_line =
  rl_method :: string
  rl_path :: string
  rl_version :: string
  rl_authority :: string
  rl_absolute_form :: bool

definition parse_request_line :: "string \<Rightarrow> nat \<Rightarrow> nat \<Rightarrow> request_line option" where
  "parse_request_line line version_len authority_len =
     (if line = [] then None
      else if \<not> list_all (\<lambda>ch. \<not> (uchar ch < 32 \<or> uchar ch = 127)) line then None
      else case strchr (CHR '' '') line of
        None \<Rightarrow> None
      | Some (m, first_space) \<Rightarrow>
          (case strchr (CHR '' '') (tl first_space) of
             None \<Rightarrow> None
           | Some (target, second_space) \<Rightarrow>
               (let version = tl second_space in
                if CHR '' '' \<in> set version \<or> version = [] \<or> version_len \<le> length version \<or>
                   \<not> valid_method m then None
                else if \<not> rpsiod_streq_ci version ''HTTP/1.0'' \<and> \<not> rpsiod_streq_ci version ''HTTP/1.1''
                then None
                else case parse_request_target target PATH_LEN authority_len of
                       None \<Rightarrow> None
                     | Some (path, authority, absolute) \<Rightarrow>
                         Some \<lparr>rl_method = m, rl_path = path, rl_version = version,
                               rl_authority = authority, rl_absolute_form = absolute\<rparr>)))"

section \<open>Header values\<close>

function header_token_present :: "string \<Rightarrow> string \<Rightarrow> bool" where
  "header_token_present value needle =
     (if value = [] then False
      else let start = dropWhile list_skip value;
               item = rtrim is_ows (takeWhile (\<lambda>c. c \<noteq> CHR '','') start) in
        if length item = length needle \<and> rpsiod_streq_ci item needle then True
        else header_token_present (dropWhile (\<lambda>c. c \<noteq> CHR '','') start) needle)"
  by pat_completeness auto
termination
  by (relation "measure (length \<circ> fst)") (simp_all add: scan_decreases)

declare header_token_present.simps [simp del]

definition parse_byte_range :: "string \<Rightarrow> http_request \<Rightarrow> bool \<times> http_request" where
  "parse_byte_range value req =
     (if \<not> rpsiod_starts_with value ''bytes='' then (False, req)
      else let spec = drop 6 value in
        if CHR '','' \<in> set spec then (False, req)
        else case strchr (CHR ''-'') spec of
          None \<Rightarrow> (False, req)
        | Some (pre, dash) \<Rightarrow>
            (let req = req\<lparr>r_range_present := True\<rparr> in
             if pre = [] then
               (case strtoull (tl dash) of
                  None \<Rightarrow> (False, req)
                | Some (sfx, end, _) \<Rightarrow>
                    if end \<noteq> [] \<or> sfx = 0 then (False, req)
                    else (True, req\<lparr>r_range_suffix := True, r_range_start := sfx\<rparr>))
             else
               (case strtoull spec of
                  None \<Rightarrow> (False, req)
                | Some (start, end, _) \<Rightarrow>
                    if end \<noteq> dash then (False, req)
                    else let req = req\<lparr>r_range_start := start\<rparr> in
                      if tl dash = [] then (True, req)
                      else (case strtoull (tl dash) of
                              None \<Rightarrow> (False, req)
                            | Some (range_end, end2, _) \<Rightarrow>
                                if end2 \<noteq> [] \<or> range_end < start then (False, req)
                                else (True, req\<lparr>r_range_end := range_end, r_range_has_end := True\<rparr>)))))"

section \<open>Header lines\<close>

record parse_state =
  ps_req :: http_request
  ps_connection_upgrade :: bool
  ps_upgrade_websocket :: bool
  ps_have_content_length :: bool
  ps_seen_content_length :: u64
  ps_have_transfer_encoding :: bool
  ps_have_host :: bool
  ps_header_count :: nat

abbreviation upd_req :: "(http_request \<Rightarrow> http_request) \<Rightarrow> parse_state \<Rightarrow> parse_state" where
  "upd_req f st \<equiv> st\<lparr>ps_req := f (ps_req st)\<rparr>"

text \<open>The effect of one header; \<open>Inl\<close> is the early \<open>return -1\<close>.\<close>

definition apply_header :: "parse_state \<Rightarrow> string \<Rightarrow> string \<Rightarrow> parse_state + parse_state" where
  "apply_header st name value =
     (if rpsiod_streq_ci name ''Host'' then
        (if ps_have_host st then Inl st
         else case parse_host_value HOST_LEN value of
                None \<Rightarrow> Inl st
              | Some h \<Rightarrow> Inr (upd_req (\<lambda>r. r\<lparr>r_host := h\<rparr>) (st\<lparr>ps_have_host := True\<rparr>)))
      else if rpsiod_streq_ci name ''Accept-Encoding'' then
        Inr (upd_req (\<lambda>r. r\<lparr>r_accept_encoding := safe_copy ENCODING_LEN value\<rparr>) st)
      else if rpsiod_streq_ci name ''If-None-Match'' then
        Inr (upd_req (\<lambda>r. r\<lparr>r_if_none_match := safe_copy VALIDATOR_LEN value\<rparr>) st)
      else if rpsiod_streq_ci name ''If-Modified-Since'' then
        Inr (upd_req (\<lambda>r. r\<lparr>r_if_modified_since := safe_copy VALIDATOR_LEN value\<rparr>) st)
      else if rpsiod_streq_ci name ''Range'' then
        (let (ok, r) = parse_byte_range value (ps_req st); st' = st\<lparr>ps_req := r\<rparr> in
         if ok then Inr st' else Inl st')
      else if rpsiod_streq_ci name ''Content-Length'' then
        (case parse_content_length value of
           None \<Rightarrow> Inl st
         | Some n \<Rightarrow>
             if ps_have_content_length st \<and> n \<noteq> ps_seen_content_length st then Inl st
             else Inr (upd_req (\<lambda>r. r\<lparr>r_content_length := n\<rparr>)
                        (st\<lparr>ps_have_content_length := True, ps_seen_content_length := n\<rparr>)))
      else if rpsiod_streq_ci name ''Transfer-Encoding'' then
        (let st' = st\<lparr>ps_have_transfer_encoding := True\<rparr> in
         if rpsiod_streq_ci value ''chunked'' then Inr st' else Inl st')
      else if rpsiod_streq_ci name ''Connection'' then
        (let st' = (if header_token_present value ''close'' then upd_req (\<lambda>r. r\<lparr>r_keep_alive := False\<rparr>) st
                    else if header_token_present value ''keep-alive''
                    then upd_req (\<lambda>r. r\<lparr>r_keep_alive := True\<rparr>) st else st) in
         Inr (if header_token_present value ''upgrade'' then st'\<lparr>ps_connection_upgrade := True\<rparr> else st'))
      else if rpsiod_streq_ci name ''Upgrade'' then
        Inr (if rpsiod_streq_ci value ''websocket'' then st\<lparr>ps_upgrade_websocket := True\<rparr> else st)
      else if rpsiod_streq_ci name ''X-Rpsiod-Internal-Scheme'' then
        Inr (if rpsiod_streq_ci value ''https''
             then upd_req (\<lambda>r. r\<lparr>r_internal_https := True\<rparr>) st else st)
      else if rpsiod_streq_ci name ''X-Rpsiod-Trace'' then
        Inr (upd_req (\<lambda>r. r\<lparr>r_trace_request :=
                rpsiod_streq_ci value ''1'' \<or> rpsiod_streq_ci value ''true''\<rparr>) st)
      else Inr st)"

definition parse_header_line :: "parse_state \<Rightarrow> string \<Rightarrow> parse_state + parse_state" where
  "parse_header_line st line =
     (if 1024 \<le> length line then Inl st
      else if line = [] then Inr st
      else let st = st\<lparr>ps_header_count := ps_header_count st + 1\<rparr> in
        if 100 < ps_header_count st then Inl st
        else case strchr (CHR '':'') line of
          None \<Rightarrow> Inl st
        | Some (name, colon) \<Rightarrow>
            if \<not> valid_header_name name then Inl st
            else let raw_value = tl colon in
              if \<not> valid_header_value raw_value then Inl st
              else if 128 \<le> length name then Inl st
              else (case copy_trimmed_value 1024 raw_value of
                      None \<Rightarrow> Inl st
                    | Some value \<Rightarrow> apply_header st name value))"

text \<open>The lines between the request line and the blank line: \<open>p\<close> up to the next CRLF or \<open>end\<close>.\<close>

function header_lines :: "string \<Rightarrow> string list" where
  "header_lines p =
     (if p = [] then []
      else case memmem CRLF p of
             None \<Rightarrow> [p]
           | Some (line, rest) \<Rightarrow> line # header_lines (drop 2 rest))"
  by pat_completeness auto
termination
  by (relation "measure length") (auto dest!: memmem_Some simp: starts_with_iff)

declare header_lines.simps [simp del]

fun parse_header_lines :: "parse_state \<Rightarrow> string list \<Rightarrow> parse_state + parse_state" where
  "parse_header_lines st [] = Inr st"
| "parse_header_lines st (l # ls) =
     (case parse_header_line st l of Inl e \<Rightarrow> Inl e | Inr st' \<Rightarrow> parse_header_lines st' ls)"

section \<open>The request parser\<close>

definition start_request :: "nat \<Rightarrow> request_line \<Rightarrow> http_request" where
  "start_request header_len rl =
     empty_request\<lparr>r_header_len := header_len,
       r_method := rl_method rl, r_path := rl_path rl, r_absolute_form := rl_absolute_form rl,
       r_query_string := (case strchr (CHR ''?'') (rl_path rl) of
                            None \<Rightarrow> [] | Some (_, q) \<Rightarrow> safe_copy PATH_LEN (tl q)),
       r_head_only := rpsiod_streq_ci (rl_method rl) ''HEAD'',
       r_keep_alive := rpsiod_streq_ci (rl_version rl) ''HTTP/1.1''\<rparr>"

definition start_state :: "http_request \<Rightarrow> parse_state" where
  "start_state r = \<lparr>ps_req = r, ps_connection_upgrade = False, ps_upgrade_websocket = False,
     ps_have_content_length = False, ps_seen_content_length = 0,
     ps_have_transfer_encoding = False, ps_have_host = False, ps_header_count = 0\<rparr>"

definition finish_request :: "request_line \<Rightarrow> parse_state \<Rightarrow> parse_result" where
  "finish_request rl st =
     (if ps_have_content_length st \<and> ps_have_transfer_encoding st then Malformed (ps_req st)
      else if ps_have_transfer_encoding st then Malformed (ps_req st)
      else if \<not> ps_have_host st then Malformed (ps_req st)
      else if r_absolute_form (ps_req st) \<and>
              \<not> authority_matches_host (rl_authority rl) (r_host (ps_req st))
      then Malformed (ps_req st)
      else Parsed ((ps_req st)\<lparr>r_upgrade_websocket :=
                      ps_connection_upgrade st \<and> ps_upgrade_websocket st\<rparr>))"

text \<open>
  When the request line is rejected the C code may have stored part of it in \<open>method\<close> and
  \<open>path\<close>; every caller overwrites both before using the request, and the model leaves them
  empty.
\<close>

definition rpsiod_http_parse_request :: "string \<Rightarrow> parse_result" where
  "rpsiod_http_parse_request buf =
     (case memmem (CRLF @ CRLF) buf of
        None \<Rightarrow> Incomplete
      | Some (head, _) \<Rightarrow>
          (let header_len = length head + 4;
               req0 = empty_request\<lparr>r_header_len := header_len\<rparr> in
           if 16384 < header_len \<or> \<not> valid_header_block_newlines (take header_len buf)
           then Malformed req0
           else case memmem CRLF buf of
             None \<Rightarrow> Malformed req0
           | Some (line, _) \<Rightarrow>
               if 2048 < length line then Malformed req0
               else case parse_request_line line 32 HOST_LEN of
                 None \<Rightarrow> Malformed req0
               | Some rl \<Rightarrow>
                   (case parse_header_lines (start_state (start_request header_len rl))
                           (header_lines (drop (length line + 2) head)) of
                      Inl st \<Rightarrow> Malformed (ps_req st)
                    | Inr st \<Rightarrow> finish_request rl st)))"

definition rpsiod_http_status_text :: "int \<Rightarrow> string" where
  "rpsiod_http_status_text status =
     (if status = 200 then ''OK''
      else if status = 206 then ''Partial Content''
      else if status = 304 then ''Not Modified''
      else if status = 301 then ''Moved Permanently''
      else if status = 302 then ''Found''
      else if status = 400 then ''Bad Request''
      else if status = 403 then ''Forbidden''
      else if status = 404 then ''Not Found''
      else if status = 405 then ''Method Not Allowed''
      else if status = 413 then ''Payload Too Large''
      else if status = 414 then ''URI Too Long''
      else if status = 416 then ''Range Not Satisfiable''
      else if status = 429 then ''Too Many Requests''
      else if status = 502 then ''Bad Gateway''
      else if status = 504 then ''Gateway Timeout''
      else if status = 500 then ''Internal Server Error''
      else if status = 503 then ''Service Unavailable''
      else ''Error'')"

end
