(* ===== verification/HttpProps.thy ===== *)
theory HttpProps
  imports Http
begin

text \<open>
  What the request parser guarantees: a verdict never changes when more bytes arrive, the
  parsed record fits its buffers, message framing is unambiguous (one \<open>Host\<close>, no
  \<open>Transfer-Encoding\<close>, one \<open>Content-Length\<close> value), and the \<open>Connection\<close> token scan reads
  the comma-separated list.
\<close>

section \<open>Header names and literals\<close>

lemma lower_lits:
  "map c_tolower ''Host'' = ''host''"
  "map c_tolower ''Accept-Encoding'' = ''accept-encoding''"
  "map c_tolower ''If-None-Match'' = ''if-none-match''"
  "map c_tolower ''If-Modified-Since'' = ''if-modified-since''"
  "map c_tolower ''Range'' = ''range''"
  "map c_tolower ''Content-Length'' = ''content-length''"
  "map c_tolower ''Transfer-Encoding'' = ''transfer-encoding''"
  "map c_tolower ''Connection'' = ''connection''"
  "map c_tolower ''Upgrade'' = ''upgrade''"
  "map c_tolower ''X-Rpsiod-Internal-Scheme'' = ''x-rpsiod-internal-scheme''"
  "map c_tolower ''X-Rpsiod-Trace'' = ''x-rpsiod-trace''"
  "map c_tolower ''GET'' = ''get''"
  "map c_tolower ''HEAD'' = ''head''"
  by code_simp+

section \<open>The token scan of \<open>Connection\<close>\<close>

interpretation conn_token: comma_any
    "\<lambda>needle value. header_token_present value needle"
    "\<lambda>needle item. rpsiod_streq_ci (rtrim is_ows item) needle"
    "\<lambda>needle. needle \<noteq> []"
proof (unfold_locales, goal_cases)
  case (1 p)
  then show ?case by (simp add: header_token_present.simps)
next
  case (2 s p)
  then show ?case
    by (subst header_token_present.simps) (auto simp: Let_def dest: streq_ci_length)
next
  case (3 p)
  then show ?case by (cases p) auto
qed

lemma header_token_present_list:
  "needle \<noteq> [] \<Longrightarrow> header_token_present value needle \<longleftrightarrow>
     (\<exists>f \<in> set (split_on (CHR '','') value). rpsiod_streq_ci (trim is_ows f) needle)"
  using conn_token.scan_iff [of needle "value"] by (simp add: trim_def)

section \<open>Content-Length values\<close>

lemma digits_not_space_prefix:
  "v \<noteq> [] \<Longrightarrow> list_all is_digit v \<Longrightarrow> sign_split (dropWhile c_isspace v) = (False, v)"
  by (cases v) (auto simp: is_digit_not_space sign_split_digit)

lemma strtoull_digits:
  assumes "v \<noteq> []" and "list_all is_digit v"
  shows "strtoull v =
      (if 2 ^ 64 \<le> nat_of_digits v then Some (- 1, [], True)
       else Some (word_of_nat (nat_of_digits v), [], False))"
proof -
  have t: "takeWhile is_digit v = v" "dropWhile is_digit v = []"
    using assms by (auto simp: takeWhile_eq_all_conv dropWhile_eq_Nil_conv list_all_iff)
  show ?thesis
    unfolding strtoull_def digits_not_space_prefix [OF assms] Let_def prod.case t using assms by simp
qed

lemma parse_content_length_iff:
  "parse_content_length v = Some n \<longleftrightarrow>
     v \<noteq> [] \<and> list_all is_digit v \<and> nat_of_digits v < 2 ^ 64 \<and> n = word_of_nat (nat_of_digits v)"
  by (auto simp: parse_content_length_def strtoull_digits split: if_splits)

lemma parse_content_length_unat:
  "parse_content_length v = Some n \<Longrightarrow> list_all is_digit v \<and> unat n = nat_of_digits v"
  by (auto simp: parse_content_length_iff unat_of_nat)

section \<open>A verdict is final\<close>

lemma take_append_le: "n \<le> length s \<Longrightarrow> take n (s @ t) = take n s"
  by simp

lemma parse_request_prefix:
  assumes "rpsiod_http_parse_request buf \<noteq> Incomplete"
  shows "rpsiod_http_parse_request (buf @ rest) = rpsiod_http_parse_request buf"
proof -
  obtain h r where m: "memmem (CRLF @ CRLF) buf = Some (h, r)"
    using assms by (auto simp: rpsiod_http_parse_request_def split: option.splits)
  have len: "length h + 4 \<le> length buf"
    using memmem_length [OF m] by simp
  obtain l r' where m2: "memmem CRLF buf = Some (l, r')"
  proof (cases "memmem CRLF buf")
    case None
    have "buf = h @ r" "starts_with r (CRLF @ CRLF)" using memmem_Some [OF m] by auto
    then have "starts_with r CRLF" by (auto simp: starts_with_iff)
    with None \<open>buf = h @ r\<close> show ?thesis by (auto simp: memmem_None)
  next
    case (Some a)
    with that show ?thesis by (cases a) auto
  qed
  show ?thesis
    unfolding rpsiod_http_parse_request_def memmem_append [OF m] memmem_append [OF m2] m m2
    using len by (simp add: Let_def)
qed

text \<open>
  C28: feeding more bytes never changes a verdict: once the parser has answered "malformed"
  or "parsed" for the bytes received so far, it gives the same answer (and the same request)
  for any longer input that starts with them, so re-parsing the connection buffer after each
  read is safe.
\<close>

theorem parse_request_stable:
  assumes "rpsiod_http_parse_request buf \<noteq> Incomplete"
  shows "rpsiod_http_parse_request (buf @ rest) = rpsiod_http_parse_request buf"
  using assms by (rule parse_request_prefix)

theorem parse_request_stable_witness:
  "rpsiod_http_parse_request ((''GET / HTTP/1.1'' @ CRLF @ ''Host: e'' @ CRLF @ CRLF) @ ''GET'') =
   rpsiod_http_parse_request (''GET / HTTP/1.1'' @ CRLF @ ''Host: e'' @ CRLF @ CRLF)"
  by (rule parse_request_stable) code_simp

section \<open>Framing\<close>

text \<open>
  The reference reading of a header section: the name and the trimmed value of every
  non-empty line, in order.
\<close>

definition line_field :: "string \<Rightarrow> string \<times> string" where
  "line_field l = (takeWhile (\<lambda>c. c \<noteq> CHR '':'') l, trim is_ows (tl (dropWhile (\<lambda>c. c \<noteq> CHR '':'') l)))"

definition fields_of_lines :: "string list \<Rightarrow> (string \<times> string) list" where
  "fields_of_lines ls = map line_field (filter (\<lambda>l. l \<noteq> []) ls)"

definition request_fields :: "string \<Rightarrow> (string \<times> string) list" where
  "request_fields buf =
     (case memmem (CRLF @ CRLF) buf of
        None \<Rightarrow> []
      | Some (head, _) \<Rightarrow>
          (case memmem CRLF buf of
             None \<Rightarrow> []
           | Some (line, _) \<Rightarrow> fields_of_lines (header_lines (drop (length line + 2) head))))"

definition field_values :: "string \<Rightarrow> (string \<times> string) list \<Rightarrow> string list" where
  "field_values n fs = map snd (filter (\<lambda>f. rpsiod_streq_ci (fst f) n) fs)"

lemma field_values_simps [simp]:
  "field_values n [] = []"
  "field_values n (fs @ gs) = field_values n fs @ field_values n gs"
  "field_values n [(k, v)] = (if rpsiod_streq_ci k n then [v] else [])"
  by (simp_all add: field_values_def)

definition framing_inv :: "(string \<times> string) list \<Rightarrow> parse_state \<Rightarrow> bool" where
  "framing_inv fs st \<longleftrightarrow>
     (if ps_have_host st
      then \<exists>v. field_values ''Host'' fs = [v] \<and> parse_host_value HOST_LEN v = Some (r_host (ps_req st))
      else field_values ''Host'' fs = []) \<and>
     (ps_have_transfer_encoding st \<longleftrightarrow> field_values ''Transfer-Encoding'' fs \<noteq> []) \<and>
     (ps_have_content_length st \<longleftrightarrow> field_values ''Content-Length'' fs \<noteq> []) \<and>
     (if ps_have_content_length st then ps_seen_content_length st = r_content_length (ps_req st)
      else r_content_length (ps_req st) = 0) \<and>
     (\<forall>v \<in> set (field_values ''Content-Length'' fs).
        parse_content_length v = Some (r_content_length (ps_req st)))"

lemma parse_byte_range_frame:
  "parse_byte_range v r = (ok, r') \<Longrightarrow>
     r_host r' = r_host r \<and> r_content_length r' = r_content_length r \<and> r_path r' = r_path r \<and>
     r_method r' = r_method r \<and> r_query_string r' = r_query_string r \<and>
     r_header_len r' = r_header_len r \<and> r_accept_encoding r' = r_accept_encoding r \<and>
     r_if_none_match r' = r_if_none_match r \<and> r_if_modified_since r' = r_if_modified_since r \<and>
     r_absolute_form r' = r_absolute_form r"
  by (auto simp: parse_byte_range_def Let_def split: if_splits option.splits prod.splits)

text \<open>What one header does: it is \<open>Host\<close>, \<open>Content-Length\<close>, \<open>Transfer-Encoding\<close>, or leaves framing alone.\<close>

definition same_framing :: "parse_state \<Rightarrow> parse_state \<Rightarrow> bool" where
  "same_framing st st' \<longleftrightarrow>
     ps_have_host st' = ps_have_host st \<and>
     ps_have_transfer_encoding st' = ps_have_transfer_encoding st \<and>
     ps_have_content_length st' = ps_have_content_length st \<and>
     ps_seen_content_length st' = ps_seen_content_length st \<and>
     r_host (ps_req st') = r_host (ps_req st) \<and>
     r_content_length (ps_req st') = r_content_length (ps_req st)"

lemma header_lits:
  "\<not> rpsiod_streq_ci ''Host'' ''Content-Length''"
  "\<not> rpsiod_streq_ci ''Host'' ''Transfer-Encoding''"
  "\<not> rpsiod_streq_ci ''Content-Length'' ''Host''"
  "\<not> rpsiod_streq_ci ''Content-Length'' ''Accept-Encoding''"
  "\<not> rpsiod_streq_ci ''Content-Length'' ''If-None-Match''"
  "\<not> rpsiod_streq_ci ''Content-Length'' ''If-Modified-Since''"
  "\<not> rpsiod_streq_ci ''Content-Length'' ''Range''"
  "\<not> rpsiod_streq_ci ''Content-Length'' ''Transfer-Encoding''"
  "\<not> rpsiod_streq_ci ''Transfer-Encoding'' ''Host''"
  "\<not> rpsiod_streq_ci ''Transfer-Encoding'' ''Accept-Encoding''"
  "\<not> rpsiod_streq_ci ''Transfer-Encoding'' ''If-None-Match''"
  "\<not> rpsiod_streq_ci ''Transfer-Encoding'' ''If-Modified-Since''"
  "\<not> rpsiod_streq_ci ''Transfer-Encoding'' ''Range''"
  "\<not> rpsiod_streq_ci ''Transfer-Encoding'' ''Content-Length''"
  by code_simp+

lemma apply_header_other:
  assumes "apply_header st n v = Inr st'"
    and "\<not> rpsiod_streq_ci n ''Host''" "\<not> rpsiod_streq_ci n ''Content-Length''"
      "\<not> rpsiod_streq_ci n ''Transfer-Encoding''"
  shows "same_framing st st'"
proof (cases "rpsiod_streq_ci n ''Range''")
  case True
  have sn: "\<not> rpsiod_streq_ci ''Range'' ''Host''" "\<not> rpsiod_streq_ci ''Range'' ''Accept-Encoding''"
    "\<not> rpsiod_streq_ci ''Range'' ''If-None-Match''" "\<not> rpsiod_streq_ci ''Range'' ''If-Modified-Since''"
    by code_simp+
  obtain r where "parse_byte_range v (ps_req st) = (True, r)" "st' = st\<lparr>ps_req := r\<rparr>"
    using assms(1) True sn by (auto simp: apply_header_def Let_def streq_ci_subst [OF True]
        split: prod.splits if_splits)
  then show ?thesis by (auto simp: same_framing_def dest: parse_byte_range_frame)
next
  case False
  show ?thesis
    using assms(1) unfolding apply_header_def if_not_P [OF assms(2)] if_not_P [OF assms(3)]
      if_not_P [OF assms(4)] if_not_P [OF False] Let_def same_framing_def
    by (auto split: if_splits)
qed

lemma apply_header_cases:
  assumes "apply_header st n v = Inr st'"
  obtains (Host) h where "rpsiod_streq_ci n ''Host''" "\<not> ps_have_host st"
      "parse_host_value HOST_LEN v = Some h"
      "st' = upd_req (\<lambda>r. r\<lparr>r_host := h\<rparr>) (st\<lparr>ps_have_host := True\<rparr>)"
  | (Length) k where "rpsiod_streq_ci n ''Content-Length''" "parse_content_length v = Some k"
      "ps_have_content_length st \<longrightarrow> k = ps_seen_content_length st"
      "st' = upd_req (\<lambda>r. r\<lparr>r_content_length := k\<rparr>)
               (st\<lparr>ps_have_content_length := True, ps_seen_content_length := k\<rparr>)"
  | (Transfer) "rpsiod_streq_ci n ''Transfer-Encoding''" "st' = st\<lparr>ps_have_transfer_encoding := True\<rparr>"
  | (Other) "\<not> rpsiod_streq_ci n ''Host''" "\<not> rpsiod_streq_ci n ''Content-Length''"
      "\<not> rpsiod_streq_ci n ''Transfer-Encoding''" "same_framing st st'"
proof -
  consider "rpsiod_streq_ci n ''Host''" | "rpsiod_streq_ci n ''Content-Length''"
    | "rpsiod_streq_ci n ''Transfer-Encoding''"
    | "\<not> rpsiod_streq_ci n ''Host''" "\<not> rpsiod_streq_ci n ''Content-Length''"
      "\<not> rpsiod_streq_ci n ''Transfer-Encoding''"
    by blast
  then show thesis
  proof cases
    case 1
    with assms show thesis
      by (auto intro: Host simp: apply_header_def split: if_splits option.splits)
  next
    case 2
    with assms show thesis
      by (auto intro: Length [OF 2] simp: apply_header_def streq_ci_subst [OF 2] header_lits
          split: if_splits option.splits)
  next
    case 3
    with assms show thesis
      by (intro Transfer) (simp_all add: apply_header_def Let_def streq_ci_subst [OF 3] header_lits
          split: if_splits)
  next
    case 4
    show thesis by (rule Other [OF 4 apply_header_other [OF assms 4]])
  qed
qed

lemma apply_header_framing:
  assumes "apply_header st n v = Inr st'" and "framing_inv fs st"
  shows "framing_inv (fs @ [(n, v)]) st'"
  using assms(1)
proof (cases rule: apply_header_cases)
  case (Host h)
  with assms(2) show ?thesis by (simp add: framing_inv_def streq_ci_subst [OF Host(1)] header_lits)
next
  case (Length k)
  with assms(2) show ?thesis
    by (cases "ps_have_content_length st") (simp_all add: framing_inv_def streq_ci_subst [OF Length(1)] header_lits)
next
  case Transfer
  with assms(2) show ?thesis by (simp add: framing_inv_def streq_ci_subst [OF Transfer(1)] header_lits)
next
  case Other
  with assms(2) show ?thesis by (simp add: framing_inv_def same_framing_def)
qed

lemma parse_header_line_step:
  assumes "parse_header_line st l = Inr st'"
  shows "l = [] \<and> st' = st \<or> l \<noteq> [] \<and>
    apply_header (st\<lparr>ps_header_count := ps_header_count st + 1\<rparr>) (fst (line_field l)) (snd (line_field l)) = Inr st'"
  using assms
  by (simp add: parse_header_line_def Let_def strchr_def line_field_def copy_trimmed_value_def
      split: if_splits)

lemma parse_header_line_framing:
  assumes "parse_header_line st l = Inr st'" and "framing_inv fs st"
  shows "framing_inv (fs @ fields_of_lines [l]) st'"
  using parse_header_line_step [OF assms(1)]
proof (elim disjE conjE)
  assume "l = []" "st' = st"
  with assms(2) show ?thesis by (simp add: fields_of_lines_def)
next
  let ?st = "st\<lparr>ps_header_count := ps_header_count st + 1\<rparr>"
  assume l: "l \<noteq> []" and a: "apply_header ?st (fst (line_field l)) (snd (line_field l)) = Inr st'"
  have "framing_inv fs ?st" using assms(2) by (simp add: framing_inv_def)
  from apply_header_framing [OF a this] l show ?thesis by (simp add: fields_of_lines_def)
qed

lemma fields_of_lines_Cons: "fields_of_lines (l # ls) = fields_of_lines [l] @ fields_of_lines ls"
  by (simp add: fields_of_lines_def)

lemma parse_header_lines_framing:
  "parse_header_lines st ls = Inr st' \<Longrightarrow> framing_inv fs st \<Longrightarrow>
     framing_inv (fs @ fields_of_lines ls) st'"
proof (induction st ls arbitrary: fs rule: parse_header_lines.induct)
  case (1 st)
  then show ?case by (simp add: fields_of_lines_def)
next
  case (2 st l ls)
  then obtain st1 where s: "parse_header_line st l = Inr st1" "parse_header_lines st1 ls = Inr st'"
    by (auto split: sum.splits)
  have "framing_inv (fs @ fields_of_lines [l]) st1"
    using parse_header_line_framing [OF s(1) 2(3)] .
  from 2(1) [OF s this] show ?case by (subst fields_of_lines_Cons) simp
qed

text \<open>How an accepted request came about.\<close>

lemma parse_request_Parsed:
  assumes "rpsiod_http_parse_request buf = Parsed r"
  obtains head rest line rest' rl st where
    "memmem (CRLF @ CRLF) buf = Some (head, rest)" "length head + 4 \<le> 16384"
    "memmem CRLF buf = Some (line, rest')" "parse_request_line line 32 HOST_LEN = Some rl"
    "parse_header_lines (start_state (start_request (length head + 4) rl))
       (header_lines (drop (length line + 2) head)) = Inr st"
    "ps_have_host st" "\<not> ps_have_transfer_encoding st"
    "r_absolute_form (ps_req st) \<longrightarrow> authority_matches_host (rl_authority rl) (r_host (ps_req st))"
    "r = (ps_req st)\<lparr>r_upgrade_websocket := ps_connection_upgrade st \<and> ps_upgrade_websocket st\<rparr>"
  using assms
  by (auto simp: rpsiod_http_parse_request_def finish_request_def Let_def
      split: option.splits if_splits sum.splits)

lemma start_framing: "framing_inv [] (start_state (start_request n rl))"
  by (simp add: framing_inv_def start_state_def start_request_def empty_request_def)

text \<open>
  C1: request smuggling is ruled out: an accepted request has exactly one \<open>Host\<close> field (whose
  value is the host the server routes on), no \<open>Transfer-Encoding\<close> field at all, and every
  \<open>Content-Length\<close> field is a plain decimal number below \<open>2 ^ 64\<close> equal to the body length the
  server will use; without such a field that length is 0.
\<close>

theorem parse_request_framing:
  assumes "rpsiod_http_parse_request buf = Parsed r"
  shows "(\<exists>h. field_values ''Host'' (request_fields buf) = [h] \<and>
            parse_host_value HOST_LEN h = Some (r_host r)) \<and>
         field_values ''Transfer-Encoding'' (request_fields buf) = [] \<and>
         (\<forall>v \<in> set (field_values ''Content-Length'' (request_fields buf)).
            list_all is_digit v \<and> nat_of_digits v = unat (r_content_length r)) \<and>
         (field_values ''Content-Length'' (request_fields buf) = [] \<longrightarrow> r_content_length r = 0)"
proof -
  from parse_request_Parsed [OF assms] obtain head rest line rest' rl st where
    m: "memmem (CRLF @ CRLF) buf = Some (head, rest)" "memmem CRLF buf = Some (line, rest')"
    and ls: "parse_header_lines (start_state (start_request (length head + 4) rl))
       (header_lines (drop (length line + 2) head)) = Inr st"
    and st: "ps_have_host st" "\<not> ps_have_transfer_encoding st"
    and r: "r = (ps_req st)\<lparr>r_upgrade_websocket := ps_connection_upgrade st \<and> ps_upgrade_websocket st\<rparr>"
    by metis
  have "framing_inv (request_fields buf) st"
    using parse_header_lines_framing [OF ls start_framing] m by (simp add: request_fields_def)
  then show ?thesis
    using st r unfolding framing_inv_def
    by (cases "ps_have_content_length st") (auto dest!: parse_content_length_unat bspec)
qed

theorem parse_request_framing_witness:
  "(let b = ''GET / HTTP/1.1'' @ CRLF @ ''Host: ex'' @ CRLF @ ''Accept: *'' @ CRLF @ CRLF;
        r = (case rpsiod_http_parse_request b of Parsed r \<Rightarrow> r | _ \<Rightarrow> empty_request) in
    (\<exists>h. field_values ''Host'' (request_fields b) = [h] \<and> parse_host_value HOST_LEN h = Some (r_host r)) \<and>
    field_values ''Transfer-Encoding'' (request_fields b) = [] \<and>
    (\<forall>v \<in> set (field_values ''Content-Length'' (request_fields b)).
       list_all is_digit v \<and> nat_of_digits v = unat (r_content_length r)) \<and>
    (field_values ''Content-Length'' (request_fields b) = [] \<longrightarrow> r_content_length r = 0))"
  unfolding Let_def by (rule parse_request_framing) code_simp

section \<open>Buffer bounds\<close>

definition request_fits :: "http_request \<Rightarrow> bool" where
  "request_fits r \<longleftrightarrow>
     0 < length (r_method r) \<and> length (r_method r) < METHOD_LEN \<and>
     list_all valid_token_char (r_method r) \<and>
     length (r_path r) < PATH_LEN \<and> starts_with (r_path r) ''/'' \<and>
     list_all (\<lambda>c. 32 < uchar c \<and> uchar c \<noteq> 127) (r_path r) \<and>
     length (r_query_string r) < PATH_LEN \<and>
     length (r_host r) < HOST_LEN \<and>
     length (r_accept_encoding r) < ENCODING_LEN \<and>
     length (r_if_none_match r) < VALIDATOR_LEN \<and>
     length (r_if_modified_since r) < VALIDATOR_LEN"

lemma parse_host_value_bound: "parse_host_value n v = Some h \<Longrightarrow> h \<noteq> [] \<and> length h < n"
  by (auto simp: parse_host_value_def split: option.splits if_splits)

lemma request_fits_update [simp]:
  "request_fits (r\<lparr>r_keep_alive := b\<rparr>) = request_fits r"
  "request_fits (r\<lparr>r_internal_https := b\<rparr>) = request_fits r"
  "request_fits (r\<lparr>r_trace_request := b\<rparr>) = request_fits r"
  "request_fits (r\<lparr>r_content_length := n\<rparr>) = request_fits r"
  "request_fits (r\<lparr>r_upgrade_websocket := b\<rparr>) = request_fits r"
  "request_fits (r\<lparr>r_range_present := b\<rparr>) = request_fits r"
  "request_fits (r\<lparr>r_range_start := n\<rparr>) = request_fits r"
  "request_fits (r\<lparr>r_range_end := n\<rparr>) = request_fits r"
  "request_fits (r\<lparr>r_range_suffix := b\<rparr>) = request_fits r"
  "request_fits (r\<lparr>r_range_has_end := b\<rparr>) = request_fits r"
  by (simp_all add: request_fits_def)

lemma request_fits_copy [simp]:
  "request_fits r \<Longrightarrow> request_fits (r\<lparr>r_accept_encoding := safe_copy ENCODING_LEN v\<rparr>)"
  "request_fits r \<Longrightarrow> request_fits (r\<lparr>r_if_none_match := safe_copy VALIDATOR_LEN v\<rparr>)"
  "request_fits r \<Longrightarrow> request_fits (r\<lparr>r_if_modified_since := safe_copy VALIDATOR_LEN v\<rparr>)"
  "request_fits r \<Longrightarrow> parse_host_value HOST_LEN v = Some h \<Longrightarrow> request_fits (r\<lparr>r_host := h\<rparr>)"
  by (simp_all add: request_fits_def length_safe_copy parse_host_value_bound)

lemma parse_byte_range_fits:
  "parse_byte_range v r = (ok, r') \<Longrightarrow> request_fits r' = request_fits r"
  by (auto simp: parse_byte_range_def Let_def split: if_splits option.splits prod.splits)

lemma apply_header_fits:
  assumes "apply_header st n v = Inr st'" and "request_fits (ps_req st)"
  shows "request_fits (ps_req st')"
  using assms unfolding apply_header_def Let_def
  by (auto simp: parse_byte_range_fits split: if_splits option.splits prod.splits)

lemma parse_header_lines_fits:
  "parse_header_lines st ls = Inr st' \<Longrightarrow> request_fits (ps_req st) \<Longrightarrow> request_fits (ps_req st')"
proof (induction st ls rule: parse_header_lines.induct)
  case (1 st)
  then show ?case by simp
next
  case (2 st l ls)
  then obtain st1 where s: "parse_header_line st l = Inr st1" "parse_header_lines st1 ls = Inr st'"
    by (auto split: sum.splits)
  have "request_fits (ps_req st1)"
    using parse_header_line_step [OF s(1)] 2(3) by (auto dest: apply_header_fits)
  from 2(1) [OF s this] show ?case .
qed

lemma parse_header_lines_header_len:
  "parse_header_lines st ls = Inr st' \<Longrightarrow> r_header_len (ps_req st') = r_header_len (ps_req st)"
proof (induction st ls rule: parse_header_lines.induct)
  case (1 st)
  then show ?case by simp
next
  case (2 st l ls)
  then obtain st1 where s: "parse_header_line st l = Inr st1" "parse_header_lines st1 ls = Inr st'"
    by (auto split: sum.splits)
  have "r_header_len (ps_req st1) = r_header_len (ps_req st)"
    using parse_header_line_step [OF s(1)]
    by (auto simp: apply_header_def Let_def dest: parse_byte_range_frame
        split: if_splits option.splits prod.splits)
  with 2(1) [OF s] show ?case by simp
qed

lemma parse_request_target_fits:
  assumes "parse_request_target t n m = Some (p, a, b)"
  shows "length p < n \<and> starts_with p ''/'' \<and> list_all (\<lambda>c. 32 < uchar c \<and> uchar c \<noteq> 127) p"
proof -
  have v: "\<forall>c \<in> set t. 32 < uchar c \<and> uchar c \<noteq> 127"
    using assms by (auto simp: parse_request_target_def valid_request_target_bytes_def list_all_iff
        split: if_splits)
  have "p \<noteq> [] \<and> hd p = CHR ''/'' \<and> length p < n \<and> (p = ''/'' \<or> set p \<subseteq> set t)"
    using assms set_drop_subset [of 7 t] set_drop_subset [of 8 t]
    by (auto simp: parse_request_target_def Let_def strchr_def
        split: if_splits option.splits dest!: set_dropWhileD)
  with v show ?thesis
    by (cases p) (auto simp: list_all_iff uchar_def)
qed

lemma parse_request_line_fits:
  assumes "parse_request_line l n m = Some rl"
  shows "0 < length (rl_method rl) \<and> length (rl_method rl) < METHOD_LEN \<and>
    list_all valid_token_char (rl_method rl) \<and>
    length (rl_path rl) < PATH_LEN \<and> starts_with (rl_path rl) ''/'' \<and>
    list_all (\<lambda>c. 32 < uchar c \<and> uchar c \<noteq> 127) (rl_path rl)"
proof -
  from assms obtain t p a b where "parse_request_target t PATH_LEN m = Some (p, a, b)"
    "valid_method (rl_method rl)" "rl_path rl = p"
    by (auto simp: parse_request_line_def Let_def split: if_splits option.splits prod.splits)
  with parse_request_target_fits show ?thesis by (auto simp: valid_method_def split: if_splits)
qed

lemma parsed_request_fits:
  assumes "rpsiod_http_parse_request buf = Parsed r"
  shows "request_fits r"
proof -
  from parse_request_Parsed [OF assms] obtain n line rl ls st where
    rl: "parse_request_line line 32 HOST_LEN = Some rl"
    and ls: "parse_header_lines (start_state (start_request n rl)) ls = Inr st"
    and r: "r = (ps_req st)\<lparr>r_upgrade_websocket := ps_connection_upgrade st \<and> ps_upgrade_websocket st\<rparr>"
    by metis
  have "request_fits (ps_req (start_state (start_request n rl)))"
    using parse_request_line_fits [OF rl]
    by (auto simp: start_state_def start_request_def request_fits_def empty_request_def cstr_bounds
        split: option.splits)
  then have "request_fits (ps_req st)" by (rule parse_header_lines_fits [OF ls])
  with r show ?thesis by (auto simp: request_fits_def)
qed

text \<open>
  C35: an accepted request stays inside the fixed buffers of \<open>rpsiod_http_request\<close> and its path
  starts with a slash and holds no control character or space; its header section is at most
  16384 bytes, lies within the received bytes, and ends with the blank line.
\<close>

theorem parse_request_bounds:
  assumes "rpsiod_http_parse_request buf = Parsed r"
  shows "request_fits r \<and> r_header_len r \<le> 16384 \<and> r_header_len r \<le> length buf \<and>
         (\<exists>head. take (r_header_len r) buf = head @ CRLF @ CRLF)"
proof -
  from parse_request_Parsed [OF assms] obtain head rest line rest' rl st where
    m: "memmem (CRLF @ CRLF) buf = Some (head, rest)" "length head + 4 \<le> 16384"
    and rl: "parse_request_line line 32 HOST_LEN = Some rl"
    and ls: "parse_header_lines (start_state (start_request (length head + 4) rl))
       (header_lines (drop (length line + 2) head)) = Inr st"
    and r: "r = (ps_req st)\<lparr>r_upgrade_websocket := ps_connection_upgrade st \<and> ps_upgrade_websocket st\<rparr>"
    by metis
  have "r_header_len (ps_req st) = length head + 4"
    using parse_header_lines_header_len [OF ls]
    by (simp add: start_state_def start_request_def empty_request_def)
  moreover have "buf = head @ rest \<and> starts_with rest (CRLF @ CRLF)"
    using memmem_Some [OF m(1)] .
  then have "length head + 4 \<le> length buf \<and> take (length head + 4) buf = head @ CRLF @ CRLF"
    by (auto simp: starts_with_iff)
  ultimately show ?thesis
    using m(2) r parsed_request_fits [OF assms] by auto
qed

theorem parse_request_bounds_witness:
  "(let b = ''GET /a?q HTTP/1.1'' @ CRLF @ ''Host: ex'' @ CRLF @ CRLF @ ''xx'';
        r = (case rpsiod_http_parse_request b of Parsed r \<Rightarrow> r | _ \<Rightarrow> empty_request) in
    request_fits r \<and> r_header_len r \<le> 16384 \<and> r_header_len r \<le> length b \<and>
    (\<exists>head. take (r_header_len r) b = head @ CRLF @ CRLF))"
  unfolding Let_def by (rule parse_request_bounds) code_simp

section \<open>Byte ranges\<close>

text \<open>
  a well-formed single byte range is read as written: \<open>bytes=a-b\<close>, \<open>bytes=a-\<close> and
  \<open>bytes=-n\<close> (n > 0) set exactly the first position, the last position, or the suffix length.
\<close>

theorem parse_byte_range_canonical:
  assumes "a \<le> b" and "b < 2 ^ 64"
  shows "parse_byte_range (''bytes='' @ dec a @ ''-'' @ dec b) r =
           (True, r\<lparr>r_range_present := True, r_range_start := word_of_nat a,
                    r_range_end := word_of_nat b, r_range_has_end := True\<rparr>) \<and>
         parse_byte_range (''bytes='' @ dec a @ ''-'') r =
           (True, r\<lparr>r_range_present := True, r_range_start := word_of_nat a\<rparr>) \<and>
         (0 < b \<longrightarrow> parse_byte_range (''bytes=-'' @ dec b) r =
           (True, r\<lparr>r_range_present := True, r_range_suffix := True, r_range_start := word_of_nat b\<rparr>))"
proof -
  have no: "CHR '','' \<notin> set (dec n)" "CHR ''-'' \<notin> set (dec n)" for n
    using dec_digits [of n] by (auto simp: is_digit_def uchar_def)
  have dash: "strchr (CHR ''-'') (dec a @ CHR ''-'' # t) = Some (dec a, CHR ''-'' # t)" for t
    by (rule strchr_append [OF no(2)])
  have a: "strtoull (dec a @ CHR ''-'' # t) = Some (word_of_nat a, CHR ''-'' # t, False)" for t
    using assms by (intro strtoull_dec) (auto simp: ctype_simps)
  have b: "strtoull (dec b) = Some (word_of_nat b, [], False)"
    using strtoull_dec [of "[]" b] assms by simp
  have le: "\<not> (word_of_nat b :: u64) < word_of_nat a"
    using assms by (simp add: word_less_nat_alt unat_of_nat)
  have nz: "0 < b \<Longrightarrow> (word_of_nat b :: u64) \<noteq> 0"
    using assms by (simp add: word_unat_eq_iff unat_of_nat)
  have "parse_byte_range (''bytes='' @ dec a @ ''-'' @ dec b) r =
           (True, r\<lparr>r_range_present := True, r_range_start := word_of_nat a,
                    r_range_end := word_of_nat b, r_range_has_end := True\<rparr>)"
    unfolding parse_byte_range_def by (simp add: rpsiod_starts_with_def no dash a b le Let_def)
  moreover have "parse_byte_range (''bytes='' @ dec a @ ''-'') r =
           (True, r\<lparr>r_range_present := True, r_range_start := word_of_nat a\<rparr>)"
    unfolding parse_byte_range_def by (simp add: rpsiod_starts_with_def no dash a Let_def)
  moreover have "parse_byte_range (''bytes='' @ ''-'' @ dec b) r =
           (True, r\<lparr>r_range_present := True, r_range_suffix := True, r_range_start := word_of_nat b\<rparr>)"
    if "0 < b"
    unfolding parse_byte_range_def
    using strchr_append [of "CHR ''-''" "[]" "dec b"] by (simp add: rpsiod_starts_with_def no b nz [OF that] Let_def)
  ultimately show ?thesis by simp
qed

theorem parse_byte_range_canonical_witness:
  "(parse_byte_range (''bytes='' @ dec 3 @ ''-'' @ dec 7) empty_request =
      (True, empty_request\<lparr>r_range_present := True, r_range_start := word_of_nat 3,
                    r_range_end := word_of_nat 7, r_range_has_end := True\<rparr>)) \<and>
   parse_byte_range (''bytes='' @ dec 3 @ ''-'') empty_request =
      (True, empty_request\<lparr>r_range_present := True, r_range_start := word_of_nat 3\<rparr>) \<and>
   parse_byte_range (''bytes=-'' @ dec 7) empty_request =
      (True, empty_request\<lparr>r_range_present := True, r_range_suffix := True, r_range_start := word_of_nat 7\<rparr>)"
  using parse_byte_range_canonical [of 3 7 empty_request] by simp

end
