(* ===== verification/PathProps.thy ===== *)
theory PathProps
  imports Util
begin

text \<open>
  What the request-path functions of \<open>src/util.c\<close> guarantee together: the decoded path is
  clean and bounded, and a path that passes the segment check names, after lexical
  resolution, a file below the document root it is joined to.  Also the ranges of the
  configuration scalars.
\<close>

section \<open>Lexical resolution\<close>

text \<open>
  The reference resolution of a segment list: \<open>.\<close> is dropped, \<open>..\<close> removes the segment
  before it (and nothing above the top).
\<close>

fun resolve :: "string list \<Rightarrow> string list \<Rightarrow> string list" where
  "resolve acc [] = rev acc"
| "resolve acc (s # ss) =
     (if s = ''.'' then resolve acc ss
      else if s = ''..'' then resolve (tl acc) ss
      else resolve (s # acc) ss)"

lemma resolve_plain:
  "''.'' \<notin> set ss \<Longrightarrow> ''..'' \<notin> set ss \<Longrightarrow> resolve acc ss = rev acc @ ss"
  by (induction ss arbitrary: acc) auto

lemma resolve_append: "resolve acc (a @ b) = resolve (rev (resolve acc a)) b"
  by (induction acc a rule: resolve.induct) auto

lemma split_on_append:
  "split_on d (a @ d # b) = split_on d a @ split_on d b"
proof (induction a)
  case Nil
  then show ?case by simp
next
  case (Cons c cs)
  then show ?case by (cases "split_on d cs") (auto simp: hd_append)
qed

lemma segments_append_slash: "segments (a @ CHR ''/'' # b) = segments a @ segments b"
  by (simp add: segments_def split_on_append)

lemma segments_join:
  "p \<noteq> [] \<Longrightarrow> hd p = CHR ''/'' \<Longrightarrow> segments (root @ p) = segments root @ segments p"
  by (cases p) (simp_all add: segments_append_slash)

lemma forbidden_segment_iff:
  "rpsiod_path_has_forbidden_segment p \<longleftrightarrow>
     p = [] \<or> hd p \<noteq> CHR ''/'' \<or> ''.'' \<in> set (segments p) \<or> ''..'' \<in> set (segments p)"
  by (simp add: rpsiod_path_has_forbidden_segment_def forbidden_loop_iff)

text \<open>
  C3: no path traversal: when the server decodes a request target, finds no forbidden
  segment and joins the result to the document root, the joined path resolves lexically to
  the root's own segments followed by the path's segments, so it never leaves the root; it
  fits the destination buffer and contains no NUL, backslash or control character that the
  root does not contain.
\<close>

theorem served_path_inside_root:
  assumes "rpsiod_percent_decode_path target n = Some path"
    and "\<not> rpsiod_path_has_forbidden_segment path"
    and "rpsiod_path_join m root path = Some full"
  shows "resolve [] (segments full) = resolve [] (segments root) @ segments path \<and>
         length full < m \<and> length path < n \<and>
         (\<forall>c \<in> set full. c \<in> set root \<or> path_char_ok c)"
proof -
  have full: "full = root @ path" and len: "length full < m" and p: "path \<noteq> []" "hd path = CHR ''/''"
    using assms(3) by (auto simp: rpsiod_path_join_def split: if_splits)
  have plain: "''.'' \<notin> set (segments path)" "''..'' \<notin> set (segments path)"
    using assms(2) by (auto simp: forbidden_segment_iff)
  have seg: "segments full = segments root @ segments path"
    using segments_join [OF p] full by simp
  have "resolve [] (segments full) = resolve [] (segments root) @ segments path"
    unfolding seg resolve_append resolve_plain [OF plain] by simp
  moreover have "length path < n \<and> list_all path_char_ok path"
  proof -
    obtain out where n: "n \<noteq> 0" and d: "percent_decode_loop n 0 target = Some out"
      and path: "path = (if out = [] then safe_copy n ''/'' else out)"
      using assms(1) by (auto simp: rpsiod_percent_decode_path_def split: if_splits option.splits)
    have "list_all path_char_ok (safe_copy n ''/'')"
      using set_safe_copy [of n "''/''"] by (auto simp: list_all_iff path_char_ok_def uchar_def)
    with percent_decode_loop_chars [OF d] percent_decode_loop_length [OF d] n path
    show ?thesis by (simp add: length_safe_copy)
  qed
  ultimately show ?thesis using full len by (auto simp: list_all_iff)
qed

theorem served_path_inside_root_witness:
  "resolve [] (segments ''/srv/www/a b/c'') = resolve [] (segments ''/srv/www'') @ segments ''/a b/c'' \<and>
   length ''/srv/www/a b/c'' < 64 \<and> length ''/a b/c'' < 32"
proof -
  have "rpsiod_percent_decode_path ''/a%20b/c?x=1'' 32 = Some ''/a b/c''"
    "\<not> rpsiod_path_has_forbidden_segment ''/a b/c''"
    "rpsiod_path_join 64 ''/srv/www'' ''/a b/c'' = Some ''/srv/www/a b/c''"
    by code_simp+
  from served_path_inside_root [OF this] show ?thesis by blast
qed

section \<open>Configuration scalars\<close>

lemma strtol_value_range:
  "strtol s = Some (v, e, r) \<Longrightarrow> - (2 ^ 63) \<le> v \<and> v < 2 ^ 63"
  using strtol_range [of s v e r] by (simp add: LONG_MAX_def LONG_MIN_def)

text \<open>
  a configured duration is always in the range of a C \<open>int\<close>: whatever the text, the
  multiplication by the unit cannot overflow, and the result is non-negative whenever the
  fallback is.
\<close>

theorem parse_duration_range:
  assumes "0 \<le> fallback" and "fallback \<le> INT_MAX"
  shows "0 \<le> rpsiod_parse_duration_sec text fallback \<and>
         rpsiod_parse_duration_sec text fallback \<le> INT_MAX"
  using assms
  by (auto simp: rpsiod_parse_duration_sec_def INT_MAX_def Let_def split: option.splits)

theorem parse_duration_range_witness:
  "0 \<le> rpsiod_parse_duration_sec ''90 d'' 5 \<and> rpsiod_parse_duration_sec ''90 d'' 5 \<le> INT_MAX"
  by (rule parse_duration_range) (simp_all add: INT_MAX_def)

text \<open>The size units, and that the size parser multiplies without an overflow check.\<close>

definition size_units :: "(string \<times> nat) list" where
  "size_units = [([], 1), (''kb'', 1024), (''k'', 1024), (''mb'', 1024 ^ 2), (''m'', 1024 ^ 2),
     (''gb'', 1024 ^ 3), (''g'', 1024 ^ 3)]"

lemma size_multiplier_units:
  assumes "(u, k) \<in> set size_units" and "rpsiod_streq_ci e u"
  shows "size_multiplier e = word_of_nat k"
proof -
  have "size_multiplier e = size_multiplier u"
    using assms(2) by (simp add: size_multiplier_def streq_ci_iff)
  also have "\<dots> = word_of_nat k"
    using assms(1) unfolding size_units_def
    by (auto simp: size_multiplier_def streq_ci_iff c_tolower_def is_upper_def uchar_def)
  finally show ?thesis .
qed

text \<open>
  a size \<open>n\<close> followed by a unit (any letter case, spaces between allowed) is read as
  \<open>n\<close> times the unit modulo \<open>2 ^ 64\<close>: exact when the product fits, and silently wrapped when
  it does not.
\<close>

theorem parse_size_value:
  assumes "n < 2 ^ 64" and "(u, k) \<in> set size_units" and "rpsiod_streq_ci e u"
    and "\<forall>c \<in> set sp. c_isspace c"
  shows "unat (rpsiod_parse_size (dec n @ sp @ e) fallback) = n * k mod 2 ^ 64"
proof -
  have e: "e = [] \<or> (\<not> is_digit (hd e) \<and> \<not> c_isspace (hd e))"
  proof (cases e)
    case (Cons c r)
    with assms(3) obtain d r' where u: "u = d # r'" "c_tolower c = c_tolower d"
      by (cases u) (auto simp: streq_ci_iff)
    from u(1) have "d \<in> {CHR ''k'', CHR ''m'', CHR ''g''}"
      using assms(2) by (auto simp: size_units_def)
    then have "is_lower (c_tolower c)"
      unfolding u(2) by (auto simp: is_lower_def uchar_tolower is_upper_def uchar_def)
    then have "97 \<le> (if is_upper c then uchar c + 32 else uchar c)"
      by (simp add: is_lower_def uchar_tolower)
    then have "65 \<le> uchar c" by (auto split: if_splits)
    then show ?thesis using Cons by (auto simp: is_digit_def c_isspace_def)
  qed simp
  have skip: "dropWhile c_isspace (sp @ e) = e"
    using assms(4) e by (cases e) (simp_all add: dropWhile_append2)
  have rest: "sp @ e = [] \<or> \<not> is_digit (hd (sp @ e))"
  proof (cases sp)
    case Nil
    with e show ?thesis by auto
  next
    case (Cons c r)
    then have "c_isspace c" using assms(4) by simp
    then have "\<not> is_digit c" using is_digit_not_space by blast
    with Cons show ?thesis by simp
  qed
  have "rpsiod_parse_size (dec n @ sp @ e) fallback = word_of_nat n * word_of_nat k"
    using strtoull_dec [OF rest assms(1)] skip size_multiplier_units [OF assms(2,3)]
    by (simp add: rpsiod_parse_size_def)
  also have "unat (\<dots> :: u64) = n * k mod 2 ^ 64"
    by (simp flip: of_nat_mult add: unat_of_nat take_bit_eq_mod)
  finally show ?thesis .
qed

theorem parse_size_value_witness:
  "unat (rpsiod_parse_size (dec 25 @ '' '' @ ''MB'') 0) = 25 * 1024 ^ 2 mod 2 ^ 64"
proof (rule parse_size_value)
  show "(25::nat) < 2 ^ 64" by simp
  show "(''mb'', 1024 ^ 2) \<in> set size_units" by (simp add: size_units_def)
  show "rpsiod_streq_ci ''MB'' ''mb''" by code_simp
  show "\<forall>c \<in> set '' ''. c_isspace c" by code_simp
qed

end
