(* ===== verification/Config.thy ===== *)
theory Config
  imports Util
begin

text \<open>
  \<open>src/config.h\<close> and the defaults of \<open>src/config.c\<close>: the configuration records.  The fields of
  \<open>rpsiod_site_config\<close> have the prefix \<open>site_\<close>, those of \<open>rpsiod_config\<close> the prefix
  \<open>cfg_\<close>.  A fixed array with its counter is a list, a \<open>char\<close> array a string.  The run-time caches a site
  carries (rate buckets, static metadata, open files) are modelled in \<open>RateLimit\<close> and
  \<open>StaticCache\<close>.
\<close>

section \<open>Records\<close>

record error_page =
  ep_code :: int
  ep_path :: string

record log_path =
  lp_enabled :: bool
  lp_path :: string
  lp_fd :: int

record header_pair =
  hp_name :: string
  hp_value :: string

record site_config =
  site_name :: string
  site_enabled :: bool
  site_serve_as :: string
  site_domains :: "string list"
  site_listen_ip :: string
  site_http_port :: u16
  site_https_port :: u16
  site_routing_type :: string
  site_redirect_http_to_https :: bool
  site_redirect_www_enabled :: bool
  site_redirect_www_mode :: string
  site_redirect_www_status :: int
  site_ssl_enabled :: bool
  site_ssl_mode :: string
  site_ssl_provider :: string
  site_ssl_email :: string
  site_ssl_storage :: string
  site_ssl_challenge :: string
  site_ssl_renew_before_sec :: int
  site_static_root :: string
  site_static_root_real :: string
  site_static_root_fd :: int
  site_indexes :: "string list"
  site_fallback :: string
  site_directory_listing :: bool
  site_maintenance_enabled :: bool
  site_maintenance_status :: int
  site_maintenance_page :: string
  site_error_pages :: "error_page list"
  site_max_body_size :: u64
  site_hide_server_header :: bool
  site_allow_symlinks :: bool
  site_allowed_methods :: "string list"
  site_blocked_direct_access :: "string list"
  site_php_enabled :: bool
  site_php_handler_type :: string
  site_php_socket :: string
  site_php_host :: string
  site_php_port :: u16
  site_php_allow_path_info :: bool
  site_php_connect_timeout_sec :: int
  site_php_read_timeout_sec :: int
  site_php_write_timeout_sec :: int
  site_php_max_body_size :: u64
  site_php_max_execution_time_sec :: int
  site_rate_limit_enabled :: bool
  site_rate_limit_requests :: u32
  site_rate_limit_window_sec :: int
  site_compression_enabled :: bool
  site_compression_gzip :: bool
  site_compression_br :: bool
  site_compression_minimum_size :: u64
  site_cache_enabled :: bool
  site_cache_default :: string
  site_headers_add :: "header_pair list"
  site_headers_remove :: "string list"
  site_proxy_scheme :: string
  site_proxy_host :: string
  site_proxy_port :: u16
  site_proxy_websocket :: bool
  site_proxy_pass_host :: bool
  site_proxy_real_ip :: bool
  site_proxy_forwarded_for :: bool
  site_proxy_forwarded_proto :: bool
  site_proxy_connect_timeout_sec :: int
  site_proxy_read_timeout_sec :: int
  site_proxy_write_timeout_sec :: int
  site_proxy_health_enabled :: bool
  site_proxy_health_path :: string
  site_access_log :: log_path
  site_error_log :: log_path

record config =
  cfg_name :: string
  cfg_environment :: string
  cfg_linux_user :: string
  cfg_linux_group :: string
  cfg_pid_file :: string
  cfg_reuse_port :: bool
  cfg_tcp_fast_open :: bool
  cfg_backlog :: int
  cfg_open_files :: u64
  cfg_max_processes :: u64
  cfg_workers :: int
  cfg_workers_auto :: bool
  cfg_max_connections :: u64
  cfg_keep_alive_enabled :: bool
  cfg_keep_alive_timeout_sec :: int
  cfg_keep_alive_max_requests :: int
  cfg_request_header_buffer :: u64
  cfg_response_buffer :: u64
  cfg_sendfile_enabled :: bool
  cfg_read_ahead_enabled :: bool
  cfg_open_file_cache_enabled :: bool
  cfg_open_file_cache_max :: u64
  cfg_hide_version :: bool
  cfg_drop_privileges :: bool
  cfg_prevent_core_dumps :: bool
  cfg_logging_level :: string
  cfg_logging_format :: string
  cfg_access_log :: log_path
  cfg_error_log :: log_path
  cfg_benchmarks_enabled :: bool
  cfg_benchmarks_ip :: string
  cfg_benchmarks_port :: u16
  cfg_benchmarks_storage_path :: string
  cfg_server_file :: string
  cfg_sites_file :: string
  cfg_loaded_sites_file :: string
  cfg_chroot_enabled :: bool
  cfg_chroot_path :: string
  cfg_sites :: "site_config list"

abbreviation MAX_SITES :: nat where "MAX_SITES \<equiv> 64"
abbreviation MAX_DOMAINS :: nat where "MAX_DOMAINS \<equiv> 32"
abbreviation MAX_INDEXES :: nat where "MAX_INDEXES \<equiv> 16"
abbreviation MAX_METHODS :: nat where "MAX_METHODS \<equiv> 16"
abbreviation MAX_BLOCKED :: nat where "MAX_BLOCKED \<equiv> 64"
abbreviation MAX_ERROR_PAGES :: nat where "MAX_ERROR_PAGES \<equiv> 16"
abbreviation MAX_HEADERS :: nat where "MAX_HEADERS \<equiv> 32"
abbreviation MAX_HEADER_REMOVES :: nat where "MAX_HEADER_REMOVES \<equiv> 32"
abbreviation OPEN_FILE_CACHE_MAX :: u64 where "OPEN_FILE_CACHE_MAX \<equiv> 256"

section \<open>Defaults\<close>

definition site_defaults :: site_config where
  "site_defaults = \<lparr>
     site_name = [], site_enabled = True, site_serve_as = ''http'', site_domains = [],
     site_listen_ip = ''0.0.0.0'', site_http_port = 80, site_https_port = 443,
     site_routing_type = ''static'', site_redirect_http_to_https = False,
     site_redirect_www_enabled = False, site_redirect_www_mode = ''apexToWww'',
     site_redirect_www_status = 301, site_ssl_enabled = False, site_ssl_mode = ''auto'',
     site_ssl_provider = ''letsEncrypt'', site_ssl_email = [], site_ssl_storage = [],
     site_ssl_challenge = ''http'', site_ssl_renew_before_sec = (30 * 86400),
     site_static_root = [], site_static_root_real = [], site_static_root_fd = - 1,
     site_indexes = [], site_fallback = [], site_directory_listing = False,
     site_maintenance_enabled = False, site_maintenance_status = 503, site_maintenance_page = [],
     site_error_pages = [], site_max_body_size = (25 * 1024 * 1024),
     site_hide_server_header = True, site_allow_symlinks = False,
     site_allowed_methods = [''GET'', ''HEAD''], site_blocked_direct_access = [],
     site_php_enabled = False, site_php_handler_type = ''socket'',
     site_php_socket = ''/run/php/php-fpm.sock'', site_php_host = ''127.0.0.1'',
     site_php_port = 9000, site_php_allow_path_info = False, site_php_connect_timeout_sec = 5,
     site_php_read_timeout_sec = 30, site_php_write_timeout_sec = 30,
     site_php_max_body_size = (25 * 1024 * 1024), site_php_max_execution_time_sec = 60,
     site_rate_limit_enabled = False, site_rate_limit_requests = 100,
     site_rate_limit_window_sec = 60, site_compression_enabled = False,
     site_compression_gzip = False, site_compression_br = False,
     site_compression_minimum_size = 1024, site_cache_enabled = False, site_cache_default = [],
     site_headers_add = [], site_headers_remove = [], site_proxy_scheme = ''http'',
     site_proxy_host = [], site_proxy_port = 3000, site_proxy_websocket = False,
     site_proxy_pass_host = True, site_proxy_real_ip = True, site_proxy_forwarded_for = True,
     site_proxy_forwarded_proto = True, site_proxy_connect_timeout_sec = 5,
     site_proxy_read_timeout_sec = 30, site_proxy_write_timeout_sec = 30,
     site_proxy_health_enabled = False, site_proxy_health_path = ''/health'',
     site_access_log = \<lparr>lp_enabled = False, lp_path = [], lp_fd = - 1\<rparr>,
     site_error_log = \<lparr>lp_enabled = False, lp_path = [], lp_fd = - 1\<rparr>\<rparr>"

definition rpsiod_config_defaults :: config where
  "rpsiod_config_defaults = \<lparr>
     cfg_name = ''rpsiod'', cfg_environment = ''production'', cfg_linux_user = ''rpsiod'',
     cfg_linux_group = ''rpsiod'', cfg_pid_file = ''/run/rpsiod/rpsiod.pid'',
     cfg_reuse_port = True, cfg_tcp_fast_open = True, cfg_backlog = 4096,
     cfg_open_files = 1048576, cfg_max_processes = 4096, cfg_workers = 1,
     cfg_workers_auto = True, cfg_max_connections = 50000, cfg_keep_alive_enabled = True,
     cfg_keep_alive_timeout_sec = 30, cfg_keep_alive_max_requests = 1000,
     cfg_request_header_buffer = (16 * 1024), cfg_response_buffer = (64 * 1024),
     cfg_sendfile_enabled = True, cfg_read_ahead_enabled = True,
     cfg_open_file_cache_enabled = True, cfg_open_file_cache_max = 64, cfg_hide_version = True,
     cfg_drop_privileges = True, cfg_prevent_core_dumps = True, cfg_logging_level = ''info'',
     cfg_logging_format = ''text'',
     cfg_access_log = \<lparr>lp_enabled = True, lp_path = ''/var/log/rpsiod/access.log'', lp_fd = - 1\<rparr>,
     cfg_error_log = \<lparr>lp_enabled = True, lp_path = ''/var/log/rpsiod/error.log'', lp_fd = - 1\<rparr>,
     cfg_benchmarks_enabled = True, cfg_benchmarks_ip = ''127.0.0.1'',
     cfg_benchmarks_port = 9191, cfg_benchmarks_storage_path = ''/var/cache/rpsiod/benchmarks'',
     cfg_server_file = ''/etc/rpsiod/server.yml'', cfg_sites_file = ''/etc/rpsiod/sites.yml'',
     cfg_loaded_sites_file = [], cfg_chroot_enabled = False, cfg_chroot_path = [],
     cfg_sites = []\<rparr>"

end
