(* ===== verification/Security.thy ===== *)
theory Security
  imports Config
begin

text \<open>
  \<open>src/security.c\<close>: the check for path segments that must not be requested directly.  The
  scan looks for each occurrence of a blocked entry with \<open>strstr\<close> and accepts it when it is
  aligned with slashes; after an unaligned occurrence it continues behind it.  For the entries
  the configuration is meant for (a single segment name) this is exactly membership among the
  slash-separated segments of the path.
\<close>

section \<open>Model\<close>

text \<open>
  \<open>prev\<close> is the character before the cursor, \<open>None\<close> at the start of the path.  For the
  empty entry the cursor does not move, so the loop of the C code does not end unless the
  first test succeeds: \<open>None\<close>.
\<close>

function blocked_scan :: "string \<Rightarrow> char option \<Rightarrow> string \<Rightarrow> bool option" where
  "blocked_scan blocked prev p =
     (case memmem blocked p of
        None \<Rightarrow> Some False
      | Some (a, b) \<Rightarrow>
          (let rest = drop (length blocked) b;
               left_ok = (if a = [] then prev = None \<or> prev = Some (CHR ''/'') else last a = CHR ''/'');
               right_ok = (rest = [] \<or> hd rest = CHR ''/'') in
           if left_ok \<and> right_ok then Some True
           else if blocked = [] then None
           else blocked_scan blocked (Some (last blocked)) rest))"
  by pat_completeness auto
termination
proof (relation "measure (\<lambda>(b, prev, p). length p)", simp, goal_cases)
  case (1 blocked prev p x a b rest left right)
  then have "memmem blocked p = Some (a, b)" by simp
  from memmem_length [OF this] memmem_Some [OF this] 1 show ?case
    by (cases blocked) auto
qed

declare blocked_scan.simps [simp del]

fun blocked_any :: "string list \<Rightarrow> string \<Rightarrow> bool option" where
  "blocked_any [] path = Some False"
| "blocked_any (b # bs) path =
     (case blocked_scan b None path of
        None \<Rightarrow> None
      | Some True \<Rightarrow> Some True
      | Some False \<Rightarrow> blocked_any bs path)"

definition rpsiod_blocked_direct_access :: "site_config \<Rightarrow> string \<Rightarrow> bool option" where
  "rpsiod_blocked_direct_access site path = blocked_any (site_blocked_direct_access site) path"

section \<open>Occurrences aligned with slashes\<close>

definition aligned :: "char option \<Rightarrow> string \<Rightarrow> string \<Rightarrow> bool" where
  "aligned prev p b \<longleftrightarrow>
     (\<exists>u v. p = u @ b @ v \<and>
        (if u = [] then prev = None \<or> prev = Some (CHR ''/'') else last u = CHR ''/'') \<and>
        (v = [] \<or> hd v = CHR ''/''))"

lemma aligned_segment: "CHR ''/'' \<notin> set b \<Longrightarrow> aligned None p b \<longleftrightarrow> b \<in> set (split_on (CHR ''/'') p)"
  unfolding aligned_def split_on_mem_decomp by auto

lemma aligned_skip:
  assumes m: "memmem b p = Some (a, b @ rest)" and b: "b \<noteq> []" "CHR ''/'' \<notin> set b"
    and here: "\<not> ((if a = [] then prev = None \<or> prev = Some (CHR ''/'') else last a = CHR ''/'') \<and>
                   (rest = [] \<or> hd rest = CHR ''/''))"
  shows "aligned prev p b \<longleftrightarrow> aligned (Some (last b)) rest b"
proof
  have p: "p = a @ b @ rest" using memmem_Some [OF m] by simp
  have lb: "last b \<noteq> CHR ''/''" using b by (metis last_in_set)
  assume "aligned (Some (last b)) rest b"
  then obtain u v where r: "rest = u @ b @ v" "v = [] \<or> hd v = CHR ''/''" "u \<noteq> []" "last u = CHR ''/''"
    using lb by (auto simp: aligned_def split: if_splits)
  with p show "aligned prev p b"
    unfolding aligned_def by (intro exI [of _ "a @ b @ u"] exI [of _ v]) auto
next
  have p: "p = a @ b @ rest" using memmem_Some [OF m] by simp
  have lb: "last b \<noteq> CHR ''/''" using b by (metis last_in_set)
  assume "aligned prev p b"
  then obtain u v where u: "p = u @ b @ v"
    "if u = [] then prev = None \<or> prev = Some (CHR ''/'') else last u = CHR ''/''"
    "v = [] \<or> hd v = CHR ''/''"
    by (auto simp: aligned_def)
  have "length a \<le> length u" using memmem_first [OF m u(1)] by simp
  then obtain w where w: "u = a @ w"
    using p u(1) by (metis append_eq_append_conv_if append_take_drop_id)
  have "w @ b @ v = b @ rest" using p u(1) w by simp
  have "w \<noteq> []"
  proof
    assume "w = []"
    with w \<open>w @ b @ v = b @ rest\<close> have "u = a" "v = rest" by auto
    with u here show False by auto
  qed
  then have lw: "last w = CHR ''/''" using u(2) w by simp
  have "length b \<le> length w"
  proof (rule ccontr)
    assume "\<not> length b \<le> length w"
    with \<open>w @ b @ v = b @ rest\<close> have "w = take (length w) b"
      by (metis append_eq_append_conv_if linorder_le_cases take_all)
    then have "set w \<subseteq> set b" by (metis set_take_subset)
    with \<open>w \<noteq> []\<close> lw b show False by (metis last_in_set subsetD)
  qed
  then obtain w' where w': "w = b @ w'"
    using \<open>w @ b @ v = b @ rest\<close> by (metis append_eq_append_conv_if append_take_drop_id)
  have "w' \<noteq> []" using w' lw lb by auto
  with w' lw have "last w' = CHR ''/''" by simp
  moreover have "rest = w' @ b @ v" using \<open>w @ b @ v = b @ rest\<close> w' by simp
  ultimately show "aligned (Some (last b)) rest b"
    unfolding aligned_def using u(3) \<open>w' \<noteq> []\<close> by (intro exI [of _ w'] exI [of _ v]) auto
qed

lemma blocked_scan_aligned:
  "b \<noteq> [] \<Longrightarrow> CHR ''/'' \<notin> set b \<Longrightarrow> blocked_scan b prev p = Some (aligned prev p b)"
proof (induction b prev p rule: blocked_scan.induct)
  case (1 b prev p)
  show ?case
  proof (cases "memmem b p")
    case None
    then have "\<not> aligned prev p b"
      unfolding aligned_def memmem_None using starts_with_append by blast
    with None show ?thesis by (simp add: blocked_scan.simps [of b prev p])
  next
    case (Some ab)
    then obtain a c where m: "memmem b p = Some (a, c)" by (cases ab) auto
    then obtain rest where c: "c = b @ rest"
      using memmem_Some [OF m] by (auto simp: starts_with_iff)
    let ?ok = "(if a = [] then prev = None \<or> prev = Some (CHR ''/'') else last a = CHR ''/'') \<and>
               (rest = [] \<or> hd rest = CHR ''/'')"
    show ?thesis
    proof (cases ?ok)
      case True
      have "p = a @ b @ rest" using memmem_Some [OF m] c by simp
      with True have "aligned prev p b" unfolding aligned_def by blast
      with m c True show ?thesis by (simp add: blocked_scan.simps [of b prev p])
    next
      case False
      have "blocked_scan b (Some (last b)) rest = Some (aligned (Some (last b)) rest b)"
        using 1(1) [OF m refl refl refl refl] False c 1(2,3) by auto
      with aligned_skip [OF m [unfolded c] 1(2,3) False] m c False 1(2) show ?thesis
        by (subst blocked_scan.simps) auto
    qed
  qed
qed

text \<open>
  C38: direct access is blocked exactly when one of the site's blocked names is a whole
  segment of the decoded path: the scan always ends, finds every such segment, and never
  blocks a name that merely contains a blocked one.
\<close>

theorem blocked_iff_segment:
  assumes "\<forall>b \<in> set (site_blocked_direct_access site). b \<noteq> [] \<and> CHR ''/'' \<notin> set b"
  shows "rpsiod_blocked_direct_access site path =
    Some (\<exists>b \<in> set (site_blocked_direct_access site). b \<in> set (split_on (CHR ''/'') path))"
proof -
  have "blocked_any bs path = Some (\<exists>b \<in> set bs. b \<in> set (split_on (CHR ''/'') path))"
    if "\<forall>b \<in> set bs. b \<noteq> [] \<and> CHR ''/'' \<notin> set b" for bs
    using that by (induction bs) (auto simp: blocked_scan_aligned aligned_segment split: bool.splits)
  from this [OF assms] show ?thesis by (simp add: rpsiod_blocked_direct_access_def)
qed

theorem blocked_iff_segment_witness:
  "rpsiod_blocked_direct_access
     (site_defaults\<lparr>site_blocked_direct_access := [''.git'', ''.env'']\<rparr>) ''/a/.git/config'' = Some True"
  using blocked_iff_segment [of "site_defaults\<lparr>site_blocked_direct_access := [''.git'', ''.env'']\<rparr>" "''/a/.git/config''"]
  by simp

text \<open>
  an entry of several segments can be missed: after an unaligned occurrence the scan
  resumes behind it, so an aligned occurrence that overlaps it is not seen.  The entry
  \<open>a/a\<close> is a slash-aligned part of \<open>/xa/a/a\<close>, yet the path is not blocked.
\<close>

theorem blocked_misses_overlap:
  "aligned None ''/xa/a/a'' ''a/a'' \<and>
   rpsiod_blocked_direct_access (site_defaults\<lparr>site_blocked_direct_access := [''a/a'']\<rparr>) ''/xa/a/a'' = Some False"
proof
  show "aligned None ''/xa/a/a'' ''a/a''"
    unfolding aligned_def by (intro exI [of _ "''/xa/''"] exI [of _ "[]"]) simp
  show "rpsiod_blocked_direct_access (site_defaults\<lparr>site_blocked_direct_access := [''a/a'']\<rparr>) ''/xa/a/a'' = Some False"
    by code_simp
qed

end
