(* ===== verification/RateLimit.thy ===== *)
theory RateLimit
  imports Config
begin

text \<open>
  \<open>src/rate_limit.c\<close>: a fixed-window request counter per client address, kept in 1024
  buckets indexed by the address modulo 1024.  The bucket array is the state of the model;
  \<open>time (NULL)\<close> is the argument \<open>now\<close>, and \<open>inet_pton\<close> is modelled on its dotted-quad
  grammar.
\<close>

section \<open>Model\<close>

record rate_bucket =
  rb_ip :: u32
  rb_window_start :: u64
  rb_count :: u32

abbreviation RATE_BUCKETS :: nat where "RATE_BUCKETS \<equiv> 1024"

text \<open>
  \<open>inet_pton (AF_INET, s, &addr)\<close> followed by \<open>ntohl\<close>: four decimal numbers of at most
  three digits, at most 255, without leading zeros, separated by single dots.
\<close>

definition quad_byte :: "string \<Rightarrow> nat option" where
  "quad_byte s =
     (if s = [] \<or> \<not> list_all is_digit s \<or> 3 < length s \<or> (1 < length s \<and> hd s = CHR ''0'') then None
      else let n = nat_of_digits s in if 255 < n then None else Some n)"

definition inet_pton4 :: "string \<Rightarrow> u32 option" where
  "inet_pton4 s =
     (case map quad_byte (split_on (CHR ''.'') s) of
        [Some a, Some b, Some c, Some d] \<Rightarrow> Some (word_of_nat (((a * 256 + b) * 256 + c) * 256 + d))
      | _ \<Rightarrow> None)"

definition rpsiod_rate_limit_exceeded ::
  "site_config \<Rightarrow> string \<Rightarrow> u64 \<Rightarrow> rate_bucket list \<Rightarrow> (bool \<times> int) \<times> rate_bucket list" where
  "rpsiod_rate_limit_exceeded site client_ip now buckets =
     (if \<not> site_rate_limit_enabled site \<or> site_rate_limit_requests site = 0 \<or>
         site_rate_limit_window_sec site \<le> 0
      then ((False, 0), buckets)
      else case inet_pton4 client_ip of
        None \<Rightarrow> ((False, 0), buckets)
      | Some ip \<Rightarrow>
          (let idx = unat ip mod RATE_BUCKETS; bucket = buckets ! idx;
               window = word_of_int (site_rate_limit_window_sec site) in
           if rb_ip bucket \<noteq> ip \<or> rb_window_start bucket + window \<le> now then
             ((False, 0), buckets[idx := \<lparr>rb_ip = ip, rb_window_start = now, rb_count = 1\<rparr>])
           else if site_rate_limit_requests site \<le> rb_count bucket then
             (let reset = rb_window_start bucket + window in
              ((True, if now < reset then to_int32 (uint (reset - now)) else 1), buckets))
           else
             ((False, 0), buckets[idx := bucket\<lparr>rb_count := rb_count bucket + 1\<rparr>])))"

section \<open>Runs\<close>

text \<open>The zeroed buckets of a freshly read configuration.\<close>

definition fresh_buckets :: "rate_bucket list" where
  "fresh_buckets = replicate RATE_BUCKETS \<lparr>rb_ip = 0, rb_window_start = 0, rb_count = 0\<rparr>"

text \<open>The number of admitted requests of one address in a sequence of timed requests.\<close>

fun admitted_run :: "site_config \<Rightarrow> u32 \<Rightarrow> (string \<times> u64) list \<Rightarrow> rate_bucket list \<Rightarrow> nat" where
  "admitted_run site addr [] bs = 0"
| "admitted_run site addr ((ip, now) # es) bs =
     (let ((limited, _), bs') = rpsiod_rate_limit_exceeded site ip now bs in
      (if inet_pton4 ip = Some addr \<and> \<not> limited then 1 else 0) + admitted_run site addr es bs')"

text \<open>The verdicts (\<open>True\<close>: limited) of a sequence of requests.\<close>

fun rate_run :: "site_config \<Rightarrow> (string \<times> u64) list \<Rightarrow> rate_bucket list \<Rightarrow> bool list" where
  "rate_run site [] bs = []"
| "rate_run site ((ip, now) # es) bs =
     (let ((limited, _), bs') = rpsiod_rate_limit_exceeded site ip now bs in
      limited # rate_run site es bs')"

section \<open>One bucket\<close>

definition limiter_on :: "site_config \<Rightarrow> bool" where
  "limiter_on site \<longleftrightarrow> site_rate_limit_enabled site \<and> site_rate_limit_requests site \<noteq> 0 \<and>
     0 < site_rate_limit_window_sec site \<and> site_rate_limit_window_sec site \<le> INT_MAX"

definition bucket_index :: "u32 \<Rightarrow> nat" where
  "bucket_index addr = unat addr mod RATE_BUCKETS"

lemma bucket_index_less [simp]: "bucket_index addr < RATE_BUCKETS"
  by (simp add: bucket_index_def)

lemma fresh_buckets_simps [simp]:
  "length fresh_buckets = RATE_BUCKETS" "rb_ip (fresh_buckets ! bucket_index addr) = 0"
  by (simp_all add: fresh_buckets_def)

text \<open>The counter of one bucket: what a request does to it, and the verdict.\<close>

definition bucket_step :: "site_config \<Rightarrow> u32 \<Rightarrow> u64 \<Rightarrow> rate_bucket \<Rightarrow> bool \<times> rate_bucket" where
  "bucket_step site addr now b =
     (if rb_ip b \<noteq> addr \<or> rb_window_start b + word_of_int (site_rate_limit_window_sec site) \<le> now
      then (False, \<lparr>rb_ip = addr, rb_window_start = now, rb_count = 1\<rparr>)
      else if site_rate_limit_requests site \<le> rb_count b then (True, b)
      else (False, b\<lparr>rb_count := rb_count b + 1\<rparr>))"

lemma bucket_step_cases:
  "bucket_step site addr now b = (False, \<lparr>rb_ip = addr, rb_window_start = now, rb_count = 1\<rparr>) \<or>
   bucket_step site addr now b = (True, b) \<or>
   bucket_step site addr now b = (False, b\<lparr>rb_count := rb_count b + 1\<rparr>) \<and>
     \<not> site_rate_limit_requests site \<le> rb_count b"
  by (simp add: bucket_step_def)

lemma exceeded_bucket_step:
  assumes "limiter_on site" and "inet_pton4 ip = Some addr"
  shows "fst (fst (rpsiod_rate_limit_exceeded site ip now bs)) =
           fst (bucket_step site addr now (bs ! bucket_index addr))"
    and "snd (rpsiod_rate_limit_exceeded site ip now bs) =
           bs[bucket_index addr := snd (bucket_step site addr now (bs ! bucket_index addr))]"
  using assms by (simp_all add: rpsiod_rate_limit_exceeded_def limiter_on_def bucket_step_def
      bucket_index_def Let_def)

lemma exceeded_other_bucket:
  assumes "\<forall>a. inet_pton4 ip = Some a \<longrightarrow> bucket_index a \<noteq> bucket_index addr"
  shows "snd (rpsiod_rate_limit_exceeded site ip now bs) ! bucket_index addr = bs ! bucket_index addr"
  using assms by (auto simp: rpsiod_rate_limit_exceeded_def bucket_index_def Let_def split: option.splits)

lemma exceeded_length: "length (snd (rpsiod_rate_limit_exceeded site ip now bs)) = length bs"
  by (auto simp: rpsiod_rate_limit_exceeded_def Let_def split: option.splits)

text \<open>Time: seconds from \<open>t0\<close> on, one window long, far from the end of the 64-bit clock.\<close>

definition within_window :: "site_config \<Rightarrow> u64 \<Rightarrow> u64 \<Rightarrow> bool" where
  "within_window site t0 t \<longleftrightarrow>
     unat t0 \<le> unat t \<and> unat t < unat t0 + nat (site_rate_limit_window_sec site)"

lemma window_word:
  fixes t0 t :: u64
  assumes "limiter_on site" and "unat t0 + nat (site_rate_limit_window_sec site) < 2 ^ 64"
  shows "t0 + word_of_int (site_rate_limit_window_sec site) \<le> t \<longleftrightarrow>
     unat t0 + nat (site_rate_limit_window_sec site) \<le> unat t"
proof -
  let ?w = "site_rate_limit_window_sec site"
  have w: "word_of_int ?w = (word_of_nat (nat ?w) :: u64)"
    using assms(1) by (metis limiter_on_def nat_0_le less_imp_le of_int_of_nat_eq)
  have "unat (word_of_nat (nat ?w) :: u64) = nat ?w"
    using assms(2) by (simp add: unat_of_nat)
  then have "unat (t0 + word_of_nat (nat ?w)) = unat t0 + nat ?w"
    using assms(2) by (simp add: unat_word_ariths)
  then show ?thesis unfolding w by (simp add: word_le_nat_alt)
qed

definition bucket_left :: "site_config \<Rightarrow> rate_bucket \<Rightarrow> nat" where
  "bucket_left site b = unat (site_rate_limit_requests site) - unat (rb_count b)"

lemma unat_u32: "unat (w :: u32) < 2 ^ 32"
  by (rule order_less_le_trans [OF unsigned_less]) simp

lemma bucket_count_suc:
  "\<not> site_rate_limit_requests site \<le> rb_count b \<Longrightarrow>
     Suc (bucket_left site (b\<lparr>rb_count := rb_count b + 1\<rparr>)) = bucket_left site b"
proof -
  assume "\<not> site_rate_limit_requests site \<le> rb_count b"
  then have "unat (rb_count b) < unat (site_rate_limit_requests site)"
    by (simp add: word_le_nat_alt)
  moreover from this have "unat (rb_count b + 1) = unat (rb_count b) + 1"
    using unat_u32 [of "site_rate_limit_requests site"] by (simp add: unat_word_ariths)
  ultimately show ?thesis by (simp add: bucket_left_def)
qed

section \<open>Bounds\<close>

text \<open>The requests of other addresses that fall into the bucket of this one.\<close>

definition collides :: "u32 \<Rightarrow> string \<Rightarrow> bool" where
  "collides addr ip \<longleftrightarrow>
     (case inet_pton4 ip of None \<Rightarrow> False | Some a \<Rightarrow> a \<noteq> addr \<and> bucket_index a = bucket_index addr)"

definition colliding :: "u32 \<Rightarrow> (string \<times> u64) list \<Rightarrow> nat" where
  "colliding addr es = length (filter (\<lambda>e. collides addr (fst e)) es)"

lemma colliding_simps [simp]:
  "colliding addr [] = 0"
  "colliding addr ((ip, now) # es) = (if collides addr ip then 1 else 0) + colliding addr es"
  by (simp_all add: colliding_def)

text \<open>A request is for this address, for one that evicts it, or does not touch its bucket.\<close>

lemma request_cases:
  assumes "limiter_on site" and "length bs = RATE_BUCKETS"
  obtains (own) "inet_pton4 ip = Some addr" "\<not> collides addr ip"
      "fst (fst (rpsiod_rate_limit_exceeded site ip now bs)) = fst (bucket_step site addr now (bs ! bucket_index addr))"
      "snd (rpsiod_rate_limit_exceeded site ip now bs) ! bucket_index addr = snd (bucket_step site addr now (bs ! bucket_index addr))"
  | (evicted) "inet_pton4 ip \<noteq> Some addr" "collides addr ip"
      "rb_ip (snd (rpsiod_rate_limit_exceeded site ip now bs) ! bucket_index addr) \<noteq> addr"
  | (other) "inet_pton4 ip \<noteq> Some addr" "\<not> collides addr ip"
      "snd (rpsiod_rate_limit_exceeded site ip now bs) ! bucket_index addr = bs ! bucket_index addr"
proof (cases "inet_pton4 ip = Some addr")
  case True
  show thesis
    by (rule own) (use True exceeded_bucket_step [OF assms(1) True, of now bs] assms(2) in \<open>simp_all add: collides_def\<close>)
next
  case no: False
  show thesis
  proof (cases "collides addr ip")
    case True
    then obtain a where a: "inet_pton4 ip = Some a" "a \<noteq> addr" "bucket_index a = bucket_index addr"
      by (auto simp: collides_def split: option.splits)
    have "rb_ip (snd (bucket_step site a now (bs ! bucket_index a))) = a"
      by (simp add: bucket_step_def)
    then show thesis
      using exceeded_bucket_step(2) [OF assms(1) a(1), of now bs] a assms(2)
      by (intro evicted [OF no True]) simp
  next
    case False
    with no have "\<forall>a. inet_pton4 ip = Some a \<longrightarrow> bucket_index a \<noteq> bucket_index addr"
      by (auto simp: collides_def)
    from exceeded_other_bucket [OF this] show thesis by (rule other [OF no False])
  qed
qed

text \<open>From a bucket whose window cannot end in the stretch of time considered.\<close>

lemma admitted_alive:
  assumes on: "limiter_on site" and t0: "unat t0 + 2 * nat (site_rate_limit_window_sec site) < 2 ^ 64"
  shows "length bs = RATE_BUCKETS \<Longrightarrow>
     (rb_ip (bs ! bucket_index addr) = addr \<Longrightarrow> within_window site t0 (rb_window_start (bs ! bucket_index addr))) \<Longrightarrow>
     \<forall>(ip, t) \<in> set es. within_window site t0 t \<Longrightarrow>
     admitted_run site addr es bs \<le>
       (if rb_ip (bs ! bucket_index addr) = addr then bucket_left site (bs ! bucket_index addr)
        else unat (site_rate_limit_requests site)) +
       colliding addr es * unat (site_rate_limit_requests site)"
proof (induction es arbitrary: bs)
  case (Cons e es)
  obtain ip now where e: "e = (ip, now)" by fastforce
  let ?r = "rpsiod_rate_limit_exceeded site ip now bs" and ?R = "unat (site_rate_limit_requests site)"
  let ?b = "bs ! bucket_index addr" and ?b' = "snd ?r ! bucket_index addr"
  have win: "within_window site t0 now" using Cons.prems e by auto
  have pos: "0 < ?R" using on by (simp add: limiter_on_def unat_gt_0)
  have IH: "admitted_run site addr es (snd ?r) \<le> (if rb_ip ?b' = addr then bucket_left site ?b' else ?R) + colliding addr es * ?R"
    if "rb_ip ?b' = addr \<Longrightarrow> within_window site t0 (rb_window_start ?b')"
    using Cons.prems that by (intro Cons.IH) (auto simp: exceeded_length)
  have left: "bucket_left site ?b' \<le> ?R" by (simp add: bucket_left_def)
  have run: "admitted_run site addr (e # es) bs =
      (if inet_pton4 ip = Some addr \<and> \<not> fst (fst ?r) then 1 else 0) + admitted_run site addr es (snd ?r)"
    by (simp add: e split_beta)
  show ?case
  proof (cases rule: request_cases [OF on Cons.prems(1), of ip addr now, case_names own evicted other])
    case evicted
    then have "admitted_run site addr es (snd ?r) \<le> ?R + colliding addr es * ?R" using IH by simp
    with evicted show ?thesis unfolding run unfolding e by simp
  next
    case other
    from IH [unfolded other(3), OF Cons.prems(2)] other show ?thesis unfolding run unfolding e by simp
  next
    case own
    show ?thesis
    proof (cases "rb_ip ?b = addr")
      case False
      then have s: "bucket_step site addr now ?b = (False, \<lparr>rb_ip = addr, rb_window_start = now, rb_count = 1\<rparr>)"
        by (simp add: bucket_step_def)
      with own IH win have "admitted_run site addr es (snd ?r) \<le> ?R - 1 + colliding addr es * ?R"
        by (simp add: bucket_left_def)
      with own run s e pos False show ?thesis by simp
    next
      case True
      note start = Cons.prems(2) [OF True]
      have "unat (rb_window_start ?b) + nat (site_rate_limit_window_sec site) < 2 ^ 64"
        using start t0 by (auto simp: within_window_def)
      from window_word [OF on this] start win
      have live: "\<not> rb_window_start ?b + word_of_int (site_rate_limit_window_sec site) \<le> now"
        by (auto simp: within_window_def)
      show ?thesis
      proof (cases "site_rate_limit_requests site \<le> rb_count ?b")
        case full: True
        with True live have s: "bucket_step site addr now ?b = (True, ?b)" by (simp add: bucket_step_def)
        with own IH run e True start show ?thesis by simp
      next
        case False
        with True live have s: "bucket_step site addr now ?b = (False, ?b\<lparr>rb_count := rb_count ?b + 1\<rparr>)"
          by (simp add: bucket_step_def)
        with own IH run e True start bucket_count_suc [OF False] show ?thesis by simp
      qed
    qed
  qed
qed simp

lemma admitted_window:
  assumes on: "limiter_on site" and t0: "unat t0 + 2 * nat (site_rate_limit_window_sec site) < 2 ^ 64"
  shows "length bs = RATE_BUCKETS \<Longrightarrow> \<forall>(ip, t) \<in> set es. within_window site t0 t \<Longrightarrow>
     admitted_run site addr es bs \<le>
       bucket_left site (bs ! bucket_index addr) + unat (site_rate_limit_requests site) +
       colliding addr es * unat (site_rate_limit_requests site)"
proof (induction es arbitrary: bs)
  case (Cons e es)
  obtain ip now where e: "e = (ip, now)" by fastforce
  let ?r = "rpsiod_rate_limit_exceeded site ip now bs" and ?R = "unat (site_rate_limit_requests site)"
  let ?b = "bs ! bucket_index addr" and ?b' = "snd ?r ! bucket_index addr"
  have pos: "0 < ?R" using on by (simp add: limiter_on_def unat_gt_0)
  have len: "length (snd ?r) = RATE_BUCKETS" using Cons.prems(1) by (simp add: exceeded_length)
  have win: "within_window site t0 now" "\<forall>(ip, t) \<in> set es. within_window site t0 t" using Cons.prems e by auto
  have IH: "admitted_run site addr es (snd ?r) \<le> bucket_left site ?b' + ?R + colliding addr es * ?R"
    using Cons.prems len by (intro Cons.IH) auto
  note alive = admitted_alive [OF on t0 len _ win(2), of addr]
  have run: "admitted_run site addr (e # es) bs =
      (if inet_pton4 ip = Some addr \<and> \<not> fst (fst ?r) then 1 else 0) + admitted_run site addr es (snd ?r)"
    by (simp add: e split_beta)
  show ?case
  proof (cases rule: request_cases [OF on Cons.prems(1), of ip addr now, case_names own evicted other])
    case evicted
    then have "admitted_run site addr es (snd ?r) \<le> ?R + colliding addr es * ?R" using alive by simp
    with evicted show ?thesis unfolding run unfolding e by simp
  next
    case other
    from IH [unfolded other(3)] other show ?thesis unfolding run unfolding e by simp
  next
    case own
    from bucket_step_cases [of site addr now ?b] consider
        (reset) "bucket_step site addr now ?b = (False, \<lparr>rb_ip = addr, rb_window_start = now, rb_count = 1\<rparr>)"
      | (full) "bucket_step site addr now ?b = (True, ?b)"
      | (count) "bucket_step site addr now ?b = (False, ?b\<lparr>rb_count := rb_count ?b + 1\<rparr>)"
        "\<not> site_rate_limit_requests site \<le> rb_count ?b"
      by blast
    then show ?thesis
    proof cases
      case reset
      with own alive win have "admitted_run site addr es (snd ?r) \<le> ?R - 1 + colliding addr es * ?R"
        by (simp add: bucket_left_def)
      with own run reset e pos show ?thesis by simp
    next
      case full
      with own IH run e show ?thesis by simp
    next
      case count
      with own IH run e bucket_count_suc [OF count(2)] show ?thesis by simp
    qed
  qed
qed simp

text \<open>
  C37: the limiter, where it is on, bounds every client: over any stretch of time not longer than the
  window (and far from the end of the 64-bit clock), from
  any state of the buckets and with any interleaving of clients and order of the clock's
  answers, at most twice the configured number of requests of an address is admitted, and once
  that number more for each request of another address in the same of the 1024 buckets (the
  fixed windows allow one burst on each side of a reset, and such a request resets the count).
\<close>

theorem rate_limit_bound:
  assumes "limiter_on site" and "length bs = RATE_BUCKETS"
    and "\<forall>(ip, t) \<in> set es. within_window site t0 t"
    and "unat t0 + 2 * nat (site_rate_limit_window_sec site) < 2 ^ 64"
  shows "admitted_run site addr es bs \<le> (2 + colliding addr es) * unat (site_rate_limit_requests site)"
  using admitted_window [OF assms(1,4,2,3), of addr] by (simp add: bucket_left_def)

definition demo_limited :: site_config where
  "demo_limited = site_defaults\<lparr>site_rate_limit_enabled := True, site_rate_limit_requests := 2\<rparr>"

lemma demo_address: "inet_pton4 ''10.0.0.1'' = Some 167772161" "inet_pton4 ''10.0.4.1'' = Some 167773185"
proof -
  have "map quad_byte (split_on (CHR ''.'') ''10.0.0.1'') = [Some 10, Some 0, Some 0, Some 1]"
    "map quad_byte (split_on (CHR ''.'') ''10.0.4.1'') = [Some 10, Some 0, Some 4, Some 1]"
    by code_simp+
  then show "inet_pton4 ''10.0.0.1'' = Some 167772161" "inet_pton4 ''10.0.4.1'' = Some 167773185"
    unfolding inet_pton4_def by simp_all
qed

theorem rate_limit_bound_witness:
  "admitted_run demo_limited 167772161 [(''10.0.0.1'', 5), (''10.0.0.1'', 6), (''10.0.4.1'', 7), (''10.0.0.1'', 7)]
     fresh_buckets \<le> (2 + 1) * 2"
proof -
  let ?es = "[(''10.0.0.1'', 5), (''10.0.0.1'', 6), (''10.0.4.1'', 7), (''10.0.0.1'', 7)] :: (string \<times> u64) list"
  have "limiter_on demo_limited"
    by (simp add: demo_limited_def site_defaults_def limiter_on_def INT_MAX_def)
  moreover have "\<forall>(ip, t) \<in> set ?es. within_window demo_limited 5 t"
    by (simp add: within_window_def demo_limited_def site_defaults_def)
  moreover have "unat (5 :: u64) + 2 * nat (site_rate_limit_window_sec demo_limited) < 2 ^ 64"
    by (simp add: demo_limited_def site_defaults_def)
  moreover have "colliding 167772161 ?es = 1"
    by (simp add: collides_def demo_address bucket_index_def)
  moreover have "unat (site_rate_limit_requests demo_limited) = 2"
    by (simp add: demo_limited_def)
  ultimately show ?thesis
    using rate_limit_bound [of demo_limited fresh_buckets ?es 5 167772161] by simp
qed

text \<open>
  clients whose addresses differ by a multiple of 1024 share a bucket and evict each
  other, so two of them taking turns are never limited, whatever the configured rate.
\<close>

theorem rate_limit_collision_evades:
  assumes "limiter_on site" and "length bs = RATE_BUCKETS"
    and "inet_pton4 ip = Some a" and "inet_pton4 ip' = Some a'" and "a \<noteq> a'"
    and "bucket_index a = bucket_index a'" and "rb_ip (bs ! bucket_index a) \<noteq> a"
  shows "rate_run site (concat (replicate n [(ip, t), (ip', t)])) bs = replicate (2 * n) False"
  using assms(2,7)
proof (induction n arbitrary: bs)
  case (Suc n)
  let ?r = "rpsiod_rate_limit_exceeded site ip t bs"
  let ?r' = "rpsiod_rate_limit_exceeded site ip' t (snd ?r)"
  have 1: "fst (fst ?r) = False \<and> rb_ip (snd ?r ! bucket_index a) = a \<and> length (snd ?r) = RATE_BUCKETS"
    using exceeded_bucket_step [OF assms(1,3), of t bs] Suc.prems
    by (simp add: bucket_step_def)
  have 2: "fst (fst ?r') = False \<and> rb_ip (snd ?r' ! bucket_index a) = a' \<and> length (snd ?r') = RATE_BUCKETS"
    using exceeded_bucket_step [OF assms(1,4), of t "snd ?r"] 1 assms(5,6)
    by (simp add: bucket_step_def)
  show ?case
    using Suc.IH [of "snd ?r'"] 1 2 assms(5) by (simp add: split_beta)
qed simp

lemma fresh_bucket_1: "rb_ip (fresh_buckets ! Suc 0) = 0" "rb_ip (fresh_buckets ! 1) = 0"
  using fresh_buckets_simps(2) [of 1] by (simp_all add: bucket_index_def)

theorem rate_limit_collision_evades_witness:
  "rate_run demo_limited (concat (replicate 50 [(''10.0.0.1'', 7), (''10.0.4.1'', 7)])) fresh_buckets =
   replicate (2 * 50) False"
  by (rule rate_limit_collision_evades [OF _ _ demo_address])
     (simp add: demo_limited_def site_defaults_def limiter_on_def INT_MAX_def,
      simp_all add: bucket_index_def fresh_bucket_1)

end
