(* ===== verification/ConfigParse.thy ===== *)
theory ConfigParse
  imports Config
begin

text \<open>
  The configuration file reader of \<open>src/config.c\<close>: the line scanner for the YAML subset, the
  key dispatch for \<open>server.yml\<close> and \<open>sites.yml\<close>, and the two file loops.  A file is
  its contents, or \<open>None\<close> when \<open>fopen\<close> fails; \<open>fgets\<close> cuts it into lines of at most 4095
  characters.  \<open>parse_fail\<close> makes the caller return at once, so the operations that may call it
  return \<open>Inl\<close> of the message instead of setting \<open>parse_failed\<close>.
\<close>

section \<open>Lines\<close>

fun take_line :: "nat \<Rightarrow> string \<Rightarrow> string" where
  "take_line 0 s = []"
| "take_line (Suc k) [] = []"
| "take_line (Suc k) (c # cs) = (if c = LF then [c] else c # take_line k cs)"

lemma length_take_line: "length (take_line k s) \<le> length s"
  by (induction k s rule: take_line.induct) auto

function fgets_lines :: "nat \<Rightarrow> string \<Rightarrow> string list" where
  "fgets_lines n s =
     (if s = [] \<or> n \<le> 1 then []
      else let l = take_line (n - 1) s in cstr l # fgets_lines n (drop (length l) s))"
  by pat_completeness auto
termination
proof (relation "measure (length \<circ> snd)", simp, goal_cases)
  case (1 n s l)
  then have "0 < length (take_line (n - 1) s)"
    by (cases s; cases "n - 1") auto
  with 1 show ?case by simp
qed

declare fgets_lines.simps [simp del]

fun strip_comment_loop :: "bool \<Rightarrow> char \<Rightarrow> char option \<Rightarrow> string \<Rightarrow> string" where
  "strip_comment_loop quoted q prev [] = []"
| "strip_comment_loop quoted q prev (c # cs) =
     (let (quoted', q') =
        (if (c = CHR 0x27 \<or> c = CHR 0x22) \<and> prev \<noteq> Some (CHR 0x5C) then
           (if \<not> quoted then (True, c) else if c = q then (False, q) else (quoted, q))
         else (quoted, q)) in
      if c = CHR ''#'' \<and> \<not> quoted' then []
      else c # strip_comment_loop quoted' q' (Some c) cs)"

definition strip_comment :: "string \<Rightarrow> string" where
  "strip_comment line = strip_comment_loop False NUL None line"

definition indent_level :: "string \<Rightarrow> nat" where
  "indent_level line = length (takeWhile (\<lambda>c. c = CHR '' '') line) div 4"

definition split_key_value :: "string \<Rightarrow> nat \<Rightarrow> nat \<Rightarrow> (string \<times> string) option" where
  "split_key_value line key_len value_len =
     (case strchr (CHR '':'') line of
        None \<Rightarrow> None
      | Some (before_colon, colon) \<Rightarrow>
          (let key = rpsiod_trim (safe_copy key_len before_colon);
               value = rpsiod_trim (safe_copy value_len (tl colon)) in
           if key = [] then None else Some (key, value)))"

section \<open>The stack of enclosing keys\<close>

text \<open>\<open>yaml_stack_item stack[32]\<close>: the key last seen at each indentation level.\<close>

type_synonym yaml_stack = "string list"

definition empty_stack :: yaml_stack where
  "empty_stack = replicate 32 []"

definition stack_set :: "yaml_stack \<Rightarrow> nat \<Rightarrow> string \<Rightarrow> yaml_stack" where
  "stack_set stack level key =
     (if 32 \<le> level then stack
      else take level stack @ [safe_copy 64 key] @ replicate (31 - level) [])"

definition path_has :: "yaml_stack \<Rightarrow> nat \<Rightarrow> string \<Rightarrow> bool" where
  "path_has stack max_level key = list_ex (\<lambda>k. k = key) (take (max_level + 1) stack)"

definition parent_is :: "yaml_stack \<Rightarrow> nat \<Rightarrow> string \<Rightarrow> bool" where
  "parent_is stack level key =
     (if level = 0 \<or> 32 \<le> level - 1 then False else stack ! (level - 1) = key)"

section \<open>Values\<close>

definition parse_long :: "string \<Rightarrow> int \<Rightarrow> int" where
  "parse_long value fallback = (case strtol value of None \<Rightarrow> fallback | Some (n, _) \<Rightarrow> n)"

definition parse_bool_strict :: "string \<Rightarrow> bool option" where
  "parse_bool_strict value =
     (if rpsiod_streq_ci value ''true'' \<or> rpsiod_streq_ci value ''yes'' \<or> value = ''1'' then Some True
      else if rpsiod_streq_ci value ''false'' \<or> rpsiod_streq_ci value ''no'' \<or> value = ''0''
      then Some False
      else None)"

definition apply_bool_value :: "string \<Rightarrow> string \<Rightarrow> (bool \<Rightarrow> 'a) \<Rightarrow> string + 'a" where
  "apply_bool_value field value store =
     (case parse_bool_strict value of
        None \<Rightarrow> Inl (field @ '' must be a boolean'')
      | Some b \<Rightarrow> Inr (store b))"

definition parse_port_strict :: "string \<Rightarrow> u16 option" where
  "parse_port_strict value =
     (case strtol value of
        None \<Rightarrow> None
      | Some (n, end, erange) \<Rightarrow>
          if erange \<or> end \<noteq> [] \<or> n < 1 \<or> 65535 < n then None else Some (word_of_int n))"

definition apply_port_value :: "string \<Rightarrow> string \<Rightarrow> (u16 \<Rightarrow> 'a) \<Rightarrow> string + 'a" where
  "apply_port_value field value store =
     (case parse_port_strict value of
        None \<Rightarrow> Inl (field @ '' must be a TCP port between 1 and 65535'')
      | Some n \<Rightarrow> Inr (store n))"

section \<open>server.yml\<close>

definition apply_server_value ::
  "config \<Rightarrow> yaml_stack \<Rightarrow> nat \<Rightarrow> string \<Rightarrow> string \<Rightarrow> string + config" where
  "apply_server_value cfg stack level key value =
     (if value = [] then Inr cfg
      else if key = ''name'' \<and> parent_is stack level ''server'' then
        Inr (cfg\<lparr>cfg_name := safe_copy 64 value\<rparr>)
      else if key = ''environment'' then
        Inr (cfg\<lparr>cfg_environment := safe_copy 64 value\<rparr>)
      else if key = ''user'' \<and> path_has stack level ''linux'' then
        Inr (cfg\<lparr>cfg_linux_user := safe_copy 64 value\<rparr>)
      else if key = ''group'' \<and> path_has stack level ''linux'' then
        Inr (cfg\<lparr>cfg_linux_group := safe_copy 64 value\<rparr>)
      else if key = ''pidFile'' then
        Inr (cfg\<lparr>cfg_pid_file := safe_copy 256 value\<rparr>)
      else if key = ''reusePort'' then
        apply_bool_value ''linux.sockets.reusePort'' value
          (\<lambda>b. cfg\<lparr>cfg_reuse_port := b\<rparr>)
      else if key = ''tcpFastOpen'' then
        apply_bool_value ''linux.sockets.tcpFastOpen'' value
          (\<lambda>b. cfg\<lparr>cfg_tcp_fast_open := b\<rparr>)
      else if key = ''backlog'' then
        Inr (cfg\<lparr>cfg_backlog := to_int32 (parse_long value (cfg_backlog cfg))\<rparr>)
      else if key = ''openFiles'' then
        Inr (cfg\<lparr>cfg_open_files := rpsiod_parse_size value (cfg_open_files cfg)\<rparr>)
      else if key = ''maxProcesses'' then
        Inr (cfg\<lparr>cfg_max_processes :=
          rpsiod_parse_size value (cfg_max_processes cfg)\<rparr>)
      else if key = ''workers'' then
        (if rpsiod_streq_ci value ''auto'' then Inr (cfg\<lparr>cfg_workers_auto := True\<rparr>)
         else Inr (cfg\<lparr>cfg_workers_auto := False,
                   cfg_workers := to_int32 (parse_long value (cfg_workers cfg))\<rparr>))
      else if key = ''maxConnections'' then
        Inr (cfg\<lparr>cfg_max_connections :=
          rpsiod_parse_size value (cfg_max_connections cfg)\<rparr>)
      else if key = ''enabled'' \<and> path_has stack level ''keepAlive'' then
        apply_bool_value ''performance.keepAlive.enabled'' value
          (\<lambda>b. cfg\<lparr>cfg_keep_alive_enabled := b\<rparr>)
      else if key = ''timeout'' \<and> path_has stack level ''keepAlive'' then
        Inr (cfg\<lparr>cfg_keep_alive_timeout_sec :=
          rpsiod_parse_duration_sec value (cfg_keep_alive_timeout_sec cfg)\<rparr>)
      else if key = ''maxRequests'' then
        Inr (cfg\<lparr>cfg_keep_alive_max_requests :=
          to_int32 (parse_long value (cfg_keep_alive_max_requests cfg))\<rparr>)
      else if key = ''requestHeader'' then
        Inr (cfg\<lparr>cfg_request_header_buffer :=
          rpsiod_parse_size value (cfg_request_header_buffer cfg)\<rparr>)
      else if key = ''response'' \<and> path_has stack level ''buffers'' then
        Inr (cfg\<lparr>cfg_response_buffer :=
          rpsiod_parse_size value (cfg_response_buffer cfg)\<rparr>)
      else if key = ''sendfile'' then
        apply_bool_value ''performance.staticFiles.sendfile'' value
          (\<lambda>b. cfg\<lparr>cfg_sendfile_enabled := b\<rparr>)
      else if key = ''readAhead'' then
        apply_bool_value ''performance.staticFiles.readAhead'' value
          (\<lambda>b. cfg\<lparr>cfg_read_ahead_enabled := b\<rparr>)
      else if key = ''enabled'' \<and> path_has stack level ''openFileCache'' then
        apply_bool_value ''performance.openFileCache.enabled'' value
          (\<lambda>b. cfg\<lparr>cfg_open_file_cache_enabled := b\<rparr>)
      else if (key = ''maxFiles'' \<or> key = ''max'') \<and>
      path_has stack level ''openFileCache'' then
        (let parsed = rpsiod_parse_size value (cfg_open_file_cache_max cfg) in
         Inr (cfg\<lparr>cfg_open_file_cache_max :=
                     if OPEN_FILE_CACHE_MAX < parsed then OPEN_FILE_CACHE_MAX else parsed\<rparr>))
      else if key = ''hideVersion'' then
        apply_bool_value ''security.hideVersion'' value
          (\<lambda>b. cfg\<lparr>cfg_hide_version := b\<rparr>)
      else if key = ''dropPrivileges'' then
        apply_bool_value ''security.dropPrivileges'' value
          (\<lambda>b. cfg\<lparr>cfg_drop_privileges := b\<rparr>)
      else if key = ''preventCoreDumps'' then
        apply_bool_value ''security.preventCoreDumps'' value
          (\<lambda>b. cfg\<lparr>cfg_prevent_core_dumps := b\<rparr>)
      else if key = ''enabled'' \<and> path_has stack level ''chroot'' then
        apply_bool_value ''security.chroot.enabled'' value
          (\<lambda>b. cfg\<lparr>cfg_chroot_enabled := b\<rparr>)
      else if key = ''path'' \<and> path_has stack level ''chroot'' then
        Inr (cfg\<lparr>cfg_chroot_path := safe_copy 512 value\<rparr>)
      else if key = ''level'' \<and> path_has stack level ''logging'' then
        Inr (cfg\<lparr>cfg_logging_level := safe_copy 32 value\<rparr>)
      else if key = ''format'' \<and> path_has stack level ''logging'' then
        Inr (cfg\<lparr>cfg_logging_format := safe_copy 32 value\<rparr>)
      else if key = ''enabled'' \<and> path_has stack level ''access'' then
        apply_bool_value ''logging.access.enabled'' value
          (\<lambda>b. cfg\<lparr>cfg_access_log := (cfg_access_log cfg)\<lparr>lp_enabled := b\<rparr>\<rparr>)
      else if key = ''path'' \<and> path_has stack level ''access'' then
        Inr (cfg\<lparr>cfg_access_log :=
          (cfg_access_log cfg)\<lparr>lp_path := safe_copy 512 value\<rparr>\<rparr>)
      else if key = ''enabled'' \<and> path_has stack level ''error'' then
        apply_bool_value ''logging.error.enabled'' value
          (\<lambda>b. cfg\<lparr>cfg_error_log := (cfg_error_log cfg)\<lparr>lp_enabled := b\<rparr>\<rparr>)
      else if key = ''path'' \<and> path_has stack level ''error'' then
        Inr (cfg\<lparr>cfg_error_log :=
          (cfg_error_log cfg)\<lparr>lp_path := safe_copy 512 value\<rparr>\<rparr>)
      else if key = ''enabled'' \<and> path_has stack level ''benchmarks'' then
        apply_bool_value ''benchmarks.enabled'' value
          (\<lambda>b. cfg\<lparr>cfg_benchmarks_enabled := b\<rparr>)
      else if key = ''ip'' \<and> path_has stack level ''benchmarks'' then
        Inr (cfg\<lparr>cfg_benchmarks_ip := safe_copy 64 value\<rparr>)
      else if key = ''port'' \<and> path_has stack level ''benchmarks'' then
        apply_port_value ''benchmarks.listen.port'' value
          (\<lambda>n. cfg\<lparr>cfg_benchmarks_port := n\<rparr>)
      else if key = ''path'' \<and> path_has stack level ''storage'' then
        Inr (cfg\<lparr>cfg_benchmarks_storage_path := safe_copy 512 value\<rparr>)
      else if key = ''sitesFile'' then
        Inr (cfg\<lparr>cfg_sites_file := safe_copy 512 value\<rparr>)
      else Inr cfg)"

datatype config_error =
    OpenFailed string
  | ExpectedKeyValue string nat
  | BadValue string nat string
  | TooManySites string nat
  | Rejected string
  | SiteRejected string string

text \<open>One pass of the file loop: the line is a comment or blank, or a key and its value.\<close>

definition line_content :: "string \<Rightarrow> nat \<times> string" where
  "line_content raw =
     (let line = strip_comment raw in
      (indent_level line, rpsiod_trim (dropWhile (\<lambda>c. c = CHR '' '') line)))"

fun parse_server_lines ::
  "string \<Rightarrow> nat \<Rightarrow> yaml_stack \<Rightarrow> config \<Rightarrow> string list \<Rightarrow> config_error + config" where
  "parse_server_lines path line_no stack cfg [] = Inr cfg"
| "parse_server_lines path line_no stack cfg (raw # rest) =
     (let (level, line) = line_content raw in
      if line = [] then parse_server_lines path (line_no + 1) stack cfg rest
      else case split_key_value line 128 1024 of
        None \<Rightarrow> Inl (ExpectedKeyValue path line_no)
      | Some (key, value) \<Rightarrow>
          (case apply_server_value cfg stack level key value of
             Inl msg \<Rightarrow> Inl (BadValue path line_no msg)
           | Inr cfg' \<Rightarrow>
               parse_server_lines path (line_no + 1) (stack_set stack level key) cfg' rest))"

definition parse_server_file :: "config \<Rightarrow> string \<Rightarrow> string option \<Rightarrow> config_error + config" where
  "parse_server_file cfg path file =
     (case file of
        None \<Rightarrow> Inl (OpenFailed path)
      | Some text \<Rightarrow> parse_server_lines path 1 empty_stack cfg (fgets_lines 4096 text))"

section \<open>Lists of a site\<close>

definition append_bounded :: "nat \<Rightarrow> nat \<Rightarrow> string list \<Rightarrow> string \<Rightarrow> string list" where
  "append_bounded max_count cell arr value =
     (if length arr < max_count then arr @ [safe_copy cell value] else arr)"

definition append_method :: "site_config \<Rightarrow> string \<Rightarrow> site_config" where
  "append_method site value =
     site\<lparr>site_allowed_methods := append_bounded MAX_METHODS 16 (site_allowed_methods site) value\<rparr>"

definition append_blocked :: "site_config \<Rightarrow> string \<Rightarrow> site_config" where
  "append_blocked site value =
     site\<lparr>site_blocked_direct_access :=
            append_bounded MAX_BLOCKED 128 (site_blocked_direct_access site) value\<rparr>"

definition append_header_remove :: "site_config \<Rightarrow> string \<Rightarrow> site_config" where
  "append_header_remove site value =
     site\<lparr>site_headers_remove :=
            append_bounded MAX_HEADER_REMOVES 128 (site_headers_remove site) value\<rparr>"

definition append_header_add :: "site_config \<Rightarrow> string \<Rightarrow> string \<Rightarrow> site_config" where
  "append_header_add site key value =
     (if length (site_headers_add site) < MAX_HEADERS
      then site\<lparr>site_headers_add := site_headers_add site @
                  [\<lparr>hp_name = safe_copy 128 key, hp_value = safe_copy 512 value\<rparr>]\<rparr>
      else site)"

definition append_error_page :: "site_config \<Rightarrow> int \<Rightarrow> string \<Rightarrow> site_config" where
  "append_error_page site code value =
     (if length (site_error_pages site) < MAX_ERROR_PAGES
      then site\<lparr>site_error_pages := site_error_pages site @
                  [\<lparr>ep_code = code, ep_path = safe_copy 512 value\<rparr>]\<rparr>
      else site)"

definition apply_compression_algorithm :: "site_config \<Rightarrow> string \<Rightarrow> string + site_config" where
  "apply_compression_algorithm site value =
     (if rpsiod_streq_ci value ''gzip'' then Inr (site\<lparr>site_compression_gzip := True\<rparr>)
      else if rpsiod_streq_ci value ''br'' then Inr (site\<lparr>site_compression_br := True\<rparr>)
      else Inl ''compression.algorithms entries must be gzip or br'')"

text \<open>\<open>SITE_LIST_RULES\<close>: the first rule whose condition holds is applied.\<close>

definition apply_site_list_value ::
  "site_config \<Rightarrow> yaml_stack \<Rightarrow> nat \<Rightarrow> string \<Rightarrow> string + site_config" where
  "apply_site_list_value site stack level value =
     (if value = [] then Inr site
      else if parent_is stack level ''domains'' then
        Inr (site\<lparr>site_domains := append_bounded MAX_DOMAINS 256 (site_domains site) value\<rparr>)
      else if parent_is stack level ''index'' then
        Inr (site\<lparr>site_indexes := append_bounded MAX_INDEXES 128 (site_indexes site) value\<rparr>)
      else if parent_is stack level ''allowedMethods'' then Inr (append_method site value)
      else if parent_is stack level ''blockDirectAccess'' then Inr (append_blocked site value)
      else if parent_is stack level ''remove'' \<and> path_has stack level ''headers'' then
        Inr (append_header_remove site value)
      else if parent_is stack level ''algorithms'' \<and> path_has stack level ''compression'' then
        apply_compression_algorithm site value
      else Inr site)"

section \<open>sites.yml\<close>

definition apply_site_value ::
  "site_config \<Rightarrow> yaml_stack \<Rightarrow> nat \<Rightarrow> string \<Rightarrow> string \<Rightarrow> string + site_config" where
  "apply_site_value site stack level key value =
     (if value = [] then Inr site
      else if key = ''name'' then
        Inr (site\<lparr>site_name := safe_copy 128 value\<rparr>)
      else if key = ''enabled'' \<and> level = 2 then
        apply_bool_value ''site.enabled'' value (\<lambda>b. site\<lparr>site_enabled := b\<rparr>)
      else if key = ''serveAs'' then
        Inr (site\<lparr>site_serve_as := safe_copy 16 value\<rparr>)
      else if key = ''ip'' \<and> path_has stack level ''listen'' then
        Inr (site\<lparr>site_listen_ip := safe_copy 64 value\<rparr>)
      else if key = ''http'' \<and> path_has stack level ''ports'' then
        apply_port_value ''listen.ports.http'' value
          (\<lambda>n. site\<lparr>site_http_port := n\<rparr>)
      else if key = ''https'' \<and> path_has stack level ''ports'' then
        apply_port_value ''listen.ports.https'' value
          (\<lambda>n. site\<lparr>site_https_port := n\<rparr>)
      else if key = ''type'' \<and> path_has stack level ''routing'' then
        Inr (site\<lparr>site_routing_type := safe_copy 32 value\<rparr>)
      else if key = ''httpToHttps'' \<and> path_has stack level ''redirects'' then
        apply_bool_value ''redirects.httpToHttps'' value
          (\<lambda>b. site\<lparr>site_redirect_http_to_https := b\<rparr>)
      else if key = ''enabled'' \<and> path_has stack level ''www'' \<and>
      path_has stack level ''redirects'' then
        apply_bool_value ''redirects.www.enabled'' value
          (\<lambda>b. site\<lparr>site_redirect_www_enabled := b\<rparr>)
      else if key = ''mode'' \<and> path_has stack level ''www'' \<and>
      path_has stack level ''redirects'' then
        Inr (site\<lparr>site_redirect_www_mode := safe_copy 32 value\<rparr>)
      else if key = ''status'' \<and> path_has stack level ''www'' \<and>
      path_has stack level ''redirects'' then
        Inr (site\<lparr>site_redirect_www_status :=
          to_int32 (parse_long value (site_redirect_www_status site))\<rparr>)
      else if key = ''enabled'' \<and> path_has stack level ''ssl'' then
        apply_bool_value ''ssl.enabled'' value
          (\<lambda>b. site\<lparr>site_ssl_enabled := b\<rparr>)
      else if key = ''mode'' \<and> path_has stack level ''ssl'' then
        Inr (site\<lparr>site_ssl_mode := safe_copy 32 value\<rparr>)
      else if key = ''provider'' \<and> path_has stack level ''ssl'' then
        Inr (site\<lparr>site_ssl_provider := safe_copy 64 value\<rparr>)
      else if key = ''email'' \<and> path_has stack level ''ssl'' then
        Inr (site\<lparr>site_ssl_email := safe_copy 256 value\<rparr>)
      else if key = ''storage'' \<and> path_has stack level ''ssl'' then
        Inr (site\<lparr>site_ssl_storage := safe_copy 512 value\<rparr>)
      else if key = ''challenge'' \<and> path_has stack level ''ssl'' then
        Inr (site\<lparr>site_ssl_challenge := safe_copy 32 value\<rparr>)
      else if key = ''renewBefore'' \<and> path_has stack level ''ssl'' then
        Inr (site\<lparr>site_ssl_renew_before_sec :=
          rpsiod_parse_duration_sec value (site_ssl_renew_before_sec site)\<rparr>)
      else if key = ''root'' \<and> path_has stack level ''static'' then
        Inr (site\<lparr>site_static_root := safe_copy 512 value\<rparr>)
      else if key = ''fallback'' \<and> path_has stack level ''static'' then
        Inr (site\<lparr>site_fallback := safe_copy 256 value\<rparr>)
      else if key = ''directoryListing'' then
        apply_bool_value ''static.directoryListing'' value
          (\<lambda>b. site\<lparr>site_directory_listing := b\<rparr>)
      else if key = ''enabled'' \<and> path_has stack level ''maintenance'' then
        apply_bool_value ''maintenance.enabled'' value
          (\<lambda>b. site\<lparr>site_maintenance_enabled := b\<rparr>)
      else if key = ''status'' \<and> path_has stack level ''maintenance'' then
        Inr (site\<lparr>site_maintenance_status :=
          to_int32 (parse_long value (site_maintenance_status site))\<rparr>)
      else if key = ''page'' \<and> path_has stack level ''maintenance'' then
        Inr (site\<lparr>site_maintenance_page := safe_copy 512 value\<rparr>)
      else if is_digit (hd key) \<and> path_has stack level ''pages'' then
        Inr (append_error_page site (to_int32 (parse_long key 0)) value)
      else if key = ''maxBodySize'' \<and> path_has stack level ''limits'' \<and>
      path_has stack level ''php'' then
        Inr (site\<lparr>site_php_max_body_size :=
          rpsiod_parse_size value (site_php_max_body_size site)\<rparr>)
      else if key = ''maxBodySize'' then
        Inr (site\<lparr>site_max_body_size :=
          rpsiod_parse_size value (site_max_body_size site)\<rparr>)
      else if key = ''hideServerHeader'' then
        apply_bool_value ''security.hideServerHeader'' value
          (\<lambda>b. site\<lparr>site_hide_server_header := b\<rparr>)
      else if key = ''allowSymlinks'' then
        apply_bool_value ''security.allowSymlinks'' value
          (\<lambda>b. site\<lparr>site_allow_symlinks := b\<rparr>)
      else if key = ''enabled'' \<and> path_has stack level ''php'' then
        apply_bool_value ''php.enabled'' value
          (\<lambda>b. site\<lparr>site_php_enabled := b\<rparr>)
      else if key = ''type'' \<and> path_has stack level ''handler'' \<and>
      path_has stack level ''php'' then
        Inr (site\<lparr>site_php_handler_type := safe_copy 32 value\<rparr>)
      else if key = ''socket'' \<and> path_has stack level ''handler'' \<and>
      path_has stack level ''php'' then
        Inr (site\<lparr>site_php_socket := safe_copy 256 value\<rparr>)
      else if key = ''host'' \<and> path_has stack level ''handler'' \<and>
      path_has stack level ''php'' then
        Inr (site\<lparr>site_php_host := safe_copy 256 value\<rparr>)
      else if key = ''port'' \<and> path_has stack level ''handler'' \<and>
      path_has stack level ''php'' then
        apply_port_value ''php.handler.port'' value
          (\<lambda>n. site\<lparr>site_php_port := n\<rparr>)
      else if key = ''allowPathInfo'' \<and> path_has stack level ''security'' \<and>
      path_has stack level ''php'' then
        apply_bool_value ''php.security.allowPathInfo'' value
          (\<lambda>b. site\<lparr>site_php_allow_path_info := b\<rparr>)
      else if key = ''connect'' \<and> path_has stack level ''timeouts'' \<and>
      path_has stack level ''php'' then
        Inr (site\<lparr>site_php_connect_timeout_sec :=
          rpsiod_parse_duration_sec value (site_php_connect_timeout_sec site)\<rparr>)
      else if key = ''read'' \<and> path_has stack level ''timeouts'' \<and>
      path_has stack level ''php'' then
        Inr (site\<lparr>site_php_read_timeout_sec :=
          rpsiod_parse_duration_sec value (site_php_read_timeout_sec site)\<rparr>)
      else if key = ''write'' \<and> path_has stack level ''timeouts'' \<and>
      path_has stack level ''php'' then
        Inr (site\<lparr>site_php_write_timeout_sec :=
          rpsiod_parse_duration_sec value (site_php_write_timeout_sec site)\<rparr>)
      else if key = ''maxExecutionTime'' \<and> path_has stack level ''limits'' \<and>
      path_has stack level ''php'' then
        Inr (site\<lparr>site_php_max_execution_time_sec :=
          rpsiod_parse_duration_sec value (site_php_max_execution_time_sec site)\<rparr>)
      else if key = ''enabled'' \<and> path_has stack level ''rateLimit'' then
        apply_bool_value ''limits.rateLimit.enabled'' value
          (\<lambda>b. site\<lparr>site_rate_limit_enabled := b\<rparr>)
      else if key = ''requests'' \<and> path_has stack level ''rateLimit'' then
        (let requests = parse_long value (uint (site_rate_limit_requests site)) in
         Inr (site\<lparr>site_rate_limit_requests :=
                     if 0 < requests then word_of_int requests else site_rate_limit_requests site\<rparr>))
      else if key = ''window'' \<and> path_has stack level ''rateLimit'' then
        Inr (site\<lparr>site_rate_limit_window_sec :=
          rpsiod_parse_duration_sec value (site_rate_limit_window_sec site)\<rparr>)
      else if key = ''enabled'' \<and> path_has stack level ''compression'' then
        apply_bool_value ''compression.enabled'' value
          (\<lambda>b. site\<lparr>site_compression_enabled := b\<rparr>)
      else if key = ''minimumSize'' \<and> path_has stack level ''compression'' then
        Inr (site\<lparr>site_compression_minimum_size :=
          rpsiod_parse_size value (site_compression_minimum_size site)\<rparr>)
      else if key = ''enabled'' \<and> path_has stack level ''cache'' then
        apply_bool_value ''cache.enabled'' value
          (\<lambda>b. site\<lparr>site_cache_enabled := b\<rparr>)
      else if key = ''default'' \<and> path_has stack level ''cache'' then
        Inr (site\<lparr>site_cache_default := safe_copy 256 value\<rparr>)
      else if path_has stack level ''headers'' \<and> path_has stack level ''add'' then
        Inr (append_header_add site key value)
      else if key = ''scheme'' \<and> path_has stack level ''upstream'' \<and>
      path_has stack level ''proxy'' then
        Inr (site\<lparr>site_proxy_scheme := safe_copy 16 value\<rparr>)
      else if key = ''host'' \<and> path_has stack level ''upstream'' \<and>
      path_has stack level ''proxy'' then
        Inr (site\<lparr>site_proxy_host := safe_copy 256 value\<rparr>)
      else if key = ''port'' \<and> path_has stack level ''upstream'' \<and>
      path_has stack level ''proxy'' then
        apply_port_value ''proxy.upstream.port'' value
          (\<lambda>n. site\<lparr>site_proxy_port := n\<rparr>)
      else if key = ''websocket'' \<and> path_has stack level ''proxy'' then
        apply_bool_value ''proxy.websocket'' value
          (\<lambda>b. site\<lparr>site_proxy_websocket := b\<rparr>)
      else if key = ''passHost'' \<and> path_has stack level ''headers'' \<and>
      path_has stack level ''proxy'' then
        apply_bool_value ''proxy.headers.passHost'' value
          (\<lambda>b. site\<lparr>site_proxy_pass_host := b\<rparr>)
      else if key = ''realIp'' \<and> path_has stack level ''headers'' \<and>
      path_has stack level ''proxy'' then
        apply_bool_value ''proxy.headers.realIp'' value
          (\<lambda>b. site\<lparr>site_proxy_real_ip := b\<rparr>)
      else if key = ''forwardedFor'' \<and> path_has stack level ''headers'' \<and>
      path_has stack level ''proxy'' then
        apply_bool_value ''proxy.headers.forwardedFor'' value
          (\<lambda>b. site\<lparr>site_proxy_forwarded_for := b\<rparr>)
      else if key = ''forwardedProto'' \<and> path_has stack level ''headers'' \<and>
      path_has stack level ''proxy'' then
        apply_bool_value ''proxy.headers.forwardedProto'' value
          (\<lambda>b. site\<lparr>site_proxy_forwarded_proto := b\<rparr>)
      else if key = ''connect'' \<and> path_has stack level ''timeouts'' \<and>
      path_has stack level ''proxy'' then
        Inr (site\<lparr>site_proxy_connect_timeout_sec :=
          rpsiod_parse_duration_sec value (site_proxy_connect_timeout_sec site)\<rparr>)
      else if key = ''read'' \<and> path_has stack level ''timeouts'' \<and>
      path_has stack level ''proxy'' then
        Inr (site\<lparr>site_proxy_read_timeout_sec :=
          rpsiod_parse_duration_sec value (site_proxy_read_timeout_sec site)\<rparr>)
      else if key = ''write'' \<and> path_has stack level ''timeouts'' \<and>
      path_has stack level ''proxy'' then
        Inr (site\<lparr>site_proxy_write_timeout_sec :=
          rpsiod_parse_duration_sec value (site_proxy_write_timeout_sec site)\<rparr>)
      else if key = ''enabled'' \<and> path_has stack level ''healthCheck'' \<and>
      path_has stack level ''proxy'' then
        apply_bool_value ''proxy.healthCheck.enabled'' value
          (\<lambda>b. site\<lparr>site_proxy_health_enabled := b\<rparr>)
      else if key = ''path'' \<and> path_has stack level ''healthCheck'' \<and>
      path_has stack level ''proxy'' then
        Inr (site\<lparr>site_proxy_health_path := safe_copy 256 value\<rparr>)
      else if key = ''enabled'' \<and> path_has stack level ''access'' then
        apply_bool_value ''logging.access.enabled'' value
          (\<lambda>b. site\<lparr>site_access_log := (site_access_log site)\<lparr>lp_enabled := b\<rparr>\<rparr>)
      else if key = ''path'' \<and> path_has stack level ''access'' then
        Inr (site\<lparr>site_access_log :=
          (site_access_log site)\<lparr>lp_path := safe_copy 512 value\<rparr>\<rparr>)
      else if key = ''enabled'' \<and> path_has stack level ''error'' then
        apply_bool_value ''logging.error.enabled'' value
          (\<lambda>b. site\<lparr>site_error_log := (site_error_log site)\<lparr>lp_enabled := b\<rparr>\<rparr>)
      else if key = ''path'' \<and> path_has stack level ''error'' then
        Inr (site\<lparr>site_error_log :=
          (site_error_log site)\<lparr>lp_path := safe_copy 512 value\<rparr>\<rparr>)
      else Inr site)"

text \<open>
  The pointer \<open>site\<close> of the loop is NULL before the first \<open>-\<close> item and points to the last
  element of \<open>cfg->sites\<close> afterwards; both apply functions ignore a NULL site.
\<close>

definition on_last_site ::
  "(site_config \<Rightarrow> string + site_config) \<Rightarrow> config \<Rightarrow> string + config" where
  "on_last_site f cfg =
     (if cfg_sites cfg = [] then Inr cfg
      else case f (last (cfg_sites cfg)) of
             Inl msg \<Rightarrow> Inl msg
           | Inr site \<Rightarrow> Inr (cfg\<lparr>cfg_sites := butlast (cfg_sites cfg) @ [site]\<rparr>))"

fun parse_sites_lines ::
  "string \<Rightarrow> nat \<Rightarrow> yaml_stack \<Rightarrow> config \<Rightarrow> string list \<Rightarrow> config_error + config" where
  "parse_sites_lines path line_no stack cfg [] = Inr cfg"
| "parse_sites_lines path line_no stack cfg (raw # rest) =
     (let (level, line) = line_content raw in
      if line = [] then parse_sites_lines path (line_no + 1) stack cfg rest
      else if hd line = CHR ''-'' then
        (let item = rpsiod_trim (tl line) in
         if level = 1 \<and> MAX_SITES \<le> length (cfg_sites cfg) then Inl (TooManySites path line_no)
         else
           (case (if level = 1 then
                    (let cfg = cfg\<lparr>cfg_sites := cfg_sites cfg @ [site_defaults]\<rparr> in
                     case (if item = [] then None else split_key_value item 128 1024) of
                       None \<Rightarrow> Inr cfg
                     | Some (key, value) \<Rightarrow>
                         on_last_site (\<lambda>site. apply_site_value site stack (level + 1) key value) cfg)
                  else on_last_site (\<lambda>site. apply_site_list_value site stack level item) cfg) of
              Inl msg \<Rightarrow> Inl (BadValue path line_no msg)
            | Inr cfg' \<Rightarrow> parse_sites_lines path (line_no + 1) stack cfg' rest))
      else case split_key_value line 128 1024 of
        None \<Rightarrow> Inl (ExpectedKeyValue path line_no)
      | Some (key, value) \<Rightarrow>
          (case on_last_site (\<lambda>site. apply_site_value site stack level key value) cfg of
             Inl msg \<Rightarrow> Inl (BadValue path line_no msg)
           | Inr cfg' \<Rightarrow>
               parse_sites_lines path (line_no + 1) (stack_set stack level key) cfg' rest))"

definition parse_sites_file :: "config \<Rightarrow> string \<Rightarrow> string option \<Rightarrow> config_error + config" where
  "parse_sites_file cfg path file =
     (case file of
        None \<Rightarrow> Inl (OpenFailed path)
      | Some text \<Rightarrow> parse_sites_lines path 1 empty_stack cfg (fgets_lines 4096 text))"

text \<open>
  The first part of \<open>rpsiod_config_load\<close>: defaults, server file, sites file.  \<open>files\<close> gives the
  contents of the files that can be opened.
\<close>

definition rpsiod_config_read ::
  "(string \<Rightarrow> string option) \<Rightarrow> string option \<Rightarrow> string option \<Rightarrow> config_error + config" where
  "rpsiod_config_read files server_path sites_path =
     (let server = (case server_path of None \<Rightarrow> ''/etc/rpsiod/server.yml'' | Some p \<Rightarrow> p);
          cfg = rpsiod_config_defaults\<lparr>cfg_server_file := safe_copy 512 server\<rparr> in
      case parse_server_file cfg server (files server) of
        Inl e \<Rightarrow> Inl e
      | Inr cfg \<Rightarrow>
          (let sites = (case sites_path of None \<Rightarrow> cfg_sites_file cfg | Some p \<Rightarrow> p) in
           parse_sites_file (cfg\<lparr>cfg_loaded_sites_file := safe_copy 512 sites\<rparr>) sites (files sites)))"

end
