(* ===== verification/RouteTable.thy ===== *)
theory RouteTable
  imports ConfigParse
begin

text \<open>
  The routing table of \<open>src/config.c\<close>: an open-addressing hash table of 4096 slots with
  linear probing and 64-bit FNV-1a hashes, which maps (host, port, listen address) to the
  index of a site.  The locale \<open>route_map\<close> is the contract its users rely on, a partial map
  that refuses a second value for a key; the table is shown to implement it.
\<close>

section \<open>The contract\<close>

fun add_all :: "('k \<Rightarrow> 'v \<Rightarrow> 't \<Rightarrow> 'e + 't) \<Rightarrow> ('k \<times> 'v) list \<Rightarrow> 't \<Rightarrow> 'e + 't" where
  "add_all add [] t = Inr t"
| "add_all add ((k, v) # kvs) t = (case add k v t of Inl e \<Rightarrow> Inl e | Inr t' \<Rightarrow> add_all add kvs t')"

locale route_map =
  fixes empty :: 't
    and add :: "'k \<Rightarrow> 'v \<Rightarrow> 't \<Rightarrow> 'e + 't"
    and look :: "'t \<Rightarrow> 'k \<Rightarrow> 'v option"
    and invar :: "'t \<Rightarrow> bool"
    and ok :: "'k \<Rightarrow> bool"
  assumes invar_empty: "invar empty"
    and look_empty: "ok k \<Longrightarrow> look empty k = None"
    and add_invar: "invar t \<Longrightarrow> ok k \<Longrightarrow> add k v t = Inr t' \<Longrightarrow> invar t'"
    and add_look: "invar t \<Longrightarrow> ok k \<Longrightarrow> ok k' \<Longrightarrow> add k v t = Inr t' \<Longrightarrow>
      look t' k' = (if k' = k then Some v else look t k')"
    and add_conflict: "invar t \<Longrightarrow> ok k \<Longrightarrow> look t k = Some w \<Longrightarrow> w \<noteq> v \<Longrightarrow> \<exists>e. add k v t = Inl e"
begin

lemma add_all_look:
  "add_all add kvs t = Inr t' \<Longrightarrow> invar t \<Longrightarrow> \<forall>(k, v) \<in> set kvs. ok k \<Longrightarrow> ok k' \<Longrightarrow>
     invar t' \<and> look t' k' = (case look t k' of Some v \<Rightarrow> Some v | None \<Rightarrow> map_of kvs k')"
proof (induction kvs arbitrary: t)
  case (Cons kv kvs)
  obtain k v where kv: "kv = (k, v)" by fastforce
  then obtain t1 where t1: "add k v t = Inr t1" "add_all add kvs t1 = Inr t'"
    using Cons.prems(1) by (auto split: sum.splits)
  have k: "ok k" using Cons.prems(3) kv by auto
  have IH: "invar t' \<and> look t' k' = (case look t1 k' of Some v \<Rightarrow> Some v | None \<Rightarrow> map_of kvs k')"
    using Cons.IH [OF t1(2) add_invar [OF Cons.prems(2) k t1(1)]] Cons.prems by auto
  have l1: "look t1 k' = (if k' = k then Some v else look t k')"
    using add_look [OF Cons.prems(2) k Cons.prems(4) t1(1)] .
  have "look t k \<noteq> None \<Longrightarrow> look t k = Some v"
    using add_conflict [OF Cons.prems(2) k] t1(1) by fastforce
  with IH l1 kv show ?case by (auto split: option.splits)
qed (simp split: option.splits)

lemma build_look:
  "add_all add kvs empty = Inr t \<Longrightarrow> \<forall>(k, v) \<in> set kvs. ok k \<Longrightarrow> ok k' \<Longrightarrow> look t k' = map_of kvs k'"
  using add_all_look [of kvs empty t k'] by (simp add: invar_empty look_empty)

lemma add_all_consistent:
  "add_all add kvs t = Inr t' \<Longrightarrow> invar t \<Longrightarrow> \<forall>(k, v) \<in> set kvs. ok k \<Longrightarrow>
     (k, v) \<in> set kvs \<Longrightarrow> look t' k = Some v"
proof (induction kvs arbitrary: t)
  case (Cons kv kvs)
  obtain k1 v1 where kv: "kv = (k1, v1)" by fastforce
  then obtain t1 where t1: "add k1 v1 t = Inr t1" "add_all add kvs t1 = Inr t'"
    using Cons.prems(1) by (auto split: sum.splits)
  have k1: "ok k1" and i1: "invar t1"
    using Cons.prems(2,3) kv add_invar t1(1) by auto
  show ?case
  proof (cases "(k, v) \<in> set kvs")
    case True
    then show ?thesis using Cons.IH [OF t1(2) i1] Cons.prems(3) by auto
  next
    case False
    then have "k = k1" "v = v1" using Cons.prems(4) kv by auto
    then show ?thesis
      using add_all_look [OF t1(2) i1 _ k1] add_look [OF Cons.prems(2) k1 k1 t1(1)] Cons.prems(3) by auto
  qed
qed simp

lemma build_consistent:
  "add_all add kvs empty = Inr t \<Longrightarrow> \<forall>(k, v) \<in> set kvs. ok k \<Longrightarrow> (k, v) \<in> set kvs \<Longrightarrow> map_of kvs k = Some v"
  using add_all_consistent [of kvs empty t k v] build_look [of kvs t k] by (auto simp: invar_empty)

end

section \<open>The table\<close>

definition ROUTE_TABLE_SIZE :: nat where
  "ROUTE_TABLE_SIZE = 4096"

lemma ROUTE_TABLE_SIZE_pos [simp]: "0 < ROUTE_TABLE_SIZE"
  by (simp add: ROUTE_TABLE_SIZE_def)

record route_entry =
  re_used :: bool
  re_default_site :: bool
  re_host :: string
  re_listen_ip :: string
  re_port :: u16
  re_site_index :: nat

type_synonym route_table = "route_entry list"

definition empty_entry :: route_entry where
  "empty_entry = \<lparr>re_used = False, re_default_site = False, re_host = [], re_listen_ip = [],
     re_port = 0, re_site_index = 0\<rparr>"

definition empty_route_table :: route_table where
  "empty_route_table = replicate ROUTE_TABLE_SIZE empty_entry"

definition normalize_route_host :: "string \<Rightarrow> nat \<Rightarrow> string" where
  "normalize_route_host host out_len = map c_tolower (take (out_len - 1) host)"

definition fnv_bytes :: "(char \<Rightarrow> char) \<Rightarrow> string \<Rightarrow> u64 \<Rightarrow> u64" where
  "fnv_bytes f s h = foldl (\<lambda>h c. (h XOR word_of_nat (uchar (f c))) * 1099511628211) h s"

definition route_hash_key :: "string \<Rightarrow> u16 \<Rightarrow> string \<Rightarrow> bool \<Rightarrow> u64" where
  "route_hash_key host port listen_ip default_site =
     (let h = fnv_bytes c_tolower (if default_site then ''*'' else host) 1469598103934665603;
          h = (h XOR ucast port) * 1099511628211 in
      fnv_bytes (\<lambda>c. c) listen_ip h)"

definition route_entry_matches :: "route_entry \<Rightarrow> string \<Rightarrow> u16 \<Rightarrow> string \<Rightarrow> bool \<Rightarrow> bool" where
  "route_entry_matches e host port listen_ip default_site \<longleftrightarrow>
     re_used e \<and> re_default_site e = default_site \<and> re_port e = port \<and>
     re_listen_ip e = listen_ip \<and> (default_site \<or> rpsiod_streq_ci (re_host e) host)"

text \<open>
  The key of a route: the normalized host (empty for a default site), the port, the listen
  address and the default flag.  The probe loop, which \<open>add_route_entry\<close> and \<open>lookup_route\<close>
  share, stops at the first slot that is free or holds the key.
\<close>

type_synonym route_key = "string \<times> u16 \<times> string \<times> bool"

definition route_key :: "string \<Rightarrow> u16 \<Rightarrow> string \<Rightarrow> bool \<Rightarrow> route_key" where
  "route_key host port listen_ip default_site =
     (if default_site then [] else normalize_route_host host 256, port, listen_ip, default_site)"

definition route_start :: "route_key \<Rightarrow> nat" where
  "route_start k = (case k of (host, port, listen_ip, default_site) \<Rightarrow>
     unat (route_hash_key host port listen_ip default_site) mod ROUTE_TABLE_SIZE)"

definition key_matches :: "route_entry \<Rightarrow> route_key \<Rightarrow> bool" where
  "key_matches e k = (case k of (host, port, listen_ip, default_site) \<Rightarrow>
     route_entry_matches e host port listen_ip default_site)"

datatype probe_result = Free nat | Hit nat | Exhausted

function route_probe :: "route_table \<Rightarrow> route_key \<Rightarrow> nat \<Rightarrow> nat \<Rightarrow> probe_result" where
  "route_probe tbl k start probe =
     (if ROUTE_TABLE_SIZE \<le> probe then Exhausted
      else let idx = (start + probe) mod ROUTE_TABLE_SIZE; e = tbl ! idx in
        if \<not> re_used e then Free idx
        else if key_matches e k then Hit idx
        else route_probe tbl k start (probe + 1))"
  by pat_completeness auto
termination
  by (relation "measure (\<lambda>(tbl, k, start, probe). ROUTE_TABLE_SIZE - probe)") auto

declare route_probe.simps [simp del]

definition route_insert :: "route_key \<Rightarrow> nat \<Rightarrow> route_table \<Rightarrow> config_error + route_table" where
  "route_insert k site_index tbl =
     (case route_probe tbl k (route_start k) 0 of
        Free idx \<Rightarrow>
          (case k of (host, port, listen_ip, default_site) \<Rightarrow>
             Inr (tbl[idx := \<lparr>re_used = True, re_default_site = default_site,
                              re_host = safe_copy 256 host, re_listen_ip = safe_copy 64 listen_ip,
                              re_port = port, re_site_index = site_index\<rparr>]))
      | Hit idx \<Rightarrow>
          if re_site_index (tbl ! idx) \<noteq> site_index then Inl (Rejected ''duplicate route'')
          else Inr tbl
      | Exhausted \<Rightarrow> Inl (Rejected ''route table is full''))"

definition add_route_entry ::
  "string \<Rightarrow> u16 \<Rightarrow> string \<Rightarrow> nat \<Rightarrow> bool \<Rightarrow> route_table \<Rightarrow> config_error + route_table" where
  "add_route_entry host port listen_ip site_index default_site tbl =
     (if port = 0 then Inr tbl
      else route_insert (route_key host port listen_ip default_site) site_index tbl)"

definition route_look :: "route_table \<Rightarrow> route_key \<Rightarrow> nat option" where
  "route_look tbl k =
     (case route_probe tbl k (route_start k) 0 of Hit idx \<Rightarrow> Some (re_site_index (tbl ! idx)) | _ \<Rightarrow> None)"

definition lookup_route ::
  "nat \<Rightarrow> route_table \<Rightarrow> string \<Rightarrow> u16 \<Rightarrow> string \<Rightarrow> bool \<Rightarrow> nat option" where
  "lookup_route site_count tbl host port listen_ip default_site =
     (case route_look tbl (route_key host port listen_ip default_site) of
        None \<Rightarrow> None
      | Some i \<Rightarrow> if i < site_count then Some i else None)"

section \<open>Probing\<close>

definition valid_key :: "route_key \<Rightarrow> bool" where
  "valid_key k \<longleftrightarrow> (case k of (host, port, listen_ip, default_site) \<Rightarrow>
     map c_tolower host = host \<and> length host < 256 \<and> length listen_ip < 64 \<and>
     (default_site \<longrightarrow> host = []))"

lemma valid_route_key: "length ip < 64 \<Longrightarrow> valid_key (route_key h p ip d)"
  by (auto simp: valid_key_def route_key_def normalize_route_host_def)

definition entry_key :: "route_entry \<Rightarrow> route_key" where
  "entry_key e = (if re_default_site e then [] else map c_tolower (re_host e), re_port e,
     re_listen_ip e, re_default_site e)"

lemma key_matches_iff: "valid_key k \<Longrightarrow> key_matches e k \<longleftrightarrow> re_used e \<and> entry_key e = k"
  by (cases k) (auto simp: key_matches_def route_entry_matches_def entry_key_def valid_key_def streq_ci_iff)

lemma route_probe_Hit:
  "route_probe tbl k s p = Hit i \<Longrightarrow> i < ROUTE_TABLE_SIZE \<and> key_matches (tbl ! i) k"
  by (induction tbl k s p rule: route_probe.induct)
     (subst (asm) (2) route_probe.simps, auto simp: Let_def split: if_splits)

lemma route_probe_Free:
  "route_probe tbl k s p = Free i \<Longrightarrow> i < ROUTE_TABLE_SIZE \<and> \<not> re_used (tbl ! i)"
  by (induction tbl k s p rule: route_probe.induct)
     (subst (asm) (2) route_probe.simps, auto simp: Let_def split: if_splits)

text \<open>Filling a free slot changes no probe that ended elsewhere, and ends the probe of its own key.\<close>

lemma route_probe_update_Hit:
  "route_probe tbl k s p = Hit i \<Longrightarrow> \<not> re_used (tbl ! j) \<Longrightarrow> length tbl = ROUTE_TABLE_SIZE \<Longrightarrow>
     route_probe (tbl[j := e]) k s p = Hit i"
proof (induction tbl k s p rule: route_probe.induct)
  case (1 tbl k s p)
  let ?i = "(s + p) mod ROUTE_TABLE_SIZE"
  have p: "\<not> ROUTE_TABLE_SIZE \<le> p" and u: "re_used (tbl ! ?i)"
    using 1(2) by (auto simp: route_probe.simps [of tbl k s p] Let_def split: if_splits)
  then have "?i \<noteq> j" using 1(3) by auto
  with 1 p u show ?case
    by (auto simp: route_probe.simps [of tbl k s p] route_probe.simps [of "tbl[j := e]" k s p] Let_def
        split: if_splits)
qed

lemma route_probe_update_Free:
  "route_probe tbl k s p = Free j \<Longrightarrow> length tbl = ROUTE_TABLE_SIZE \<Longrightarrow> key_matches e k \<Longrightarrow>
     route_probe (tbl[j := e]) k s p = Hit j"
proof (induction tbl k s p rule: route_probe.induct)
  case (1 tbl k s p)
  let ?i = "(s + p) mod ROUTE_TABLE_SIZE"
  have i: "?i < length tbl" using 1(3) by simp
  have u: "re_used e" using 1(4) by (cases k) (auto simp: key_matches_def route_entry_matches_def)
  have nj: "\<not> re_used (tbl ! j)" using route_probe_Free [OF 1(2)] by simp
  have p: "\<not> ROUTE_TABLE_SIZE \<le> p"
    using 1(2) by (auto simp: route_probe.simps [of tbl k s p] split: if_splits)
  show ?case
  proof (cases "?i = j")
    case True
    with p u i 1(4) show ?thesis by (simp add: route_probe.simps [of "tbl[j := e]" k s p] Let_def)
  next
    case False
    have "re_used (tbl ! ?i)" "\<not> key_matches (tbl ! ?i) k"
      "route_probe tbl k s (p + 1) = Free j"
      using 1(2) p False by (auto simp: route_probe.simps [of tbl k s p] Let_def split: if_splits)
    with 1(1) [OF p refl refl _ _ _ 1(3,4)] p False show ?thesis
      by (simp add: route_probe.simps [of "tbl[j := e]" k s p] Let_def)
  qed
qed

definition route_invar :: "route_table \<Rightarrow> bool" where
  "route_invar tbl \<longleftrightarrow> length tbl = ROUTE_TABLE_SIZE \<and>
     (\<forall>i < ROUTE_TABLE_SIZE. re_used (tbl ! i) \<longrightarrow> valid_key (entry_key (tbl ! i)) \<and>
        route_probe tbl (entry_key (tbl ! i)) (route_start (entry_key (tbl ! i))) 0 = Hit i)"

lemma route_look_Some:
  assumes "route_invar tbl" and "valid_key k"
  shows "route_look tbl k = Some v \<longleftrightarrow>
     (\<exists>i < ROUTE_TABLE_SIZE. re_used (tbl ! i) \<and> entry_key (tbl ! i) = k \<and> re_site_index (tbl ! i) = v)"
proof
  assume "route_look tbl k = Some v"
  then obtain i where "route_probe tbl k (route_start k) 0 = Hit i" "re_site_index (tbl ! i) = v"
    by (auto simp: route_look_def split: probe_result.splits)
  with route_probe_Hit [OF this(1)] assms(2)
  show "\<exists>i < ROUTE_TABLE_SIZE. re_used (tbl ! i) \<and> entry_key (tbl ! i) = k \<and> re_site_index (tbl ! i) = v"
    by (auto simp: key_matches_iff)
next
  assume "\<exists>i < ROUTE_TABLE_SIZE. re_used (tbl ! i) \<and> entry_key (tbl ! i) = k \<and> re_site_index (tbl ! i) = v"
  then show "route_look tbl k = Some v"
    using assms(1) by (auto simp: route_invar_def route_look_def)
qed

definition new_entry :: "route_key \<Rightarrow> nat \<Rightarrow> route_entry" where
  "new_entry k v = (case k of (host, port, listen_ip, default_site) \<Rightarrow>
     \<lparr>re_used = True, re_default_site = default_site, re_host = safe_copy 256 host,
      re_listen_ip = safe_copy 64 listen_ip, re_port = port, re_site_index = v\<rparr>)"

lemma new_entry_simps:
  "valid_key k \<Longrightarrow> entry_key (new_entry k v) = k" "re_used (new_entry k v)"
  "re_site_index (new_entry k v) = v"
  by (auto simp: new_entry_def entry_key_def valid_key_def split: prod.splits)

lemma route_insert_cases:
  assumes "route_insert k v tbl = Inr tbl'"
  obtains (new) j where "route_probe tbl k (route_start k) 0 = Free j" "tbl' = tbl[j := new_entry k v]"
  | (old) i where "route_probe tbl k (route_start k) 0 = Hit i" "re_site_index (tbl ! i) = v" "tbl' = tbl"
  using assms
  by (auto simp: route_insert_def new_entry_def split: probe_result.splits prod.splits if_splits)

lemma route_insert_invar:
  assumes "route_invar tbl" and "valid_key k" and "route_insert k v tbl = Inr tbl'"
  shows "route_invar tbl'"
  using assms(3)
proof (cases rule: route_insert_cases)
  case (new j)
  have len: "length tbl = ROUTE_TABLE_SIZE" using assms(1) by (simp add: route_invar_def)
  have j: "j < ROUTE_TABLE_SIZE" "\<not> re_used (tbl ! j)" using route_probe_Free [OF new(1)] by auto
  have m: "key_matches (new_entry k v) k" using assms(2) by (simp add: key_matches_iff new_entry_simps)
  have "route_probe tbl' (entry_key (tbl' ! i)) (route_start (entry_key (tbl' ! i))) 0 = Hit i \<and>
      valid_key (entry_key (tbl' ! i))"
    if i: "i < ROUTE_TABLE_SIZE" "re_used (tbl' ! i)" for i
  proof (cases "i = j")
    case True
    then show ?thesis
      using route_probe_update_Free [OF new(1) len m] new(2) len j assms(2)
      by (simp add: new_entry_simps)
  next
    case False
    then show ?thesis
      using assms(1) i new(2) route_probe_update_Hit [OF _ j(2) len]
      by (auto simp: route_invar_def)
  qed
  then show ?thesis using len new(2) by (simp add: route_invar_def)
next
  case (old i)
  with assms(1) show ?thesis by simp
qed

lemma route_insert_look:
  assumes "route_invar tbl" and "valid_key k" and "valid_key k'" and "route_insert k v tbl = Inr tbl'"
  shows "route_look tbl' k' = (if k' = k then Some v else route_look tbl k')"
proof -
  have inv': "route_invar tbl'" using route_insert_invar [OF assms(1,2,4)] .
  have len: "length tbl = ROUTE_TABLE_SIZE" using assms(1) by (simp add: route_invar_def)
  from assms(4) show ?thesis
  proof (cases rule: route_insert_cases)
    case (new j)
    have j: "j < ROUTE_TABLE_SIZE" "\<not> re_used (tbl ! j)" using route_probe_Free [OF new(1)] by auto
    have "route_look tbl' k' = Some w \<longleftrightarrow> (if k' = k then Some v else route_look tbl k') = Some w" for w
    proof (cases "k' = k")
      case True
      have "route_look tbl' k = Some v"
        using route_look_Some [OF inv' assms(2)] j len new(2) assms(2) by (auto simp: new_entry_simps)
      with True show ?thesis by simp
    next
      case False
      have *: "re_used (tbl' ! i) \<and> entry_key (tbl' ! i) = k' \<and> re_site_index (tbl' ! i) = w \<longleftrightarrow>
          re_used (tbl ! i) \<and> entry_key (tbl ! i) = k' \<and> re_site_index (tbl ! i) = w" for i
        using False j len assms(2) unfolding new(2) by (cases "i = j") (auto simp: new_entry_simps)
      show ?thesis
        unfolding route_look_Some [OF inv' assms(3)] if_not_P [OF False] route_look_Some [OF assms(1,3)] * ..
    qed
    then show ?thesis by (metis option.exhaust)
  next
    case (old i)
    then show ?thesis by (auto simp: route_look_def)
  qed
qed

interpretation routes: route_map empty_route_table route_insert route_look route_invar valid_key
proof (unfold_locales, goal_cases)
  case 1
  then show ?case by (simp add: route_invar_def empty_route_table_def empty_entry_def)
next
  case (2 k)
  have "route_probe empty_route_table k (route_start k) 0 = Free (route_start k)"
    by (subst route_probe.simps)
       (simp add: empty_route_table_def empty_entry_def route_start_def split: prod.splits)
  then show ?case by (simp add: route_look_def)
next
  case (3 t k v t')
  then show ?case by (rule route_insert_invar)
next
  case (4 t k k' v t')
  then show ?case by (rule route_insert_look)
next
  case (5 t k w v)
  then show ?case by (auto simp: route_look_def route_insert_def split: probe_result.splits)
qed

section \<open>Room\<close>

lemma route_probe_Exhausted:
  "route_probe tbl k s p = Exhausted \<Longrightarrow> p \<le> q \<Longrightarrow> q < ROUTE_TABLE_SIZE \<Longrightarrow>
     re_used (tbl ! ((s + q) mod ROUTE_TABLE_SIZE))"
proof (induction tbl k s p rule: route_probe.induct)
  case (1 tbl k s p)
  have p: "\<not> ROUTE_TABLE_SIZE \<le> p" using 1(3,4) by simp
  have u: "re_used (tbl ! ((s + p) mod ROUTE_TABLE_SIZE))"
    "\<not> key_matches (tbl ! ((s + p) mod ROUTE_TABLE_SIZE)) k" "route_probe tbl k s (p + 1) = Exhausted"
    using 1(2) p by (auto simp: route_probe.simps [of tbl k s p] Let_def split: if_splits)
  show ?case
  proof (cases "p = q")
    case True
    with u show ?thesis by simp
  next
    case False
    with 1(1) [OF p refl refl _ _ u(3) _ 1(4)] 1(3) u show ?thesis by simp
  qed
qed

definition used_count :: "route_table \<Rightarrow> nat" where
  "used_count tbl = length (filter re_used tbl)"

lemma used_count_empty: "used_count empty_route_table = 0"
  by (simp add: used_count_def empty_route_table_def empty_entry_def)

lemma used_count_update: "used_count (tbl[j := e]) \<le> used_count tbl + 1"
proof (cases "j < length tbl")
  case True
  have eq: "tbl[j := e] = take j tbl @ e # drop (Suc j) tbl" using True by (rule upd_conv_take_nth_drop)
  have "tbl = take j tbl @ tbl ! j # drop (Suc j) tbl" using True by (rule id_take_nth_drop)
  then have "used_count tbl = length (filter re_used (take j tbl @ tbl ! j # drop (Suc j) tbl))"
    unfolding used_count_def by (rule arg_cong)
  then show ?thesis unfolding eq used_count_def [of "_ @ _"] by simp
next
  case False
  then show ?thesis by (simp add: list_update_beyond)
qed

text \<open>The table is reported full only when every slot is in use.\<close>

lemma route_probe_room:
  assumes "length tbl = ROUTE_TABLE_SIZE" and "used_count tbl < ROUTE_TABLE_SIZE"
  shows "route_probe tbl k s 0 \<noteq> Exhausted"
proof
  assume ex: "route_probe tbl k s 0 = Exhausted"
  have "re_used (tbl ! i)" if "i < ROUTE_TABLE_SIZE" for i
  proof -
    let ?s = "s mod ROUTE_TABLE_SIZE"
    let ?q = "(i + (ROUTE_TABLE_SIZE - ?s)) mod ROUTE_TABLE_SIZE"
    have "?s < ROUTE_TABLE_SIZE" by simp
    have "(s + ?q) mod ROUTE_TABLE_SIZE = (?s + (i + (ROUTE_TABLE_SIZE - ?s))) mod ROUTE_TABLE_SIZE"
      by (simp add: mod_simps)
    also have "?s + (i + (ROUTE_TABLE_SIZE - ?s)) = i + ROUTE_TABLE_SIZE"
      using \<open>?s < ROUTE_TABLE_SIZE\<close> by linarith
    also have "(i + ROUTE_TABLE_SIZE) mod ROUTE_TABLE_SIZE = i" using that by simp
    finally have "(s + ?q) mod ROUTE_TABLE_SIZE = i" .
    with route_probe_Exhausted [OF ex, of ?q] show ?thesis by simp
  qed
  then have "filter re_used tbl = tbl"
    using assms(1) by (auto simp: filter_id_conv in_set_conv_nth)
  with assms show False by (simp add: used_count_def)
qed

lemma route_insert_room:
  assumes "route_invar tbl" and "used_count tbl < ROUTE_TABLE_SIZE"
    and "route_look tbl k = None \<or> route_look tbl k = Some v"
  shows "\<exists>tbl'. route_insert k v tbl = Inr tbl' \<and> used_count tbl' \<le> used_count tbl + 1"
proof (cases "route_probe tbl k (route_start k) 0")
  case (Free j)
  then show ?thesis using used_count_update by (auto simp: route_insert_def split: prod.splits)
next
  case (Hit i)
  then show ?thesis using assms(3) by (simp add: route_insert_def route_look_def)
next
  case Exhausted
  with route_probe_room [OF _ assms(2)] assms(1) show ?thesis by (simp add: route_invar_def)
qed

lemma add_all_room:
  assumes "used_count tbl + length kvs \<le> ROUTE_TABLE_SIZE" and "route_invar tbl"
    and "\<forall>(k, v) \<in> set kvs. valid_key k"
    and "\<forall>(k, v) \<in> set kvs. \<forall>(k', v') \<in> set kvs. k = k' \<longrightarrow> v = v'"
    and "\<forall>(k, v) \<in> set kvs. route_look tbl k = None \<or> route_look tbl k = Some v"
  shows "\<exists>tbl'. add_all route_insert kvs tbl = Inr tbl'"
  using assms
proof (induction kvs arbitrary: tbl)
  case (Cons kv kvs)
  obtain k v where kv: "kv = (k, v)" by fastforce
  have k: "valid_key k" using Cons.prems(3) kv by auto
  obtain t where t: "route_insert k v tbl = Inr t" "used_count t \<le> used_count tbl + 1"
    using route_insert_room [of tbl k v] Cons.prems(1,2,5) kv by auto
  have "\<exists>tbl'. add_all route_insert kvs t = Inr tbl'"
  proof (rule Cons.IH)
    show "used_count t + length kvs \<le> ROUTE_TABLE_SIZE" using t(2) Cons.prems(1) by simp
    show "route_invar t" using route_insert_invar [OF Cons.prems(2) k t(1)] .
    show "\<forall>(k, v) \<in> set kvs. valid_key k" using Cons.prems(3) by auto
    show "\<forall>(k, v) \<in> set kvs. \<forall>(k', v') \<in> set kvs. k = k' \<longrightarrow> v = v'" using Cons.prems(4) by auto
    show "\<forall>(k', v') \<in> set kvs. route_look t k' = None \<or> route_look t k' = Some v'"
    proof (clarify)
      fix h p ip df v'
      assume m: "((h, p, ip, df), v') \<in> set kvs" and n: "route_look t (h, p, ip, df) \<noteq> Some v'"
      have ok: "valid_key (h, p, ip, df)" using Cons.prems(3) m by auto
      have "route_look tbl (h, p, ip, df) = None \<or> route_look tbl (h, p, ip, df) = Some v'"
        using Cons.prems(5) m by auto
      moreover have "(h, p, ip, df) = k \<longrightarrow> v = v'" using Cons.prems(4) m kv by auto
      ultimately show "route_look t (h, p, ip, df) = None"
        using route_insert_look [OF Cons.prems(2) k ok t(1)] n by auto
    qed
  qed
  with t(1) kv show ?case by simp
qed simp

end
