(* ===== verification/ConfigProps.thy ===== *)
theory ConfigProps
  imports ConfigParse
begin

text \<open>
  The configuration reader keeps every string inside its \<open>char\<close> array and every list inside
  its array, whatever the two files contain; durations stay non-negative \<open>int\<close>s and ports stay
  TCP ports.  The invariant is proved branch by branch through the key dispatch.
\<close>

section \<open>The buffer invariant\<close>

definition site_fits :: "site_config \<Rightarrow> bool" where
  "site_fits s \<longleftrightarrow>
     length (site_name s) < 128 \<and>
     length (site_serve_as s) < 16 \<and>
     length (site_domains s) \<le> MAX_DOMAINS \<and> list_all (\<lambda>s. length s < 256) (site_domains s) \<and>
     length (site_listen_ip s) < 64 \<and>
     site_http_port s \<noteq> 0 \<and>
     site_https_port s \<noteq> 0 \<and>
     length (site_routing_type s) < 32 \<and>
     length (site_redirect_www_mode s) < 32 \<and>
     length (site_ssl_mode s) < 32 \<and>
     length (site_ssl_provider s) < 64 \<and>
     length (site_ssl_email s) < 256 \<and>
     length (site_ssl_storage s) < 512 \<and>
     length (site_ssl_challenge s) < 32 \<and>
     0 \<le> site_ssl_renew_before_sec s \<and> site_ssl_renew_before_sec s \<le> INT_MAX \<and>
     length (site_static_root s) < 512 \<and>
     length (site_static_root_real s) < 4096 \<and>
     length (site_indexes s) \<le> MAX_INDEXES \<and> list_all (\<lambda>s. length s < 128) (site_indexes s) \<and>
     length (site_fallback s) < 256 \<and>
     length (site_maintenance_page s) < 512 \<and>
     length (site_error_pages s) \<le> MAX_ERROR_PAGES \<and> list_all (\<lambda>e. length (ep_path e) < 512) (site_error_pages s) \<and>
     length (site_allowed_methods s) \<le> MAX_METHODS \<and> list_all (\<lambda>s. length s < 16) (site_allowed_methods s) \<and>
     length (site_blocked_direct_access s) \<le> MAX_BLOCKED \<and> list_all (\<lambda>s. length s < 128) (site_blocked_direct_access s) \<and>
     length (site_php_handler_type s) < 32 \<and>
     length (site_php_socket s) < 256 \<and>
     length (site_php_host s) < 256 \<and>
     site_php_port s \<noteq> 0 \<and>
     0 \<le> site_php_connect_timeout_sec s \<and> site_php_connect_timeout_sec s \<le> INT_MAX \<and>
     0 \<le> site_php_read_timeout_sec s \<and> site_php_read_timeout_sec s \<le> INT_MAX \<and>
     0 \<le> site_php_write_timeout_sec s \<and> site_php_write_timeout_sec s \<le> INT_MAX \<and>
     0 \<le> site_php_max_execution_time_sec s \<and> site_php_max_execution_time_sec s \<le> INT_MAX \<and>
     0 \<le> site_rate_limit_window_sec s \<and> site_rate_limit_window_sec s \<le> INT_MAX \<and>
     length (site_cache_default s) < 256 \<and>
     length (site_headers_add s) \<le> MAX_HEADERS \<and>
     list_all (\<lambda>h. length (hp_name h) < 128 \<and> length (hp_value h) < 512) (site_headers_add s) \<and>
     length (site_headers_remove s) \<le> MAX_HEADER_REMOVES \<and> list_all (\<lambda>s. length s < 128) (site_headers_remove s) \<and>
     length (site_proxy_scheme s) < 16 \<and>
     length (site_proxy_host s) < 256 \<and>
     site_proxy_port s \<noteq> 0 \<and>
     0 \<le> site_proxy_connect_timeout_sec s \<and> site_proxy_connect_timeout_sec s \<le> INT_MAX \<and>
     0 \<le> site_proxy_read_timeout_sec s \<and> site_proxy_read_timeout_sec s \<le> INT_MAX \<and>
     0 \<le> site_proxy_write_timeout_sec s \<and> site_proxy_write_timeout_sec s \<le> INT_MAX \<and>
     length (site_proxy_health_path s) < 256 \<and>
     length (lp_path (site_access_log s)) < 512 \<and>
     length (lp_path (site_error_log s)) < 512 \<and>
     lp_fd (site_access_log s) = - 1 \<and> lp_fd (site_error_log s) = - 1"

definition config_fits :: "config \<Rightarrow> bool" where
  "config_fits c \<longleftrightarrow>
     length (cfg_name c) < 64 \<and>
     length (cfg_environment c) < 64 \<and>
     length (cfg_linux_user c) < 64 \<and>
     length (cfg_linux_group c) < 64 \<and>
     length (cfg_pid_file c) < 256 \<and>
     0 \<le> cfg_keep_alive_timeout_sec c \<and> cfg_keep_alive_timeout_sec c \<le> INT_MAX \<and>
     cfg_open_file_cache_max c \<le> OPEN_FILE_CACHE_MAX \<and>
     length (cfg_logging_level c) < 32 \<and>
     length (cfg_logging_format c) < 32 \<and>
     length (lp_path (cfg_access_log c)) < 512 \<and>
     length (lp_path (cfg_error_log c)) < 512 \<and>
     lp_fd (cfg_access_log c) = - 1 \<and> lp_fd (cfg_error_log c) = - 1 \<and>
     length (cfg_benchmarks_ip c) < 64 \<and>
     cfg_benchmarks_port c \<noteq> 0 \<and>
     length (cfg_benchmarks_storage_path c) < 512 \<and>
     length (cfg_server_file c) < 512 \<and>
     length (cfg_sites_file c) < 512 \<and>
     length (cfg_loaded_sites_file c) < 512 \<and>
     length (cfg_chroot_path c) < 512 \<and>
     length (cfg_sites c) \<le> MAX_SITES \<and> list_all site_fits (cfg_sites c)"

section \<open>Updates that keep it\<close>

lemma duration_range:
  "0 \<le> f \<Longrightarrow> f \<le> INT_MAX \<Longrightarrow> 0 \<le> rpsiod_parse_duration_sec t f"
  "0 \<le> f \<Longrightarrow> f \<le> INT_MAX \<Longrightarrow> rpsiod_parse_duration_sec t f \<le> INT_MAX"
  by (auto simp: rpsiod_parse_duration_sec_def INT_MAX_def Let_def split: option.splits)

lemma site_fits_other [simp]:
  "site_fits (s\<lparr>site_enabled := x0\<rparr>) = site_fits s"
  "site_fits (s\<lparr>site_redirect_http_to_https := x1\<rparr>) = site_fits s"
  "site_fits (s\<lparr>site_redirect_www_enabled := x2\<rparr>) = site_fits s"
  "site_fits (s\<lparr>site_redirect_www_status := x3\<rparr>) = site_fits s"
  "site_fits (s\<lparr>site_ssl_enabled := x4\<rparr>) = site_fits s"
  "site_fits (s\<lparr>site_static_root_fd := x5\<rparr>) = site_fits s"
  "site_fits (s\<lparr>site_directory_listing := x6\<rparr>) = site_fits s"
  "site_fits (s\<lparr>site_maintenance_enabled := x7\<rparr>) = site_fits s"
  "site_fits (s\<lparr>site_maintenance_status := x8\<rparr>) = site_fits s"
  "site_fits (s\<lparr>site_max_body_size := x9\<rparr>) = site_fits s"
  "site_fits (s\<lparr>site_hide_server_header := x10\<rparr>) = site_fits s"
  "site_fits (s\<lparr>site_allow_symlinks := x11\<rparr>) = site_fits s"
  "site_fits (s\<lparr>site_php_enabled := x12\<rparr>) = site_fits s"
  "site_fits (s\<lparr>site_php_allow_path_info := x13\<rparr>) = site_fits s"
  "site_fits (s\<lparr>site_php_max_body_size := x14\<rparr>) = site_fits s"
  "site_fits (s\<lparr>site_rate_limit_enabled := x15\<rparr>) = site_fits s"
  "site_fits (s\<lparr>site_rate_limit_requests := x16\<rparr>) = site_fits s"
  "site_fits (s\<lparr>site_compression_enabled := x17\<rparr>) = site_fits s"
  "site_fits (s\<lparr>site_compression_gzip := x18\<rparr>) = site_fits s"
  "site_fits (s\<lparr>site_compression_br := x19\<rparr>) = site_fits s"
  "site_fits (s\<lparr>site_compression_minimum_size := x20\<rparr>) = site_fits s"
  "site_fits (s\<lparr>site_cache_enabled := x21\<rparr>) = site_fits s"
  "site_fits (s\<lparr>site_proxy_websocket := x22\<rparr>) = site_fits s"
  "site_fits (s\<lparr>site_proxy_pass_host := x23\<rparr>) = site_fits s"
  "site_fits (s\<lparr>site_proxy_real_ip := x24\<rparr>) = site_fits s"
  "site_fits (s\<lparr>site_proxy_forwarded_for := x25\<rparr>) = site_fits s"
  "site_fits (s\<lparr>site_proxy_forwarded_proto := x26\<rparr>) = site_fits s"
  "site_fits (s\<lparr>site_proxy_health_enabled := x27\<rparr>) = site_fits s"
  by (simp_all add: site_fits_def)

lemma config_fits_other [simp]:
  "config_fits (c\<lparr>cfg_reuse_port := x0\<rparr>) = config_fits c"
  "config_fits (c\<lparr>cfg_tcp_fast_open := x1\<rparr>) = config_fits c"
  "config_fits (c\<lparr>cfg_backlog := x2\<rparr>) = config_fits c"
  "config_fits (c\<lparr>cfg_open_files := x3\<rparr>) = config_fits c"
  "config_fits (c\<lparr>cfg_max_processes := x4\<rparr>) = config_fits c"
  "config_fits (c\<lparr>cfg_workers := x5\<rparr>) = config_fits c"
  "config_fits (c\<lparr>cfg_workers_auto := x6\<rparr>) = config_fits c"
  "config_fits (c\<lparr>cfg_max_connections := x7\<rparr>) = config_fits c"
  "config_fits (c\<lparr>cfg_keep_alive_enabled := x8\<rparr>) = config_fits c"
  "config_fits (c\<lparr>cfg_keep_alive_max_requests := x9\<rparr>) = config_fits c"
  "config_fits (c\<lparr>cfg_request_header_buffer := x10\<rparr>) = config_fits c"
  "config_fits (c\<lparr>cfg_response_buffer := x11\<rparr>) = config_fits c"
  "config_fits (c\<lparr>cfg_sendfile_enabled := x12\<rparr>) = config_fits c"
  "config_fits (c\<lparr>cfg_read_ahead_enabled := x13\<rparr>) = config_fits c"
  "config_fits (c\<lparr>cfg_open_file_cache_enabled := x14\<rparr>) = config_fits c"
  "config_fits (c\<lparr>cfg_hide_version := x15\<rparr>) = config_fits c"
  "config_fits (c\<lparr>cfg_drop_privileges := x16\<rparr>) = config_fits c"
  "config_fits (c\<lparr>cfg_prevent_core_dumps := x17\<rparr>) = config_fits c"
  "config_fits (c\<lparr>cfg_benchmarks_enabled := x18\<rparr>) = config_fits c"
  "config_fits (c\<lparr>cfg_chroot_enabled := x19\<rparr>) = config_fits c"
  by (simp_all add: config_fits_def)

lemma site_fits_update:
  "site_fits s \<Longrightarrow> site_fits (s\<lparr>site_name := safe_copy 128 t\<rparr>)"
  "site_fits s \<Longrightarrow> site_fits (s\<lparr>site_serve_as := safe_copy 16 t\<rparr>)"
  "site_fits s \<Longrightarrow> site_fits (s\<lparr>site_listen_ip := safe_copy 64 t\<rparr>)"
  "site_fits s \<Longrightarrow> n \<noteq> 0 \<Longrightarrow> site_fits (s\<lparr>site_http_port := n\<rparr>)"
  "site_fits s \<Longrightarrow> n \<noteq> 0 \<Longrightarrow> site_fits (s\<lparr>site_https_port := n\<rparr>)"
  "site_fits s \<Longrightarrow> site_fits (s\<lparr>site_routing_type := safe_copy 32 t\<rparr>)"
  "site_fits s \<Longrightarrow> site_fits (s\<lparr>site_redirect_www_mode := safe_copy 32 t\<rparr>)"
  "site_fits s \<Longrightarrow> site_fits (s\<lparr>site_ssl_mode := safe_copy 32 t\<rparr>)"
  "site_fits s \<Longrightarrow> site_fits (s\<lparr>site_ssl_provider := safe_copy 64 t\<rparr>)"
  "site_fits s \<Longrightarrow> site_fits (s\<lparr>site_ssl_email := safe_copy 256 t\<rparr>)"
  "site_fits s \<Longrightarrow> site_fits (s\<lparr>site_ssl_storage := safe_copy 512 t\<rparr>)"
  "site_fits s \<Longrightarrow> site_fits (s\<lparr>site_ssl_challenge := safe_copy 32 t\<rparr>)"
  "site_fits s \<Longrightarrow> site_fits (s\<lparr>site_ssl_renew_before_sec := rpsiod_parse_duration_sec t (site_ssl_renew_before_sec s)\<rparr>)"
  "site_fits s \<Longrightarrow> site_fits (s\<lparr>site_static_root := safe_copy 512 t\<rparr>)"
  "site_fits s \<Longrightarrow> site_fits (s\<lparr>site_static_root_real := safe_copy 4096 t\<rparr>)"
  "site_fits s \<Longrightarrow> site_fits (s\<lparr>site_fallback := safe_copy 256 t\<rparr>)"
  "site_fits s \<Longrightarrow> site_fits (s\<lparr>site_maintenance_page := safe_copy 512 t\<rparr>)"
  "site_fits s \<Longrightarrow> site_fits (s\<lparr>site_php_handler_type := safe_copy 32 t\<rparr>)"
  "site_fits s \<Longrightarrow> site_fits (s\<lparr>site_php_socket := safe_copy 256 t\<rparr>)"
  "site_fits s \<Longrightarrow> site_fits (s\<lparr>site_php_host := safe_copy 256 t\<rparr>)"
  "site_fits s \<Longrightarrow> n \<noteq> 0 \<Longrightarrow> site_fits (s\<lparr>site_php_port := n\<rparr>)"
  "site_fits s \<Longrightarrow> site_fits (s\<lparr>site_php_connect_timeout_sec := rpsiod_parse_duration_sec t (site_php_connect_timeout_sec s)\<rparr>)"
  "site_fits s \<Longrightarrow> site_fits (s\<lparr>site_php_read_timeout_sec := rpsiod_parse_duration_sec t (site_php_read_timeout_sec s)\<rparr>)"
  "site_fits s \<Longrightarrow> site_fits (s\<lparr>site_php_write_timeout_sec := rpsiod_parse_duration_sec t (site_php_write_timeout_sec s)\<rparr>)"
  "site_fits s \<Longrightarrow> site_fits (s\<lparr>site_php_max_execution_time_sec := rpsiod_parse_duration_sec t (site_php_max_execution_time_sec s)\<rparr>)"
  "site_fits s \<Longrightarrow> site_fits (s\<lparr>site_rate_limit_window_sec := rpsiod_parse_duration_sec t (site_rate_limit_window_sec s)\<rparr>)"
  "site_fits s \<Longrightarrow> site_fits (s\<lparr>site_cache_default := safe_copy 256 t\<rparr>)"
  "site_fits s \<Longrightarrow> site_fits (s\<lparr>site_proxy_scheme := safe_copy 16 t\<rparr>)"
  "site_fits s \<Longrightarrow> site_fits (s\<lparr>site_proxy_host := safe_copy 256 t\<rparr>)"
  "site_fits s \<Longrightarrow> n \<noteq> 0 \<Longrightarrow> site_fits (s\<lparr>site_proxy_port := n\<rparr>)"
  "site_fits s \<Longrightarrow> site_fits (s\<lparr>site_proxy_connect_timeout_sec := rpsiod_parse_duration_sec t (site_proxy_connect_timeout_sec s)\<rparr>)"
  "site_fits s \<Longrightarrow> site_fits (s\<lparr>site_proxy_read_timeout_sec := rpsiod_parse_duration_sec t (site_proxy_read_timeout_sec s)\<rparr>)"
  "site_fits s \<Longrightarrow> site_fits (s\<lparr>site_proxy_write_timeout_sec := rpsiod_parse_duration_sec t (site_proxy_write_timeout_sec s)\<rparr>)"
  "site_fits s \<Longrightarrow> site_fits (s\<lparr>site_proxy_health_path := safe_copy 256 t\<rparr>)"
  "site_fits s \<Longrightarrow> site_fits (s\<lparr>site_access_log := (site_access_log s)\<lparr>lp_path := safe_copy 512 t\<rparr>\<rparr>)"
  "site_fits s \<Longrightarrow> site_fits (s\<lparr>site_access_log := (site_access_log s)\<lparr>lp_enabled := b\<rparr>\<rparr>)"
  "site_fits s \<Longrightarrow> site_fits (s\<lparr>site_error_log := (site_error_log s)\<lparr>lp_path := safe_copy 512 t\<rparr>\<rparr>)"
  "site_fits s \<Longrightarrow> site_fits (s\<lparr>site_error_log := (site_error_log s)\<lparr>lp_enabled := b\<rparr>\<rparr>)"
  by (simp_all add: site_fits_def length_safe_copy duration_range)

lemma config_fits_update:
  "config_fits c \<Longrightarrow> config_fits (c\<lparr>cfg_name := safe_copy 64 t\<rparr>)"
  "config_fits c \<Longrightarrow> config_fits (c\<lparr>cfg_environment := safe_copy 64 t\<rparr>)"
  "config_fits c \<Longrightarrow> config_fits (c\<lparr>cfg_linux_user := safe_copy 64 t\<rparr>)"
  "config_fits c \<Longrightarrow> config_fits (c\<lparr>cfg_linux_group := safe_copy 64 t\<rparr>)"
  "config_fits c \<Longrightarrow> config_fits (c\<lparr>cfg_pid_file := safe_copy 256 t\<rparr>)"
  "config_fits c \<Longrightarrow> config_fits (c\<lparr>cfg_keep_alive_timeout_sec := rpsiod_parse_duration_sec t (cfg_keep_alive_timeout_sec c)\<rparr>)"
  "config_fits c \<Longrightarrow> config_fits (c\<lparr>cfg_logging_level := safe_copy 32 t\<rparr>)"
  "config_fits c \<Longrightarrow> config_fits (c\<lparr>cfg_logging_format := safe_copy 32 t\<rparr>)"
  "config_fits c \<Longrightarrow> config_fits (c\<lparr>cfg_access_log := (cfg_access_log c)\<lparr>lp_path := safe_copy 512 t\<rparr>\<rparr>)"
  "config_fits c \<Longrightarrow> config_fits (c\<lparr>cfg_access_log := (cfg_access_log c)\<lparr>lp_enabled := b\<rparr>\<rparr>)"
  "config_fits c \<Longrightarrow> config_fits (c\<lparr>cfg_error_log := (cfg_error_log c)\<lparr>lp_path := safe_copy 512 t\<rparr>\<rparr>)"
  "config_fits c \<Longrightarrow> config_fits (c\<lparr>cfg_error_log := (cfg_error_log c)\<lparr>lp_enabled := b\<rparr>\<rparr>)"
  "config_fits c \<Longrightarrow> config_fits (c\<lparr>cfg_benchmarks_ip := safe_copy 64 t\<rparr>)"
  "config_fits c \<Longrightarrow> n \<noteq> 0 \<Longrightarrow> config_fits (c\<lparr>cfg_benchmarks_port := n\<rparr>)"
  "config_fits c \<Longrightarrow> config_fits (c\<lparr>cfg_benchmarks_storage_path := safe_copy 512 t\<rparr>)"
  "config_fits c \<Longrightarrow> config_fits (c\<lparr>cfg_server_file := safe_copy 512 t\<rparr>)"
  "config_fits c \<Longrightarrow> config_fits (c\<lparr>cfg_sites_file := safe_copy 512 t\<rparr>)"
  "config_fits c \<Longrightarrow> config_fits (c\<lparr>cfg_loaded_sites_file := safe_copy 512 t\<rparr>)"
  "config_fits c \<Longrightarrow> config_fits (c\<lparr>cfg_chroot_path := safe_copy 512 t\<rparr>)"
  by (simp_all add: config_fits_def length_safe_copy duration_range)

lemma append_bounded_fits:
  "length arr \<le> m \<Longrightarrow> length (append_bounded m k arr t) \<le> m"
  "0 < k \<Longrightarrow> list_all (\<lambda>s. length s < k) arr \<Longrightarrow> list_all (\<lambda>s. length s < k) (append_bounded m k arr t)"
  by (simp_all add: append_bounded_def length_safe_copy)

lemma site_fits_append:
  "site_fits s \<Longrightarrow> site_fits (append_method s t)"
  "site_fits s \<Longrightarrow> site_fits (append_blocked s t)"
  "site_fits s \<Longrightarrow> site_fits (append_header_remove s t)"
  "site_fits s \<Longrightarrow> site_fits (append_header_add s k t)"
  "site_fits s \<Longrightarrow> site_fits (append_error_page s c t)"
  "site_fits s \<Longrightarrow> site_fits (s\<lparr>site_domains := append_bounded MAX_DOMAINS 256 (site_domains s) t\<rparr>)"
  "site_fits s \<Longrightarrow> site_fits (s\<lparr>site_indexes := append_bounded MAX_INDEXES 128 (site_indexes s) t\<rparr>)"
  by (simp_all add: append_method_def append_blocked_def append_header_remove_def
      append_header_add_def append_error_page_def site_fits_def append_bounded_fits length_safe_copy)

section \<open>Fallible updates\<close>

definition result_keeps :: "('a \<Rightarrow> bool) \<Rightarrow> 'e + 'a \<Rightarrow> bool" where
  "result_keeps P r = (case r of Inl _ \<Rightarrow> True | Inr x \<Rightarrow> P x)"

named_theorems keeps \<open>introduction rules for fallible updates\<close>

lemma keeps_Inr [keeps]: "P x \<Longrightarrow> result_keeps P (Inr x)"
  by (simp add: result_keeps_def)

lemma keeps_Inl [keeps]: "result_keeps P (Inl e)"
  by (simp add: result_keeps_def)

lemma keeps_if [keeps]: "result_keeps P a \<Longrightarrow> result_keeps P b \<Longrightarrow> result_keeps P (if c then a else b)"
  by simp

lemma keeps_bool [keeps]: "(\<And>b. P (store b)) \<Longrightarrow> result_keeps P (apply_bool_value f v store)"
  by (simp add: result_keeps_def apply_bool_value_def split: option.splits)

lemma parse_port_range: "parse_port_strict v = Some n \<Longrightarrow> n \<noteq> 0"
proof -
  have nz: "(word_of_int i :: u16) \<noteq> 0" if "1 \<le> i" "i \<le> 65535" for i
    using that by (simp add: word_uint_eq_iff uint_word_of_int)
  assume "parse_port_strict v = Some n"
  then show "n \<noteq> 0"
    using nz by (auto simp: parse_port_strict_def not_less split: option.splits if_splits)
qed

lemma keeps_port [keeps]:
  "(\<And>n. n \<noteq> 0 \<Longrightarrow> P (store n)) \<Longrightarrow> result_keeps P (apply_port_value f v store)"
  by (auto simp: result_keeps_def apply_port_value_def dest: parse_port_range split: option.splits)

lemma config_fits_cache:
  "config_fits c \<Longrightarrow> n \<le> OPEN_FILE_CACHE_MAX \<Longrightarrow> config_fits (c\<lparr>cfg_open_file_cache_max := n\<rparr>)"
  by (simp add: config_fits_def)

lemma apply_server_value_fits:
  assumes "config_fits cfg"
  shows "result_keeps config_fits (apply_server_value cfg stack level key value)"
  unfolding apply_server_value_def Let_def
  by (intro keeps config_fits_update config_fits_cache assms) (use assms in \<open>simp_all add: not_less\<close>)

lemma apply_site_value_fits:
  assumes "site_fits site"
  shows "result_keeps site_fits (apply_site_value site stack level key value)"
  unfolding apply_site_value_def Let_def
  by (intro keeps site_fits_update site_fits_append assms) (use assms in simp_all)

lemma apply_site_list_value_fits:
  assumes "site_fits site"
  shows "result_keeps site_fits (apply_site_list_value site stack level value)"
  unfolding apply_site_list_value_def apply_compression_algorithm_def
  by (intro keeps site_fits_append assms) (use assms in simp_all)

section \<open>Whole files\<close>

lemma site_defaults_fits: "site_fits site_defaults"
  by (simp add: site_fits_def site_defaults_def INT_MAX_def)

lemma config_defaults_fits: "config_fits rpsiod_config_defaults"
  by (simp add: config_fits_def rpsiod_config_defaults_def INT_MAX_def)

lemma keepsD: "result_keeps P (Inr x) \<Longrightarrow> P x"
  by (simp add: result_keeps_def)

lemma on_last_site_fits:
  assumes "config_fits cfg" and "\<And>s. site_fits s \<Longrightarrow> result_keeps site_fits (f s)"
  shows "result_keeps config_fits (on_last_site f cfg)"
proof (cases "cfg_sites cfg" rule: rev_cases)
  case Nil
  with assms(1) show ?thesis by (simp add: on_last_site_def result_keeps_def)
next
  case (snoc ss s)
  then have "site_fits s" using assms(1) by (simp add: config_fits_def)
  from assms(2) [OF this] snoc assms(1) show ?thesis
    by (auto simp: on_last_site_def result_keeps_def config_fits_def split: sum.splits)
qed

lemma on_last_site_length:
  "on_last_site f cfg = Inr cfg' \<Longrightarrow> length (cfg_sites cfg') = length (cfg_sites cfg)"
  by (auto simp: on_last_site_def split: sum.splits if_splits)

lemma keeps_bind:
  assumes "result_keeps P r" and "\<And>x. P x \<Longrightarrow> result_keeps Q (g x)"
  shows "result_keeps Q (case r of Inl e \<Rightarrow> Inl (f e) | Inr x \<Rightarrow> g x)"
  using assms by (cases r) (simp_all add: result_keeps_def)

lemma parse_server_lines_fits:
  "config_fits cfg \<Longrightarrow> result_keeps config_fits (parse_server_lines path n stack cfg ls)"
proof (induction ls arbitrary: n stack cfg)
  case (Cons raw rest)
  show ?case
    by (auto simp: Let_def intro!: keeps Cons keeps_bind [OF apply_server_value_fits] split: prod.splits option.splits)
qed (simp add: keeps)

lemma add_site_fits:
  "config_fits cfg \<Longrightarrow> length (cfg_sites cfg) < MAX_SITES \<Longrightarrow>
     config_fits (cfg\<lparr>cfg_sites := cfg_sites cfg @ [site_defaults]\<rparr>)"
  by (simp add: config_fits_def site_defaults_fits)

text \<open>The two ways a list item changes the configuration.\<close>

lemma site_item_fits:
  assumes "config_fits cfg" and "\<not> (level = 1 \<and> MAX_SITES \<le> length (cfg_sites cfg))"
  shows "result_keeps config_fits
     (if level = 1 then
        (let cfg = cfg\<lparr>cfg_sites := cfg_sites cfg @ [site_defaults]\<rparr> in
         case (if item = [] then None else split_key_value item 128 1024) of
           None \<Rightarrow> Inr cfg
         | Some (key, value) \<Rightarrow> on_last_site (\<lambda>site. apply_site_value site stack (level + 1) key value) cfg)
      else on_last_site (\<lambda>site. apply_site_list_value site stack level item) cfg)"
proof (cases "level = 1")
  case True
  then have "config_fits (cfg\<lparr>cfg_sites := cfg_sites cfg @ [site_defaults]\<rparr>)"
    using assms by (intro add_site_fits) auto
  then show ?thesis
    using True by (auto simp: Let_def intro!: keeps on_last_site_fits apply_site_value_fits split: option.splits)
next
  case False
  then show ?thesis
    using assms(1) by (auto intro!: on_last_site_fits apply_site_list_value_fits)
qed

lemma parse_sites_lines_fits:
  "config_fits cfg \<Longrightarrow> result_keeps config_fits (parse_sites_lines path n stack cfg ls)"
proof (induction ls arbitrary: n stack cfg)
  case (Cons raw rest)
  obtain level line where c: "line_content raw = (level, line)" by fastforce
  consider "line = []" | "line \<noteq> []" "hd line = CHR ''-''" | "line \<noteq> []" "hd line \<noteq> CHR ''-''" by blast
  then show ?case
  proof cases
    case 1
    with c Cons show ?thesis by simp
  next
    case 2
    show ?thesis
    proof (cases "level = 1 \<and> MAX_SITES \<le> length (cfg_sites cfg)")
      case True
      with 2 c show ?thesis by (simp add: keeps)
    next
      case False
      show ?thesis
        unfolding parse_sites_lines.simps c Let_def [of "(level, line)"] prod.case
          if_not_P [OF 2(1)] if_P [OF 2(2)] Let_def [of "rpsiod_trim (tl line)"] if_not_P [OF False]
        by (rule keeps_bind [OF site_item_fits [OF Cons(2) False] Cons(1)])
    qed
  next
    case 3
    with c show ?thesis
      by (auto intro!: keeps keeps_bind [OF on_last_site_fits [OF Cons(2) apply_site_value_fits]] Cons(1)
          split: option.splits)
  qed
qed (simp add: keeps)

lemma config_read_keeps: "result_keeps config_fits (rpsiod_config_read files server_path sites_path)"
proof -
  have sf: "result_keeps config_fits (parse_server_file c p f)" if "config_fits c" for c p f
    using that by (auto simp: parse_server_file_def intro!: keeps parse_server_lines_fits split: option.splits)
  have tf: "result_keeps config_fits (parse_sites_file c p f)" if "config_fits c" for c p f
    using that by (auto simp: parse_sites_file_def intro!: keeps parse_sites_lines_fits split: option.splits)
  show ?thesis
    unfolding rpsiod_config_read_def Let_def
    by (intro keeps_bind [where P = config_fits and f = "\<lambda>e. e"] sf tf config_fits_update config_defaults_fits)
qed

text \<open>
  C36: reading the configuration is memory safe: for any contents of \<open>server.yml\<close> and
  \<open>sites.yml\<close>, a successful read leaves every string shorter than its \<open>char\<close> array, every list
  within its array (at most 64 sites, 32 domains, 16 methods, ...), every configured port
  non-zero, and every duration a non-negative \<open>int\<close>.
\<close>

theorem config_read_fits:
  assumes "rpsiod_config_read files server_path sites_path = Inr cfg"
  shows "config_fits cfg"
  using config_read_keeps [of files server_path sites_path] assms by (simp add: keepsD)

definition demo_server_yml :: string where
  "demo_server_yml = ''server:'' @ [LF] @ ''    name: web'' @ [LF]"

definition demo_sites_yml :: string where
  "demo_sites_yml = ''sites:'' @ [LF] @ ''    - name: a'' @ [LF] @ ''        match:'' @ [LF] @
     ''            domains:'' @ [LF] @ ''                - ex.org'' @ [LF]"

definition demo_files :: "string \<Rightarrow> string option" where
  "demo_files p = (if p = ''s'' then Some demo_server_yml else if p = ''t'' then Some demo_sites_yml else None)"

lemma demo_read:
  "map_sum (\<lambda>_. ()) (\<lambda>c. (cfg_name c, map site_name (cfg_sites c), map site_domains (cfg_sites c)))
     (rpsiod_config_read demo_files (Some ''s'') (Some ''t'')) = Inr (''web'', [''a''], [[''ex.org'']])"
  by code_simp

theorem config_read_fits_witness:
  "\<exists>cfg. rpsiod_config_read demo_files (Some ''s'') (Some ''t'') = Inr cfg \<and> config_fits cfg"
proof -
  obtain cfg where "rpsiod_config_read demo_files (Some ''s'') (Some ''t'') = Inr cfg"
    using demo_read by (cases "rpsiod_config_read demo_files (Some ''s'') (Some ''t'')") auto
  with config_read_fits [OF this] show ?thesis by blast
qed

text \<open>
  a port is accepted exactly when it is between 1 and 65535, and then stored unchanged:
  the \<open>uint16_t\<close> conversion never truncates.
\<close>

theorem parse_port_strict_dec:
  "parse_port_strict (dec n) = (if 1 \<le> n \<and> n \<le> 65535 then Some (word_of_nat n) else None)"
  using strtol_dec [of "[]" n] by (simp add: parse_port_strict_def LONG_MAX_def)

end
