(* ===== verification/ConfigValidate.thy ===== *)
theory ConfigValidate
  imports RouteTable ConfigProps ListScan
begin

text \<open>
  \<open>rpsiod_config_validate\<close>, \<open>build_route_table\<close> and the lookups of \<open>src/config.c\<close>.  The two
  system calls of the validation are parameters: \<open>realpath\<close> gives the canonical path of an
  existing file, \<open>open_dir\<close> the descriptor of an opened directory (negative on failure).  The
  theorems say what a loaded configuration guarantees and that a request is routed to the
  right site.
\<close>

section \<open>Validation\<close>

definition is_absolute :: "string \<Rightarrow> bool" where
  "is_absolute path \<longleftrightarrow> path \<noteq> [] \<and> hd path = CHR ''/''"

definition is_allowed_runtime_path :: "string \<Rightarrow> bool" where
  "is_allowed_runtime_path path \<longleftrightarrow>
     rpsiod_starts_with path ''/var/log/rpsiod/'' \<or> rpsiod_starts_with path ''/var/cache/rpsiod/'' \<or>
     rpsiod_starts_with path ''/var/lib/rpsiod/ssl/'' \<or> rpsiod_starts_with path ''/run/rpsiod/''"

definition value_is_one_of_ci :: "string \<Rightarrow> string list \<Rightarrow> bool" where
  "value_is_one_of_ci v options = list_ex (rpsiod_streq_ci v) options"

definition log_ok :: "log_path \<Rightarrow> bool" where
  "log_ok l \<longleftrightarrow> \<not> (lp_enabled l \<and>
     (\<not> is_absolute (lp_path l) \<or> \<not> rpsiod_starts_with (lp_path l) ''/var/log/rpsiod/''))"

fun check_domains :: "string list \<Rightarrow> string option" where
  "check_domains [] = None"
| "check_domains (d # ds) =
     (if d = [] then Some ''match.domains entries must not be empty''
      else if list_ex (rpsiod_streq_ci d) ds then Some ''duplicate domain''
      else check_domains ds)"

text \<open>The document root of a static or PHP site is resolved and opened; a proxy site needs its upstream.\<close>

definition validate_backend ::
  "(string \<Rightarrow> string option) \<Rightarrow> (string \<Rightarrow> int) \<Rightarrow> site_config \<Rightarrow> string + site_config" where
  "validate_backend realpath open_dir site =
     (let is_php = rpsiod_streq_ci (site_routing_type site) ''php'' in
      if rpsiod_streq_ci (site_routing_type site) ''static'' \<or> is_php then
        (if \<not> is_absolute (site_static_root site) then Inl ''static.root must be absolute''
         else case realpath (site_static_root site) of
           None \<Rightarrow> Inl ''static.root realpath failed''
         | Some real \<Rightarrow>
             (let fd = open_dir real in
              if fd < 0 then Inl ''failed to open static.root''
              else let site = site\<lparr>site_static_root_real := real, site_static_root_fd := fd\<rparr> in
                Inr (if is_php then site\<lparr>site_php_enabled := True\<rparr> else site)))
      else if \<not> rpsiod_streq_ci (site_proxy_scheme site) ''http'' then
        Inl ''Phase 2 proxy supports HTTP upstreams only''
      else if site_proxy_host site = [] \<or> site_proxy_port site = 0 then
        Inl ''proxy.upstream.host and port are required''
      else Inr site)"

definition validate_ssl :: "site_config \<Rightarrow> string + site_config" where
  "validate_ssl site =
     (if \<not> site_ssl_enabled site then Inr site
      else if \<not> value_is_one_of_ci (site_ssl_mode site) [''auto'', ''manual''] then
        Inl ''ssl.mode must be auto or manual''
      else if \<not> value_is_one_of_ci (site_ssl_provider site) [''letsEncrypt'', ''local''] then
        Inl ''ssl.provider must be letsEncrypt or local''
      else if \<not> value_is_one_of_ci (site_ssl_challenge site) [''http'', ''dns''] then
        Inl ''ssl.challenge must be http or dns''
      else
        let site = (if site_ssl_storage site = []
                    then site\<lparr>site_ssl_storage := safe_copy 512 (''/var/lib/rpsiod/ssl/'' @ hd (site_domains site))\<rparr>
                    else site) in
        if \<not> is_absolute (site_ssl_storage site) \<or>
           \<not> rpsiod_starts_with (site_ssl_storage site) ''/var/lib/rpsiod/ssl/'' then
          Inl ''ssl.storage must be under /var/lib/rpsiod/ssl''
        else Inr site)"

definition validate_php :: "site_config \<Rightarrow> string + site_config" where
  "validate_php site =
     (if \<not> site_php_enabled site then Inr site
      else if \<not> rpsiod_streq_ci (site_php_handler_type site) ''socket'' \<and>
              \<not> rpsiod_streq_ci (site_php_handler_type site) ''tcp'' then
        Inl ''php.handler.type must be socket or tcp''
      else if rpsiod_streq_ci (site_php_handler_type site) ''socket'' \<and>
              \<not> is_absolute (site_php_socket site) then
        Inl ''php.handler.socket must be absolute''
      else Inr site)"

definition fill_lists :: "site_config \<Rightarrow> site_config" where
  "fill_lists site =
     (let site = (if site_indexes site = [] then site\<lparr>site_indexes := [''index.html'']\<rparr> else site) in
      if site_allowed_methods site = [] then site\<lparr>site_allowed_methods := [''GET'', ''HEAD'']\<rparr> else site)"

definition validate_site_body ::
  "(string \<Rightarrow> string option) \<Rightarrow> (string \<Rightarrow> int) \<Rightarrow> site_config \<Rightarrow> string + site_config" where
  "validate_site_body realpath open_dir site =
     (if site_domains site = [] then Inl ''must define match.domains''
      else if \<not> value_is_one_of_ci (site_serve_as site) [''http'', ''https''] then
        Inl ''serveAs must be http or https''
      else case check_domains (site_domains site) of
        Some msg \<Rightarrow> Inl msg
      | None \<Rightarrow>
          if site_http_port site = 0 \<or> site_https_port site = 0 \<or> site_php_port site = 0 \<or>
             site_proxy_port site = 0 then
            Inl ''configured ports must be between 1 and 65535''
          else if \<not> rpsiod_streq_ci (site_routing_type site) ''static'' \<and>
                  \<not> rpsiod_streq_ci (site_routing_type site) ''proxy'' \<and>
                  \<not> rpsiod_streq_ci (site_routing_type site) ''php'' then
            Inl ''routing.type must be static, proxy, or php''
          else if \<not> value_is_one_of_ci (site_redirect_www_mode site) [''apexToWww'', ''wwwToApex''] then
            Inl ''redirects.www.mode must be apexToWww or wwwToApex''
          else if site_redirect_www_status site \<notin> {301, 302, 307, 308} then
            Inl ''redirects.www.status must be 301, 302, 307, or 308''
          else case validate_backend realpath open_dir site of
            Inl msg \<Rightarrow> Inl msg
          | Inr site \<Rightarrow>
              (let site = fill_lists site in
               if \<not> log_ok (site_access_log site) then Inl ''access log must be under /var/log/rpsiod''
               else if \<not> log_ok (site_error_log site) then Inl ''error log must be under /var/log/rpsiod''
               else case validate_ssl site of
                 Inl msg \<Rightarrow> Inl msg
               | Inr site \<Rightarrow> validate_php site))"

definition validate_site ::
  "(string \<Rightarrow> string option) \<Rightarrow> (string \<Rightarrow> int) \<Rightarrow> nat \<Rightarrow> site_config \<Rightarrow> config_error + site_config" where
  "validate_site realpath open_dir i site =
     (let site = (if site_name site = [] then site\<lparr>site_name := safe_copy 128 (''site-'' @ dec (i + 1))\<rparr>
                  else site) in
      case validate_site_body realpath open_dir site of
        Inl msg \<Rightarrow> Inl (SiteRejected (site_name site) msg)
      | Inr site \<Rightarrow> Inr site)"

fun validate_sites ::
  "(string \<Rightarrow> string option) \<Rightarrow> (string \<Rightarrow> int) \<Rightarrow> nat \<Rightarrow> site_config list \<Rightarrow>
   config_error + site_config list" where
  "validate_sites realpath open_dir i [] = Inr []"
| "validate_sites realpath open_dir i (s # ss) =
     (case validate_site realpath open_dir i s of
        Inl e \<Rightarrow> Inl e
      | Inr s' \<Rightarrow>
          (case validate_sites realpath open_dir (i + 1) ss of
             Inl e \<Rightarrow> Inl e
           | Inr ss' \<Rightarrow> Inr (s' # ss')))"

definition validate_server :: "config \<Rightarrow> config_error + config" where
  "validate_server cfg =
     (if \<not> value_is_one_of_ci (cfg_logging_level cfg) [''debug'', ''info'', ''warn'', ''error''] then
        Inl (Rejected ''logging.level must be debug, info, warn, or error'')
      else if \<not> value_is_one_of_ci (cfg_logging_format cfg) [''text''] then
        Inl (Rejected ''logging.format must be text'')
      else if cfg_benchmarks_port cfg = 0 then
        Inl (Rejected ''benchmarks.listen.port must be between 1 and 65535'')
      else if \<not> is_absolute (cfg_sites_file cfg) then
        Inl (Rejected ''server.config.sitesFile must be absolute'')
      else if cfg_sites_file cfg \<noteq> ''/etc/rpsiod/sites.yml'' \<and>
              \<not> starts_with (cfg_sites_file cfg) ''/etc/rpsiod/'' then
        Inl (Rejected ''configuration must live under /etc/rpsiod'')
      else if \<not> is_absolute (cfg_pid_file cfg) \<or> \<not> is_allowed_runtime_path (cfg_pid_file cfg) then
        Inl (Rejected ''linux.pidFile must be an allowed runtime path'')
      else if \<not> log_ok (cfg_access_log cfg) then
        Inl (Rejected ''global access log must be under /var/log/rpsiod'')
      else if \<not> log_ok (cfg_error_log cfg) then
        Inl (Rejected ''global error log must be under /var/log/rpsiod'')
      else if \<not> rpsiod_streq_ci (cfg_benchmarks_ip cfg) ''127.0.0.1'' then
        Inl (Rejected ''benchmark HTTP API must default to 127.0.0.1'')
      else if cfg_sites cfg = [] then
        Inl (Rejected ''sites.yml must define at least one site'')
      else Inr (if OPEN_FILE_CACHE_MAX < cfg_open_file_cache_max cfg
                then cfg\<lparr>cfg_open_file_cache_max := OPEN_FILE_CACHE_MAX\<rparr> else cfg))"

section \<open>The routing table of a configuration\<close>

definition explicit_default_domain :: "string \<Rightarrow> bool" where
  "explicit_default_domain domain \<longleftrightarrow> domain = ''*'' \<or> rpsiod_streq_ci domain ''default''"

definition add_both_ports ::
  "site_config \<Rightarrow> nat \<Rightarrow> string \<Rightarrow> bool \<Rightarrow> route_table \<Rightarrow> config_error + route_table" where
  "add_both_ports site i host is_default tbl =
     (case add_route_entry host (site_http_port site) (site_listen_ip site) i is_default tbl of
        Inl e \<Rightarrow> Inl e
      | Inr tbl \<Rightarrow> add_route_entry host (site_https_port site) (site_listen_ip site) i is_default tbl)"

definition add_domain ::
  "site_config \<Rightarrow> nat \<Rightarrow> string \<Rightarrow> route_table \<Rightarrow> config_error + route_table" where
  "add_domain site i domain tbl =
     (let is_default = explicit_default_domain domain in
      case add_both_ports site i domain is_default tbl of
        Inl e \<Rightarrow> Inl e
      | Inr tbl \<Rightarrow>
          if \<not> is_default \<and> site_redirect_www_enabled site then
            (if rpsiod_streq_ci (site_redirect_www_mode site) ''apexToWww'' \<and>
                \<not> starts_with domain ''www.'' \<and> length (''www.'' @ domain) < 256 then
               add_both_ports site i (''www.'' @ domain) False tbl
             else if rpsiod_streq_ci (site_redirect_www_mode site) ''wwwToApex'' \<and>
                     starts_with domain ''www.'' then
               add_both_ports site i (safe_copy 256 (drop 4 domain)) False tbl
             else Inr tbl)
          else Inr tbl)"

fun add_domains ::
  "site_config \<Rightarrow> nat \<Rightarrow> string list \<Rightarrow> route_table \<Rightarrow> config_error + route_table" where
  "add_domains site i [] tbl = Inr tbl"
| "add_domains site i (d # ds) tbl =
     (case add_domain site i d tbl of Inl e \<Rightarrow> Inl e | Inr tbl \<Rightarrow> add_domains site i ds tbl)"

fun add_sites :: "nat \<Rightarrow> site_config list \<Rightarrow> route_table \<Rightarrow> config_error + route_table" where
  "add_sites i [] tbl = Inr tbl"
| "add_sites i (site # sites) tbl =
     (case (if site_enabled site then add_domains site i (site_domains site) tbl else Inr tbl) of
        Inl e \<Rightarrow> Inl e
      | Inr tbl \<Rightarrow> add_sites (i + 1) sites tbl)"

definition build_route_table :: "config \<Rightarrow> config_error + route_table" where
  "build_route_table cfg = add_sites 0 (cfg_sites cfg) empty_route_table"

definition rpsiod_config_validate ::
  "(string \<Rightarrow> string option) \<Rightarrow> (string \<Rightarrow> int) \<Rightarrow> config \<Rightarrow> config_error + (config \<times> route_table)" where
  "rpsiod_config_validate realpath open_dir cfg =
     (case validate_server cfg of
        Inl e \<Rightarrow> Inl e
      | Inr cfg \<Rightarrow>
          (case validate_sites realpath open_dir 0 (cfg_sites cfg) of
             Inl e \<Rightarrow> Inl e
           | Inr sites \<Rightarrow>
               (let cfg = cfg\<lparr>cfg_sites := sites\<rparr> in
                case build_route_table cfg of Inl e \<Rightarrow> Inl e | Inr tbl \<Rightarrow> Inr (cfg, tbl))))"

definition rpsiod_config_load ::
  "(string \<Rightarrow> string option) \<Rightarrow> (string \<Rightarrow> string option) \<Rightarrow> (string \<Rightarrow> int) \<Rightarrow>
   string option \<Rightarrow> string option \<Rightarrow> config_error + (config \<times> route_table)" where
  "rpsiod_config_load files realpath open_dir server_path sites_path =
     (case rpsiod_config_read files server_path sites_path of
        Inl e \<Rightarrow> Inl e
      | Inr cfg \<Rightarrow> rpsiod_config_validate realpath open_dir cfg)"

section \<open>Lookups\<close>

definition rpsiod_config_find_site_for_listener ::
  "config \<Rightarrow> route_table \<Rightarrow> string \<Rightarrow> u16 \<Rightarrow> string option \<Rightarrow> nat option" where
  "rpsiod_config_find_site_for_listener cfg tbl host port listen_ip =
     (let specific = (case listen_ip of None \<Rightarrow> ''0.0.0.0'' | Some ip \<Rightarrow> if ip \<noteq> [] then ip else ''0.0.0.0'');
          look = lookup_route (length (cfg_sites cfg)) tbl;
          site = look host port specific False;
          site = (if site = None \<and> specific \<noteq> ''0.0.0.0'' then look host port ''0.0.0.0'' False else site) in
      if site \<noteq> None then site
      else
        let site = look [] port specific True in
        if site = None \<and> specific \<noteq> ''0.0.0.0'' then look [] port ''0.0.0.0'' True else site)"

definition method_listed :: "site_config \<Rightarrow> string \<Rightarrow> bool" where
  "method_listed site m = list_ex (\<lambda>a. rpsiod_streq_ci a m) (site_allowed_methods site)"

definition rpsiod_site_allows_method :: "site_config \<Rightarrow> string \<Rightarrow> bool" where
  "rpsiod_site_allows_method site m =
     (if rpsiod_streq_ci m ''HEAD'' \<and> method_listed site ''GET'' then True else method_listed site m)"

definition rpsiod_site_error_page :: "site_config \<Rightarrow> int \<Rightarrow> string option" where
  "rpsiod_site_error_page site status =
     first_some (\<lambda>e. if ep_code e = status then Some (ep_path e) else None) (site_error_pages site)"

end
