(* ===== verification/ConfigLoadProps.thy ===== *)
theory ConfigLoadProps
  imports ConfigValidate
begin

text \<open>
  What a loaded configuration guarantees, and that requests are routed to the right site: the
  facts of the route table's contract, carried over to the table that the nested loops of
  \<open>build_route_table\<close> fill.
\<close>

section \<open>Valid sites\<close>

definition site_valid :: "site_config \<Rightarrow> bool" where
  "site_valid s \<longleftrightarrow>
     site_name s \<noteq> [] \<and> site_domains s \<noteq> [] \<and> list_all (\<lambda>d. d \<noteq> []) (site_domains s) \<and>
     distinct (map (map c_tolower) (site_domains s)) \<and>
     value_is_one_of_ci (site_serve_as s) [''http'', ''https''] \<and>
     site_http_port s \<noteq> 0 \<and> site_https_port s \<noteq> 0 \<and> site_php_port s \<noteq> 0 \<and> site_proxy_port s \<noteq> 0 \<and>
     value_is_one_of_ci (site_routing_type s) [''static'', ''proxy'', ''php''] \<and>
     value_is_one_of_ci (site_redirect_www_mode s) [''apexToWww'', ''wwwToApex''] \<and>
     site_redirect_www_status s \<in> {301, 302, 307, 308} \<and>
     (\<not> rpsiod_streq_ci (site_routing_type s) ''proxy'' \<longrightarrow>
        is_absolute (site_static_root s) \<and> 0 \<le> site_static_root_fd s) \<and>
     (rpsiod_streq_ci (site_routing_type s) ''php'' \<longrightarrow> site_php_enabled s) \<and>
     (rpsiod_streq_ci (site_routing_type s) ''proxy'' \<longrightarrow>
        rpsiod_streq_ci (site_proxy_scheme s) ''http'' \<and> site_proxy_host s \<noteq> []) \<and>
     site_indexes s \<noteq> [] \<and> site_allowed_methods s \<noteq> [] \<and>
     log_ok (site_access_log s) \<and> log_ok (site_error_log s) \<and>
     (site_ssl_enabled s \<longrightarrow> rpsiod_starts_with (site_ssl_storage s) ''/var/lib/rpsiod/ssl/'') \<and>
     (site_php_enabled s \<longrightarrow> value_is_one_of_ci (site_php_handler_type s) [''socket'', ''tcp''])"

lemma check_domains_None:
  "check_domains ds = None \<Longrightarrow> list_all (\<lambda>d. d \<noteq> []) ds \<and> distinct (map (map c_tolower) ds)"
  by (induction ds) (auto simp: list_ex_iff streq_ci_iff split: if_splits)

lemma routing_lits:
  "\<not> rpsiod_streq_ci ''static'' ''proxy''" "\<not> rpsiod_streq_ci ''static'' ''php''"
  "\<not> rpsiod_streq_ci ''php'' ''proxy''"
  by code_simp+

lemma routing_distinct:
  "rpsiod_streq_ci t ''static'' \<Longrightarrow> \<not> rpsiod_streq_ci t ''proxy'' \<and> \<not> rpsiod_streq_ci t ''php''"
  "rpsiod_streq_ci t ''php'' \<Longrightarrow> \<not> rpsiod_streq_ci t ''proxy''"
  using streq_ci_subst routing_lits by blast+

text \<open>The fields that the later checks of a site leave alone.\<close>

definition same_checked :: "site_config \<Rightarrow> site_config \<Rightarrow> bool" where
  "same_checked s s' \<longleftrightarrow>
     site_name s' = site_name s \<and> site_enabled s' = site_enabled s \<and> site_domains s' = site_domains s \<and>
     site_serve_as s' = site_serve_as s \<and> site_listen_ip s' = site_listen_ip s \<and>
     site_http_port s' = site_http_port s \<and> site_https_port s' = site_https_port s \<and>
     site_php_port s' = site_php_port s \<and> site_proxy_port s' = site_proxy_port s \<and>
     site_routing_type s' = site_routing_type s \<and>
     site_redirect_www_mode s' = site_redirect_www_mode s \<and>
     site_redirect_www_status s' = site_redirect_www_status s \<and>
     site_static_root s' = site_static_root s \<and> site_proxy_scheme s' = site_proxy_scheme s \<and>
     site_proxy_host s' = site_proxy_host s \<and> site_access_log s' = site_access_log s \<and>
     site_error_log s' = site_error_log s \<and> site_ssl_enabled s' = site_ssl_enabled s \<and>
     site_php_handler_type s' = site_php_handler_type s"

definition backend_valid :: "site_config \<Rightarrow> bool" where
  "backend_valid s \<longleftrightarrow>
     (\<not> rpsiod_streq_ci (site_routing_type s) ''proxy'' \<longrightarrow>
        is_absolute (site_static_root s) \<and> 0 \<le> site_static_root_fd s) \<and>
     (rpsiod_streq_ci (site_routing_type s) ''php'' \<longrightarrow> site_php_enabled s) \<and>
     (rpsiod_streq_ci (site_routing_type s) ''proxy'' \<longrightarrow>
        rpsiod_streq_ci (site_proxy_scheme s) ''http'' \<and> site_proxy_host s \<noteq> [])"

lemma validate_backend_valid:
  assumes "validate_backend realpath open_dir s = Inr s'"
    and "rpsiod_streq_ci (site_routing_type s) ''static'' \<or> rpsiod_streq_ci (site_routing_type s) ''proxy'' \<or>
         rpsiod_streq_ci (site_routing_type s) ''php''"
  shows "same_checked s s' \<and> backend_valid s' \<and> site_indexes s' = site_indexes s \<and>
     site_allowed_methods s' = site_allowed_methods s \<and> site_ssl_storage s' = site_ssl_storage s"
  using assms
  by (auto simp: validate_backend_def Let_def same_checked_def backend_valid_def dest: routing_distinct
      split: if_splits option.splits)

lemma fill_lists_valid:
  "same_checked s (fill_lists s) \<and> backend_valid (fill_lists s) = backend_valid s \<and>
   site_indexes (fill_lists s) \<noteq> [] \<and> site_allowed_methods (fill_lists s) \<noteq> []"
  by (simp add: fill_lists_def Let_def same_checked_def backend_valid_def)

lemma validate_ssl_valid:
  "validate_ssl s = Inr s' \<Longrightarrow>
     same_checked s s' \<and> backend_valid s' = backend_valid s \<and> site_indexes s' = site_indexes s \<and>
     site_allowed_methods s' = site_allowed_methods s \<and>
     (site_ssl_enabled s' \<longrightarrow> rpsiod_starts_with (site_ssl_storage s') ''/var/lib/rpsiod/ssl/'')"
  by (auto simp: validate_ssl_def Let_def same_checked_def backend_valid_def split: if_splits)

lemma validate_php_valid:
  "validate_php s = Inr s' \<Longrightarrow>
     s' = s \<and> (site_php_enabled s \<longrightarrow> value_is_one_of_ci (site_php_handler_type s) [''socket'', ''tcp''])"
  by (auto simp: validate_php_def value_is_one_of_ci_def split: if_splits)

lemma validate_site_body_valid:
  assumes "validate_site_body realpath open_dir s = Inr s'" and "site_name s \<noteq> []"
  shows "site_valid s' \<and> same_checked s s'"
proof -
  let ?t = "site_routing_type s"
  from assms(1) obtain b l where
    head: "site_domains s \<noteq> []" "value_is_one_of_ci (site_serve_as s) [''http'', ''https'']"
      "check_domains (site_domains s) = None"
      "site_http_port s \<noteq> 0" "site_https_port s \<noteq> 0" "site_php_port s \<noteq> 0" "site_proxy_port s \<noteq> 0"
      "value_is_one_of_ci (site_redirect_www_mode s) [''apexToWww'', ''wwwToApex'']"
      "site_redirect_www_status s \<in> {301, 302, 307, 308}"
    and t: "rpsiod_streq_ci ?t ''static'' \<or> rpsiod_streq_ci ?t ''proxy'' \<or> rpsiod_streq_ci ?t ''php''"
    and b: "validate_backend realpath open_dir s = Inr b"
    and l: "validate_ssl (fill_lists b) = Inr l" "validate_php l = Inr s'"
    and logs: "log_ok (site_access_log (fill_lists b))" "log_ok (site_error_log (fill_lists b))"
    by (auto simp: validate_site_body_def Let_def split: if_splits option.splits sum.splits)
  note facts = validate_backend_valid [OF b t] fill_lists_valid [of b] validate_ssl_valid [OF l(1)]
    validate_php_valid [OF l(2)]
  have same: "same_checked s s'" using facts by (auto simp: same_checked_def)
  moreover have "backend_valid s'" "site_indexes s' \<noteq> []" "site_allowed_methods s' \<noteq> []"
    "site_ssl_enabled s' \<longrightarrow> rpsiod_starts_with (site_ssl_storage s') ''/var/lib/rpsiod/ssl/''"
    "site_php_enabled s' \<longrightarrow> value_is_one_of_ci (site_php_handler_type s') [''socket'', ''tcp'']"
    using facts by auto
  moreover have "log_ok (site_access_log s')" "log_ok (site_error_log s')"
    using facts logs by (auto simp: same_checked_def)
  ultimately show ?thesis
    using head t assms(2) check_domains_None [OF head(3)]
    by (auto simp: site_valid_def backend_valid_def same_checked_def value_is_one_of_ci_def)
qed

lemma validate_site_valid:
  "validate_site realpath open_dir i s = Inr s' \<Longrightarrow> site_valid s'"
  by (auto simp: validate_site_def Let_def safe_copy_def dest: validate_site_body_valid
      split: sum.splits if_splits)

lemma validate_sites_valid:
  "validate_sites realpath open_dir i ss = Inr ss' \<Longrightarrow> length ss' = length ss \<and> list_all site_valid ss'"
  by (induction ss arbitrary: i ss') (auto dest: validate_site_valid split: sum.splits)

text \<open>Validation keeps the buffer invariant: \<open>realpath\<close> fills a buffer of \<open>PATH_MAX\<close> = 4096 bytes.\<close>

lemma site_fits_fill:
  "site_fits s \<Longrightarrow> site_fits (fill_lists s)"
  "site_fits s \<Longrightarrow> length real < 4096 \<Longrightarrow> site_fits (s\<lparr>site_static_root_real := real\<rparr>)"
  by (simp_all add: fill_lists_def Let_def site_fits_def)

lemma validate_site_fits:
  assumes "\<forall>p r. realpath p = Some r \<longrightarrow> length r < 4096" and "site_fits s"
  shows "result_keeps site_fits (validate_site realpath open_dir i s)"
proof -
  have b: "result_keeps site_fits (validate_backend realpath open_dir s)" if "site_fits s" for s
    using that assms(1) by (auto simp: validate_backend_def Let_def intro!: keeps site_fits_fill split: option.splits)
  have l: "result_keeps site_fits (validate_ssl s)" if "site_fits s" for s
    using that by (auto simp: validate_ssl_def Let_def intro!: keeps site_fits_update)
  have p: "result_keeps site_fits (validate_php s)" if "site_fits s" for s
    using that by (auto simp: validate_php_def intro!: keeps)
  have body: "result_keeps site_fits (validate_site_body realpath open_dir s)" if "site_fits s" for s
    unfolding validate_site_body_def Let_def using that
    by (auto intro!: keeps keeps_bind [where P = site_fits and f = "\<lambda>e. e"] b l p site_fits_fill
        split: option.splits)
  show ?thesis
    unfolding validate_site_def Let_def using assms(2)
    by (auto simp: result_keeps_def dest!: keepsD [of site_fits] intro: site_fits_update split: sum.splits)
       (metis body keepsD site_fits_update(1))+
qed

lemma validate_sites_fits:
  assumes "\<forall>p r. realpath p = Some r \<longrightarrow> length r < 4096"
  shows "validate_sites realpath open_dir i ss = Inr ss' \<Longrightarrow> list_all site_fits ss \<Longrightarrow> list_all site_fits ss'"
proof (induction ss arbitrary: i ss')
  case (Cons s ss)
  then obtain s1 ss1 where "validate_site realpath open_dir i s = Inr s1"
    "validate_sites realpath open_dir (i + 1) ss = Inr ss1" "ss' = s1 # ss1"
    by (auto split: sum.splits)
  with Cons validate_site_fits [OF assms, of s open_dir i] show ?case by (auto dest: keepsD)
qed simp

lemma validate_server_fits: "validate_server c = Inr c' \<Longrightarrow> config_fits c \<Longrightarrow> config_fits c'"
  by (auto simp: validate_server_def intro: config_fits_cache split: if_splits)

definition routed :: "config \<Rightarrow> route_table \<Rightarrow> bool" where
  "routed cfg tbl \<longleftrightarrow> config_fits cfg \<and> build_route_table cfg = Inr tbl"

lemma validate_fits:
  assumes "\<forall>p r. realpath p = Some r \<longrightarrow> length r < 4096"
    and "rpsiod_config_read files server_path sites_path = Inr c1" and "validate_server c1 = Inr c2"
    and "validate_sites realpath open_dir 0 (cfg_sites c2) = Inr ss"
  shows "config_fits (c2\<lparr>cfg_sites := ss\<rparr>)"
proof -
  have "config_fits c1"
    using config_read_keeps [of files server_path sites_path] assms(2) by (simp add: keepsD)
  with assms(3) have c2: "config_fits c2" by (rule validate_server_fits)
  then have "list_all site_fits (cfg_sites c2)" "length (cfg_sites c2) \<le> MAX_SITES"
    by (simp_all add: config_fits_def)
  with validate_sites_fits [OF assms(1,4)] validate_sites_valid [OF assms(4)] c2
  show ?thesis by (simp add: config_fits_def)
qed

text \<open>
  every configuration the server starts with fits its buffers and has passed all checks:
  at least one site, and in each site distinct non-empty domains, TCP ports, a known routing
  type with its document root opened (static, PHP) or its HTTP upstream named (proxy), a
  redirect status among 301/302/307/308, index files and allowed methods, logs under
  \<open>/var/log/rpsiod/\<close> and TLS storage under \<open>/var/lib/rpsiod/ssl/\<close>; the benchmark API listens on
  127.0.0.1 only, and the routing table is the one built from exactly these sites.
\<close>

theorem config_load_valid:
  assumes "rpsiod_config_load files realpath open_dir server_path sites_path = Inr (cfg, tbl)"
    and "\<forall>p r. realpath p = Some r \<longrightarrow> length r < 4096"
  shows "routed cfg tbl \<and> cfg_sites cfg \<noteq> [] \<and> list_all site_valid (cfg_sites cfg) \<and>
    log_ok (cfg_access_log cfg) \<and> log_ok (cfg_error_log cfg) \<and>
    starts_with (cfg_sites_file cfg) ''/etc/rpsiod/'' \<and> is_allowed_runtime_path (cfg_pid_file cfg) \<and>
    rpsiod_streq_ci (cfg_benchmarks_ip cfg) ''127.0.0.1''"
proof -
  from assms(1) obtain c1 c2 ss where
    r: "rpsiod_config_read files server_path sites_path = Inr c1"
    and s: "validate_server c1 = Inr c2" and ss: "validate_sites realpath open_dir 0 (cfg_sites c2) = Inr ss"
    and cfg: "cfg = c2\<lparr>cfg_sites := ss\<rparr>" and tbl: "build_route_table (c2\<lparr>cfg_sites := ss\<rparr>) = Inr tbl"
    by (auto simp: rpsiod_config_load_def rpsiod_config_validate_def Let_def split: sum.splits)
  have "starts_with ''/etc/rpsiod/sites.yml'' ''/etc/rpsiod/''" by code_simp
  with s have "cfg_sites c2 \<noteq> [] \<and> log_ok (cfg_access_log c2) \<and> log_ok (cfg_error_log c2) \<and>
      starts_with (cfg_sites_file c2) ''/etc/rpsiod/'' \<and> is_allowed_runtime_path (cfg_pid_file c2) \<and>
      rpsiod_streq_ci (cfg_benchmarks_ip c2) ''127.0.0.1''"
    by (auto simp: validate_server_def split: if_splits)
  with validate_sites_valid [OF ss] cfg tbl validate_fits [OF assms(2) r s ss]
  show ?thesis by (auto simp: routed_def)
qed

section \<open>The routes of a configuration\<close>

text \<open>
  The hosts a domain stands for, and the keys of all enabled sites in the order in which
  \<open>build_route_table\<close> adds them.
\<close>

definition domain_hosts :: "site_config \<Rightarrow> string \<Rightarrow> (string \<times> bool) list" where
  "domain_hosts site d =
     (let df = explicit_default_domain d in
      (d, df) #
      (if df \<or> \<not> site_redirect_www_enabled site then []
       else if rpsiod_streq_ci (site_redirect_www_mode site) ''apexToWww'' \<and> \<not> starts_with d ''www.'' \<and>
               length (''www.'' @ d) < 256 then [(''www.'' @ d, False)]
       else if rpsiod_streq_ci (site_redirect_www_mode site) ''wwwToApex'' \<and> starts_with d ''www.''
       then [(safe_copy 256 (drop 4 d), False)]
       else []))"

definition host_routes :: "site_config \<Rightarrow> nat \<Rightarrow> string \<times> bool \<Rightarrow> (route_key \<times> nat) list" where
  "host_routes site i host = (case host of (h, df) \<Rightarrow>
     [(route_key h (site_http_port site) (site_listen_ip site) df, i),
      (route_key h (site_https_port site) (site_listen_ip site) df, i)])"

definition site_routes :: "site_config \<Rightarrow> nat \<Rightarrow> (route_key \<times> nat) list" where
  "site_routes site i =
     concat (map (\<lambda>d. concat (map (host_routes site i) (domain_hosts site d))) (site_domains site))"

fun sites_routes :: "nat \<Rightarrow> site_config list \<Rightarrow> (route_key \<times> nat) list" where
  "sites_routes i [] = []"
| "sites_routes i (s # ss) = (if site_enabled s then site_routes s i else []) @ sites_routes (i + 1) ss"

definition config_routes :: "config \<Rightarrow> (route_key \<times> nat) list" where
  "config_routes cfg = sites_routes 0 (cfg_sites cfg)"

lemma add_all_append:
  "add_all add (a @ b) t = (case add_all add a t of Inl e \<Rightarrow> Inl e | Inr t' \<Rightarrow> add_all add b t')"
  by (induction a arbitrary: t) (auto split: sum.splits)

lemma add_both_ports_all:
  "site_http_port s \<noteq> 0 \<Longrightarrow> site_https_port s \<noteq> 0 \<Longrightarrow>
     add_both_ports s i h df t = add_all route_insert (host_routes s i (h, df)) t"
  by (auto simp: add_both_ports_def add_route_entry_def host_routes_def split: sum.splits)

lemma add_domain_all:
  assumes "site_http_port s \<noteq> 0" "site_https_port s \<noteq> 0"
  shows "add_domain s i d t = add_all route_insert (concat (map (host_routes s i) (domain_hosts s d))) t"
  by (auto simp: add_domain_def domain_hosts_def Let_def add_both_ports_all [OF assms] add_all_append
      split: sum.splits)

lemma add_domains_all:
  assumes "site_http_port s \<noteq> 0" "site_https_port s \<noteq> 0"
  shows "add_domains s i ds t =
    add_all route_insert (concat (map (\<lambda>d. concat (map (host_routes s i) (domain_hosts s d))) ds)) t"
  by (induction ds arbitrary: t) (auto simp: add_domain_all [OF assms] add_all_append split: sum.splits)

lemma add_sites_all:
  "list_all (\<lambda>s. site_http_port s \<noteq> 0 \<and> site_https_port s \<noteq> 0) ss \<Longrightarrow>
     add_sites i ss t = add_all route_insert (sites_routes i ss) t"
  by (induction ss arbitrary: i t)
     (auto simp: add_domains_all add_all_append site_routes_def split: sum.splits)

section \<open>Routing\<close>

lemma sites_routes_mem:
  "(k, v) \<in> set (sites_routes j ss) \<longleftrightarrow>
     (\<exists>n < length ss. v = j + n \<and> site_enabled (ss ! n) \<and> (k, v) \<in> set (site_routes (ss ! n) v))"
proof (induction ss arbitrary: j)
  case (Cons s ss)
  have mem: "(k, v) \<in> set (site_routes s' i) \<Longrightarrow> v = i" for s' i
    by (auto simp: site_routes_def host_routes_def split: prod.splits)
  have "(k, v) \<in> set (sites_routes j (s # ss)) \<longleftrightarrow>
      v = j \<and> site_enabled s \<and> (k, v) \<in> set (site_routes s v) \<or>
      (\<exists>n < length ss. v = Suc j + n \<and> site_enabled (ss ! n) \<and> (k, v) \<in> set (site_routes (ss ! n) v))"
    using Cons [of "Suc j"] mem [of s j] by auto
  also have "\<dots> \<longleftrightarrow> (\<exists>n < length (s # ss). v = j + n \<and> site_enabled ((s # ss) ! n) \<and>
      (k, v) \<in> set (site_routes ((s # ss) ! n) v))"
    unfolding length_Cons Ex_less_Suc2 by simp
  finally show ?case .
qed simp

text \<open>A route key belongs to a site that listens there for a host it serves.\<close>

definition serves :: "site_config \<Rightarrow> string \<Rightarrow> bool \<Rightarrow> bool" where
  "serves s h df \<longleftrightarrow> (\<exists>d \<in> set (site_domains s). \<exists>(h', df') \<in> set (domain_hosts s d).
     df' = df \<and> (df \<or> normalize_route_host h' 256 = normalize_route_host h 256))"

lemma route_key_eq:
  "route_key h p ip df = route_key h' p' ip' df' \<longleftrightarrow>
     p = p' \<and> ip = ip' \<and> df' = df \<and> (df \<or> normalize_route_host h' 256 = normalize_route_host h 256)"
  by (auto simp: route_key_def)

lemma site_routes_mem:
  "(route_key h p ip df, v) \<in> set (site_routes s i) \<longleftrightarrow>
     v = i \<and> p \<in> {site_http_port s, site_https_port s} \<and> ip = site_listen_ip s \<and> serves s h df"
proof -
  have "(route_key h p ip df, v) \<in> set (host_routes s i hd') \<longleftrightarrow>
      v = i \<and> p \<in> {site_http_port s, site_https_port s} \<and> ip = site_listen_ip s \<and>
      (case hd' of (h', df') \<Rightarrow> df' = df \<and> (df \<or> normalize_route_host h' 256 = normalize_route_host h 256))"
    for hd'
    by (cases hd') (auto simp: host_routes_def route_key_eq)
  then show ?thesis
    unfolding site_routes_def serves_def by auto
qed

lemma config_fits_sites:
  "config_fits cfg \<Longrightarrow> s \<in> set (cfg_sites cfg) \<Longrightarrow>
     length (site_listen_ip s) < 64 \<and> site_http_port s \<noteq> 0 \<and> site_https_port s \<noteq> 0"
  by (auto simp: config_fits_def list_all_iff site_fits_def)

lemma config_routes_mem:
  "(k, v) \<in> set (config_routes cfg) \<longleftrightarrow>
     v < length (cfg_sites cfg) \<and> site_enabled (cfg_sites cfg ! v) \<and>
     (k, v) \<in> set (site_routes (cfg_sites cfg ! v) v)"
  by (auto simp: config_routes_def sites_routes_mem)

lemma config_routes_ok:
  assumes "config_fits cfg"
  shows "\<forall>(k, v) \<in> set (config_routes cfg). valid_key k"
proof (clarify)
  fix h p ip df v
  assume a: "((h, p, ip, df), v) \<in> set (config_routes cfg)"
  then obtain h' p' df' where k: "(h, p, ip, df) = route_key h' p' (site_listen_ip (cfg_sites cfg ! v)) df'"
    and v: "v < length (cfg_sites cfg)"
    by (auto simp: config_routes_mem site_routes_def host_routes_def)
  then have "length (site_listen_ip (cfg_sites cfg ! v)) < 64"
    using config_fits_sites [OF assms nth_mem [OF v]] by simp
  then show "valid_key (h, p, ip, df)" unfolding k by (rule valid_route_key)
qed

lemma build_all:
  "config_fits cfg \<Longrightarrow> build_route_table cfg = add_all route_insert (config_routes cfg) empty_route_table"
  unfolding build_route_table_def config_routes_def
  by (rule add_sites_all) (auto simp: list_all_iff dest: config_fits_sites)

lemma lookup_route_map:
  assumes "routed cfg tbl" and "length ip < 64"
  shows "lookup_route (length (cfg_sites cfg)) tbl h p ip df = map_of (config_routes cfg) (route_key h p ip df)"
proof -
  have fits: "config_fits cfg" using assms(1) by (simp add: routed_def)
  have built: "add_all route_insert (config_routes cfg) empty_route_table = Inr tbl"
    using assms(1) build_all [OF fits] by (simp add: routed_def)
  have "route_look tbl (route_key h p ip df) = map_of (config_routes cfg) (route_key h p ip df)"
    by (rule routes.build_look [OF built config_routes_ok [OF fits] valid_route_key [OF assms(2)]])
  then show ?thesis
    by (auto simp: lookup_route_def config_routes_mem dest!: map_of_SomeD split: option.splits)
qed

lemma lookup_route_sound:
  assumes "routed cfg tbl" and "length ip < 64"
    and "lookup_route (length (cfg_sites cfg)) tbl h p ip df = Some i"
  shows "i < length (cfg_sites cfg) \<and> site_enabled (cfg_sites cfg ! i) \<and>
     p \<in> {site_http_port (cfg_sites cfg ! i), site_https_port (cfg_sites cfg ! i)} \<and>
     site_listen_ip (cfg_sites cfg ! i) = ip \<and> serves (cfg_sites cfg ! i) h df"
proof -
  have "(route_key h p ip df, i) \<in> set (config_routes cfg)"
    using assms(3) unfolding lookup_route_map [OF assms(1,2)] by (rule map_of_SomeD)
  then show ?thesis by (auto simp: config_routes_mem site_routes_mem)
qed

lemma lookup_route_complete:
  assumes "routed cfg tbl" and "i < length (cfg_sites cfg)" and "site_enabled (cfg_sites cfg ! i)"
    and "p \<in> {site_http_port (cfg_sites cfg ! i), site_https_port (cfg_sites cfg ! i)}"
    and "serves (cfg_sites cfg ! i) h df"
  shows "lookup_route (length (cfg_sites cfg)) tbl h p (site_listen_ip (cfg_sites cfg ! i)) df = Some i"
proof -
  have fits: "config_fits cfg" using assms(1) by (simp add: routed_def)
  have built: "add_all route_insert (config_routes cfg) empty_route_table = Inr tbl"
    using assms(1) build_all [OF fits] by (simp add: routed_def)
  have len: "length (site_listen_ip (cfg_sites cfg ! i)) < 64"
    using config_fits_sites [OF fits nth_mem [OF assms(2)]] by simp
  have "(route_key h p (site_listen_ip (cfg_sites cfg ! i)) df, i) \<in> set (config_routes cfg)"
    using assms(2-5) by (auto simp: config_routes_mem site_routes_mem)
  from routes.build_consistent [OF built config_routes_ok [OF fits] this]
  show ?thesis unfolding lookup_route_map [OF assms(1) len] .
qed

text \<open>
  C26: a request is never routed to a wrong site: the site found for a host on a listener is
  enabled, listens on that port and on that address (or on 0.0.0.0), and either serves the
  host (one of its domains, or the www/apex variant it redirects, compared without case) or
  is an explicit default site, and then only when no site serves the host there.
\<close>

theorem routing_sound:
  assumes "routed cfg tbl" and "ip \<noteq> []" and "length ip < 64"
    and "rpsiod_config_find_site_for_listener cfg tbl host port (Some ip) = Some i"
  shows "i < length (cfg_sites cfg) \<and> site_enabled (cfg_sites cfg ! i) \<and>
     port \<in> {site_http_port (cfg_sites cfg ! i), site_https_port (cfg_sites cfg ! i)} \<and>
     site_listen_ip (cfg_sites cfg ! i) \<in> {ip, ''0.0.0.0''} \<and>
     (serves (cfg_sites cfg ! i) host False \<or>
      serves (cfg_sites cfg ! i) [] True \<and>
      (\<forall>j < length (cfg_sites cfg). site_enabled (cfg_sites cfg ! j) \<longrightarrow>
         site_listen_ip (cfg_sites cfg ! j) \<in> {ip, ''0.0.0.0''} \<longrightarrow>
         port \<in> {site_http_port (cfg_sites cfg ! j), site_https_port (cfg_sites cfg ! j)} \<longrightarrow>
         \<not> serves (cfg_sites cfg ! j) host False))"
proof -
  let ?look = "lookup_route (length (cfg_sites cfg)) tbl"
  have any: "length ''0.0.0.0'' < 64" by simp
  have found: "(\<exists>a \<in> {ip, ''0.0.0.0''}. ?look host port a False = Some i) \<or>
      ?look host port ip False = None \<and> ?look host port ''0.0.0.0'' False = None \<and>
      (\<exists>a \<in> {ip, ''0.0.0.0''}. ?look [] port a True = Some i)"
    using assms(2,4) unfolding rpsiod_config_find_site_for_listener_def Let_def
    by (auto split: if_splits)
  have none: "\<not> serves (cfg_sites cfg ! j) host False"
    if "?look host port ip False = None" "?look host port ''0.0.0.0'' False = None"
      "j < length (cfg_sites cfg)" "site_enabled (cfg_sites cfg ! j)"
      "site_listen_ip (cfg_sites cfg ! j) \<in> {ip, ''0.0.0.0''}"
      "port \<in> {site_http_port (cfg_sites cfg ! j), site_https_port (cfg_sites cfg ! j)}" for j
    using lookup_route_complete [OF assms(1) that(3,4,6)] that(1,2,5) by auto
  note sound = lookup_route_sound [OF assms(1)]
  from found show ?thesis
  proof (elim disjE bexE conjE)
    fix a assume "a \<in> {ip, ''0.0.0.0''}" "?look host port a False = Some i"
    with sound [of a host port False i] assms(3) any show ?thesis by auto
  next
    fix a assume n: "?look host port ip False = None" "?look host port ''0.0.0.0'' False = None"
      and a: "a \<in> {ip, ''0.0.0.0''}" "?look [] port a True = Some i"
    with sound [of a "[]" port True i] assms(3) any none [OF n] show ?thesis by auto
  qed
qed

lemma find_site_complete:
  assumes "routed cfg tbl" and "i < length (cfg_sites cfg)" and "site_enabled (cfg_sites cfg ! i)"
    and "port \<in> {site_http_port (cfg_sites cfg ! i), site_https_port (cfg_sites cfg ! i)}"
    and "d \<in> set (site_domains (cfg_sites cfg ! i))" and "\<not> explicit_default_domain d"
    and "rpsiod_streq_ci host d" and "site_listen_ip (cfg_sites cfg ! i) \<noteq> []"
  shows "rpsiod_config_find_site_for_listener cfg tbl host port
           (Some (site_listen_ip (cfg_sites cfg ! i))) = Some i"
proof -
  have "normalize_route_host d 256 = normalize_route_host host 256"
    using assms(7) by (simp add: normalize_route_host_def streq_ci_iff flip: take_map)
  then have "serves (cfg_sites cfg ! i) host False"
    using assms(5,6) unfolding serves_def
    by (intro bexI [of _ d]) (auto simp: domain_hosts_def)
  from lookup_route_complete [OF assms(1-4) this] assms(8) show ?thesis
    by (simp add: rpsiod_config_find_site_for_listener_def)
qed

text \<open>
  C27: every enabled site is reachable: a request for one of its domains (in any letter case)
  on one of its ports, arriving at its own listen address, is routed to it and to no other
  site; two sites can therefore never claim the same domain on the same address and port.
\<close>

theorem routing_complete:
  assumes "routed cfg tbl" and "i < length (cfg_sites cfg)" and "site_enabled (cfg_sites cfg ! i)"
    and "port \<in> {site_http_port (cfg_sites cfg ! i), site_https_port (cfg_sites cfg ! i)}"
    and "d \<in> set (site_domains (cfg_sites cfg ! i))" and "\<not> explicit_default_domain d"
    and "rpsiod_streq_ci host d" and "site_listen_ip (cfg_sites cfg ! i) \<noteq> []"
  shows "rpsiod_config_find_site_for_listener cfg tbl host port
           (Some (site_listen_ip (cfg_sites cfg ! i))) = Some i"
  using assms by (rule find_site_complete)

section \<open>Capacity\<close>

text \<open>The conflict that \<open>add_route_entry\<close> reports: one key for two sites.\<close>

definition conflict_free :: "(route_key \<times> nat) list \<Rightarrow> bool" where
  "conflict_free rs \<longleftrightarrow> (\<forall>(k, v) \<in> set rs. \<forall>(k', v') \<in> set rs. k = k' \<longrightarrow> v = v')"

lemma build_iff_conflict_free:
  assumes "config_fits cfg" and "length (config_routes cfg) \<le> ROUTE_TABLE_SIZE"
  shows "(\<exists>tbl. build_route_table cfg = Inr tbl) \<longleftrightarrow> conflict_free (config_routes cfg)"
proof
  assume free: "conflict_free (config_routes cfg)"
  show "\<exists>tbl. build_route_table cfg = Inr tbl"
    unfolding build_all [OF assms(1)]
  proof (rule add_all_room)
    show "used_count empty_route_table + length (config_routes cfg) \<le> ROUTE_TABLE_SIZE"
      using assms(2) by (simp add: used_count_empty)
    have "\<forall>kv \<in> set (config_routes cfg). valid_key (fst kv)"
      using config_routes_ok [OF assms(1)] by (simp add: case_prod_beta)
    then show "\<forall>(k, v) \<in> set (config_routes cfg). route_look empty_route_table k = None \<or>
        route_look empty_route_table k = Some v"
      by (simp add: case_prod_beta routes.look_empty)
    show "\<forall>(k, v) \<in> set (config_routes cfg). \<forall>(k', v') \<in> set (config_routes cfg). k = k' \<longrightarrow> v = v'"
      using free by (simp only: conflict_free_def)
  qed (rule routes.invar_empty config_routes_ok [OF assms(1)])+
next
  assume "\<exists>tbl. build_route_table cfg = Inr tbl"
  then obtain tbl where "add_all route_insert (config_routes cfg) empty_route_table = Inr tbl"
    unfolding build_all [OF assms(1)] ..
  then have "map_of (config_routes cfg) k = Some v" if "(k, v) \<in> set (config_routes cfg)" for k v
    using that routes.build_consistent [OF _ config_routes_ok [OF assms(1)]] by blast
  then show "conflict_free (config_routes cfg)"
    unfolding conflict_free_def case_prod_beta by (metis prod.collapse option.inject)
qed

text \<open>
  the routing table accepts every configuration it has room for: with at most 4096 routes
  (two per host of an enabled site) and no key claimed by two sites, building the table
  succeeds; it succeeds for no configuration in which two sites claim the same key.
\<close>

theorem route_table_capacity:
  assumes "config_fits cfg" and "length (config_routes cfg) \<le> ROUTE_TABLE_SIZE"
  shows "(\<exists>tbl. build_route_table cfg = Inr tbl) \<longleftrightarrow> conflict_free (config_routes cfg)"
  using assms by (rule build_iff_conflict_free)

section \<open>A concrete configuration\<close>

definition demo_site :: site_config where
  "demo_site = site_defaults\<lparr>site_name := ''a'', site_domains := [''ex.org''],
     site_redirect_www_enabled := True, site_static_root := ''/srv''\<rparr>"

definition demo_cfg :: config where
  "demo_cfg = rpsiod_config_defaults\<lparr>cfg_sites := [demo_site]\<rparr>"

lemma demo_fits: "config_fits demo_cfg"
  by (simp add: demo_cfg_def demo_site_def config_fits_def site_fits_def rpsiod_config_defaults_def
      site_defaults_def INT_MAX_def)

lemma demo_routes: "config_routes demo_cfg =
   [((''ex.org'', 80, ''0.0.0.0'', False), 0), ((''ex.org'', 443, ''0.0.0.0'', False), 0),
    ((''www.ex.org'', 80, ''0.0.0.0'', False), 0), ((''www.ex.org'', 443, ''0.0.0.0'', False), 0)]"
  by code_simp

lemma demo_conflict_free: "conflict_free (config_routes demo_cfg)"
  by (simp add: demo_routes conflict_free_def)

theorem route_table_capacity_witness:
  "\<exists>tbl. build_route_table demo_cfg = Inr tbl"
  using route_table_capacity [OF demo_fits] demo_conflict_free
  by (simp add: demo_routes ROUTE_TABLE_SIZE_def)

lemma demo_routed: "\<exists>tbl. routed demo_cfg tbl"
  using build_iff_conflict_free [OF demo_fits] demo_conflict_free demo_fits
  by (simp add: demo_routes ROUTE_TABLE_SIZE_def routed_def)

lemma demo_nth: "cfg_sites demo_cfg ! 0 = demo_site" "length (cfg_sites demo_cfg) = 1"
  by (simp_all add: demo_cfg_def)

lemma demo_site_simps: "site_enabled demo_site" "site_http_port demo_site = 80"
  "site_listen_ip demo_site = ''0.0.0.0''" "site_domains demo_site = [''ex.org'']"
  by (simp_all add: demo_site_def site_defaults_def)

lemma demo_find: "\<exists>tbl. routed demo_cfg tbl \<and>
   rpsiod_config_find_site_for_listener demo_cfg tbl ''EX.org'' 80 (Some ''0.0.0.0'') = Some 0"
proof -
  obtain tbl where r: "routed demo_cfg tbl" using demo_routed ..
  have ci: "rpsiod_streq_ci ''EX.org'' ''ex.org''" "\<not> explicit_default_domain ''ex.org''" by code_simp+
  have "rpsiod_config_find_site_for_listener demo_cfg tbl ''EX.org'' 80
      (Some (site_listen_ip (cfg_sites demo_cfg ! 0))) = Some 0"
    by (rule find_site_complete [OF r, where d = "''ex.org''"])
       (simp_all add: demo_nth demo_site_simps ci del: One_nat_def)
  with r show ?thesis by (auto simp: demo_nth demo_site_simps)
qed

theorem routing_complete_witness:
  "\<exists>tbl. rpsiod_config_find_site_for_listener demo_cfg tbl ''EX.org'' 80 (Some ''0.0.0.0'') = Some 0"
proof -
  obtain tbl where r: "routed demo_cfg tbl" using demo_routed ..
  have ci: "rpsiod_streq_ci ''EX.org'' ''ex.org''" "\<not> explicit_default_domain ''ex.org''" by code_simp+
  have "rpsiod_config_find_site_for_listener demo_cfg tbl ''EX.org'' 80
      (Some (site_listen_ip (cfg_sites demo_cfg ! 0))) = Some 0"
    by (rule routing_complete [OF r, where d = "''ex.org''"])
       (simp_all add: demo_nth demo_site_simps ci del: One_nat_def)
  then show ?thesis by (auto simp: demo_nth demo_site_simps)
qed

text \<open>A document tree for the system calls of the validation.\<close>

definition demo_realpath :: "string \<Rightarrow> string option" where
  "demo_realpath p = (if p = ''/srv'' then Some ''/data/srv'' else None)"

definition demo_open_dir :: "string \<Rightarrow> int" where
  "demo_open_dir p = (if p = ''/data/srv'' then 7 else - 1)"

definition demo_site_files :: "string \<Rightarrow> string option" where
  "demo_site_files p =
     (if p = ''s'' then Some demo_server_yml
      else if p = ''t'' then Some (demo_sites_yml @ ''        static:'' @ [LF] @ ''            root: /srv'' @ [LF])
      else None)"

lemma demo_load_steps:
  "case rpsiod_config_read demo_site_files (Some ''s'') (Some ''t'') of
     Inl e \<Rightarrow> False
   | Inr c1 \<Rightarrow>
       (case validate_server c1 of
          Inl e \<Rightarrow> False
        | Inr c2 \<Rightarrow>
            (case validate_sites demo_realpath demo_open_dir 0 (cfg_sites c2) of
               Inl e \<Rightarrow> False
             | Inr ss \<Rightarrow> map (\<lambda>s. (site_domains s, site_listen_ip s, site_http_port s, site_https_port s,
                         site_redirect_www_enabled s, site_enabled s)) ss
                 = [([''ex.org''], ''0.0.0.0'', 80, 443, False, True)]))"
  by code_simp

lemma demo_load: "\<exists>cfg tbl. rpsiod_config_load demo_site_files demo_realpath demo_open_dir (Some ''s'') (Some ''t'') =
     Inr (cfg, tbl)"
proof -
  obtain c1 c2 ss where
    r: "rpsiod_config_read demo_site_files (Some ''s'') (Some ''t'') = Inr c1"
    and v: "validate_server c1 = Inr c2"
    and ss: "validate_sites demo_realpath demo_open_dir 0 (cfg_sites c2) = Inr ss"
    and m: "map (\<lambda>s. (site_domains s, site_listen_ip s, site_http_port s, site_https_port s,
      site_redirect_www_enabled s, site_enabled s)) ss = [([''ex.org''], ''0.0.0.0'', 80, 443, False, True)]"
    using demo_load_steps by (auto split: sum.splits)
  then obtain s where s: "ss = [s]" "site_domains s = [''ex.org'']" "site_listen_ip s = ''0.0.0.0''"
    "site_http_port s = 80" "site_https_port s = 443" "\<not> site_redirect_www_enabled s" "site_enabled s"
    by auto
  have nd: "\<not> explicit_default_domain ''ex.org''" by code_simp
  let ?cfg = "c2\<lparr>cfg_sites := ss\<rparr>"
  have "\<forall>p r. demo_realpath p = Some r \<longrightarrow> length r < 4096" by (simp add: demo_realpath_def)
  then have fits: "config_fits ?cfg" by (rule validate_fits [OF _ r v ss])
  have "conflict_free (config_routes ?cfg) \<and> length (config_routes ?cfg) \<le> ROUTE_TABLE_SIZE"
    using s nd by (simp add: config_routes_def site_routes_def domain_hosts_def host_routes_def
        conflict_free_def ROUTE_TABLE_SIZE_def Let_def)
  then have "\<exists>tbl. build_route_table ?cfg = Inr tbl"
    using build_iff_conflict_free [OF fits] by blast
  then show ?thesis using r v ss by (auto simp: rpsiod_config_load_def rpsiod_config_validate_def)
qed

theorem config_load_valid_witness:
  "\<exists>cfg tbl. rpsiod_config_load demo_site_files demo_realpath demo_open_dir (Some ''s'') (Some ''t'') =
     Inr (cfg, tbl) \<and> routed cfg tbl \<and> list_all site_valid (cfg_sites cfg) \<and> cfg_sites cfg \<noteq> []"
proof -
  obtain cfg tbl where l: "rpsiod_config_load demo_site_files demo_realpath demo_open_dir (Some ''s'') (Some ''t'') =
     Inr (cfg, tbl)"
    using demo_load by blast
  have "\<forall>p r. demo_realpath p = Some r \<longrightarrow> length r < 4096" by (simp add: demo_realpath_def)
  with config_load_valid [OF l] l show ?thesis by blast
qed

theorem routing_sound_witness:
  "\<exists>tbl. rpsiod_config_find_site_for_listener demo_cfg tbl ''EX.org'' 80 (Some ''0.0.0.0'') = Some 0 \<and>
     site_listen_ip (cfg_sites demo_cfg ! 0) \<in> {''0.0.0.0''}"
proof -
  obtain tbl where f: "routed demo_cfg tbl"
    "rpsiod_config_find_site_for_listener demo_cfg tbl ''EX.org'' 80 (Some ''0.0.0.0'') = Some 0"
    using demo_find by blast
  from routing_sound [OF f(1) _ _ f(2)] f(2) show ?thesis by auto
qed

end
