(* ===== verification/Php.thy ===== *)
theory Php
  imports Util
begin

text \<open>
  \<open>src/php.c\<close>: recognising PHP scripts and PHP sources by name.  A request never returns a
  file whose name is a PHP source name under any stack of backup or compression suffixes.
\<close>

section \<open>Model\<close>

definition ascii_streq_ci_n :: "string \<Rightarrow> string \<Rightarrow> nat \<Rightarrow> bool" where
  "ascii_streq_ci_n a b len = (if rpsiod_streq_ci (take len a) (take len b) then drop len b = [] else False)"

definition path_has_suffix_ci :: "string \<Rightarrow> string \<Rightarrow> bool" where
  "path_has_suffix_ci path sfx =
     (length sfx \<le> length path \<and>
      ascii_streq_ci_n (drop (length path - length sfx) path) sfx (length sfx))"

definition clean_path_copy :: "nat \<Rightarrow> string \<Rightarrow> string" where
  "clean_path_copy out_len path =
     (let out = safe_copy out_len path in
      case strchr (CHR ''?'') out of None \<Rightarrow> out | Some (a, _) \<Rightarrow> a)"

definition php_exts :: "string list" where
  "php_exts = [''.php'', ''.php3'', ''.php4'', ''.php5'', ''.php7'', ''.php8'', ''.phtml'', ''.pht'', ''.phps'']"

definition path_has_php_source_extension :: "string \<Rightarrow> bool" where
  "path_has_php_source_extension path = list_ex (path_has_suffix_ci path) php_exts"

abbreviation PATH_MAX :: nat where "PATH_MAX \<equiv> 4096"

definition rpsiod_php_path_is_php :: "string \<Rightarrow> bool" where
  "rpsiod_php_path_is_php path =
     list_ex (path_has_suffix_ci (clean_path_copy PATH_MAX path))
       [''.php'', ''.php3'', ''.php4'', ''.php5'', ''.php7'', ''.php8'', ''.phtml'', ''.pht'']"

definition peel_suffixes :: "string list" where
  "peel_suffixes = [''.br'', ''.gz'', ''.zst'', ''.bak'', ''.backup'', ''.old'', ''.orig'', ''.save'',
     ''.swp'', ''.swo'', ''.tmp'', ''.copy'', ''.dist'']"

text \<open>One pass of the loop: \<open>None\<close> when nothing is peeled.\<close>

definition peel_once :: "string \<Rightarrow> string option" where
  "peel_once clean =
     (if clean \<noteq> [] \<and> last clean = CHR ''~'' then Some (butlast clean)
      else map_option (\<lambda>sfx. take (length clean - length sfx) clean)
             (find (path_has_suffix_ci clean) peel_suffixes))"

lemma peel_once_shorter: "peel_once s = Some t \<Longrightarrow> length t < length s"
  by (auto simp: peel_once_def find_Some_iff peel_suffixes_def path_has_suffix_ci_def nth_Cons
      split: if_splits nat.splits)

function peel_all :: "string \<Rightarrow> string" where
  "peel_all clean = (case peel_once clean of None \<Rightarrow> clean | Some c \<Rightarrow> peel_all c)"
  by pat_completeness auto
termination
  by (relation "measure length") (auto dest: peel_once_shorter)

declare peel_all.simps [simp del]

definition rpsiod_php_path_is_source_like :: "string \<Rightarrow> bool" where
  "rpsiod_php_path_is_source_like path =
     path_has_php_source_extension (peel_all (clean_path_copy PATH_MAX path))"

section \<open>Suffixes\<close>

lemma path_has_suffix_iff:
  "path_has_suffix_ci p s \<longleftrightarrow> (\<exists>a b. p = a @ b \<and> rpsiod_streq_ci b s)"
proof
  assume "path_has_suffix_ci p s"
  then show "\<exists>a b. p = a @ b \<and> rpsiod_streq_ci b s"
    by (intro exI [of _ "take (length p - length s) p"] exI [of _ "drop (length p - length s) p"])
       (auto simp: path_has_suffix_ci_def ascii_streq_ci_n_def split: if_splits)
next
  assume "\<exists>a b. p = a @ b \<and> rpsiod_streq_ci b s"
  then obtain a b where "p = a @ b" "rpsiod_streq_ci b s" "length b = length s"
    using streq_ci_length by blast
  then show "path_has_suffix_ci p s"
    by (simp add: path_has_suffix_ci_def ascii_streq_ci_n_def)
qed

lemma mem_lower:
  assumes "\<not> is_lower d" and "\<not> is_upper d"
  shows "d \<in> set (map c_tolower s) \<longleftrightarrow> d \<in> set s"
proof (induction s)
  case (Cons c s)
  have "d = c_tolower c \<longleftrightarrow> d = c" using tolower_eq_non_letter [OF assms, of c] by metis
  with Cons show ?case by simp
qed simp

lemma mem_lower_dot: "CHR ''.'' \<in> set (map c_tolower s) \<longleftrightarrow> CHR ''.'' \<in> set s"
  by (rule mem_lower) (simp_all add: is_lower_def is_upper_def uchar_def)

lemma mem_lower_tilde: "CHR ''~'' \<in> set (map c_tolower s) \<longleftrightarrow> CHR ''~'' \<in> set s"
  by (rule mem_lower) (simp_all add: is_lower_def is_upper_def uchar_def)

lemma streq_suffix_unique:
  assumes "a @ b = a' @ b'" and "rpsiod_streq_ci b s" and "rpsiod_streq_ci b' s'"
    and "s = CHR ''.'' # t" and "s' = CHR ''.'' # t'" and "CHR ''.'' \<notin> set t" and "CHR ''.'' \<notin> set t'"
  shows "b = b'"
proof -
  have dot: "c_tolower c = CHR ''.'' \<longleftrightarrow> c = CHR ''.''" for c
    by (rule tolower_eq_non_letter) (simp_all add: is_lower_def is_upper_def uchar_def)
  have tl: "b = CHR ''.'' # r \<and> CHR ''.'' \<notin> set r"
    if "rpsiod_streq_ci b (CHR ''.'' # t)" "CHR ''.'' \<notin> set t" "b = hd b # r" for b t r
  proof -
    have cb: "c_tolower (hd b) = c_tolower (CHR ''.'')" "map c_tolower r = map c_tolower t"
      using that(1,3) by (cases b; simp add: streq_ci_iff)+
    have "c_tolower (CHR ''.'') = CHR ''.''" using dot by blast
    then have "hd b = CHR ''.''" using cb(1) dot [of "hd b"] by metis
    moreover have "CHR ''.'' \<notin> set r"
      using that(2) mem_lower_dot [of r] mem_lower_dot [of t] cb(2) by simp
    ultimately show ?thesis using that(3) by simp
  qed
  obtain r where r: "b = CHR ''.'' # r" "CHR ''.'' \<notin> set r"
    using tl [of b t "List.tl b"] assms(2,4,6) by (cases b) (auto simp: streq_ci_iff)
  obtain r' where r': "b' = CHR ''.'' # r'" "CHR ''.'' \<notin> set r'"
    using tl [of b' t' "List.tl b'"] assms(3,5,7) by (cases b') (auto simp: streq_ci_iff)
  have "Some (a, b) = strrchr (CHR ''.'') (a @ b)"
    unfolding eq_commute [of "Some (a, b)"] strrchr_Some using r by auto
  also have "\<dots> = strrchr (CHR ''.'') (a' @ b')" unfolding assms(1) ..
  also have "\<dots> = Some (a', b')" unfolding strrchr_Some using r' by auto
  finally show ?thesis by simp
qed

lemma suffix_shapes:
  "s \<in> set peel_suffixes \<union> set php_exts \<Longrightarrow> \<exists>t. s = CHR ''.'' # t \<and> CHR ''.'' \<notin> set t \<and> CHR ''~'' \<notin> set t \<and> t \<noteq> []"
  by (auto simp: peel_suffixes_def php_exts_def)

lemma peel_not_php:
  "s \<in> set peel_suffixes \<Longrightarrow> e \<in> set php_exts \<Longrightarrow> \<not> rpsiod_streq_ci s e"
proof -
  have "list_all (\<lambda>s. list_all (\<lambda>e. \<not> rpsiod_streq_ci s e) php_exts) peel_suffixes" by code_simp
  then show "s \<in> set peel_suffixes \<Longrightarrow> e \<in> set php_exts \<Longrightarrow> \<not> rpsiod_streq_ci s e"
    by (auto simp: list_all_iff)
qed

lemma tilde_last:
  assumes "rpsiod_streq_ci b s" and "s = CHR ''.'' # t" and "CHR ''~'' \<notin> set t"
  shows "b \<noteq> [] \<and> last b \<noteq> CHR ''~''"
proof -
  have b: "b \<noteq> []" using assms by (auto simp: streq_ci_iff)
  have "last b \<noteq> CHR ''~''"
  proof
    assume "last b = CHR ''~''"
    then have "CHR ''~'' \<in> set b" using b by (metis last_in_set)
    then have "CHR ''~'' \<in> set (map c_tolower b)" by (simp only: mem_lower_tilde)
    also have "map c_tolower b = map c_tolower s" using assms(1) by (simp add: streq_ci_iff)
    finally have "CHR ''~'' \<in> set s" by (simp only: mem_lower_tilde)
    with assms(2,3) show False by simp
  qed
  with b show ?thesis by simp
qed

lemma peel_once_php_ext:
  assumes "path_has_php_source_extension p"
  shows "peel_once p = None"
proof -
  obtain a b e where p: "p = a @ b" and b: "rpsiod_streq_ci b e" and e: "e \<in> set php_exts"
    using assms by (auto simp: path_has_php_source_extension_def list_ex_iff path_has_suffix_iff)
  obtain t where t: "e = CHR ''.'' # t" "CHR ''.'' \<notin> set t" "CHR ''~'' \<notin> set t"
    using suffix_shapes e by blast
  have "last p \<noteq> CHR ''~''" "p \<noteq> []" using p tilde_last [OF b t(1,3)] by auto
  moreover have "\<not> path_has_suffix_ci p s" if s: "s \<in> set peel_suffixes" for s
  proof
    assume "path_has_suffix_ci p s"
    then obtain a' b' where p': "p = a' @ b'" "rpsiod_streq_ci b' s" by (auto simp: path_has_suffix_iff)
    obtain t' where t': "s = CHR ''.'' # t'" "CHR ''.'' \<notin> set t'" using suffix_shapes s by blast
    have "b = b'" using streq_suffix_unique [of a b a' b'] p p' b t t' by simp
    then have "rpsiod_streq_ci s e" using b p'(2) streq_ci_sym streq_ci_trans by blast
    with peel_not_php [OF s e] show False by simp
  qed
  then have "find (path_has_suffix_ci p) peel_suffixes = None" by (auto simp: find_None_iff)
  ultimately show ?thesis by (simp add: peel_once_def)
qed

text \<open>A backup suffix: one of the peeled extensions in any letter case, or a tilde.\<close>

definition backup_suffix :: "string \<Rightarrow> bool" where
  "backup_suffix x \<longleftrightarrow> x = ''~'' \<or> (\<exists>s \<in> set peel_suffixes. rpsiod_streq_ci x s)"

lemma peel_once_backup: "backup_suffix x \<Longrightarrow> peel_once (p @ x) = Some p"
proof -
  assume "backup_suffix x"
  then consider "x = ''~''" | s where "s \<in> set peel_suffixes" "rpsiod_streq_ci x s"
    by (auto simp: backup_suffix_def)
  then show ?thesis
  proof cases
    case 1
    then show ?thesis by (simp add: peel_once_def)
  next
    case (2 s)
    obtain t where t: "s = CHR ''.'' # t" "CHR ''.'' \<notin> set t" "CHR ''~'' \<notin> set t"
      using suffix_shapes 2(1) by blast
    have "x \<noteq> []" "last (p @ x) \<noteq> CHR ''~''" using tilde_last [OF 2(2) t(1,3)] by auto
    moreover have "find (path_has_suffix_ci (p @ x)) peel_suffixes \<noteq> None"
      using 2 by (auto simp: find_None_iff path_has_suffix_iff)
    then obtain s' where s': "find (path_has_suffix_ci (p @ x)) peel_suffixes = Some s'" by blast
    then have m: "s' \<in> set peel_suffixes" "path_has_suffix_ci (p @ x) s'"
      by (auto simp: find_Some_iff)
    then obtain a' b' where ab: "p @ x = a' @ b'" "rpsiod_streq_ci b' s'" by (auto simp: path_has_suffix_iff)
    obtain t' where t': "s' = CHR ''.'' # t'" "CHR ''.'' \<notin> set t'" using suffix_shapes m(1) by blast
    have "x = b'" using streq_suffix_unique [OF ab(1) 2(2) ab(2) t(1) t'(1) t(2) t'(2)] .
    then have "length s' = length x" using ab(2) streq_ci_length by fastforce
    ultimately show ?thesis using s' by (simp add: peel_once_def)
  qed
qed

lemma peel_all_backups:
  "list_all backup_suffix xs \<Longrightarrow> path_has_php_source_extension p \<Longrightarrow> peel_all (p @ concat xs) = p"
proof (induction xs rule: rev_induct)
  case Nil
  then show ?case by (simp add: peel_all.simps [of p] peel_once_php_ext)
next
  case (snoc x xs)
  then have "peel_once ((p @ concat xs) @ x) = Some (p @ concat xs)"
    by (intro peel_once_backup) simp
  with snoc show ?case by (subst peel_all.simps) simp
qed

text \<open>
  PHP source code is never served as a static file, however it was backed up: a name
  with a PHP extension followed by any stack of backup and compression suffixes (in any
  letter case, with or without a query) is recognised as a source.
\<close>

theorem source_like_backups:
  assumes "path_has_php_source_extension base" and "list_all backup_suffix sfxs"
    and "CHR ''?'' \<notin> set (base @ concat sfxs)" and "length (base @ concat sfxs) + length query < PATH_MAX"
    and "query = [] \<or> hd query = CHR ''?''"
  shows "rpsiod_php_path_is_source_like (base @ concat sfxs @ query)"
proof -
  have "clean_path_copy PATH_MAX (base @ concat sfxs @ query) = base @ concat sfxs"
  proof (cases query)
    case Nil
    with assms(3,4) show ?thesis by (simp add: clean_path_copy_def Let_def strchr_def)
  next
    case (Cons c q)
    with assms(5) have c: "c = CHR ''?''" by simp
    have "strchr (CHR ''?'') ((base @ concat sfxs) @ CHR ''?'' # q) = Some (base @ concat sfxs, CHR ''?'' # q)"
      by (rule strchr_append [OF assms(3)])
    with Cons c assms(4) show ?thesis by (simp add: clean_path_copy_def Let_def)
  qed
  with peel_all_backups [OF assms(2,1)] assms(1) show ?thesis
    by (simp add: rpsiod_php_path_is_source_like_def)
qed

theorem source_like_backups_witness:
  "rpsiod_php_path_is_source_like (''/a/config.PHP'' @ concat [''.Bak'', ''~'', ''.gz''] @ ''?x'')"
proof (rule source_like_backups)
  show "path_has_php_source_extension ''/a/config.PHP''" by code_simp
  have "rpsiod_streq_ci ''.Bak'' ''.bak''" by code_simp
  then show "list_all backup_suffix [''.Bak'', ''~'', ''.gz'']"
    by (simp add: backup_suffix_def peel_suffixes_def)
qed simp_all

end
