(* ===== verification/Compress.thy ===== *)
theory Compress
  imports Util ListScan
begin

text \<open>
  \<open>src/compress.c\<close>: CRC-32, the gzip container with stored blocks that the server falls
  back to, the \<open>Accept-Encoding\<close> decision, and the tests on types and names.  The compressors
  loaded with \<open>dlopen\<close> (zlib, brotli) are not part of the source.
\<close>

section \<open>CRC-32\<close>

definition crc32_bit :: "u32 \<Rightarrow> u32" where
  "crc32_bit crc = drop_bit 1 crc XOR (0xEDB88320 AND (0 - (crc AND 1)))"

definition crc32_byte :: "u32 \<Rightarrow> byte \<Rightarrow> u32" where
  "crc32_byte crc b = (crc32_bit ^^ 8) (crc XOR ucast b)"

definition crc32_update :: "u32 \<Rightarrow> byte list \<Rightarrow> u32" where
  "crc32_update crc data = NOT (foldl crc32_byte (NOT crc) data)"

text \<open>A checksum can be computed piecewise.\<close>

lemma crc32_update_append: "crc32_update crc (a @ b) = crc32_update (crc32_update crc a) b"
  by (simp add: crc32_update_def)

section \<open>The stored gzip container\<close>

definition gzip_header :: "byte list" where
  "gzip_header = [0x1f, 0x8b, 0x08, 0x00, 0x00, 0x00, 0x00, 0x00, 0x00, 0x03]"

definition low_byte :: "u16 \<Rightarrow> byte" where
  "low_byte w = ucast (w AND 0xff)"

definition high_byte :: "u16 \<Rightarrow> byte" where
  "high_byte w = ucast (drop_bit 8 w AND 0xff)"

definition stored_block :: "bool \<Rightarrow> byte list \<Rightarrow> byte list" where
  "stored_block final chunk =
     (let len16 = word_of_nat (length chunk) :: u16; nlen16 = NOT len16 in
      [if final then 0x01 else 0x00, low_byte len16, high_byte len16, low_byte nlen16, high_byte nlen16]
        @ chunk)"

function stored_loop :: "byte list \<Rightarrow> byte list" where
  "stored_loop rest =
     (let chunk = take 65535 rest; rest' = drop 65535 rest in
      if rest' = [] then stored_block True chunk
      else stored_block False chunk @ stored_loop rest')"
  by pat_completeness auto
termination
  by (relation "measure length") auto

declare stored_loop.simps [simp del]

definition le32 :: "u32 \<Rightarrow> byte list" where
  "le32 w = map (\<lambda>i. ucast (drop_bit (8 * i) w AND 0xff)) [0, 1, 2, 3]"

definition gzip_store_capacity :: "nat \<Rightarrow> nat" where
  "gzip_store_capacity in_len = 10 + (in_len + 65534) div 65535 * 5 + in_len + 8"

definition rpsiod_gzip_store :: "byte list \<Rightarrow> byte list" where
  "rpsiod_gzip_store data =
     gzip_header @ stored_loop data @ le32 (crc32_update 0 data) @ le32 (word_of_nat (length data))"

section \<open>The reference decoder\<close>

text \<open>RFC 1951 stored blocks and the RFC 1952 trailer, as a receiver reads them.\<close>

definition read16 :: "byte \<Rightarrow> byte \<Rightarrow> u16" where
  "read16 lo hi = ucast lo OR push_bit 8 (ucast hi)"

function inflate_stored :: "byte list \<Rightarrow> (byte list \<times> byte list) option" where
  "inflate_stored s =
     (case s of
        f # l0 # l1 # n0 # n1 # r \<Rightarrow>
          (let len = unat (read16 l0 l1) in
           if f \<notin> {0, 1} \<or> read16 n0 n1 \<noteq> NOT (read16 l0 l1) \<or> length r < len then None
           else if f = 1 then Some (take len r, drop len r)
           else map_option (\<lambda>(d, t). (take len r @ d, t)) (inflate_stored (drop len r)))
      | _ \<Rightarrow> None)"
  by pat_completeness auto
termination
  by (relation "measure length") auto

declare inflate_stored.simps [simp del]

definition gunzip_stored :: "byte list \<Rightarrow> byte list option" where
  "gunzip_stored s =
     (if take 10 s \<noteq> gzip_header then None
      else case inflate_stored (drop 10 s) of
        None \<Rightarrow> None
      | Some (d, trailer) \<Rightarrow>
          if trailer = le32 (crc32_update 0 d) @ le32 (word_of_nat (length d)) then Some d else None)"

lemma byte_mask: "(0xff :: 'a::len word) = mask 8"
  by (simp add: mask_eq_exp_minus_1)

lemma read16_bytes: "read16 (low_byte w) (high_byte w) = w"
  unfolding read16_def low_byte_def high_byte_def byte_mask
  by (rule bit_word_eqI) (auto simp: bit_simps)

lemma inflate_stored_block:
  assumes "length chunk \<le> 65535"
  shows "inflate_stored (stored_block final chunk @ t) =
    (if final then Some (chunk, t) else map_option (\<lambda>(d, t). (chunk @ d, t)) (inflate_stored t))"
proof -
  have "unat (word_of_nat (length chunk) :: u16) = length chunk"
    using assms by (simp add: unat_of_nat)
  then show ?thesis
    by (subst inflate_stored.simps) (simp add: stored_block_def Let_def read16_bytes)
qed

lemma inflate_stored_loop: "inflate_stored (stored_loop data @ t) = Some (data, t)"
proof (induction data arbitrary: t rule: stored_loop.induct)
  case (1 rest)
  show ?case
  proof (cases "drop 65535 rest = []")
    case True
    then show ?thesis by (simp add: stored_loop.simps [of rest] inflate_stored_block)
  next
    case False
    with 1 show ?thesis by (simp add: stored_loop.simps [of rest] inflate_stored_block)
  qed
qed

lemma length_stored_loop:
  "length (stored_loop data) = max 1 ((length data + 65534) div 65535) * 5 + length data"
proof (induction data rule: stored_loop.induct)
  case (1 rest)
  have block: "length (stored_block f c) = 5 + length c" for f c
    by (simp add: stored_block_def Let_def)
  show ?case
  proof (cases "length rest \<le> 65535")
    case True
    then have "drop 65535 rest = []" "take 65535 rest = rest" by simp_all
    moreover have "max 1 ((length rest + 65534) div 65535) = 1"
    proof (cases "length rest = 0")
      case False
      with True have "(length rest + 65534) div 65535 = 1" by linarith
      then show ?thesis by simp
    qed simp
    ultimately show ?thesis by (simp add: stored_loop.simps [of rest] block)
  next
    case False
    then have "length (stored_loop rest) = 5 + 65535 + length (stored_loop (drop 65535 rest))"
      by (simp add: stored_loop.simps [of rest] block)
    also have "length (stored_loop (drop 65535 rest)) =
        max 1 ((length rest - 65535 + 65534) div 65535) * 5 + (length rest - 65535)"
      using 1 [OF refl refl] False by simp
    also have "max 1 ((length rest - 65535 + 65534) div 65535) = (length rest + 65534) div 65535 - 1"
    proof -
      have "(length rest + 65534) div 65535 = (length rest - 65535 + 65534) div 65535 + 1"
        using False by (simp add: div_add_self2 flip: div_add_self2)
      moreover have "1 \<le> (length rest - 65535 + 65534) div 65535"
        using False by (simp add: Suc_le_eq div_greater_zero_iff)
      ultimately show ?thesis by simp
    qed
    finally show ?thesis
    proof -
      assume eq: "length (stored_loop rest) =
          5 + 65535 + (((length rest + 65534) div 65535 - 1) * 5 + (length rest - 65535))"
      have "2 \<le> (length rest + 65534) div 65535"
        using False by (intro div_le_mono [of 131070 _ 65535, simplified]) simp
      with eq False show ?thesis by simp
    qed
  qed
qed

text \<open>
  the gzip fallback is lossless: a decoder that follows the format recovers exactly the
  input from the container the server builds, checksum and length included, for every input
  (the empty one too).
\<close>

theorem gzip_store_roundtrip: "gunzip_stored (rpsiod_gzip_store data) = Some data"
proof -
  have "take 10 (rpsiod_gzip_store data) = gzip_header"
    "drop 10 (rpsiod_gzip_store data) =
       stored_loop data @ le32 (crc32_update 0 data) @ le32 (word_of_nat (length data))"
    by (simp_all add: rpsiod_gzip_store_def gzip_header_def)
  then show ?thesis by (simp add: gunzip_stored_def inflate_stored_loop)
qed

text \<open>
  the fallback's buffer has exactly the right size for every non-empty input, but for an
  empty one the loop still writes a block header that the size computation forgot: 23 bytes
  into a buffer of 18.
\<close>

theorem gzip_store_capacity_exact:
  "(length (rpsiod_gzip_store data) = gzip_store_capacity (length data) \<longleftrightarrow> data \<noteq> []) \<and>
   length (rpsiod_gzip_store []) = 23 \<and> gzip_store_capacity 0 = 18"
proof -
  have "length (rpsiod_gzip_store data) = 10 + max 1 ((length data + 65534) div 65535) * 5 + length data + 8"
    for data
    by (simp add: rpsiod_gzip_store_def gzip_header_def le32_def length_stored_loop)
  moreover have "1 \<le> (length data + 65534) div 65535" if "data \<noteq> []"
    using that by (cases data) (simp_all add: Suc_le_eq div_greater_zero_iff)
  ultimately show ?thesis by (cases "data = []") (simp_all add: gzip_store_capacity_def max_def)
qed

section \<open>Accept-Encoding\<close>

definition token_eq_ci :: "string \<Rightarrow> string \<Rightarrow> bool" where
  "token_eq_ci token expected =
     (if length token \<noteq> length expected then False else rpsiod_streq_ci token expected)"

fun zero_digits :: "bool \<Rightarrow> string \<Rightarrow> bool" where
  "zero_digits dot_seen [] = True"
| "zero_digits dot_seen (c # cs) =
     (if c = CHR ''.'' then (if dot_seen then False else zero_digits True cs)
      else if c \<noteq> CHR ''0'' then False
      else zero_digits dot_seen cs)"

definition qvalue_is_zero :: "string \<Rightarrow> bool" where
  "qvalue_is_zero v =
     (case trim is_ows v of
        [] \<Rightarrow> False
      | c # cs \<Rightarrow> if c \<noteq> CHR ''0'' then False else zero_digits False cs)"

lemma param_decreases:
  fixes s :: string
  defines "p \<equiv> \<lambda>c. c \<noteq> CHR ''='' \<and> c \<noteq> CHR '';''"
  defines "t \<equiv> dropWhile (\<lambda>c. c = CHR '';'' \<or> is_ows c) s"
  assumes "s \<noteq> []" "dropWhile p t = [] \<or> hd (dropWhile p t) \<noteq> CHR ''=''"
  shows "length (dropWhile (\<lambda>c. c \<noteq> CHR '';'') (dropWhile p t)) < length s"
proof (cases t)
  case Nil
  with assms(3) show ?thesis by simp
next
  case (Cons c cs)
  have "\<not> (c = CHR '';'' \<or> is_ows c)"
    using hd_dropWhile [of "\<lambda>c. c = CHR '';'' \<or> is_ows c" s] Cons unfolding t_def by simp
  moreover have "c \<noteq> CHR ''=''" using assms(4) Cons by (auto simp: p_def)
  ultimately have "dropWhile p t = dropWhile p cs" by (simp add: Cons p_def)
  then have "length (dropWhile (\<lambda>c. c \<noteq> CHR '';'') (dropWhile p t)) \<le> length cs"
    using order_trans [OF length_dropWhile_le length_dropWhile_le] by metis
  also have "\<dots> < length t" by (simp add: Cons)
  also have "\<dots> \<le> length s" unfolding t_def by (rule length_dropWhile_le)
  finally show ?thesis .
qed

function allowed_loop :: "bool \<Rightarrow> string \<Rightarrow> bool" where
  "allowed_loop allowed s =
     (if s = [] then allowed
      else
        let s1 = dropWhile (\<lambda>c. c = CHR '';'' \<or> is_ows c) s;
            nm = rtrim is_ows (takeWhile (\<lambda>c. c \<noteq> CHR ''='' \<and> c \<noteq> CHR '';'') s1);
            r = dropWhile (\<lambda>c. c \<noteq> CHR ''='' \<and> c \<noteq> CHR '';'') s1 in
        if r = [] \<or> hd r \<noteq> CHR ''='' then allowed_loop allowed (dropWhile (\<lambda>c. c \<noteq> CHR '';'') r)
        else
          let v0 = dropWhile is_ows (tl r);
              v = takeWhile (\<lambda>c. c \<noteq> CHR '';'') v0 in
          allowed_loop (if token_eq_ci nm ''q'' then \<not> qvalue_is_zero v else allowed)
            (dropWhile (\<lambda>c. c \<noteq> CHR '';'') v0))"
  by pat_completeness auto
termination
proof (relation "measure (length \<circ> snd)", simp, goal_cases)
  case (1 allowed s s1 nm r)
  have le: "length r \<le> length s1" "length s1 \<le> length s"
    unfolding 1(4) by (rule length_dropWhile_le, unfold 1(2), rule length_dropWhile_le)
  have "length (dropWhile (\<lambda>c. c \<noteq> CHR '';'') r) < length s"
    using 1(1) 1(5) unfolding 1(4) 1(2) by (rule param_decreases)
  then show ?case by simp
next
  case (2 allowed s s1 nm r v0 v)
  have le: "length r \<le> length s1" "length s1 \<le> length s"
    unfolding 2(4) by (rule length_dropWhile_le, unfold 2(2), rule length_dropWhile_le)
  have "length (dropWhile (\<lambda>c. c \<noteq> CHR '';'') v0) \<le> length (tl r)"
    unfolding 2(6) by (rule order_trans [OF length_dropWhile_le length_dropWhile_le])
  also have "\<dots> < length r" using 2(5) by (cases r) auto
  finally show ?case using le by simp
qed

declare allowed_loop.simps [simp del]

definition accept_encoding_token_allowed :: "string \<Rightarrow> bool" where
  "accept_encoding_token_allowed params = allowed_loop True params"

text \<open>The decision about one item of the list: \<open>None\<close> when its token is not the encoding.\<close>

definition encoding_item :: "string \<Rightarrow> string \<Rightarrow> bool option" where
  "encoding_item encoding raw =
     (let item = rtrim is_ows raw;
          token = takeWhile (\<lambda>c. c \<noteq> CHR '';'' \<and> \<not> is_ows c) item;
          params = dropWhile is_ows (dropWhile (\<lambda>c. c \<noteq> CHR '';'' \<and> \<not> is_ows c) item) in
      if token_eq_ci token encoding then Some (accept_encoding_token_allowed params) else None)"

function accepts_loop :: "string \<Rightarrow> string \<Rightarrow> bool option" where
  "accepts_loop encoding p =
     (if p = [] then None
      else let start = dropWhile list_skip p in
        case encoding_item encoding (takeWhile (\<lambda>c. c \<noteq> CHR '','') start) of
          Some b \<Rightarrow> Some b
        | None \<Rightarrow> accepts_loop encoding (dropWhile (\<lambda>c. c \<noteq> CHR '','') start))"
  by pat_completeness auto
termination
  by (relation "measure (length \<circ> snd)") (simp_all add: scan_decreases)

declare accepts_loop.simps [simp del]

definition accepts_encoding_token :: "string \<Rightarrow> string \<Rightarrow> bool" where
  "accepts_encoding_token accept_encoding encoding =
     (if accept_encoding = [] then False
      else case accepts_loop encoding accept_encoding of None \<Rightarrow> False | Some b \<Rightarrow> b)"

definition rpsiod_accepts_gzip :: "string \<Rightarrow> bool" where
  "rpsiod_accepts_gzip accept_encoding = accepts_encoding_token accept_encoding ''gzip''"

definition rpsiod_accepts_br :: "string \<Rightarrow> bool" where
  "rpsiod_accepts_br accept_encoding = accepts_encoding_token accept_encoding ''br''"

interpretation accept_encoding: comma_first accepts_loop encoding_item "\<lambda>encoding. encoding \<noteq> []"
proof (unfold_locales, goal_cases)
  case (1 p)
  then show ?case by (simp add: accepts_loop.simps)
next
  case (2 s p)
  then show ?case by (subst accepts_loop.simps) (simp add: Let_def split: option.splits)
next
  case (3 p)
  then show ?case by (simp add: encoding_item_def token_eq_ci_def)
qed

text \<open>
  the server compresses only for clients that accept it: an encoding is accepted exactly
  when the first comma-separated item of \<open>Accept-Encoding\<close> that names it (in any letter case)
  does not refuse it with a zero quality value; without such an item it is refused.
\<close>

theorem accepts_encoding_first_item:
  assumes "encoding \<noteq> []"
  shows "accepts_encoding_token accept_encoding encoding \<longleftrightarrow>
    first_some (\<lambda>f. encoding_item encoding (dropWhile is_ows f)) (split_on (CHR '','') accept_encoding)
      = Some True"
  using accept_encoding.scan_fields [of encoding accept_encoding, OF assms]
    accept_encoding.item_Nil [OF assms]
  by (auto simp: accepts_encoding_token_def split: option.splits)

theorem accepts_encoding_first_item_witness:
  "accepts_encoding_token ''br;q=0, gzip;q=1'' ''gzip'' \<and>
   first_some (\<lambda>f. encoding_item ''gzip'' (dropWhile is_ows f)) (split_on (CHR '','') ''br;q=0, gzip;q=1'')
      = Some True"
proof -
  have "accepts_encoding_token ''br;q=0, gzip;q=1'' ''gzip''" by code_simp
  then show ?thesis
    using accepts_encoding_first_item [of "''gzip''" "''br;q=0, gzip;q=1''", OF list.distinct(2)] by blast
qed

section \<open>Types and names\<close>

definition rpsiod_content_type_compressible :: "string \<Rightarrow> bool" where
  "rpsiod_content_type_compressible content_type =
     (rpsiod_starts_with content_type ''text/'' \<or> strstr_found content_type ''javascript'' \<or>
      strstr_found content_type ''json'' \<or> strstr_found content_type ''xml'' \<or>
      strstr_found content_type ''svg'')"

definition rpsiod_path_already_compressed :: "string \<Rightarrow> bool" where
  "rpsiod_path_already_compressed path =
     (case strrchr (CHR ''.'') path of
        None \<Rightarrow> False
      | Some (_, ext) \<Rightarrow>
          list_ex (rpsiod_streq_ci ext)
            [''.gz'', ''.br'', ''.zip'', ''.png'', ''.jpg'', ''.jpeg'', ''.gif'', ''.webp'', ''.ico'', ''.pdf''])"

end
