(* ===== verification/Redirect.thy ===== *)
theory Redirect
  imports Http Config
begin

text \<open>
  \<open>src/route.c\<close>: the redirects from HTTP to HTTPS and between the apex and the \<open>www\<close> name of
  a site, and \<open>src/static.c\<close>'s relative request path.
\<close>

section \<open>Model\<close>

definition request_host :: "site_config \<Rightarrow> http_request \<Rightarrow> string" where
  "request_host site req =
     (if r_host req \<noteq> [] then r_host req
      else case site_domains site of [] \<Rightarrow> [] | d # _ \<Rightarrow> d)"

text \<open>
  The decision, before the location is printed: \<open>None\<close> without a redirect, otherwise whether
  the request changes to HTTPS by itself, the new host and the status.
\<close>

definition redirect_to_https :: "site_config \<Rightarrow> u16 \<Rightarrow> bool \<Rightarrow> bool" where
  "redirect_to_https site port suppress_http_to_https \<longleftrightarrow>
     \<not> suppress_http_to_https \<and> site_redirect_http_to_https site \<and> port = site_http_port site \<and>
     site_https_port site \<noteq> 0"

definition redirect_www :: "site_config \<Rightarrow> string \<Rightarrow> string option" where
  "redirect_www site target_host =
     (if \<not> site_redirect_www_enabled site then None
      else if rpsiod_streq_ci (site_redirect_www_mode site) ''apexToWww'' \<and> \<not> starts_with target_host ''www.''
      then (let tmp = ''www.'' @ target_host in
            if length tmp < 256 then Some (safe_copy 256 tmp) else None)
      else if rpsiod_streq_ci (site_redirect_www_mode site) ''wwwToApex'' \<and> starts_with target_host ''www.''
      then Some (drop 4 target_host)
      else None)"

definition redirect_decision :: "site_config \<Rightarrow> string \<Rightarrow> u16 \<Rightarrow> bool \<Rightarrow> (bool \<times> string \<times> int) option" where
  "redirect_decision site host port suppress_http_to_https =
     (let target_host = safe_copy 256 host;
          https = redirect_to_https site port suppress_http_to_https in
      case redirect_www site target_host of
        Some h \<Rightarrow> Some (https, h, site_redirect_www_status site)
      | None \<Rightarrow> if https then Some (True, target_host, 301) else None)"

definition redirect_is_https :: "site_config \<Rightarrow> bool \<Rightarrow> bool" where
  "redirect_is_https site https \<longleftrightarrow> https \<or> rpsiod_streq_ci (site_serve_as site) ''https''"

definition redirect_url :: "site_config \<Rightarrow> bool \<Rightarrow> string \<Rightarrow> string \<Rightarrow> string" where
  "redirect_url site secure target_host path =
     (let scheme = (if secure then ''https'' else ''http'');
          include_port = (scheme = ''http'' \<and> site_http_port site \<noteq> 80) \<or>
                         (scheme = ''https'' \<and> site_https_port site \<noteq> 443) in
      if include_port then
        let out_port = (if scheme = ''https'' then site_https_port site else site_http_port site) in
        scheme @ ''://'' @ target_host @ '':'' @ dec (unat out_port) @ path
      else scheme @ ''://'' @ target_host @ path)"

text \<open>\<open>Some (out, status)\<close> when the C function returns true.\<close>

definition rpsiod_route_build_redirect_location ::
  "site_config \<Rightarrow> http_request \<Rightarrow> u16 \<Rightarrow> bool \<Rightarrow> nat \<Rightarrow> (string \<times> int) option" where
  "rpsiod_route_build_redirect_location site req port suppress_http_to_https out_len =
     (case redirect_decision site (request_host site req) port suppress_http_to_https of
        None \<Rightarrow> None
      | Some (https, target_host, status) \<Rightarrow>
          (let out = redirect_url site (redirect_is_https site https) target_host (r_path req) in
           if length out < out_len then Some (out, status) else None))"

definition rpsiod_static_relative_request_path :: "string \<Rightarrow> string" where
  "rpsiod_static_relative_request_path request_path =
     (let p = dropWhile (\<lambda>c. c = CHR ''/'') request_path in if p = [] then ''.'' else p)"

section \<open>Chains of redirects\<close>

text \<open>The host and port a client turns to when it follows the redirect.\<close>

definition redirect_next :: "site_config \<Rightarrow> string \<times> u16 \<Rightarrow> (string \<times> u16) option" where
  "redirect_next site hp =
     (case redirect_decision site (fst hp) (snd hp) False of
        None \<Rightarrow> None
      | Some (https, h, _) \<Rightarrow>
          Some (h, if redirect_is_https site https then site_https_port site else site_http_port site))"

lemma redirect_www_Some:
  "redirect_www site h = Some h' \<Longrightarrow> length h < 256 \<Longrightarrow> length h' < 256 \<and> set h' \<subseteq> set h \<union> set ''www.''"
  by (auto simp: redirect_www_def Let_def starts_with_iff split: if_splits)

lemma redirect_www_apex_done:
  "rpsiod_streq_ci (site_redirect_www_mode site) ''apexToWww'' \<Longrightarrow>
   redirect_www site h = Some h' \<Longrightarrow> redirect_www site h' = None"
proof -
  assume m: "rpsiod_streq_ci (site_redirect_www_mode site) ''apexToWww''"
  have "\<not> rpsiod_streq_ci ''apexToWww'' ''wwwToApex''" by code_simp
  then have "\<not> rpsiod_streq_ci (site_redirect_www_mode site) ''wwwToApex''"
    using streq_ci_subst [OF m] by simp
  moreover assume "redirect_www site h = Some h'"
  ultimately show ?thesis using m
    by (auto simp: redirect_www_def Let_def starts_with_def split: if_splits)
qed

lemma redirect_www_settled:
  assumes "\<not> site_redirect_www_enabled site \<or> rpsiod_streq_ci (site_redirect_www_mode site) ''apexToWww''"
    and "redirect_next site (h, p) = Some (h', p')"
  shows "length h' < 256 \<and> redirect_www site h' = None"
proof (cases "redirect_www site (safe_copy 256 h)")
  case None
  with assms(2) show ?thesis
    by (auto simp: redirect_next_def redirect_decision_def length_safe_copy Let_def split: if_splits)
next
  case (Some w)
  then have "rpsiod_streq_ci (site_redirect_www_mode site) ''apexToWww''"
    using assms(1) by (auto simp: redirect_www_def)
  with Some redirect_www_Some [OF Some] redirect_www_apex_done [OF _ Some] assms(2) show ?thesis
    by (simp add: redirect_next_def redirect_decision_def Let_def length_safe_copy)
qed

lemma redirect_next_settled:
  assumes "redirect_www site h = None" and "length h < 256"
  shows "redirect_next site (h, p) =
    (if redirect_to_https site p False then Some (h, site_https_port site) else None)"
  using assms by (simp add: redirect_next_def redirect_decision_def redirect_is_https_def Let_def)

text \<open>Following \<open>n\<close> redirects; \<open>None\<close> when the server stops redirecting before.\<close>

fun follow :: "site_config \<Rightarrow> nat \<Rightarrow> string \<times> u16 \<Rightarrow> (string \<times> u16) option" where
  "follow site 0 hp = Some hp"
| "follow site (Suc n) hp = (case redirect_next site hp of None \<Rightarrow> None | Some hp' \<Rightarrow> follow site n hp')"

text \<open>How often \<open>www.\<close> stands in front of a name.\<close>

function www_depth :: "string \<Rightarrow> nat" where
  "www_depth h = (if starts_with h ''www.'' then Suc (www_depth (drop 4 h)) else 0)"
  by pat_completeness auto
termination by (relation "measure length") (auto simp: starts_with_iff)

declare www_depth.simps [simp del]

lemma redirect_next_copy: "redirect_next site (safe_copy 256 h, p) = redirect_next site (h, p)"
  by (simp add: redirect_next_def redirect_decision_def length_safe_copy)

lemma follow_copy: "follow site (Suc n) (safe_copy 256 h, p) = follow site (Suc n) (h, p)"
  by (simp add: redirect_next_copy)

lemma follow_settled:
  assumes "redirect_www site h = None" and "length h < 256" and "site_http_port site \<noteq> site_https_port site"
  shows "follow site (Suc (Suc n)) (h, p) = None"
  using redirect_next_settled [OF assms(1,2)] assms(3) by (simp add: redirect_to_https_def)

lemma follow_adding:
  assumes "site_http_port site \<noteq> site_https_port site"
    and "\<not> site_redirect_www_enabled site \<or> rpsiod_streq_ci (site_redirect_www_mode site) ''apexToWww''"
  shows "follow site 3 (h, p) = None"
proof (cases "redirect_next site (h, p)")
  case (Some hp)
  obtain h' p' where hp: "hp = (h', p')" by fastforce
  from redirect_www_settled [OF assms(2) Some [unfolded hp]] assms(1) have "follow site (Suc (Suc 0)) (h', p') = None"
    by (intro follow_settled) simp_all
  with Some show ?thesis by (simp add: numeral_3_eq_3 hp)
qed (simp add: numeral_3_eq_3)

lemma follow_stripping:
  assumes "site_http_port site \<noteq> site_https_port site"
    and "\<not> rpsiod_streq_ci (site_redirect_www_mode site) ''apexToWww''"
  shows "length h < 256 \<Longrightarrow> follow site (www_depth h + 2) (h, p) = None"
proof (induction h arbitrary: p rule: www_depth.induct)
  case (1 h)
  show ?case
  proof (cases "redirect_www site h")
    case None
    then show ?thesis using follow_settled [OF None 1(2) assms(1)] by simp
  next
    case (Some w)
    then have w: "starts_with h ''www.''" "w = drop 4 h" using assms(2) by (auto simp: redirect_www_def split: if_splits)
    obtain p' where "redirect_next site (h, p) = Some (drop 4 h, p')"
      using Some w 1(2) by (simp add: redirect_next_def redirect_decision_def Let_def)
    moreover have "follow site (www_depth (drop 4 h) + 2) (drop 4 h, p') = None"
      using 1(1) [OF w(1)] 1(2) by simp
    ultimately show ?thesis using w(1) by (simp add: www_depth.simps [of h])
  qed
qed

text \<open>
  C39: redirects settle: on every site whose HTTP and HTTPS ports differ an HTTP/1.1 client that
  follows the redirects comes to an end.  When the site adds \<open>www\<close> or leaves the name alone it is
  redirected at most twice; when the site strips \<open>www\<close>, at most once for each \<open>www.\<close> in front
  of the name and once more.
\<close>

theorem redirects_settle:
  assumes "site_http_port site \<noteq> site_https_port site"
  shows "follow site
    (if site_redirect_www_enabled site \<and> rpsiod_streq_ci (site_redirect_www_mode site) ''wwwToApex''
     then www_depth (safe_copy 256 h) + 2 else 3) (h, p) = None"
proof (cases "site_redirect_www_enabled site \<and> \<not> rpsiod_streq_ci (site_redirect_www_mode site) ''apexToWww''")
  case False
  have "\<not> rpsiod_streq_ci ''apexToWww'' ''wwwToApex''" by code_simp
  then have "\<not> rpsiod_streq_ci (site_redirect_www_mode site) ''wwwToApex''" if "site_redirect_www_enabled site"
    using False that streq_ci_subst [of "site_redirect_www_mode site" "''apexToWww''"] by auto
  with follow_adding [OF assms, of h p] False show ?thesis by auto
next
  case True
  have strip: "follow site (www_depth (safe_copy 256 h) + 2) (h, p) = None"
    using follow_stripping [OF assms, of "safe_copy 256 h" p] True follow_copy [of site "Suc (www_depth (safe_copy 256 h))" h p]
    by (simp add: length_safe_copy)
  show ?thesis
  proof (cases "rpsiod_streq_ci (site_redirect_www_mode site) ''wwwToApex''")
    case False
    then have none: "redirect_www site h' = None" for h' using True by (simp add: redirect_www_def)
    have "follow site (Suc (Suc 1)) (safe_copy 256 h, p) = None"
      by (rule follow_settled [OF none _ assms]) (simp add: length_safe_copy)
    then have "follow site 3 (h, p) = None"
      unfolding follow_copy by (simp add: numeral_3_eq_3)
    with False show ?thesis by simp
  qed (use strip True in simp)
qed

theorem redirects_settle_witness:
  "let site = site_defaults\<lparr>site_redirect_http_to_https := True, site_redirect_www_enabled := True,
     site_redirect_www_mode := ''wwwToApex''\<rparr> in
   follow site 3 (''www.www.www.a'', 80) = Some (''a'', 443) \<and> follow site 5 (''www.www.www.a'', 80) = None"
proof -
  let ?site = "site_defaults\<lparr>site_redirect_http_to_https := True, site_redirect_www_enabled := True,
     site_redirect_www_mode := ''wwwToApex''\<rparr>"
  have "site_http_port ?site \<noteq> site_https_port ?site" by code_simp
  moreover have "site_redirect_www_enabled ?site \<and> rpsiod_streq_ci (site_redirect_www_mode ?site) ''wwwToApex''"
    by code_simp
  moreover have "www_depth (safe_copy 256 ''www.www.www.a'') = 3" by code_simp
  moreover have "follow ?site 3 (''www.www.www.a'', 80) = Some (''a'', 443)" by code_simp
  ultimately show ?thesis
    using redirects_settle [of ?site "''www.www.www.a''" 80] by (simp add: Let_def)
qed

text \<open>
  A request for \<open>WWW.a\<close> on a site that adds \<open>www\<close> is sent to \<open>www.WWW.a\<close>: the name is
  compared with \<open>strncmp\<close>, although host names are matched in any letter case elsewhere.
\<close>

lemma redirect_www_case_sensitive:
  "redirect_next (site_defaults\<lparr>site_redirect_www_enabled := True,
     site_redirect_www_mode := ''apexToWww''\<rparr>) (''WWW.a'', 80) = Some (''www.WWW.a'', 80)"
  by code_simp

section \<open>The location\<close>

lemma dec_ascii: "set (dec n) \<subseteq> {c. is_digit c}"
  using dec_digits by blast

definition header_safe :: "string \<Rightarrow> bool" where
  "header_safe s = list_all header_value_char s"

lemma header_safe_Nil [simp]: "header_safe []" and
  header_safe_append [simp]: "header_safe (a @ b) \<longleftrightarrow> header_safe a \<and> header_safe b" and
  header_safe_Cons [simp]: "header_safe (c # b) \<longleftrightarrow> header_value_char c \<and> header_safe b"
  by (simp_all add: header_safe_def)

lemma header_safe_subset: "set a \<subseteq> set b \<Longrightarrow> header_safe b \<Longrightarrow> header_safe a"
  by (auto simp: header_safe_def list_all_iff)

lemma header_safe_dec [simp]: "header_safe (dec n)"
  using dec_ascii [of n] by (auto simp: header_safe_def list_all_iff header_value_char_def is_digit_def)

end
