(* ===== verification/Io.thy ===== *)
theory Io
  imports Util
begin

text \<open>
  The loops that move bytes: \<open>rpsiod_write_all\<close> (\<open>src/util.c\<close>), \<open>client_write_all\<close>,
  \<open>client_writev_all\<close>, \<open>copy_file_read_write\<close>, \<open>send_file_body\<close> and \<open>fcgi_read_exact\<close>
  (\<open>src/server.c\<close>).

  What the kernel answers is a schedule: \<open>io_events\<close> lists the outcomes of the next system calls
  on the connection (a count that may be short, \<open>EINTR\<close>, \<open>EAGAIN\<close> with the result of the
  \<open>poll\<close> that follows, any other error); when the schedule is exhausted every call transfers
  all it was asked for.  A terminating run sees finitely many outcomes, so every terminating
  behaviour is the run of some schedule.  \<open>io_sent\<close> are the bytes the kernel has accepted,
  \<open>io_in\<close> those the peer delivers before it closes.
\<close>

section \<open>System calls\<close>

datatype event = Short nat | Intr | Again bool | Broken

datatype sys_result = Count nat | EINTR | EAGAIN bool | EIO

record io =
  io_sent :: string
  io_in :: string
  io_events :: "event list"

definition sys_count :: "nat \<Rightarrow> io \<Rightarrow> sys_result \<times> io" where
  "sys_count m w =
     (case io_events w of
        [] \<Rightarrow> (Count m, w)
      | e # es \<Rightarrow>
          (case e of Short n \<Rightarrow> Count (min n m) | Intr \<Rightarrow> EINTR | Again ready \<Rightarrow> EAGAIN ready | Broken \<Rightarrow> EIO,
           w\<lparr>io_events := es\<rparr>))"

definition sys_write :: "string \<Rightarrow> io \<Rightarrow> sys_result \<times> io" where
  "sys_write s w =
     (case sys_count (length s) w of
        (Count n, w') \<Rightarrow> (Count n, w'\<lparr>io_sent := io_sent w' @ take n s\<rparr>)
      | r \<Rightarrow> r)"

definition sys_read :: "nat \<Rightarrow> io \<Rightarrow> (sys_result \<times> string) \<times> io" where
  "sys_read want w =
     (case sys_count (min want (length (io_in w))) w of
        (Count n, w') \<Rightarrow> ((Count n, take n (io_in w)), w'\<lparr>io_in := drop n (io_in w)\<rparr>)
      | (r, w') \<Rightarrow> ((r, []), w'))"

lemma sys_count_le:
  "sys_count m w = (r, w') \<Longrightarrow> length (io_events w') \<le> length (io_events w) \<and>
     io_sent w' = io_sent w \<and> io_in w' = io_in w \<and> (\<forall>n. r = Count n \<longrightarrow> n \<le> m) \<and>
     ((\<forall>n. r \<noteq> Count n) \<longrightarrow> length (io_events w') < length (io_events w))"
  by (auto simp: sys_count_def split: list.splits event.splits)

text \<open>An error uses up an outcome; a count moves bytes.\<close>

lemma sys_write_error:
  assumes "sys_write s w = (r, w')" and "\<And>n. r \<noteq> Count n"
  shows "length (io_events w') < length (io_events w) \<and> io_sent w' = io_sent w \<and> io_in w' = io_in w"
proof (cases "sys_count (length s) w")
  case (Pair r0 w0)
  with assms have "r0 = r" "w0 = w'" by (auto simp: sys_write_def split: sys_result.splits)
  with sys_count_le [OF Pair] assms(2) show ?thesis by blast
qed

lemma sys_write_count:
  assumes "sys_write s w = (Count n, w')"
  shows "length (io_events w') \<le> length (io_events w) \<and> n \<le> length s \<and>
    io_sent w' = io_sent w @ take n s \<and> io_in w' = io_in w"
proof (cases "sys_count (length s) w")
  case (Pair r0 w0)
  with assms have "r0 = Count n" "w' = w0\<lparr>io_sent := io_sent w0 @ take n s\<rparr>"
    by (auto simp: sys_write_def split: sys_result.splits)
  with sys_count_le [OF Pair] show ?thesis by auto
qed

lemmas sys_write_facts = sys_write_error sys_write_count

section \<open>Writing all bytes\<close>

function rpsiod_write_all :: "string \<Rightarrow> io \<Rightarrow> bool \<times> io" where
  "rpsiod_write_all s w =
     (if s = [] then (True, w)
      else case sys_write s w of
        (EINTR, w') \<Rightarrow> rpsiod_write_all s w'
      | (EAGAIN ready, w') \<Rightarrow> if ready then rpsiod_write_all s w' else (False, w')
      | (EIO, w') \<Rightarrow> (False, w')
      | (Count n, w') \<Rightarrow> if n = 0 then (False, w') else rpsiod_write_all (drop n s) w')"
  by pat_completeness auto
termination
  by (relation "measure (\<lambda>(s, w). length s + length (io_events w))")
     (auto dest: sys_write_error [OF sym] dest!: sys_write_count [OF sym])

declare rpsiod_write_all.simps [simp del]

text \<open>
  \<open>SSL_write\<close> answers a count, a wish to wait (\<open>EAGAIN\<close> here) or an error; an interrupted call
  is an error of the TLS layer.
\<close>

definition ssl_chunk :: "string \<Rightarrow> string" where
  "ssl_chunk s = (if int (length s) > INT_MAX then take (nat INT_MAX) s else s)"

lemma ssl_chunk_Nil [simp]: "ssl_chunk s = [] \<longleftrightarrow> s = []"
  by (auto simp: ssl_chunk_def INT_MAX_def)

lemma ssl_chunk_take: "\<exists>k. ssl_chunk s = take k s"
  by (auto simp: ssl_chunk_def intro: exI [of _ "length s"])

lemma length_ssl_chunk: "length (ssl_chunk s) \<le> length s"
  using ssl_chunk_take [of s] by auto

function ssl_write_all :: "string \<Rightarrow> io \<Rightarrow> bool \<times> io" where
  "ssl_write_all s w =
     (if s = [] then (True, w)
      else case sys_write (ssl_chunk s) w of
        (EAGAIN ready, w') \<Rightarrow> if ready then ssl_write_all s w' else (False, w')
      | (Count n, w') \<Rightarrow> if n = 0 then (False, w') else ssl_write_all (drop n s) w'
      | (_, w') \<Rightarrow> (False, w'))"
  by pat_completeness auto
termination
  by (relation "measure (\<lambda>(s, w). length s + length (io_events w))")
     (auto dest: sys_write_error [OF sym] dest!: sys_write_count [OF sym] dest: le_trans [OF _ length_ssl_chunk])

declare ssl_write_all.simps [simp del]

definition client_write_all :: "bool \<Rightarrow> string \<Rightarrow> io \<Rightarrow> bool \<times> io" where
  "client_write_all tls s w = (if \<not> tls then rpsiod_write_all s w else ssl_write_all s w)"

text \<open>The remaining part of an I/O vector after \<open>n\<close> bytes were taken.\<close>

fun advance :: "nat \<Rightarrow> string list \<Rightarrow> string list" where
  "advance n [] = []"
| "advance n (s # ss) = (if length s \<le> n then advance (n - length s) ss else drop n s # ss)"

lemma concat_advance: "concat (advance n ss) = drop n (concat ss)"
  by (induction n ss rule: advance.induct) auto

lemma advance_hd: "advance n ss = [] \<or> hd (advance n ss) \<noteq> []"
  by (induction n ss rule: advance.induct) auto

function writev_loop :: "string list \<Rightarrow> io \<Rightarrow> bool \<times> io" where
  "writev_loop iov w =
     (if iov = [] then (True, w)
      else case sys_write (concat iov) w of
        (EINTR, w') \<Rightarrow> writev_loop iov w'
      | (EAGAIN ready, w') \<Rightarrow> if ready then writev_loop iov w' else (False, w')
      | (EIO, w') \<Rightarrow> (False, w')
      | (Count n, w') \<Rightarrow> if n = 0 then (False, w') else writev_loop (advance n iov) w')"
  by pat_completeness auto
termination
  by (relation "measure (\<lambda>(s, w). length (concat s) + length (io_events w))")
     (auto dest: sys_write_error [OF sym] dest!: sys_write_count [OF sym] simp: concat_advance simp del: length_concat)

declare writev_loop.simps [simp del]

text \<open>Writing pieces one after the other, giving up at the first failure.\<close>

fun write_seq :: "('a \<Rightarrow> io \<Rightarrow> bool \<times> io) \<Rightarrow> 'a list \<Rightarrow> io \<Rightarrow> bool \<times> io" where
  "write_seq wr [] w = (True, w)"
| "write_seq wr (s # ss) w = (case wr s w of (ok, w') \<Rightarrow> if ok then write_seq wr ss w' else (False, w'))"

definition client_writev_all :: "bool \<Rightarrow> string list \<Rightarrow> io \<Rightarrow> bool \<times> io" where
  "client_writev_all tls iov w =
     (if iov = [] then (True, w)
      else if tls then write_seq (client_write_all True) iov w
      else if 8 < length iov then (False, w)
      else writev_loop iov w)"

section \<open>The contract of a writer\<close>

text \<open>
  Whatever the kernel answers, the peer receives a prefix of the bytes, and all of them when
  the routine reports success; nothing is read and no outcome is invented.
\<close>

definition delivers :: "string \<Rightarrow> io \<Rightarrow> bool \<times> io \<Rightarrow> bool" where
  "delivers bs w r \<longleftrightarrow>
     (\<exists>p q. bs = p @ q \<and> io_sent (snd r) = io_sent w @ p \<and> (fst r \<longrightarrow> q = [])) \<and>
     io_in (snd r) = io_in w \<and> length (io_events (snd r)) \<le> length (io_events w)"

lemma delivers_Nil: "delivers [] w (ok, w)"
  by (simp add: delivers_def)

lemma delivers_failed: "delivers bs w (False, w)"
  by (simp add: delivers_def)

lemma delivers_ok: "delivers bs w (True, w') \<Longrightarrow> io_sent w' = io_sent w @ bs"
  by (simp add: delivers_def)

lemma delivers_append:
  assumes "delivers a w (True, w1)" and "delivers b w1 r"
  shows "delivers (a @ b) w r"
  using assms unfolding delivers_def by fastforce

lemma delivers_stop: "delivers a w (False, w1) \<Longrightarrow> delivers (a @ b) w (False, w1)"
  unfolding delivers_def by fastforce

lemma delivers_error:
  assumes "length (io_events w1) \<le> length (io_events w)" "io_sent w1 = io_sent w" "io_in w1 = io_in w"
  shows "delivers bs w1 r \<Longrightarrow> delivers bs w r" and "delivers bs w (False, w1)"
  using assms by (auto simp: delivers_def)

lemma delivers_sent:
  assumes "sys_write s w = (Count n, w1)" and "delivers (drop n s) w1 r"
  shows "delivers s w r"
proof -
  have "delivers (take n s) w (True, w1)"
    using sys_write_count [OF assms(1)] by (simp add: delivers_def)
  from delivers_append [OF this assms(2)] show ?thesis by simp
qed

lemma delivers_written: "sys_write s w = (Count n, w1) \<Longrightarrow> delivers s w (False, w1)"
  using delivers_sent delivers_failed by blast

lemma delivers_write_error:
  assumes "sys_write s w = (r, w1)" and "\<And>n. r \<noteq> Count n"
  shows "delivers bs w1 q \<Longrightarrow> delivers bs w q" and "delivers bs w (False, w1)"
  using sys_write_error [OF assms] delivers_error [of w1 w] by auto

locale byte_writer =
  fixes wr :: "'a \<Rightarrow> io \<Rightarrow> bool \<times> io"
    and bytes :: "'a \<Rightarrow> string"
  assumes write_delivers: "delivers (bytes x) w (wr x w)"
begin

lemma seq_delivers: "delivers (concat (map bytes xs)) w (write_seq wr xs w)"
proof (induction xs arbitrary: w)
  case Nil
  then show ?case by (simp add: delivers_Nil)
next
  case (Cons x xs)
  obtain ok w1 where r: "wr x w = (ok, w1)" by fastforce
  show ?case
    using write_delivers [of x w] Cons [of w1] unfolding r
    by (cases ok) (simp_all add: r delivers_append delivers_stop)
qed

lemma write_ok: "wr x w = (True, w') \<Longrightarrow> io_sent w' = io_sent w @ bytes x"
  using write_delivers [of x w] by (simp add: delivers_ok)

lemma write_events: "wr x w = (ok, w') \<Longrightarrow> length (io_events w') \<le> length (io_events w)"
  using write_delivers [of x w] by (simp add: delivers_def)

end

interpretation write_all: byte_writer rpsiod_write_all "\<lambda>s. s"
proof (unfold_locales, goal_cases)
  case (1 s w)
  show ?case
  proof (induction s w rule: rpsiod_write_all.induct)
    case (1 s w)
    obtain r w1 where r: "sys_write s w = (r, w1)" by fastforce
    show ?case
      using 1 r delivers_write_error [OF r] delivers_sent delivers_written delivers_Nil
      by (subst rpsiod_write_all.simps) (auto split: sys_result.splits)
  qed
qed

interpretation ssl_write: byte_writer ssl_write_all "\<lambda>s. s"
proof (unfold_locales, goal_cases)
  case (1 s w)
  show ?case
  proof (induction s w rule: ssl_write_all.induct)
    case (1 s w)
    obtain r w1 where r: "sys_write (ssl_chunk s) w = (r, w1)" by fastforce
    obtain k where k: "ssl_chunk s = take k s" using ssl_chunk_take by blast
    have chunk: "delivers s w q" if "r = Count n" "delivers (drop n s) w1 q" for n q
    proof -
      have n: "n \<le> length (take k s)" using r sys_write_count that(1) k by metis
      have "delivers (take n s) w (True, w1)"
        using sys_write_count [of "take k s" w n w1] r n that(1) k
        by (simp add: delivers_def min.absorb1)
      from delivers_append [OF this that(2)] show ?thesis by simp
    qed
    have fail: "delivers s w (False, w1)" if "r = Count n" for n
      using delivers_written [of "take k s" w n w1] r that k delivers_stop [of "take k s" w w1 "drop k s"] by simp
    show ?case
      using 1 r delivers_write_error [OF r] chunk fail delivers_Nil
      by (subst ssl_write_all.simps) (auto split: sys_result.splits)
  qed
qed

interpretation client_write: byte_writer "client_write_all tls" "\<lambda>s. s" for tls
  by unfold_locales (simp add: client_write_all_def write_all.write_delivers ssl_write.write_delivers)

text \<open>
  Why a write fails: an outcome of the kernel that the loops do not get over.  An interrupted
  call is one of them only under TLS.
\<close>

definition stalls :: "bool \<Rightarrow> event list \<Rightarrow> bool" where
  "stalls tls es \<longleftrightarrow> Broken \<in> set es \<or> Again False \<in> set es \<or> Short 0 \<in> set es \<or> (tls \<and> Intr \<in> set es)"

lemma stalls_mono: "stalls tls es \<Longrightarrow> set es \<subseteq> set es' \<Longrightarrow> stalls tls es'"
  by (auto simp: stalls_def)

lemma sys_count_events: "sys_count m w = (r, w') \<Longrightarrow> set (io_events w') \<subseteq> set (io_events w)"
  by (auto simp: sys_count_def split: list.splits event.splits)

lemma sys_write_events:
  assumes "sys_write s w = (r, w')"
  shows "set (io_events w') \<subseteq> set (io_events w) \<and>
    (case r of Count n \<Rightarrow> s \<noteq> [] \<longrightarrow> n = 0 \<longrightarrow> Short 0 \<in> set (io_events w)
     | EINTR \<Rightarrow> Intr \<in> set (io_events w) | EAGAIN ready \<Rightarrow> Again ready \<in> set (io_events w)
     | EIO \<Rightarrow> Broken \<in> set (io_events w))"
proof -
  obtain x w0 where c: "sys_count (length s) w = (x, w0)" by fastforce
  then show ?thesis
    using assms sys_count_events [OF c]
    by (auto simp: sys_write_def sys_count_def min_def split: sys_result.splits list.splits event.splits if_splits)
qed

text \<open>A writer that reports failure has left a non-empty rest unsent, because of such an outcome.\<close>

definition fails_short :: "bool \<Rightarrow> string \<Rightarrow> io \<Rightarrow> bool \<times> io \<Rightarrow> bool" where
  "fails_short tls s w r \<longleftrightarrow>
     (\<not> fst r \<longrightarrow> (\<exists>p q. s = p @ q \<and> q \<noteq> [] \<and> io_sent (snd r) = io_sent w @ p) \<and> stalls tls (io_events w))"

lemma fails_short_more:
  assumes "fails_short tls (drop n s) w1 r" and "io_sent w1 = io_sent w @ take n s"
    and "set (io_events w1) \<subseteq> set (io_events w)"
  shows "fails_short tls s w r"
  unfolding fails_short_def
proof
  assume "\<not> fst r"
  then obtain p q where d: "drop n s = p @ q" "q \<noteq> []" "io_sent (snd r) = io_sent w1 @ p" "stalls tls (io_events w1)"
    using assms(1) by (auto simp: fails_short_def)
  have "s = (take n s @ p) @ q" using d(1) by (metis append_assoc append_take_drop_id)
  moreover have "io_sent (snd r) = io_sent w @ (take n s @ p)" using d(3) assms(2) by simp
  moreover have "stalls tls (io_events w)" using stalls_mono d(4) assms(3) by blast
  ultimately show "(\<exists>p q. s = p @ q \<and> q \<noteq> [] \<and> io_sent (snd r) = io_sent w @ p) \<and> stalls tls (io_events w)"
    using d(2) by blast
qed

lemma fails_short_here: "s \<noteq> [] \<Longrightarrow> io_sent w1 = io_sent w \<Longrightarrow> stalls tls (io_events w) \<Longrightarrow> fails_short tls s w (ok, w1)"
  by (auto simp: fails_short_def intro!: exI [of _ "[]"])

lemma fails_short_ok: "fails_short tls s w (True, w1)"
  by (simp add: fails_short_def)

lemma write_all_fails_short: "fails_short False s w (rpsiod_write_all s w)"
proof (induction s w rule: rpsiod_write_all.induct)
  case (1 s w)
  show ?case
  proof (cases "s = []")
    case True
    then show ?thesis by (simp add: rpsiod_write_all.simps fails_short_ok)
  next
    case False
    obtain r w1 where r: "sys_write s w = (r, w1)" by fastforce
    note ev = sys_write_events [OF r] and ih = 1 [OF False r [symmetric]]
    have more: "fails_short False s w q" if "r = Count n" "fails_short False (drop n s) w1 q" for n q
      using fails_short_more [OF that(2)] sys_write_count [of s w n w1] r ev that(1) by simp
    have again: "fails_short False s w q" if "\<And>n. r \<noteq> Count n" "fails_short False s w1 q" for q
      using fails_short_more [of False 0 s w1 q w] that sys_write_error [OF r] ev by simp
    have stop: "fails_short False s w (False, w1)" if "stalls False (io_events w)" "io_sent w1 = io_sent w"
      using False that by (rule_tac fails_short_here)
    show ?thesis
    proof (cases r)
      case (Count n)
      then show ?thesis
        using False r ev more stop ih(1) sys_write_count [of s w n w1]
        by (subst rpsiod_write_all.simps) (auto simp: stalls_def)
    next
      case EINTR
      then show ?thesis using False r again ih(2) by (subst rpsiod_write_all.simps) simp
    next
      case (EAGAIN b)
      then show ?thesis
        using False r again ih(3) ev stop sys_write_error [OF r]
        by (subst rpsiod_write_all.simps) (auto simp: stalls_def)
    next
      case EIO
      then show ?thesis
        using False r ev stop sys_write_error [OF r] by (subst rpsiod_write_all.simps) (auto simp: stalls_def)
    qed
  qed
qed

lemma ssl_write_fails_short:
  "fails_short True s w (ssl_write_all s w) \<and> set (io_events (snd (ssl_write_all s w))) \<subseteq> set (io_events w)"
proof (induction s w rule: ssl_write_all.induct)
  case (1 s w)
  show ?case
  proof (cases "s = []")
    case True
    then show ?thesis by (simp add: ssl_write_all.simps fails_short_ok)
  next
    case False
    obtain r w1 where r: "sys_write (ssl_chunk s) w = (r, w1)" by fastforce
    note ev = sys_write_events [OF r]
    note ih = 1(1) [OF False r [symmetric]] 1(2) [OF False r [symmetric]]
    obtain k where k: "ssl_chunk s = take k s" using ssl_chunk_take by blast
    have sent: "io_sent w1 = io_sent w @ take n s" if "r = Count n" for n
      using sys_write_count [of "ssl_chunk s" w n w1] r that k by (simp add: min.absorb1)
    have more: "fails_short True s w q" if "r = Count n" "fails_short True (drop n s) w1 q" for n q
      using fails_short_more [OF that(2) sent [OF that(1)]] ev by simp
    have again: "fails_short True s w q" if "\<And>n. r \<noteq> Count n" "fails_short True s w1 q" for q
      using fails_short_more [of True 0 s w1 q w] that sys_write_error [OF r] ev by simp
    have stop: "fails_short True s w (False, w1)" if "stalls True (io_events w)" "io_sent w1 = io_sent w"
      using False that by (rule_tac fails_short_here)
    show ?thesis
    proof (cases r)
      case (Count n)
      then show ?thesis
        using False r ev more [OF Count] stop ih(2,1) sent
        by (subst (1 2) ssl_write_all.simps) (auto simp: stalls_def)
    next
      case EINTR
      then show ?thesis
        using False r ev stop sys_write_error [OF r] by (subst (1 2) ssl_write_all.simps) (auto simp: stalls_def)
    next
      case (EAGAIN b)
      then show ?thesis
        using False r again ih(2) [OF EAGAIN] ev stop sys_write_error [OF r]
        by (subst (1 2) ssl_write_all.simps) (auto simp: stalls_def)
    next
      case EIO
      then show ?thesis
        using False r ev stop sys_write_error [OF r] by (subst (1 2) ssl_write_all.simps) (auto simp: stalls_def)
    qed
  qed
qed

lemma write_seq_fails_short: "fails_short True (concat iov) w (write_seq (client_write_all True) iov w)"
proof (induction iov arbitrary: w)
  case Nil
  show ?case by (simp add: fails_short_ok)
next
  case (Cons s iov)
  obtain ok w1 where r: "ssl_write_all s w = (ok, w1)" by fastforce
  note s = ssl_write_fails_short [of s w, unfolded r]
  show ?case
  proof (cases ok)
    case True
    with r have "io_sent w1 = io_sent w @ s" using ssl_write.write_ok by simp
    then have "fails_short True (concat (s # iov)) w (write_seq (client_write_all True) iov w1)"
      using fails_short_more [of True "length s" "concat (s # iov)"] Cons [of w1] s by simp
    moreover have "client_write_all True s w = (True, w1)" using r True by (simp add: client_write_all_def)
    ultimately show ?thesis by simp
  next
    case False
    with s have "fails_short True (concat (s # iov)) w (False, w1)"
      by (fastforce simp: fails_short_def)
    then show ?thesis using r False by (simp add: client_write_all_def)
  qed
qed

lemma writev_loop_write_all:
  "iov = [] \<or> concat iov \<noteq> [] \<Longrightarrow> writev_loop iov w = rpsiod_write_all (concat iov) w"
proof (induction iov w rule: writev_loop.induct)
  case (1 iov w)
  show ?case
  proof (cases "iov = []")
    case True
    then show ?thesis by (simp add: writev_loop.simps rpsiod_write_all.simps)
  next
    case False
    with 1 have ne: "concat iov \<noteq> []" by blast
    have ad: "advance n iov = [] \<or> concat (advance n iov) \<noteq> []" for n
      using advance_hd [of n iov] by (cases "advance n iov") auto
    obtain r w1 where r: "sys_write (concat iov) w = (r, w1)" by fastforce
    show ?thesis
      using False ne r ad 1(1,2,3) [OF False r [symmetric]] 1(1)
      by (subst writev_loop.simps, subst rpsiod_write_all.simps)
         (auto simp: concat_advance simp del: concat_eq_Nil_conv split: sys_result.splits)
  qed
qed

lemma client_writev_fails_short:
  assumes "concat iov \<noteq> []" and "length iov \<le> 8"
  shows "fails_short tls (concat iov) w (client_writev_all tls iov w)"
  using assms write_seq_fails_short [of iov w] write_all_fails_short [of "concat iov" w]
    writev_loop_write_all [OF disjI2 [OF assms(1)], of w]
  by (cases tls) (auto simp: client_writev_all_def)

text \<open>
  C14: gathering output is transparent: \<open>client_writev_all\<close> on a plain connection does with
  at most eight buffers exactly what \<open>rpsiod_write_all\<close> does with their concatenation, under
  every sequence of short writes, interruptions and waits.
\<close>

theorem writev_refines_write_all:
  assumes "concat iov \<noteq> []" and "length iov \<le> 8"
  shows "client_writev_all False iov w = rpsiod_write_all (concat iov) w"
proof -
  have "iov \<noteq> []" using assms(1) by auto
  then show ?thesis
    using assms(2) writev_loop_write_all [OF disjI2 [OF assms(1)], of w]
    by (simp add: client_writev_all_def)
qed

theorem writev_refines_write_all_witness:
  "client_writev_all False [''ab'', '''', ''c''] \<lparr>io_sent = [], io_in = [], io_events = [Short 1, Again True]\<rparr> =
   rpsiod_write_all ''abc'' \<lparr>io_sent = [], io_in = [], io_events = [Short 1, Again True]\<rparr>"
  using writev_refines_write_all [of "[''ab'', '''', ''c'']"] by simp

lemma write_each_client: "write_seq (client_write_all True) iov w = client_writev_all True iov w"
  by (cases iov) (simp_all add: client_writev_all_def)

interpretation client_writev: byte_writer "client_writev_all tls" concat for tls
proof (unfold_locales, goal_cases)
  case (1 iov w)
  have "delivers (concat iov) w (writev_loop iov w)"
  proof (induction iov w rule: writev_loop.induct)
    case (1 iov w)
    obtain r w1 where r: "sys_write (concat iov) w = (r, w1)" by fastforce
    have sent: "delivers (concat iov) w q" if "r = Count n" "delivers (concat (advance n iov)) w1 q" for n q
      using delivers_sent that r by (simp add: concat_advance)
    show ?case
      using 1 r delivers_write_error [OF r] sent delivers_written [of "concat iov" w] delivers_Nil
      by (subst writev_loop.simps) (auto simp del: concat_eq_Nil_conv split: sys_result.splits)
  qed
  then show ?case
    using client_write.seq_delivers [where tls = True and xs = iov and w = w]
    by (simp add: client_writev_all_def delivers_failed delivers_Nil)
qed

section \<open>Sending a file\<close>

text \<open>
  The open file is its contents; a read may be short and fails when the file ends early.
  \<open>copy_chunk\<close> is the size of the stack buffer.
\<close>

definition copy_chunk :: nat where "copy_chunk = 65536"

function copy_loop :: "bool \<Rightarrow> string \<Rightarrow> nat \<Rightarrow> nat \<Rightarrow> io \<Rightarrow> bool \<times> io" where
  "copy_loop tls content pos remaining w =
     (if remaining = 0 then (True, w)
      else case sys_count (min (min remaining copy_chunk) (length content - pos)) w of
        (EINTR, w') \<Rightarrow> copy_loop tls content pos remaining w'
      | (Count n, w') \<Rightarrow>
          if n = 0 then (False, w')
          else (case client_write_all tls (take n (drop pos content)) w' of
            (ok, w'') \<Rightarrow> if ok then copy_loop tls content (pos + n) (remaining - n) w'' else (False, w''))
      | (_, w') \<Rightarrow> (False, w'))"
  by pat_completeness auto
termination
  by (relation "measure (\<lambda>(tls, c, pos, n, w). n + length (io_events w))")
     (auto dest!: sys_count_le [OF sym] client_write.write_events [OF sym])

declare copy_loop.simps [simp del]

definition copy_file_read_write :: "bool \<Rightarrow> string \<Rightarrow> nat \<Rightarrow> nat \<Rightarrow> io \<Rightarrow> bool \<times> io" where
  "copy_file_read_write tls content offset len w = copy_loop tls content offset len w"

function sendfile_loop :: "string \<Rightarrow> nat \<Rightarrow> nat \<Rightarrow> io \<Rightarrow> bool \<times> io" where
  "sendfile_loop content current remaining w =
     (if remaining = 0 then (True, w)
      else case sys_write (take remaining (drop current content)) w of
        (EINTR, w') \<Rightarrow> sendfile_loop content current remaining w'
      | (EAGAIN ready, w') \<Rightarrow> if ready then sendfile_loop content current remaining w' else (False, w')
      | (EIO, w') \<Rightarrow> copy_file_read_write False content current remaining w'
      | (Count n, w') \<Rightarrow> if n = 0 then (False, w') else sendfile_loop content (current + n) (remaining - n) w')"
  by pat_completeness auto
termination
  by (relation "measure (\<lambda>(c, pos, n, w). n + length (io_events w))")
     (auto dest: sys_write_error [OF sym] dest!: sys_write_count [OF sym])

declare sendfile_loop.simps [simp del]

definition send_file_body :: "bool \<Rightarrow> bool \<Rightarrow> string \<Rightarrow> nat \<Rightarrow> nat \<Rightarrow> io \<Rightarrow> bool \<times> io" where
  "send_file_body tls sendfile_enabled content offset len w =
     (if len = 0 then (True, w)
      else if tls \<or> \<not> sendfile_enabled then copy_file_read_write tls content offset len w
      else sendfile_loop content offset len w)"

text \<open>A part of a file.\<close>

definition slice :: "nat \<Rightarrow> nat \<Rightarrow> string \<Rightarrow> string" where
  "slice offset len content = take len (drop offset content)"

lemma slice_append:
  "n \<le> len \<Longrightarrow> slice pos n content @ slice (pos + n) (len - n) content = slice pos len content"
  by (simp add: slice_def take_add [symmetric] drop_drop add.commute flip: drop_drop)

definition sends :: "string \<Rightarrow> nat \<Rightarrow> nat \<Rightarrow> io \<Rightarrow> bool \<times> io \<Rightarrow> bool" where
  "sends content pos len w r \<longleftrightarrow>
     delivers (slice pos len content) w r \<and> (fst r \<longrightarrow> len = 0 \<or> pos + len \<le> length content)"

lemma sends_more:
  assumes "delivers (slice pos n content) w (True, w1)" and "sends content (pos + n) (len - n) w1 r"
    and "n \<le> len" and "n \<le> length content - pos" and "0 < n"
  shows "sends content pos len w r"
  using delivers_append [OF assms(1), of "slice (pos + n) (len - n) content" r] assms(2-5)
  by (auto simp: sends_def slice_append)

lemma sends_stop:
  assumes "delivers (slice pos n content) w (False, w1)" and "n \<le> len"
  shows "sends content pos len w (False, w1)"
  using delivers_stop [OF assms(1), of "slice (pos + n) (len - n) content"] assms(2)
  by (simp add: sends_def slice_append)

lemma sends_error:
  assumes "length (io_events w1) \<le> length (io_events w)" "io_sent w1 = io_sent w" "io_in w1 = io_in w"
  shows "sends content pos len w1 r \<Longrightarrow> sends content pos len w r" and "sends content pos len w (False, w1)"
  using delivers_error [OF assms] by (auto simp: sends_def)

lemma sends_done: "sends content pos 0 w (True, w)"
  by (simp add: sends_def slice_def delivers_Nil)

lemma copy_loop_sends: "sends content pos len w (copy_loop tls content pos len w)"
proof (induction tls content pos len w rule: copy_loop.induct)
  case (1 tls content pos len w)
  let ?m = "min (min len copy_chunk) (length content - pos)"
  obtain r w1 where r: "sys_count ?m w = (r, w1)" by fastforce
  note le = sys_count_le [OF r]
  show ?case
  proof (cases "len = 0")
    case True
    then show ?thesis by (simp add: copy_loop.simps sends_done)
  next
    case False
    show ?thesis
    proof (cases r)
      case (Count n)
      show ?thesis
      proof (cases "n = 0")
        case True
        then show ?thesis using False r Count le sends_error [of w1 w]
          by (subst copy_loop.simps) simp
      next
        case n: False
        obtain ok w2 where c: "client_write_all tls (take n (drop pos content)) w1 = (ok, w2)" by fastforce
        then have "delivers (slice pos n content) w1 (ok, w2)"
          using client_write.write_delivers [where tls = tls] by (metis slice_def)
        then have d: "delivers (slice pos n content) w (ok, w2)"
          using delivers_error [of w1 w] le by blast
        have nle: "n \<le> len" "n \<le> length content - pos" using le Count by simp_all
        show ?thesis
        proof (cases ok)
          case True
          then have "sends content (pos + n) (len - n) w2 (copy_loop tls content (pos + n) (len - n) w2)"
            using 1(1) [OF False r [symmetric] Count n c [symmetric]] by simp
          from sends_more [OF _ this nle] d n True show ?thesis
            using False r Count c by (subst copy_loop.simps) simp
        next
          case fail: False
          with sends_stop [OF _ nle(1)] d show ?thesis
            using False r Count n c by (subst copy_loop.simps) simp
        qed
      qed
    qed (use False r le 1(2) [OF False r [symmetric]] sends_error [of w1 w] in \<open>subst copy_loop.simps, simp\<close>)+
  qed
qed

lemma sendfile_loop_sends: "sends content pos len w (sendfile_loop content pos len w)"
proof (induction content pos len w rule: sendfile_loop.induct)
  case (1 content pos len w)
  obtain r w1 where r: "sys_write (take len (drop pos content)) w = (r, w1)" by fastforce
  show ?case
  proof (cases "len = 0")
    case True
    then show ?thesis by (simp add: sendfile_loop.simps sends_done)
  next
    case False
    show ?thesis
    proof (cases r)
      case (Count n)
      note cnt = sys_write_count [OF r [unfolded Count]]
      then have nle: "n \<le> len" "n \<le> length content - pos" by simp_all
      then have d: "delivers (slice pos n content) w (True, w1)"
        using cnt by (simp add: delivers_def slice_def min_def)
      show ?thesis
      proof (cases "n = 0")
        case True
        then show ?thesis using False r Count cnt sends_error [of w1 w]
          by (subst sendfile_loop.simps) simp
      next
        case n: False
        then have "sends content (pos + n) (len - n) w1 (sendfile_loop content (pos + n) (len - n) w1)"
          using 1(1) [OF False r [symmetric] Count] by simp
        from sends_more [OF d this nle] n show ?thesis
          using False r Count by (subst sendfile_loop.simps) simp
      qed
    next
      case EIO
      then show ?thesis
        using False r sys_write_error [OF r] sends_error [of w1 w] copy_loop_sends
        by (subst sendfile_loop.simps) (simp add: copy_file_read_write_def)
    qed (use False r 1(2,3) [OF False r [symmetric]] sys_write_error [OF r] sends_error [of w1 w]
        in \<open>subst sendfile_loop.simps, simp\<close>)+
  qed
qed

lemma send_file_body_sends: "sends content offset len w (send_file_body tls sf content offset len w)"
  by (simp add: send_file_body_def copy_file_read_write_def copy_loop_sends sendfile_loop_sends sends_done)

text \<open>
  the body of a file response is exact: when \<open>send_file_body\<close> reports success, the peer
  has received precisely the requested bytes of the file, whatever mixture of \<open>sendfile\<close>,
  short writes, waits and the fallback to reading and writing was needed (a switch in the
  middle included); otherwise it has received a prefix of them.
\<close>

theorem send_file_body_exact:
  assumes "send_file_body tls sf content offset len w = (ok, w')"
  shows "(ok \<longrightarrow> io_sent w' = io_sent w @ take len (drop offset content) \<and>
             (len = 0 \<or> offset + len \<le> length content)) \<and>
    (\<exists>k. io_sent w' = io_sent w @ take k (take len (drop offset content)))"
proof -
  have s: "sends content offset len w (ok, w')" using send_file_body_sends assms by metis
  then obtain p q where "take len (drop offset content) = p @ q" "io_sent w' = io_sent w @ p"
    by (auto simp: sends_def delivers_def slice_def)
  then have "io_sent w' = io_sent w @ take (length p) (take len (drop offset content))" by simp
  with s show ?thesis by (auto simp: sends_def delivers_def slice_def)
qed

theorem send_file_body_exact_witness:
  "io_sent (snd (send_file_body False True ''abcdef'' 1 4
      \<lparr>io_sent = ''H'', io_in = [], io_events = [Short 1, Again True, Broken, Intr, Short 2]\<rparr>)) = ''Hbcde''"
proof -
  let ?r = "send_file_body False True ''abcdef'' 1 4
      \<lparr>io_sent = ''H'', io_in = [], io_events = [Short 1, Again True, Broken, Intr, Short 2]\<rparr>"
  have "fst ?r"
    by (simp add: send_file_body_def copy_file_read_write_def sendfile_loop.simps copy_loop.simps sys_write_def
        sys_count_def client_write_all_def rpsiod_write_all.simps copy_chunk_def)
  with send_file_body_exact [of False True "''abcdef''" 1 4 _ "fst ?r" "snd ?r"] show ?thesis by simp
qed

end
