(* ===== verification/HeaderText.thy ===== *)
theory HeaderText
  imports Http
begin

text \<open>
  Header blocks as text: a list of lines, each ended by CRLF, and an empty line.  Splitting
  such a block the way the server's own parser does (\<open>header_lines\<close> of \<open>Http\<close>) gives back
  the lines; the writers of headers (responses, proxy requests, the HTTP/2 loopback
  requests) are proved against this.
\<close>

definition line_ok :: "string \<Rightarrow> bool" where
  "line_ok l \<longleftrightarrow> l \<noteq> [] \<and> CR \<notin> set l"

definition lines_text :: "string list \<Rightarrow> string" where
  "lines_text ls = concat (map (\<lambda>l. l @ CRLF) ls)"

fun join_lines :: "string list \<Rightarrow> string" where
  "join_lines [] = []"
| "join_lines [l] = l"
| "join_lines (l # ls) = l @ CRLF @ join_lines ls"

lemma lines_text_Nil [simp]: "lines_text [] = []"
  and lines_text_Cons [simp]: "lines_text (l # ls) = l @ CRLF @ lines_text ls"
  and lines_text_append [simp]: "lines_text (a @ b) = lines_text a @ lines_text b"
  by (simp_all add: lines_text_def)

lemma lines_text_join: "ls \<noteq> [] \<Longrightarrow> lines_text ls = join_lines ls @ CRLF"
  by (induction ls rule: join_lines.induct) auto

lemma memmem_skip:
  assumes "c \<notin> set a"
  shows "memmem (c # p) (a @ t) = map_option (\<lambda>(x, y). (a @ x, y)) (memmem (c # p) t)"
  using assms
proof (induction a)
  case Nil
  show ?case by (cases "memmem (c # p) t") auto
next
  case (Cons b a)
  then have "\<not> starts_with (b # a @ t) (c # p)" by auto
  with Cons show ?case by (cases "memmem (c # p) t") auto
qed

lemma memmem_skip_CRLF2:
  assumes "CR \<notin> set a" and "memmem (CRLF @ CRLF) t = Some (x, y)"
  shows "memmem (CRLF @ CRLF) (a @ t) = Some (a @ x, y)"
  using memmem_skip [OF assms(1), of "[LF, CR, LF]" t] assms(2) by simp

lemma memmem_CRLF2_here: "memmem (CRLF @ CRLF) (CRLF @ CRLF @ t) = Some ([], CRLF @ CRLF @ t)"
  by simp

lemma memmem_CRLF2_line:
  assumes "line_ok l" and "memmem (CRLF @ CRLF) (l @ t) = Some (x, y)"
  shows "memmem (CRLF @ CRLF) (CRLF @ l @ t) = Some (CRLF @ x, y)"
proof -
  obtain c r where l: "l = c # r" "c \<noteq> CR" using assms(1) by (cases l) (auto simp: line_ok_def)
  with assms(2) show ?thesis by simp
qed

lemma memmem_head_end:
  assumes "ls \<noteq> []" and "list_all line_ok ls"
  shows "memmem (CRLF @ CRLF) (lines_text ls @ CRLF @ t) = Some (join_lines ls, CRLF @ CRLF @ t)"
  using assms
proof (induction ls rule: join_lines.induct)
  case (2 l)
  then have "CR \<notin> set l" by (simp add: line_ok_def)
  from memmem_skip_CRLF2 [OF this memmem_CRLF2_here, of t] show ?case
    by (simp only: lines_text_Cons lines_text_Nil join_lines.simps append_assoc append_Nil append_Nil2)
next
  case (3 l l' ls)
  have "memmem (CRLF @ CRLF) (lines_text (l' # ls) @ CRLF @ t) = Some (join_lines (l' # ls), CRLF @ CRLF @ t)"
    using 3 by (simp only: list.pred_inject(2) list.distinct not_False_eq_True simp_thms)
  then have "memmem (CRLF @ CRLF) (l' @ (CRLF @ lines_text ls) @ CRLF @ t) = Some (join_lines (l' # ls), CRLF @ CRLF @ t)"
    by (simp only: lines_text_Cons append_assoc)
  moreover have "line_ok l'" "CR \<notin> set l" using 3 by (simp_all add: line_ok_def)
  ultimately have "memmem (CRLF @ CRLF) (l @ CRLF @ l' @ (CRLF @ lines_text ls) @ CRLF @ t) =
      Some (l @ CRLF @ join_lines (l' # ls), CRLF @ CRLF @ t)"
    by (intro memmem_skip_CRLF2 memmem_CRLF2_line)
  then show ?case by (simp only: lines_text_Cons join_lines.simps append_assoc)
qed simp

lemma header_lines_join: "list_all line_ok ls \<Longrightarrow> header_lines (join_lines ls) = ls"
proof (induction ls rule: join_lines.induct)
  case 1
  show ?case by (simp add: header_lines.simps)
next
  case (2 l)
  then have "l \<noteq> []" "memmem CRLF l = None" by (simp_all add: line_ok_def memmem_CRLF_None)
  then show ?case by (simp add: header_lines.simps [of l])
next
  case (3 l l' ls)
  then have "CR \<notin> set l" by (simp add: line_ok_def)
  then have m: "memmem CRLF (l @ CRLF @ join_lines (l' # ls)) = Some (l, CRLF @ join_lines (l' # ls))"
    using memmem_CRLF_append [of l "join_lines (l' # ls)"] by simp
  have "header_lines (l @ CRLF @ join_lines (l' # ls)) = l # header_lines (join_lines (l' # ls))"
    unfolding header_lines.simps [of "l @ CRLF @ join_lines (l' # ls)"] m by simp
  with 3 show ?case by (simp only: join_lines.simps list.pred_inject(2) list.distinct not_False_eq_True simp_thms)
qed

section \<open>Fields by name\<close>

text \<open>The lines whose name, read up to the first colon and in lower case, is \<open>name\<close>.\<close>

definition lines_named :: "string \<Rightarrow> string list \<Rightarrow> string list" where
  "lines_named name ls =
     filter (\<lambda>l. CHR '':'' \<in> set l \<and> map c_tolower (takeWhile (\<lambda>c. c \<noteq> CHR '':'') l) = name) ls"

lemma lines_named_simps [simp]:
  "lines_named name [] = []"
  "lines_named name (a @ b) = lines_named name a @ lines_named name b"
  "lines_named name (l # l' # ls) = lines_named name [l] @ lines_named name (l' # ls)"
  by (simp_all add: lines_named_def)

lemma lines_named_empty: "lines_named name ls = [] \<longleftrightarrow> (\<forall>l \<in> set ls. lines_named name [l] = [])"
  by (auto simp: lines_named_def filter_empty_conv)

text \<open>A line that is written has the name it was written with.\<close>

lemma lines_named_one:
  assumes "CHR '':'' \<notin> set f"
  shows "lines_named name [f @ '': '' @ v] = (if map c_tolower f = name then [f @ '': '' @ v] else [])"
proof -
  have "takeWhile (\<lambda>c. c \<noteq> CHR '':'') (f @ CHR '':'' # u) = f" for u
    using assms by (induction f) auto
  then show ?thesis by (simp add: lines_named_def)
qed

end
