(* ===== verification/Response.thy ===== *)
theory Response
  imports HeaderText Config Io ListScan "HOL-Library.Sublist"
begin

text \<open>
  The response headers of \<open>src/server.c\<close>: \<open>build_response_headers\<close>, the headers a PHP script
  may add, the chunked body writer, and the cache validators of a request.  \<open>client\<close> holds
  the part of \<open>client_object\<close> these functions read; \<open>host_env\<close> holds what they ask of the
  C library and the host (formatted dates, the host name, the clocks).
\<close>

section \<open>Clients and files\<close>

record timespec =
  tv_sec :: int
  tv_nsec :: int

record client =
  c_local_port :: u16
  c_tls :: bool
  c_request_started_mono :: timespec
  c_request_started_real :: timespec
  c_request_id :: u64
  c_keep_alive_requests :: u32
  c_sendfile_enabled :: bool
  c_idle_keep_alive :: bool
  c_client_ip :: string
  c_server_ip :: string
  c_last_active_mono :: timespec

datatype file_kind = Regular | Directory | OtherFile

record file_stat =
  st_kind :: file_kind
  st_size :: nat
  st_mtime :: int
  st_ino :: u64

text \<open>
  An open file is the answer of \<open>fstat\<close> and the contents; \<open>e_open site path\<close> is
  \<open>rpsiod_static_open_site_path\<close>, an \<open>openat2\<close> beneath the site's root (\<open>src/static.c\<close>),
  \<open>e_open_abs\<close> is \<open>open\<close> on an absolute path of the configuration, and \<open>e_gzip\<close> and
  \<open>e_brotli\<close> are the compressors loaded at run time.
\<close>

record opened_file =
  f_stat :: file_stat
  f_content :: string
  f_real_path :: "string option"

datatype open_error = ENOENT | EACCES | EISDIR | EOTHER

record host_env =
  e_http_time :: "int \<Rightarrow> string"
  e_parse_http_time :: "string \<Rightarrow> int option"
  e_now :: int
  e_served_by :: string
  e_now_mono :: timespec
  e_now_real :: timespec
  e_open :: "site_config \<Rightarrow> string \<Rightarrow> open_error + opened_file"
  e_open_abs :: "string \<Rightarrow> opened_file option"
  e_dup_ok :: bool
  e_gzip :: "string \<Rightarrow> string option"
  e_brotli :: "string \<Rightarrow> string option"

record response_options =
  ro_site :: "site_config option"
  ro_content_encoding :: "string option"
  ro_location :: "string option"
  ro_content_range :: "string option"
  ro_retry_after :: "string option"
  ro_etag :: "string option"
  ro_file_stat :: "file_stat option"
  ro_cache_control :: bool
  ro_accept_ranges :: bool
  ro_vary_accept_encoding :: bool
  ro_suppress_default_cache_control :: bool
  ro_chunked_response :: bool

definition no_options :: response_options where
  "no_options = \<lparr>ro_site = None, ro_content_encoding = None, ro_location = None, ro_content_range = None,
     ro_retry_after = None, ro_etag = None, ro_file_stat = None, ro_cache_control = False,
     ro_accept_ranges = False, ro_vary_accept_encoding = False,
     ro_suppress_default_cache_control = False, ro_chunked_response = False\<rparr>"

section \<open>Header policy\<close>

definition header_name_matches :: "string \<Rightarrow> string \<Rightarrow> bool" where
  "header_name_matches a b = rpsiod_streq_ci a b"

definition header_removed :: "site_config option \<Rightarrow> string \<Rightarrow> bool" where
  "header_removed site name =
     (case site of None \<Rightarrow> False
      | Some s \<Rightarrow> list_ex (\<lambda>r. header_name_matches r name) (site_headers_remove s))"

definition protected_names :: "string list" where
  "protected_names = [''Content-Length'', ''Connection'', ''Transfer-Encoding'', ''Content-Type'',
     ''Content-Encoding'', ''Location'', ''Content-Range'', ''Retry-After'', ''Cache-Control'', ''Date'',
     ''ETag'', ''Last-Modified'', ''Strict-Transport-Security'', ''Accept-Ranges'', ''X-Served-By'',
     ''X-Cache'', ''X-Cache-Hits'', ''X-Timer'', ''X-Request-ID'', ''Vary'', ''Alt-Svc'', ''Server'']"

definition protected_response_header :: "string \<Rightarrow> bool" where
  "protected_response_header name = list_ex (header_name_matches name) protected_names"

definition header_added :: "site_config option \<Rightarrow> string \<Rightarrow> bool" where
  "header_added site name =
     (case site of None \<Rightarrow> False
      | Some s \<Rightarrow> list_ex (\<lambda>h. header_name_matches (hp_name h) name) (site_headers_add s))"

definition header_line :: "string \<times> string \<Rightarrow> string" where
  "header_line h = fst h @ '': '' @ snd h"

definition append_header :: "nat \<Rightarrow> string \<Rightarrow> string \<Rightarrow> string \<Rightarrow> string option" where
  "append_header buf_len buf name val =
     (if buf_len \<le> length buf then None
      else let text = header_line (name, val) @ CRLF in
        if buf_len - length buf \<le> length text then None else Some (buf @ text))"

fun append_headers :: "nat \<Rightarrow> string \<Rightarrow> (string \<times> string) list \<Rightarrow> string option" where
  "append_headers buf_len buf [] = Some buf"
| "append_headers buf_len buf ((n, v) # hs) =
     (case append_header buf_len buf n v of None \<Rightarrow> None | Some b \<Rightarrow> append_headers buf_len b hs)"

section \<open>Values\<close>

definition elapsed_request_ms :: "client \<Rightarrow> timespec \<Rightarrow> u64" where
  "elapsed_request_ms cl now =
     (if tv_sec (c_request_started_mono cl) = 0 then 0
      else let sec = tv_sec now - tv_sec (c_request_started_mono cl);
               nsec = tv_nsec now - tv_nsec (c_request_started_mono cl);
               (sec, nsec) = (if nsec < 0 then (sec - 1, nsec + 1000000000) else (sec, nsec)) in
        if sec < 0 then 0
        else word_of_int sec * 1000 + word_of_int (nsec div 1000000))"

definition pad3 :: "nat \<Rightarrow> string" where
  "pad3 n = replicate (3 - length (dec n)) (CHR ''0'') @ dec n"

definition timer_value :: "host_env \<Rightarrow> client \<Rightarrow> string" where
  "timer_value env cl =
     (let started = (if tv_sec (c_request_started_real cl) = 0 then e_now_real env
                     else c_request_started_real cl) in
      ''S'' @ dec_int (tv_sec started) @ pad3 (nat (tv_nsec started div 1000000)) @ '',VS0,VE'' @
      dec (unat (elapsed_request_ms cl (e_now_mono env))))"

definition file_etag :: "file_stat \<Rightarrow> string" where
  "file_etag st =
     ''W/'' @ [CHR 0x22] @ hex (unat (st_ino st)) @ ''-'' @ hex (st_size st) @ ''-'' @
     hex (unat (word_of_int (st_mtime st) :: u64)) @ [CHR 0x22]"

text \<open>\<open>cached_date_value\<close>: the static cache of the formatted second.\<close>

definition cached_date_value :: "(int \<Rightarrow> string) \<Rightarrow> int \<Rightarrow> int \<times> string \<Rightarrow> string \<times> (int \<times> string)" where
  "cached_date_value http_time now cache =
     (let cache' = (if now \<noteq> fst cache \<or> snd cache = [] then (now, http_time now) else cache) in
      (snd cache', cache'))"

section \<open>The header block\<close>

text \<open>
  The built-in headers in the order of the code, one group per \<open>if\<close>: a group is empty when
  its condition fails.
\<close>

definition field_if :: "bool \<Rightarrow> string \<Rightarrow> string \<Rightarrow> (string \<times> string) list" where
  "field_if b n v = (if b then [(n, v)] else [])"

definition field_opt :: "bool \<Rightarrow> string \<Rightarrow> string option \<Rightarrow> (string \<times> string) list" where
  "field_opt b n v = (case v of None \<Rightarrow> [] | Some x \<Rightarrow> field_if b n x)"

definition cache_control_value :: "response_options \<Rightarrow> string" where
  "cache_control_value opts =
     (case ro_site opts of
        None \<Rightarrow> ''no-cache''
      | Some site \<Rightarrow>
          if ro_cache_control opts \<and> site_cache_enabled site \<and> site_cache_default site \<noteq> []
          then site_cache_default site else ''no-cache'')"

definition length_fields :: "int \<Rightarrow> response_options \<Rightarrow> (string \<times> string) list" where
  "length_fields content_length opts =
     (if 0 \<le> content_length
      then field_if (\<not> header_removed (ro_site opts) ''Content-Length'') ''Content-Length'' (dec_int content_length)
      else [])"

definition transfer_fields :: "int \<Rightarrow> response_options \<Rightarrow> (string \<times> string) list" where
  "transfer_fields content_length opts =
     (if 0 \<le> content_length then []
      else field_if (ro_chunked_response opts) ''Transfer-Encoding'' ''chunked'')"

definition etag_fields :: "response_options \<Rightarrow> (string \<times> string) list" where
  "etag_fields opts =
     (let keep = \<not> header_removed (ro_site opts) ''ETag'' in
      if ro_etag opts \<noteq> None \<and> keep then field_opt True ''ETag'' (ro_etag opts)
      else field_opt keep ''ETag'' (map_option file_etag (ro_file_stat opts)))"

definition builtin_groups ::
  "host_env \<Rightarrow> client \<Rightarrow> string \<Rightarrow> int \<Rightarrow> bool \<Rightarrow> response_options \<Rightarrow> (string \<times> string) list list" where
  "builtin_groups env cl content_type content_length keep_alive opts =
     (let site = ro_site opts; keep = (\<lambda>n. \<not> header_removed site n) in
      [field_if (keep ''Date'') ''Date'' (e_http_time env (e_now env)),
       field_if (\<not> (case site of None \<Rightarrow> False | Some s \<Rightarrow> site_hide_server_header s) \<and> keep ''Server'')
         ''Server'' ''rpsiod'',
       field_opt (keep ''Location'') ''Location'' (ro_location opts),
       field_opt (keep ''Content-Range'') ''Content-Range'' (ro_content_range opts),
       field_opt (keep ''Retry-After'') ''Retry-After'' (ro_retry_after opts),
       field_if (keep ''Content-Type'') ''Content-Type'' content_type,
       length_fields content_length opts,
       transfer_fields content_length opts,
       field_opt (keep ''Content-Encoding'') ''Content-Encoding'' (ro_content_encoding opts),
       field_if (\<not> ro_suppress_default_cache_control opts \<and> keep ''Cache-Control'')
         ''Cache-Control'' (cache_control_value opts),
       etag_fields opts,
       field_opt (keep ''Last-Modified'') ''Last-Modified''
         (map_option (\<lambda>st. e_http_time env (st_mtime st)) (ro_file_stat opts)),
       field_if (c_tls cl \<and> keep ''Strict-Transport-Security'')
         ''Strict-Transport-Security'' ''max-age=31536000; includeSubDomains'',
       field_if (ro_accept_ranges opts \<and> keep ''Accept-Ranges'') ''Accept-Ranges'' ''bytes'',
       field_if (keep ''Connection'') ''Connection'' (if keep_alive then ''keep-alive'' else ''close''),
       field_if (keep ''X-Served-By'') ''X-Served-By'' (e_served_by env),
       field_if (keep ''X-Cache'') ''X-Cache'' ''MISS'',
       field_if (keep ''X-Cache-Hits'') ''X-Cache-Hits'' ''0'',
       field_if (keep ''X-Timer'') ''X-Timer'' (timer_value env cl),
       field_if (keep ''X-Request-ID'') ''X-Request-ID'' (hex (unat (c_request_id cl))),
       field_if (ro_vary_accept_encoding opts \<and> keep ''Vary'') ''Vary'' ''Accept-Encoding'',
       field_if (keep ''Alt-Svc'') ''Alt-Svc'' ''clear'',
       field_if (keep ''X-Content-Type-Options'' \<and> \<not> header_added site ''X-Content-Type-Options'')
         ''X-Content-Type-Options'' ''nosniff''])"

definition added_fields :: "site_config option \<Rightarrow> (string \<times> string) list" where
  "added_fields site =
     (case site of None \<Rightarrow> []
      | Some s \<Rightarrow>
          map (\<lambda>h. (hp_name h, hp_value h))
            (filter (\<lambda>h. \<not> protected_response_header (hp_name h) \<and> \<not> header_removed site (hp_name h))
              (site_headers_add s)))"

definition response_fields ::
  "host_env \<Rightarrow> client \<Rightarrow> string \<Rightarrow> int \<Rightarrow> bool \<Rightarrow> response_options \<Rightarrow> (string \<times> string) list" where
  "response_fields env cl content_type content_length keep_alive opts =
     concat (builtin_groups env cl content_type content_length keep_alive opts) @ added_fields (ro_site opts)"

definition status_line :: "int \<Rightarrow> string" where
  "status_line status = ''HTTP/1.1 '' @ dec_int status @ '' '' @ rpsiod_http_status_text status"

definition build_response_headers ::
  "host_env \<Rightarrow> client \<Rightarrow> int \<Rightarrow> string \<Rightarrow> int \<Rightarrow> bool \<Rightarrow> response_options \<Rightarrow> nat \<Rightarrow> string option" where
  "build_response_headers env cl status content_type content_length keep_alive opts headers_len =
     (let start = status_line status @ CRLF in
      if headers_len \<le> length start then None
      else case append_headers headers_len start
             (response_fields env cl content_type content_length keep_alive opts) of
        None \<Rightarrow> None
      | Some h \<Rightarrow> if headers_len \<le> length h + 2 then None else Some (h @ CRLF))"

definition HEADERS_LEN :: nat where "HEADERS_LEN = 16384"

definition write_response_headers ::
  "host_env \<Rightarrow> client \<Rightarrow> int \<Rightarrow> string \<Rightarrow> int \<Rightarrow> bool \<Rightarrow> response_options \<Rightarrow> io \<Rightarrow> bool \<times> io" where
  "write_response_headers env cl status content_type content_length keep_alive opts w =
     (case build_response_headers env cl status content_type content_length keep_alive opts HEADERS_LEN of
        None \<Rightarrow> (False, w)
      | Some h \<Rightarrow> client_write_all (c_tls cl) h w)"

section \<open>Headers from a PHP script\<close>

definition response_header_token_valid :: "string \<Rightarrow> bool" where
  "response_header_token_valid name = (if name = [] then False else list_all valid_token_char name)"

definition response_header_value_valid :: "string \<Rightarrow> bool" where
  "response_header_value_valid val = list_all header_value_char val"

definition php_reserved_names :: "string list" where
  "php_reserved_names = [''Status'', ''Content-Type'', ''Content-Length'', ''Connection'', ''Keep-Alive'',
     ''Proxy-Authenticate'', ''Proxy-Authorization'', ''TE'', ''Trailer'', ''Transfer-Encoding'', ''Upgrade'',
     ''Server'', ''Date'', ''Strict-Transport-Security'', ''X-Served-By'', ''X-Cache'', ''X-Cache-Hits'',
     ''X-Timer'', ''X-Request-ID'', ''Alt-Svc'']"

definition php_response_header_allowed :: "string \<Rightarrow> bool" where
  "php_response_header_allowed name = list_all (\<lambda>n. \<not> header_name_matches name n) php_reserved_names"

text \<open>\<open>strtok_r (s, "\r\n", &save)\<close>: the maximal runs without CR and LF.\<close>

definition is_crlf :: "char \<Rightarrow> bool" where
  "is_crlf c \<longleftrightarrow> c = CR \<or> c = LF"

function strtok_lines :: "string \<Rightarrow> string list" where
  "strtok_lines s =
     (let t = dropWhile is_crlf s in
      if t = [] then []
      else takeWhile (\<lambda>c. \<not> is_crlf c) t # strtok_lines (dropWhile (\<lambda>c. \<not> is_crlf c) t))"
  by pat_completeness auto
termination
proof (relation "measure length", simp, goal_cases)
  case (1 s t)
  from 1(2) obtain c cs where t: "t = c # cs" by (meson neq_Nil_conv)
  then have "\<not> is_crlf c" using 1(1) hd_dropWhile [of is_crlf s] by simp
  then have "length (dropWhile (\<lambda>c. \<not> is_crlf c) t) \<le> length cs"
    by (simp add: t length_dropWhile_le)
  also have "\<dots> < length t" by (simp add: t)
  also have "\<dots> \<le> length s" unfolding 1(1) by (rule length_dropWhile_le)
  finally show ?case by simp
qed

declare strtok_lines.simps [simp del]

definition php_field :: "site_config \<Rightarrow> string \<Rightarrow> (string \<times> string) option" where
  "php_field site line =
     (case strchr (CHR '':'') line of
        None \<Rightarrow> None
      | Some (nm, rest) \<Rightarrow>
          (let name = rpsiod_trim nm; val = rpsiod_trim (tl rest) in
           if response_header_token_valid name \<and> response_header_value_valid val \<and>
              php_response_header_allowed name \<and> \<not> header_removed (Some site) name
           then Some (name, val) else None))"

definition php_fields :: "site_config \<Rightarrow> string \<Rightarrow> (string \<times> string) list" where
  "php_fields site cgi_headers = List.map_filter (php_field site) (strtok_lines cgi_headers)"

definition append_php_response_headers :: "nat \<Rightarrow> string \<Rightarrow> string \<Rightarrow> site_config \<Rightarrow> string option" where
  "append_php_response_headers headers_len headers cgi_headers site =
     append_headers headers_len headers (php_fields site cgi_headers)"

text \<open>The block that \<open>write_php_response_headers\<close> sends; the final CRLF is cut off and put back.\<close>

definition php_response_block ::
  "host_env \<Rightarrow> client \<Rightarrow> site_config \<Rightarrow> int \<Rightarrow> string \<Rightarrow> int \<Rightarrow> bool \<Rightarrow> string option \<Rightarrow> bool \<Rightarrow> string option" where
  "php_response_block env cl site status content_type content_length keep_alive cgi_headers chunked_response =
     (let opts = no_options\<lparr>ro_site := Some site, ro_suppress_default_cache_control := True,
                   ro_chunked_response := chunked_response\<rparr> in
      case build_response_headers env cl status content_type content_length keep_alive opts HEADERS_LEN of
        None \<Rightarrow> None
      | Some h \<Rightarrow>
          (let h0 = butlast (butlast h) in
           case (case cgi_headers of None \<Rightarrow> Some h0
                 | Some cgi \<Rightarrow> append_php_response_headers HEADERS_LEN h0 cgi site) of
             None \<Rightarrow> None
           | Some h1 \<Rightarrow> if HEADERS_LEN \<le> length h1 + 2 then None else Some (h1 @ CRLF)))"

definition write_php_response_headers ::
  "host_env \<Rightarrow> client \<Rightarrow> site_config \<Rightarrow> int \<Rightarrow> string \<Rightarrow> int \<Rightarrow> bool \<Rightarrow> string option \<Rightarrow> bool \<Rightarrow> io \<Rightarrow> bool \<times> io" where
  "write_php_response_headers env cl site status content_type content_length keep_alive cgi_headers chunked_response w =
     (case php_response_block env cl site status content_type content_length keep_alive cgi_headers chunked_response of
        None \<Rightarrow> (False, w)
      | Some h \<Rightarrow> client_write_all (c_tls cl) h w)"

section \<open>Chunked bodies\<close>

definition client_write_chunked_body :: "bool \<Rightarrow> string \<Rightarrow> io \<Rightarrow> bool \<times> io" where
  "client_write_chunked_body tls body w =
     (if body = [] then (True, w)
      else client_writev_all tls [hex (length body) @ CRLF, body, CRLF] w)"

definition client_write_chunked_end :: "bool \<Rightarrow> io \<Rightarrow> bool \<times> io" where
  "client_write_chunked_end tls w = client_write_all tls (''0'' @ CRLF @ CRLF) w"

section \<open>Cache validators\<close>

definition strip_weak :: "string \<Rightarrow> string" where
  "strip_weak e = (if starts_with e ''W/'' then drop 2 e else e)"

definition etag_opaque_matches :: "string \<Rightarrow> string \<Rightarrow> bool" where
  "etag_opaque_matches candidate etag \<longleftrightarrow> strip_weak candidate = strip_weak etag"

definition none_match_item :: "string \<Rightarrow> string \<Rightarrow> bool" where
  "none_match_item etag raw =
     (let item = rtrim is_ows raw in item = ''*'' \<or> etag_opaque_matches item etag)"

function none_match_loop :: "string \<Rightarrow> string \<Rightarrow> bool" where
  "none_match_loop etag p =
     (if p = [] then False
      else let start = dropWhile list_skip p in
        if none_match_item etag (takeWhile (\<lambda>c. c \<noteq> CHR '','') start) then True
        else none_match_loop etag (dropWhile (\<lambda>c. c \<noteq> CHR '','') start))"
  by pat_completeness auto
termination
  by (relation "measure (length \<circ> snd)") (simp_all add: scan_decreases)

declare none_match_loop.simps [simp del]

definition if_none_match_matches :: "string \<Rightarrow> string option \<Rightarrow> bool" where
  "if_none_match_matches val etag =
     (case etag of None \<Rightarrow> False
      | Some e \<Rightarrow> if val = [] \<or> e = [] then False else none_match_loop e val)"

definition request_cache_validator_matches :: "host_env \<Rightarrow> http_request \<Rightarrow> file_stat \<Rightarrow> string option \<Rightarrow> bool" where
  "request_cache_validator_matches env req st etag =
     (if \<not> rpsiod_streq_ci (r_method req) ''GET'' \<and> \<not> rpsiod_streq_ci (r_method req) ''HEAD'' then False
      else if r_if_none_match req \<noteq> [] then if_none_match_matches (r_if_none_match req) etag
      else if r_if_modified_since req \<noteq> [] then
        (case e_parse_http_time env (r_if_modified_since req) of
           Some since \<Rightarrow> st_mtime st \<le> since | None \<Rightarrow> False)
      else False)"

interpretation none_match: comma_any none_match_loop none_match_item "\<lambda>etag. strip_weak etag \<noteq> []"
proof (unfold_locales, goal_cases)
  case (1 p)
  then show ?case by (simp add: none_match_loop.simps)
next
  case (2 s p)
  then show ?case by (subst none_match_loop.simps) (simp add: Let_def)
next
  case (3 p)
  then show ?case by (auto simp: none_match_item_def etag_opaque_matches_def strip_weak_def)
qed

text \<open>
  a conditional request is answered from the client's cache exactly when one of the
  comma-separated entity tags is \<open>*\<close> or equals the file's tag up to the weakness mark.
\<close>

theorem if_none_match_fields:
  assumes "val \<noteq> []" and "strip_weak etag \<noteq> []"
  shows "if_none_match_matches val (Some etag) \<longleftrightarrow>
    (\<exists>f \<in> set (split_on (CHR '','') val).
       trim is_ows f = ''*'' \<or> strip_weak (trim is_ows f) = strip_weak etag)"
proof -
  have "etag \<noteq> []" using assms(2) by (auto simp: strip_weak_def)
  then show ?thesis
    using assms none_match.scan_iff [OF assms(2), of val]
    by (simp add: if_none_match_matches_def none_match_item_def etag_opaque_matches_def trim_def Let_def)
qed

theorem if_none_match_fields_witness:
  "if_none_match_matches ''x, \"ab\" '' (Some (''W/'' @ ''\"ab\"''))"
proof -
  have "trim is_ows '' \"ab\" '' = ''\"ab\"''" by code_simp
  moreover have "'' \"ab\" '' \<in> set (split_on (CHR '','') ''x, \"ab\" '')" by code_simp
  ultimately have "\<exists>f \<in> set (split_on (CHR '','') ''x, \"ab\" '').
       trim is_ows f = ''*'' \<or> strip_weak (trim is_ows f) = strip_weak (''W/'' @ ''\"ab\"'')"
    by (intro bexI) (auto simp: strip_weak_def)
  with if_none_match_fields [of "''x, \"ab\" ''" "''W/'' @ ''\"ab\"''"] show ?thesis
    by (simp add: strip_weak_def)
qed

section \<open>One header of each kind\<close>

lemma protected_iff: "protected_response_header n \<longleftrightarrow> map c_tolower n \<in> set (map (map c_tolower) protected_names)"
  by (auto simp: protected_response_header_def list_ex_iff header_name_matches_def streq_ci_iff)

definition builtin_names :: "string list" where
  "builtin_names = [''Date'', ''Server'', ''Location'', ''Content-Range'', ''Retry-After'', ''Content-Type'',
     ''Content-Length'', ''Transfer-Encoding'', ''Content-Encoding'', ''Cache-Control'', ''ETag'',
     ''Last-Modified'', ''Strict-Transport-Security'', ''Accept-Ranges'', ''Connection'', ''X-Served-By'',
     ''X-Cache'', ''X-Cache-Hits'', ''X-Timer'', ''X-Request-ID'', ''Vary'', ''Alt-Svc'',
     ''X-Content-Type-Options'']"

definition group_of :: "(string \<times> string) list \<Rightarrow> string \<Rightarrow> bool" where
  "group_of g n \<longleftrightarrow> g = [] \<or> (\<exists>v. g = [(n, v)])"

lemma group_of_fields [simp]:
  "group_of (field_if b n v) n" "group_of (field_opt b n vo) n"
  "group_of (length_fields len opts) ''Content-Length''"
  "group_of (transfer_fields len opts) ''Transfer-Encoding''"
  "group_of (etag_fields opts) ''ETag''"
  by (auto simp: group_of_def field_if_def field_opt_def length_fields_def transfer_fields_def etag_fields_def
      Let_def split: option.splits)

lemma builtin_groups_names: "list_all2 group_of (builtin_groups env cl ct len ka opts) builtin_names"
  by (simp add: builtin_groups_def builtin_names_def Let_def)

lemma groups_subseq: "list_all2 group_of gs ns \<Longrightarrow> subseq (map fst (concat gs)) ns"
  by (induction gs ns rule: list_all2_induct) (auto simp: group_of_def intro: subseq_Cons')

lemma builtin_lower_distinct: "distinct (map (map c_tolower) builtin_names)"
  by code_simp

definition occurrences :: "string \<Rightarrow> (string \<times> string) list \<Rightarrow> nat" where
  "occurrences n hs = length (filter (\<lambda>h. header_name_matches (fst h) n) hs)"

lemma occurrences_append [simp]: "occurrences n (a @ b) = occurrences n a + occurrences n b"
  by (simp add: occurrences_def)

lemma occurrences_0: "occurrences n hs = 0 \<longleftrightarrow> (\<forall>h \<in> set hs. \<not> header_name_matches (fst h) n)"
  by (auto simp: occurrences_def filter_empty_conv)

lemma filter_distinct_le_1: "distinct xs \<Longrightarrow> length (filter (\<lambda>x. x = a) xs) \<le> 1"
  by (induction xs) (auto simp: filter_empty_conv)

lemma builtin_once: "occurrences n (concat (builtin_groups env cl ct len ka opts)) \<le> 1"
proof -
  let ?B = "concat (builtin_groups env cl ct len ka opts)"
  have "subseq (map (map c_tolower) (map fst ?B)) (map (map c_tolower) builtin_names)"
    by (rule subseq_map [OF groups_subseq [OF builtin_groups_names]])
  then have "distinct (map (map c_tolower) (map fst ?B))"
    using builtin_lower_distinct by (metis subseq_conv_nths distinct_nthsI)
  then have "length (filter (\<lambda>x. x = map c_tolower n) (map (map c_tolower) (map fst ?B))) \<le> 1"
    by (rule filter_distinct_le_1)
  then show ?thesis
    by (simp add: occurrences_def filter_map o_def header_name_matches_def streq_ci_iff)
qed

lemma groups_member:
  assumes "list_all2 group_of gs ns" and "h \<in> set (concat gs)"
  shows "\<exists>i < length ns. h \<in> set (gs ! i) \<and> fst h = ns ! i"
proof -
  obtain i where i: "i < length gs" "h \<in> set (gs ! i)"
    using assms(2) by (metis UN_E in_set_conv_nth set_concat)
  then have "group_of (gs ! i) (ns ! i)" "length gs = length ns"
    using assms(1) by (auto simp: list_all2_conv_all_nth)
  with i show ?thesis by (auto simp: group_of_def intro!: exI [of _ i])
qed

text \<open>A built-in header with the \<open>k\<close>-th name stands in the \<open>k\<close>-th group.\<close>

lemma builtin_index:
  assumes "h \<in> set (concat (builtin_groups env cl ct len ka opts))"
    and "header_name_matches (fst h) (builtin_names ! k)" and "k < length builtin_names"
  shows "h \<in> set (builtin_groups env cl ct len ka opts ! k)"
proof -
  obtain i where i: "i < length builtin_names" "h \<in> set (builtin_groups env cl ct len ka opts ! i)"
    "fst h = builtin_names ! i"
    using groups_member [OF builtin_groups_names assms(1)] by blast
  then have "map (map c_tolower) builtin_names ! i = map (map c_tolower) builtin_names ! k"
    using assms(2,3) by (simp add: header_name_matches_def streq_ci_iff)
  then have "i = k"
    using nth_eq_iff_index_eq [OF builtin_lower_distinct, of i k] i(1) assms(3) by simp
  with i show ?thesis by simp
qed

lemma added_not_protected: "h \<in> set (added_fields site) \<Longrightarrow> \<not> protected_response_header (fst h)"
  by (auto simp: added_fields_def split: option.splits)

lemma protected_matches: "header_name_matches a b \<Longrightarrow> protected_response_header a = protected_response_header b"
  by (simp add: protected_iff header_name_matches_def streq_ci_iff)

lemma protected_not_added: "protected_response_header n \<Longrightarrow> occurrences n (added_fields site) = 0"
  using added_not_protected protected_matches by (fastforce simp: occurrences_0)

lemma framing_protected: "protected_response_header ''Content-Length''" "protected_response_header ''Transfer-Encoding''"
  by code_simp+

lemma framing_groups:
  "h \<in> set (concat (builtin_groups env cl ct len ka opts)) \<Longrightarrow> header_name_matches (fst h) ''Content-Length'' \<Longrightarrow>
     h \<in> set (length_fields len opts)"
  "h \<in> set (concat (builtin_groups env cl ct len ka opts)) \<Longrightarrow> header_name_matches (fst h) ''Transfer-Encoding'' \<Longrightarrow>
     h \<in> set (transfer_fields len opts)"
  using builtin_index [of h env cl ct len ka opts 6] builtin_index [of h env cl ct len ka opts 7]
  by (simp_all add: builtin_names_def builtin_groups_def Let_def)

text \<open>
  C31: the response head is unambiguous: however the site configures extra headers, each
  protected header (the framing and caching ones among them) occurs at most once, and
  \<open>Content-Length\<close> and \<open>Transfer-Encoding\<close> never occur together.
\<close>

theorem protected_headers_once:
  assumes "protected_response_header n"
  shows "occurrences n (response_fields env cl ct len ka opts) \<le> 1 \<and>
    (occurrences ''Content-Length'' (response_fields env cl ct len ka opts) = 0 \<or>
     occurrences ''Transfer-Encoding'' (response_fields env cl ct len ka opts) = 0)"
proof -
  have "occurrences n (response_fields env cl ct len ka opts) \<le> 1"
    using builtin_once [of n] protected_not_added [OF assms] by (simp add: response_fields_def)
  moreover have "occurrences ''Content-Length'' (response_fields env cl ct len ka opts) = 0" if "len < 0"
    using framing_groups(1) [of _ env cl ct len ka opts] protected_not_added [OF framing_protected(1)] that
    by (fastforce simp: response_fields_def length_fields_def occurrences_0)
  moreover have "occurrences ''Transfer-Encoding'' (response_fields env cl ct len ka opts) = 0" if "0 \<le> len"
    using framing_groups(2) [of _ env cl ct len ka opts] protected_not_added [OF framing_protected(2)] that
    by (fastforce simp: response_fields_def transfer_fields_def occurrences_0)
  ultimately show ?thesis by linarith
qed

definition demo_env :: host_env where
  "demo_env = \<lparr>e_http_time = (\<lambda>_. ''D''), e_parse_http_time = (\<lambda>_. None), e_now = 1, e_served_by = ''h'',
     e_now_mono = \<lparr>tv_sec = 1, tv_nsec = 0\<rparr>, e_now_real = \<lparr>tv_sec = 1, tv_nsec = 0\<rparr>,
     e_open = (\<lambda>_ _. Inl ENOENT), e_open_abs = (\<lambda>_. None), e_dup_ok = True, e_gzip = (\<lambda>_. None),
     e_brotli = (\<lambda>_. None)\<rparr>"

definition demo_client :: client where
  "demo_client = \<lparr>c_local_port = 80, c_tls = False, c_request_started_mono = \<lparr>tv_sec = 1, tv_nsec = 0\<rparr>,
     c_request_started_real = \<lparr>tv_sec = 1, tv_nsec = 0\<rparr>, c_request_id = 1, c_keep_alive_requests = 0,
     c_sendfile_enabled = True, c_idle_keep_alive = False, c_client_ip = ''1.2.3.4'',
     c_server_ip = ''5.6.7.8'', c_last_active_mono = \<lparr>tv_sec = 1, tv_nsec = 0\<rparr>\<rparr>"

theorem protected_headers_once_witness:
  "occurrences ''content-length'' (response_fields demo_env demo_client ''t'' 5 True
     (no_options\<lparr>ro_site := Some (site_defaults\<lparr>site_headers_add :=
        [\<lparr>hp_name = ''CONTENT-length'', hp_value = ''7''\<rparr>]\<rparr>)\<rparr>)) \<le> 1"
proof -
  have "protected_response_header ''content-length''" by code_simp
  from protected_headers_once [OF this] show ?thesis by blast
qed
section \<open>The head as the receiver reads it\<close>

lemma append_headers_text:
  "append_headers n buf hs = Some b \<Longrightarrow>
     b = buf @ lines_text (map header_line hs) \<and> (length buf < n \<longrightarrow> length b < n)"
proof (induction n buf hs rule: append_headers.induct)
  case (2 n buf nm v hs)
  then show ?case
    by (auto simp: append_header_def Let_def split: option.splits if_splits)
qed simp

lemma header_line_ok: "CR \<notin> set (fst h) \<Longrightarrow> CR \<notin> set (snd h) \<Longrightarrow> line_ok (header_line h)"
  by (simp add: line_ok_def header_line_def)

definition clean_field :: "string \<times> string \<Rightarrow> bool" where
  "clean_field h \<longleftrightarrow> CR \<notin> set (fst h) \<and> CR \<notin> set (snd h)"

lemma CR_not_digit: "CR \<notin> set (dec n)"
proof
  assume "CR \<in> set (dec n)"
  then have "is_digit CR" using dec_digits by blast
  then show False by (simp add: is_digit_def uchar_def)
qed

lemma CR_not_dec_int [simp]: "CR \<notin> set (dec_int i)"
  by (simp add: dec_int_def CR_not_digit)

lemma CR_not_status_text [simp]: "CR \<notin> set (rpsiod_http_status_text status)"
  by (simp add: rpsiod_http_status_text_def)

lemma status_line_ok [simp]: "line_ok (status_line status)"
  by (simp add: line_ok_def status_line_def)

lemma build_response_headers_text:
  assumes "build_response_headers env cl status ct len ka opts n = Some h"
  shows "h = lines_text (status_line status # map header_line (response_fields env cl ct len ka opts)) @ CRLF"
    and "length h < n"
proof -
  obtain b where b: "append_headers n (status_line status @ CRLF) (response_fields env cl ct len ka opts) = Some b"
    "h = b @ CRLF" "length b + 2 < n"
    using assms by (auto simp: build_response_headers_def Let_def split: if_splits option.splits)
  then show "h = lines_text (status_line status # map header_line (response_fields env cl ct len ka opts)) @ CRLF"
    using append_headers_text [OF b(1)] by simp
  show "length h < n" using b by simp
qed

lemma head_text_lines:
  assumes "list_all clean_field hs"
  shows "memmem (CRLF @ CRLF) (lines_text (status_line status # map header_line hs) @ CRLF @ body) =
      Some (join_lines (status_line status # map header_line hs), CRLF @ CRLF @ body) \<and>
    header_lines (join_lines (status_line status # map header_line hs)) = status_line status # map header_line hs"
proof -
  have "list_all line_ok (status_line status # map header_line hs)"
    using assms header_line_ok by (auto simp: list_all_iff clean_field_def)
  then show ?thesis
    using memmem_head_end [of "status_line status # map header_line hs" body] header_lines_join by blast
qed

text \<open>
  C24: no response splitting: when no value holds a carriage return, the block that is sent
  fits its buffer and a receiver that searches for the empty line and splits at CRLF reads
  back the status line and exactly the intended headers, whatever follows as the body.
\<close>

theorem response_head_framed:
  assumes "build_response_headers env cl status ct len ka opts n = Some h"
    and "list_all clean_field (response_fields env cl ct len ka opts)"
  shows "length h < n \<and>
    (\<exists>head. memmem (CRLF @ CRLF) (h @ body) = Some (head, CRLF @ CRLF @ body) \<and>
       header_lines head = status_line status # map header_line (response_fields env cl ct len ka opts))"
  using build_response_headers_text [OF assms(1)] head_text_lines [OF assms(2), of status body]
  by (metis append_assoc)

theorem response_head_framed_witness:
  "\<exists>head. memmem (CRLF @ CRLF) (the (build_response_headers demo_env demo_client 404 ''t'' 5 True no_options 700) @ ''x'') =
     Some (head, CRLF @ CRLF @ ''x'') \<and>
   header_lines head = status_line 404 # map header_line (response_fields demo_env demo_client ''t'' 5 True no_options)"
proof -
  have "build_response_headers demo_env demo_client 404 ''t'' 5 True no_options 700 \<noteq> None" by code_simp
  then obtain h where h: "build_response_headers demo_env demo_client 404 ''t'' 5 True no_options 700 = Some h" by blast
  have "list_all clean_field (response_fields demo_env demo_client ''t'' 5 True no_options)" by code_simp
  from response_head_framed [OF h this, of "''x''"] h show ?thesis by simp
qed

section \<open>What a script can add\<close>

lemma set_rpsiod_trim: "set (rpsiod_trim s) \<subseteq> set s"
proof -
  have "set (butlast (tl t)) \<subseteq> set t" for t :: string
    by (cases t) (auto dest: in_set_butlastD)
  then show ?thesis
    using set_trim [of c_isspace s] by (auto simp: rpsiod_trim_def Let_def)
qed

lemma header_value_char_not_CR: "header_value_char c \<Longrightarrow> c \<noteq> CR"
  by (auto simp: header_value_char_def uchar_def)

lemma token_char_not_CR: "valid_token_char c \<Longrightarrow> c \<noteq> CR"
  by (auto simp: valid_token_char_def is_digit_def is_upper_def is_lower_def uchar_def)

definition php_field_ok :: "site_config \<Rightarrow> string \<times> string \<Rightarrow> bool" where
  "php_field_ok site h \<longleftrightarrow> response_header_token_valid (fst h) \<and> response_header_value_valid (snd h) \<and>
     php_response_header_allowed (fst h) \<and> \<not> header_removed (Some site) (fst h)"

lemma php_fields_ok: "list_all (php_field_ok site) (php_fields site cgi)"
proof -
  have "php_field_ok site h" if "php_field site l = Some h" for l h
    using that by (auto simp: php_field_def php_field_ok_def Let_def split: option.splits if_splits)
  then show ?thesis
    by (auto simp: php_fields_def List.map_filter_def list_all_iff)
qed

lemma php_field_ok_clean: "php_field_ok site h \<Longrightarrow> clean_field h"
  using token_char_not_CR header_value_char_not_CR
  by (fastforce simp: php_field_ok_def clean_field_def response_header_token_valid_def
      response_header_value_valid_def list_all_iff split: if_splits)

text \<open>The reserved names as a receiver compares them, in lower case.\<close>

definition script_reserved :: "string list" where
  "script_reserved = [''status'', ''content-type'', ''content-length'', ''connection'', ''keep-alive'',
     ''proxy-authenticate'', ''proxy-authorization'', ''te'', ''trailer'', ''transfer-encoding'', ''upgrade'',
     ''server'', ''date'', ''strict-transport-security'', ''x-served-by'', ''x-cache'', ''x-cache-hits'',
     ''x-timer'', ''x-request-id'', ''alt-svc'']"

lemma allowed_not_reserved: "php_response_header_allowed name \<Longrightarrow> map c_tolower name \<notin> set script_reserved"
proof -
  have "map (map c_tolower) php_reserved_names = script_reserved" by code_simp
  then have "set script_reserved = map c_tolower ` set php_reserved_names" by (metis set_map)
  then show "php_response_header_allowed name \<Longrightarrow> map c_tolower name \<notin> set script_reserved"
    by (auto simp: php_response_header_allowed_def header_name_matches_def streq_ci_iff list_all_iff)
qed

lemma php_fields_not_reserved:
  assumes "name \<in> set script_reserved"
  shows "lines_named name (map header_line (php_fields site cgi)) = []"
proof -
  have "lines_named name [header_line h] = []" if "h \<in> set (php_fields site cgi)" for h
  proof -
    have ok: "php_field_ok site h" using that php_fields_ok [of site cgi] by (simp add: list_all_iff)
    have "\<not> valid_token_char (CHR '':'')" by code_simp
    then have "CHR '':'' \<notin> set (fst h)"
      using ok by (auto simp: php_field_ok_def response_header_token_valid_def list_all_iff split: if_splits)
    moreover have "map c_tolower (fst h) \<noteq> name"
      using ok assms allowed_not_reserved [of "fst h"] by (auto simp: php_field_ok_def)
    ultimately show ?thesis using lines_named_one [of "fst h" name "snd h"] by (simp add: header_line_def)
  qed
  then show ?thesis by (subst lines_named_empty) simp
qed


lemma append_headers_fits:
  "length buf + length (lines_text (map header_line hs)) < n \<Longrightarrow>
     append_headers n buf hs = Some (buf @ lines_text (map header_line hs))"
proof (induction hs arbitrary: buf)
  case (Cons h hs)
  then show ?case by (cases h) (simp add: append_header_def Let_def)
qed simp

lemma build_response_headers_fits:
  assumes "length (lines_text (status_line status # map header_line (response_fields env cl ct len ka opts))) + 2 < n"
  shows "build_response_headers env cl status ct len ka opts n =
    Some (lines_text (status_line status # map header_line (response_fields env cl ct len ka opts)) @ CRLF)"
  using assms append_headers_fits [of "status_line status @ CRLF" "response_fields env cl ct len ka opts" n]
  by (simp add: build_response_headers_def Let_def)

lemma php_response_block_fits:
  assumes "opts = no_options\<lparr>ro_site := Some site, ro_suppress_default_cache_control := True,
                   ro_chunked_response := chunked\<rparr>"
    and "length (lines_text (status_line status # map header_line
           (response_fields env cl ct len ka opts @ php_fields site cgi))) + 2 < HEADERS_LEN"
  shows "php_response_block env cl site status ct len ka (Some cgi) chunked \<noteq> None"
proof -
  let ?l = "lines_text (status_line status # map header_line (response_fields env cl ct len ka opts))"
  have b: "build_response_headers env cl status ct len ka opts HEADERS_LEN = Some (?l @ CRLF)"
    using assms(2) by (intro build_response_headers_fits) simp
  have "append_headers HEADERS_LEN ?l (php_fields site cgi) =
      Some (?l @ lines_text (map header_line (php_fields site cgi)))"
    using assms(2) by (intro append_headers_fits) simp
  then show ?thesis
    using assms(2)
    by (simp add: php_response_block_def assms(1) [symmetric] b append_php_response_headers_def butlast_append)
qed


end
