(* ===== verification/StaticCache.thy ===== *)
theory StaticCache
  imports Response Php Security ConfigValidate Redirect
begin

text \<open>
  The two caches of a site in \<open>src/server.c\<close>: the metadata cache (\<open>static_meta_*\<close>: MIME type,
  entity tag, blocked flag and compressed variants of a file) and the open-file cache
  (\<open>static_open_cache_*\<close>, least recently used entry replaced).  A cached descriptor is only
  ever closed again, so an entry keeps whether it holds one.
\<close>

section \<open>State\<close>

record variant_info =
  va_size :: nat
  va_mtime :: int
  va_ino :: u64

record meta_entry =
  me_valid :: bool
  me_path :: string
  me_absolute :: string
  me_mime :: string
  me_etag :: string
  me_size :: nat
  me_mtime :: int
  me_ino :: u64
  me_blocked :: bool
  me_directory :: bool
  me_br :: "variant_info option"
  me_gzip :: "variant_info option"

record open_entry =
  oe_valid :: bool
  oe_path :: string
  oe_has_fd :: bool
  oe_size :: nat
  oe_mtime :: int
  oe_ino :: u64
  oe_last_used :: u64

record site_cache =
  sc_meta :: "meta_entry list"
  sc_meta_clock :: nat
  sc_open :: "open_entry list"
  sc_open_count :: nat
  sc_open_tick :: u64

text \<open>
  The scan for blocked names returns whenever no entry of the list is empty, which the
  configuration reader sees to; here it is used as a test.
\<close>

definition path_blocked :: "site_config \<Rightarrow> string \<Rightarrow> bool" where
  "path_blocked site path \<longleftrightarrow> rpsiod_blocked_direct_access site path = Some True"

section \<open>Metadata\<close>

definition meta_matches :: "meta_entry \<Rightarrow> file_stat \<Rightarrow> bool" where
  "meta_matches e st \<longleftrightarrow> me_size e = st_size st \<and> me_mtime e = st_mtime st \<and> me_ino e = st_ino st"

text \<open>The loop over the table: the entry found, and the table with a stale entry invalidated.\<close>

fun static_meta_lookup :: "meta_entry list \<Rightarrow> string \<Rightarrow> file_stat \<Rightarrow> meta_entry option \<times> meta_entry list" where
  "static_meta_lookup [] relative_path st = (None, [])"
| "static_meta_lookup (e # es) relative_path st =
     (if \<not> me_valid e \<or> me_path e \<noteq> relative_path
      then (case static_meta_lookup es relative_path st of (r, es') \<Rightarrow> (r, e # es'))
      else if meta_matches e st then (Some e, e # es)
      else (None, e\<lparr>me_valid := False\<rparr> # es))"

definition static_meta_variant :: "host_env \<Rightarrow> site_config \<Rightarrow> string \<Rightarrow> string \<Rightarrow> variant_info option" where
  "static_meta_variant env site relative_path sfx =
     (if PATH_MAX \<le> length (relative_path @ sfx) then None
      else case e_open env site (relative_path @ sfx) of
        Inl _ \<Rightarrow> None
      | Inr f \<Rightarrow>
          if st_kind (f_stat f) = Regular
          then Some \<lparr>va_size = st_size (f_stat f), va_mtime = st_mtime (f_stat f), va_ino = st_ino (f_stat f)\<rparr>
          else None)"

definition meta_absolute :: "site_config \<Rightarrow> string \<Rightarrow> opened_file \<Rightarrow> string" where
  "meta_absolute site relative_path f =
     (case f_real_path f of
        Some p \<Rightarrow> take 4095 p
      | None \<Rightarrow>
          (let p = site_static_root_real site @ ''/'' @ relative_path in
           if 4096 \<le> length p then [] else p))"

definition new_meta_entry :: "host_env \<Rightarrow> site_config \<Rightarrow> string \<Rightarrow> opened_file \<Rightarrow> meta_entry" where
  "new_meta_entry env site relative_path f =
     (let st = f_stat f; request_path = ''/'' @ relative_path in
      \<lparr>me_valid = True, me_path = safe_copy 512 relative_path,
       me_absolute = meta_absolute site relative_path f,
       me_mime = safe_copy 96 (rpsiod_mime_type relative_path), me_etag = file_etag st,
       me_size = st_size st, me_mtime = st_mtime st, me_ino = st_ino st,
       me_blocked = (if length request_path < PATH_MAX then path_blocked site request_path else False),
       me_directory = (st_kind st = Directory),
       me_br = static_meta_variant env site relative_path ''.br'',
       me_gzip = static_meta_variant env site relative_path ''.gz''\<rparr>)"

definition static_meta_store ::
  "host_env \<Rightarrow> site_config \<Rightarrow> string \<Rightarrow> opened_file \<Rightarrow> site_cache \<Rightarrow> meta_entry \<times> site_cache" where
  "static_meta_store env site relative_path f cache =
     (let idx = sc_meta_clock cache mod length (sc_meta cache);
          e = new_meta_entry env site relative_path f in
      (e, cache\<lparr>sc_meta := (sc_meta cache)[idx := e], sc_meta_clock := sc_meta_clock cache + 1\<rparr>))"

definition static_meta_get ::
  "host_env \<Rightarrow> site_config \<Rightarrow> string \<Rightarrow> opened_file \<Rightarrow> site_cache \<Rightarrow> meta_entry \<times> site_cache" where
  "static_meta_get env site relative_path f cache =
     (case static_meta_lookup (sc_meta cache) relative_path (f_stat f) of
        (Some e, _) \<Rightarrow> (e, cache)
      | (None, es) \<Rightarrow> static_meta_store env site relative_path f (cache\<lparr>sc_meta := es\<rparr>))"

section \<open>Open files\<close>

definition static_cache_path_blocked :: "site_config \<Rightarrow> string \<Rightarrow> bool" where
  "static_cache_path_blocked site relative_path =
     (if rpsiod_php_path_is_source_like relative_path then True
      else let request_path = ''/'' @ relative_path in
        if PATH_MAX \<le> length request_path then True else path_blocked site request_path)"

definition selected_path_blocked_direct_access :: "site_config \<Rightarrow> string \<Rightarrow> bool" where
  "selected_path_blocked_direct_access site selected =
     (let request_path = (if starts_with selected ''/'' then selected else ''/'' @ selected) in
      if PATH_MAX \<le> length request_path then True else path_blocked site request_path)"

definition static_open_cache_invalidate_entry :: "open_entry \<Rightarrow> open_entry" where
  "static_open_cache_invalidate_entry e =
     \<lparr>oe_valid = False, oe_path = [], oe_has_fd = False, oe_size = 0, oe_mtime = 0, oe_ino = 0, oe_last_used = 0\<rparr>"

definition open_cache_on :: "config \<Rightarrow> site_config \<Rightarrow> string \<Rightarrow> bool" where
  "open_cache_on cfg site relative_path \<longleftrightarrow>
     cfg_open_file_cache_enabled cfg \<and> cfg_open_file_cache_max cfg \<noteq> 0 \<and>
     \<not> static_cache_path_blocked site relative_path"

definition open_cache_slots :: "config \<Rightarrow> nat" where
  "open_cache_slots cfg = unat (min (cfg_open_file_cache_max cfg) OPEN_FILE_CACHE_MAX)"

text \<open>The index of the entry the lookup loop stops at.\<close>

definition open_cache_hit :: "open_entry list \<Rightarrow> string \<Rightarrow> nat option" where
  "open_cache_hit es relative_path =
     find (\<lambda>i. oe_valid (es ! i) \<and> oe_has_fd (es ! i) \<and> oe_path (es ! i) = relative_path) [0..<length es]"

definition open_entry_current :: "open_entry \<Rightarrow> file_stat \<Rightarrow> bool" where
  "open_entry_current e st \<longleftrightarrow>
     st_kind st = Regular \<and> st_size st = oe_size e \<and> st_mtime st = oe_mtime e \<and> st_ino st = oe_ino e"

definition drop_open_entry :: "nat \<Rightarrow> site_cache \<Rightarrow> site_cache" where
  "drop_open_entry i cache =
     cache\<lparr>sc_open := (sc_open cache)[i := static_open_cache_invalidate_entry (sc_open cache ! i)],
           sc_open_count := sc_open_count cache - 1\<rparr>"

definition static_open_cache_lookup ::
  "host_env \<Rightarrow> config \<Rightarrow> site_config \<Rightarrow> string \<Rightarrow> site_cache \<Rightarrow> opened_file option \<times> site_cache" where
  "static_open_cache_lookup env cfg site relative_path cache =
     (if \<not> open_cache_on cfg site relative_path then (None, cache)
      else case open_cache_hit (take (open_cache_slots cfg) (sc_open cache)) relative_path of
        None \<Rightarrow> (None, cache)
      | Some i \<Rightarrow>
          (case e_open env site relative_path of
             Inl _ \<Rightarrow> (None, drop_open_entry i cache)
           | Inr f \<Rightarrow>
               if \<not> open_entry_current (sc_open cache ! i) (f_stat f) then (None, drop_open_entry i cache)
               else (let tick = sc_open_tick cache + 1 in
                 (Some f, cache\<lparr>sc_open := (sc_open cache)[i := (sc_open cache ! i)\<lparr>oe_last_used := tick\<rparr>],
                                sc_open_tick := tick\<rparr>))))"

text \<open>
  The slot to fill: the entry of the same path or the first free one, whichever comes first,
  otherwise the one used longest ago (an entry used at the largest tick is never chosen).
\<close>

fun open_cache_slot :: "open_entry list \<Rightarrow> string \<Rightarrow> nat \<Rightarrow> nat option \<Rightarrow> u64 \<Rightarrow> nat option" where
  "open_cache_slot [] relative_path i slot oldest = slot"
| "open_cache_slot (e # es) relative_path i slot oldest =
     (if oe_valid e \<and> oe_path e = relative_path then Some i
      else if \<not> oe_valid e then Some i
      else if oe_last_used e < oldest then open_cache_slot es relative_path (i + 1) (Some i) (oe_last_used e)
      else open_cache_slot es relative_path (i + 1) slot oldest)"

definition static_open_cache_store ::
  "host_env \<Rightarrow> config \<Rightarrow> site_config \<Rightarrow> string \<Rightarrow> file_stat \<Rightarrow> site_cache \<Rightarrow> site_cache" where
  "static_open_cache_store env cfg site relative_path st cache =
     (if \<not> open_cache_on cfg site relative_path \<or> st_kind st \<noteq> Regular then cache
      else case open_cache_slot (take (open_cache_slots cfg) (sc_open cache)) relative_path 0 None (- 1) of
        None \<Rightarrow> cache
      | Some slot \<Rightarrow>
          (let e = sc_open cache ! slot; was_valid = oe_valid e;
               e' = (if was_valid then static_open_cache_invalidate_entry e else e) in
           if \<not> e_dup_ok env then cache\<lparr>sc_open := (sc_open cache)[slot := e']\<rparr>
           else let tick = sc_open_tick cache + 1 in
             cache\<lparr>sc_open := (sc_open cache)[slot :=
                      \<lparr>oe_valid = True, oe_path = safe_copy 512 relative_path, oe_has_fd = True,
                       oe_size = st_size st, oe_mtime = st_mtime st, oe_ino = st_ino st, oe_last_used = tick\<rparr>],
                   sc_open_tick := tick,
                   sc_open_count := (if \<not> was_valid \<and> sc_open_count cache < open_cache_slots cfg
                                     then sc_open_count cache + 1 else sc_open_count cache)\<rparr>))"

definition open_static_path ::
  "host_env \<Rightarrow> config \<Rightarrow> site_config \<Rightarrow> string \<Rightarrow> site_cache \<Rightarrow> (open_error + opened_file) \<times> site_cache" where
  "open_static_path env cfg site relative_path cache =
     (case static_open_cache_lookup env cfg site relative_path cache of
        (Some f, cache') \<Rightarrow> (Inr f, cache')
      | (None, cache') \<Rightarrow>
          (case e_open env site relative_path of
             Inl e \<Rightarrow> (Inl e, cache')
           | Inr f \<Rightarrow> (Inr f, static_open_cache_store env cfg site relative_path (f_stat f) cache')))"

section \<open>Metadata is current\<close>

text \<open>What every valid entry says is what would be computed afresh for the path it was stored under.\<close>

definition meta_entry_ok :: "site_config \<Rightarrow> meta_entry \<Rightarrow> bool" where
  "meta_entry_ok site e \<longleftrightarrow>
     (\<exists>p. length p < 512 \<and> me_path e = p \<and> me_mime e = safe_copy 96 (rpsiod_mime_type p) \<and>
        (\<forall>st. meta_matches e st \<longrightarrow> me_etag e = file_etag st) \<and> me_blocked e = path_blocked site (''/'' @ p))"

definition meta_cache_ok :: "site_config \<Rightarrow> site_cache \<Rightarrow> bool" where
  "meta_cache_ok site cache \<longleftrightarrow>
     sc_meta cache \<noteq> [] \<and> (\<forall>e \<in> set (sc_meta cache). me_valid e \<longrightarrow> meta_entry_ok site e)"

lemma new_meta_entry_ok: "length p < 512 \<Longrightarrow> meta_entry_ok site (new_meta_entry env site p f)"
  by (auto simp: meta_entry_ok_def new_meta_entry_def Let_def meta_matches_def file_etag_def)

lemma static_meta_lookup_facts:
  "static_meta_lookup es p st = (r, es') \<Longrightarrow>
     (\<forall>e. r = Some e \<longrightarrow> e \<in> set es \<and> me_valid e \<and> me_path e = p \<and> meta_matches e st) \<and>
     length es' = length es \<and> (\<forall>e \<in> set es'. me_valid e \<longrightarrow> e \<in> set es)"
  by (induction es p st arbitrary: r es' rule: static_meta_lookup.induct)
     (auto split: if_splits prod.splits)

text \<open>
  the metadata cache never lies: for any state of the cache that its own operations can
  reach, the MIME type, the entity tag and the blocked flag it returns for an open file are
  the ones computed from the path and the file's current \<open>stat\<close>, and the cache stays so.
\<close>

theorem static_meta_current:
  assumes "meta_cache_ok site cache" and "length p < 512"
    and "static_meta_get env site p f cache = (e, cache')"
  shows "me_mime e = safe_copy 96 (rpsiod_mime_type p) \<and> me_etag e = file_etag (f_stat f) \<and>
    me_blocked e = path_blocked site (''/'' @ p) \<and> meta_cache_ok site cache'"
proof -
  obtain r es where l: "static_meta_lookup (sc_meta cache) p (f_stat f) = (r, es)" by fastforce
  note facts = static_meta_lookup_facts [OF l]
  show ?thesis
  proof (cases r)
    case None
    then have e: "e = new_meta_entry env site p f"
      and c: "cache' = cache\<lparr>sc_meta := es[sc_meta_clock cache mod length es := e],
                sc_meta_clock := sc_meta_clock cache + 1\<rparr>"
      using assms(3) l by (auto simp: static_meta_get_def static_meta_store_def Let_def)
    have "\<forall>x \<in> set (es[sc_meta_clock cache mod length es := e]). me_valid x \<longrightarrow> meta_entry_ok site x"
    proof
      fix x
      assume "x \<in> set (es[sc_meta_clock cache mod length es := e])"
      then have "x = e \<or> x \<in> set es" using set_update_subset_insert by fastforce
      then show "me_valid x \<longrightarrow> meta_entry_ok site x"
        using facts assms(1) new_meta_entry_ok [OF assms(2)] e by (auto simp: meta_cache_ok_def)
    qed
    moreover have "es \<noteq> []" using facts assms(1) by (auto simp: meta_cache_ok_def)
    ultimately show ?thesis
      using e c assms(2) by (simp add: meta_cache_ok_def new_meta_entry_def Let_def)
  next
    case (Some e')
    then have "e' = e" "cache' = cache" using assms(3) l by (simp_all add: static_meta_get_def)
    with Some facts assms(1) show ?thesis
      by (auto simp: meta_cache_ok_def meta_entry_ok_def)
  qed
qed

section \<open>The open-file cache is transparent\<close>

lemma static_open_cache_lookup_Some:
  "static_open_cache_lookup env cfg site p cache = (Some f, cache') \<Longrightarrow> e_open env site p = Inr f"
  by (auto simp: static_open_cache_lookup_def Let_def split: if_splits option.splits sum.splits)

lemma open_static_path_fresh: "fst (open_static_path env cfg site p cache) = e_open env site p"
  using static_open_cache_lookup_Some [of env cfg site p cache]
  by (auto simp: open_static_path_def split: prod.splits option.splits sum.splits)

definition valid_count :: "open_entry list \<Rightarrow> nat" where
  "valid_count es = length (filter oe_valid es)"

definition open_cache_ok :: "config \<Rightarrow> site_cache \<Rightarrow> bool" where
  "open_cache_ok cfg cache \<longleftrightarrow>
     open_cache_slots cfg \<le> length (sc_open cache) \<and>
     (\<forall>i < length (sc_open cache). oe_valid (sc_open cache ! i) \<longrightarrow> i < open_cache_slots cfg) \<and>
     (\<forall>e \<in> set (sc_open cache). oe_has_fd e = oe_valid e) \<and>
     (\<forall>i < length (sc_open cache). \<forall>j < length (sc_open cache).
        oe_valid (sc_open cache ! i) \<and> oe_valid (sc_open cache ! j) \<and>
        oe_path (sc_open cache ! i) = oe_path (sc_open cache ! j) \<longrightarrow> i = j) \<and>
     valid_count (sc_open cache) \<le> sc_open_count cache \<and> sc_open_count cache \<le> open_cache_slots cfg"

text \<open>How many entries the counter claims beyond those that are there.\<close>

definition count_excess :: "site_cache \<Rightarrow> nat" where
  "count_excess cache = sc_open_count cache - valid_count (sc_open cache)"

lemma valid_count_update:
  assumes "i < length es"
  shows "valid_count (es[i := e]) + (if oe_valid (es ! i) then 1 else 0) =
    valid_count es + (if oe_valid e then 1 else 0)"
  using assms
proof (induction es arbitrary: i)
  case (Cons a es)
  then show ?case by (cases i) (auto simp: valid_count_def)
qed simp

lemma valid_count_pos: "i < length es \<Longrightarrow> oe_valid (es ! i) \<Longrightarrow> 0 < valid_count es"
  by (auto simp: valid_count_def filter_empty_conv intro!: bexI [of _ "es ! i"])

text \<open>Replacing one entry: by an invalid one, or by a valid one whose path no other entry has.\<close>

lemma open_cache_ok_update:
  assumes ok: "open_cache_ok cfg cache" and i: "i < open_cache_slots cfg"
    and fd: "oe_has_fd e = oe_valid e"
    and path: "\<And>j. oe_valid e \<Longrightarrow> j < length (sc_open cache) \<Longrightarrow> j \<noteq> i \<Longrightarrow>
       oe_valid (sc_open cache ! j) \<Longrightarrow> oe_path (sc_open cache ! j) \<noteq> oe_path e"
    and es: "sc_open cache' = (sc_open cache)[i := e]"
    and count: "valid_count ((sc_open cache)[i := e]) \<le> sc_open_count cache'" "sc_open_count cache' \<le> open_cache_slots cfg"
  shows "open_cache_ok cfg cache'"
proof -
  have il: "i < length (sc_open cache)" using ok i by (simp add: open_cache_ok_def)
  have fds: "\<forall>x \<in> set ((sc_open cache)[i := e]). oe_has_fd x = oe_valid x"
    using ok fd set_update_subset_insert [of "sc_open cache" i e] by (auto simp: open_cache_ok_def)
  show ?thesis
    using ok i il fds count path path [THEN not_sym] unfolding open_cache_ok_def es
    by (auto simp: nth_list_update)
qed

lemma open_cache_hit_Some:
  "open_cache_hit es p = Some i \<Longrightarrow> i < length es \<and> oe_valid (es ! i) \<and> oe_has_fd (es ! i) \<and> oe_path (es ! i) = p"
  by (auto simp: open_cache_hit_def find_Some_iff)

lemma open_cache_hit_None:
  "open_cache_hit es p = None \<Longrightarrow> i < length es \<Longrightarrow> oe_valid (es ! i) \<Longrightarrow> oe_has_fd (es ! i) \<Longrightarrow> oe_path (es ! i) \<noteq> p"
  by (auto simp: open_cache_hit_def find_None_iff)

definition no_entry :: "string \<Rightarrow> site_cache \<Rightarrow> bool" where
  "no_entry p cache \<longleftrightarrow> (\<forall>e \<in> set (sc_open cache). oe_valid e \<longrightarrow> oe_path e \<noteq> p)"

text \<open>What the cache holds for \<open>p\<close> describes the file \<open>st\<close> belongs to.\<close>

definition describes :: "string \<Rightarrow> file_stat \<Rightarrow> site_cache \<Rightarrow> bool" where
  "describes p st cache \<longleftrightarrow>
     (\<forall>e \<in> set (sc_open cache). oe_valid e \<and> oe_path e = p \<longrightarrow> open_entry_current e st)"

lemma no_entry_describes: "no_entry p cache \<Longrightarrow> describes p st cache"
  by (auto simp: no_entry_def describes_def)

lemma lookup_keeps:
  assumes ok: "open_cache_ok cfg cache"
    and l: "static_open_cache_lookup env cfg site p cache = (r, cache')"
  shows "open_cache_ok cfg cache' \<and> count_excess cache' = count_excess cache \<and>
    (r = None \<longrightarrow> open_cache_on cfg site p \<longrightarrow> no_entry p cache') \<and>
    (\<forall>f. r = Some f \<longrightarrow> describes p (f_stat f) cache')"
proof (cases "open_cache_on cfg site p")
  case False
  then show ?thesis using l ok by (auto simp: static_open_cache_lookup_def)
next
  case on: True
  let ?es = "take (open_cache_slots cfg) (sc_open cache)"
  show ?thesis
  proof (cases "open_cache_hit ?es p")
    case None
    have "no_entry p cache"
      unfolding no_entry_def
    proof (intro ballI impI)
      fix e
      assume "e \<in> set (sc_open cache)" "oe_valid e"
      then obtain i where i: "i < length (sc_open cache)" "e = sc_open cache ! i" by (metis in_set_conv_nth)
      with ok \<open>oe_valid e\<close> have "i < open_cache_slots cfg" "oe_has_fd e" by (auto simp: open_cache_ok_def)
      with i \<open>oe_valid e\<close> show "oe_path e \<noteq> p" using open_cache_hit_None [OF None, of i] by simp
    qed
    then show ?thesis using l on None ok by (auto simp: static_open_cache_lookup_def)
  next
    case (Some i)
    let ?e = "sc_open cache ! i"
    have i: "i < open_cache_slots cfg" "i < length (sc_open cache)" "oe_valid ?e" "oe_has_fd ?e" "oe_path ?e = p"
      using open_cache_hit_Some [OF Some] by auto
    then have uniq: "j = i" if "j < length (sc_open cache)" "oe_valid (sc_open cache ! j)" "oe_path (sc_open cache ! j) = p" for j
      using ok that by (auto simp: open_cache_ok_def)
    have counts: "valid_count (sc_open cache) \<le> sc_open_count cache" "sc_open_count cache \<le> open_cache_slots cfg"
      using ok by (auto simp: open_cache_ok_def)
    have less: "valid_count ((sc_open cache)[i := static_open_cache_invalidate_entry ?e]) + 1 = valid_count (sc_open cache)"
      using valid_count_update [OF i(2), of "static_open_cache_invalidate_entry ?e"] i(3)
      by (simp add: static_open_cache_invalidate_entry_def)
    have drop: "open_cache_ok cfg (drop_open_entry i cache) \<and> count_excess (drop_open_entry i cache) = count_excess cache \<and>
        no_entry p (drop_open_entry i cache)"
    proof (intro conjI)
      show "open_cache_ok cfg (drop_open_entry i cache)"
        using i less counts
        by (intro open_cache_ok_update [OF ok i(1), where e = "static_open_cache_invalidate_entry ?e"])
          (simp_all add: drop_open_entry_def static_open_cache_invalidate_entry_def)
      show "count_excess (drop_open_entry i cache) = count_excess cache"
        using less counts by (simp add: count_excess_def drop_open_entry_def)
      show "no_entry p (drop_open_entry i cache)"
        unfolding no_entry_def
      proof (intro ballI impI)
        fix x
        assume "x \<in> set (sc_open (drop_open_entry i cache))" "oe_valid x"
        then obtain j where j: "j < length (sc_open cache)"
          "x = (sc_open cache)[i := static_open_cache_invalidate_entry ?e] ! j"
          by (auto simp: drop_open_entry_def in_set_conv_nth)
        with \<open>oe_valid x\<close> i have "j \<noteq> i" by (auto simp: static_open_cache_invalidate_entry_def)
        with j have "x = sc_open cache ! j" by simp
        with uniq [of j] \<open>oe_valid x\<close> j(1) \<open>j \<noteq> i\<close> show "oe_path x \<noteq> p" by blast
      qed
    qed
    have same: "valid_count ((sc_open cache)[i := ?e\<lparr>oe_last_used := t\<rparr>]) = valid_count (sc_open cache)" for t
      using valid_count_update [OF i(2), of "?e\<lparr>oe_last_used := t\<rparr>"] i(3) by simp
    have keep: "open_cache_ok cfg (cache\<lparr>sc_open := (sc_open cache)[i := ?e\<lparr>oe_last_used := t\<rparr>], sc_open_tick := t\<rparr>)" for t
    proof (rule open_cache_ok_update [OF ok i(1), where e = "?e\<lparr>oe_last_used := t\<rparr>"])
      show "oe_path (sc_open cache ! j) \<noteq> oe_path (?e\<lparr>oe_last_used := t\<rparr>)"
        if "j < length (sc_open cache)" "j \<noteq> i" "oe_valid (sc_open cache ! j)" for j
        using uniq [OF that(1,3)] that(2) i(5) by simp metis
    qed (use i counts same in simp_all)
    have fresh: "describes p st (cache\<lparr>sc_open := (sc_open cache)[i := ?e\<lparr>oe_last_used := t\<rparr>], sc_open_tick := t\<rparr>)"
      if "open_entry_current ?e st" for st t
      unfolding describes_def
    proof (intro ballI impI)
      fix x
      assume "x \<in> set (sc_open (cache\<lparr>sc_open := (sc_open cache)[i := ?e\<lparr>oe_last_used := t\<rparr>], sc_open_tick := t\<rparr>))"
        and x: "oe_valid x \<and> oe_path x = p"
      then obtain j where j: "j < length (sc_open cache)" "x = (sc_open cache)[i := ?e\<lparr>oe_last_used := t\<rparr>] ! j"
        by (auto simp: in_set_conv_nth)
      have "j = i"
      proof (rule ccontr)
        assume "j \<noteq> i"
        then have "x = sc_open cache ! j" using j(2) by simp
        with uniq [OF j(1)] x \<open>j \<noteq> i\<close> show False by simp
      qed
      with j that show "open_entry_current x st" by (simp add: open_entry_current_def)
    qed
    show ?thesis
    proof (cases "\<exists>f. e_open env site p = Inr f \<and> open_entry_current ?e (f_stat f)")
      case False
      then have "r = None" "cache' = drop_open_entry i cache"
        using l on Some by (auto simp: static_open_cache_lookup_def split: sum.splits if_splits)
      with drop show ?thesis by simp
    next
      case True
      then obtain f where f: "e_open env site p = Inr f" "open_entry_current ?e (f_stat f)" by blast
      let ?t = "sc_open_tick cache + 1"
      have "r = Some f" "cache' = cache\<lparr>sc_open := (sc_open cache)[i := ?e\<lparr>oe_last_used := ?t\<rparr>], sc_open_tick := ?t\<rparr>"
        using l on Some f by (simp_all add: static_open_cache_lookup_def Let_def)
      with keep [of ?t] fresh [OF f(2), of ?t] same [of ?t] show ?thesis by (simp add: count_excess_def)
    qed
  qed
qed

lemma open_cache_slot_bound:
  "open_cache_slot es p i slot oldest = Some k \<Longrightarrow> slot = Some k \<or> i \<le> k \<and> k < i + length es"
proof (induction es p i slot oldest rule: open_cache_slot.induct)
  case (2 e es p i slot oldest)
  then show ?case by (fastforce split: if_splits)
qed simp

lemma store_keeps:
  assumes ok: "open_cache_ok cfg cache" and none: "no_entry p cache" and len: "length p < 512"
  shows "open_cache_ok cfg (static_open_cache_store env cfg site p st cache) \<and>
    describes p st (static_open_cache_store env cfg site p st cache) \<and>
    count_excess (static_open_cache_store env cfg site p st cache) \<le> count_excess cache + (if e_dup_ok env then 0 else 1)"
proof (cases "open_cache_on cfg site p \<and> st_kind st = Regular")
  case False
  then show ?thesis using ok no_entry_describes [OF none] by (simp add: static_open_cache_store_def)
next
  case on: True
  let ?es = "take (open_cache_slots cfg) (sc_open cache)" and ?c = "static_open_cache_store env cfg site p st cache"
  show ?thesis
  proof (cases "open_cache_slot ?es p 0 None (- 1)")
    case None
    then show ?thesis using on ok no_entry_describes [OF none] by (simp add: static_open_cache_store_def)
  next
    case (Some k)
    have k: "k < open_cache_slots cfg" "k < length (sc_open cache)"
      using open_cache_slot_bound [OF Some] by auto
    let ?t = "sc_open_tick cache + 1" and ?old = "sc_open cache ! k"
    let ?e = "if e_dup_ok env
      then \<lparr>oe_valid = True, oe_path = safe_copy 512 p, oe_has_fd = True,
                oe_size = st_size st, oe_mtime = st_mtime st, oe_ino = st_ino st, oe_last_used = ?t\<rparr>
      else if oe_valid ?old then static_open_cache_invalidate_entry ?old else ?old"
    have c: "sc_open ?c = (sc_open cache)[k := ?e]"
      "sc_open_count ?c = (if e_dup_ok env \<and> \<not> oe_valid ?old \<and> sc_open_count cache < open_cache_slots cfg
         then sc_open_count cache + 1 else sc_open_count cache)"
      using on Some by (simp_all add: static_open_cache_store_def Let_def)
    have counts: "valid_count (sc_open cache) \<le> sc_open_count cache" "sc_open_count cache \<le> open_cache_slots cfg"
      using ok by (auto simp: open_cache_ok_def)
    have valid: "oe_valid ?e = e_dup_ok env"
      by (simp add: static_open_cache_invalidate_entry_def)
    have room: "valid_count (sc_open cache) < open_cache_slots cfg" if "\<not> oe_valid ?old"
    proof -
      have "valid_count (sc_open cache) = card {i. i < length (sc_open cache) \<and> oe_valid (sc_open cache ! i)}"
        by (simp add: valid_count_def length_filter_conv_card)
      also have "\<dots> \<le> card ({..<open_cache_slots cfg} - {k})"
        using ok that by (intro card_mono) (auto simp: open_cache_ok_def)
      also have "\<dots> < open_cache_slots cfg" using k(1) by simp
      finally show ?thesis .
    qed
    note update = valid_count_update [OF k(2), of ?e, unfolded valid]
    have "open_cache_ok cfg ?c"
    proof (rule open_cache_ok_update [OF ok k(1) _ _ c(1)])
      show "oe_has_fd ?e = oe_valid ?e"
        using ok k(2) by (simp add: open_cache_ok_def static_open_cache_invalidate_entry_def)
      show "oe_path (sc_open cache ! j) \<noteq> oe_path ?e"
        if "oe_valid ?e" "j < length (sc_open cache)" "oe_valid (sc_open cache ! j)" for j
        using none len that valid by (auto simp: no_entry_def)
      show "valid_count ((sc_open cache)[k := ?e]) \<le> sc_open_count ?c" "sc_open_count ?c \<le> open_cache_slots cfg"
        using update counts room unfolding c(2) by (auto split: if_splits)
    qed
    moreover have "describes p st ?c"
      unfolding describes_def c(1)
    proof (intro ballI impI)
      fix x
      assume "x \<in> set ((sc_open cache)[k := ?e])" and x: "oe_valid x \<and> oe_path x = p"
      then have "x = ?e \<or> x \<in> set (sc_open cache)" using set_update_subset_insert by fastforce
      then have "x = ?e" using none x by (auto simp: no_entry_def)
      with x valid on show "open_entry_current x st" by (simp add: open_entry_current_def split: if_splits)
    qed
    moreover have "count_excess ?c \<le> count_excess cache + (if e_dup_ok env then 0 else 1)"
      using update counts unfolding count_excess_def c by (auto split: if_splits)
    ultimately show ?thesis by blast
  qed
qed


text \<open>
  The counter and \<open>dup\<close>: when the entry used longest ago was evicted for the new file and the
  descriptor cannot be duplicated, the slot stays empty and the counter still counts it.
\<close>

theorem evicted_entry_still_counted:
  assumes "open_cache_on cfg site p" and "st_kind st = Regular" and "\<not> e_dup_ok env"
    and "open_cache_slot (take (open_cache_slots cfg) (sc_open cache)) p 0 None (- 1) = Some k"
    and "oe_valid (sc_open cache ! k)"
  shows "sc_open_count (static_open_cache_store env cfg site p st cache) = sc_open_count cache \<and>
    valid_count (sc_open (static_open_cache_store env cfg site p st cache)) + 1 = valid_count (sc_open cache)"
proof -
  have "k < length (sc_open cache)" using open_cache_slot_bound [OF assms(4)] by auto
  from valid_count_update [OF this, of "static_open_cache_invalidate_entry (sc_open cache ! k)"] assms show ?thesis
    by (simp add: static_open_cache_store_def Let_def static_open_cache_invalidate_entry_def)
qed

section \<open>The initial caches\<close>

definition empty_meta_entry :: meta_entry where
  "empty_meta_entry = \<lparr>me_valid = False, me_path = [], me_absolute = [], me_mime = [], me_etag = [],
     me_size = 0, me_mtime = 0, me_ino = 0, me_blocked = False, me_directory = False, me_br = None, me_gzip = None\<rparr>"

definition empty_open_entry :: open_entry where
  "empty_open_entry = \<lparr>oe_valid = False, oe_path = [], oe_has_fd = False, oe_size = 0, oe_mtime = 0,
     oe_ino = 0, oe_last_used = 0\<rparr>"

definition empty_site_cache :: site_cache where
  "empty_site_cache = \<lparr>sc_meta = replicate 128 empty_meta_entry, sc_meta_clock = 0,
     sc_open = replicate 256 empty_open_entry, sc_open_count = 0, sc_open_tick = 0\<rparr>"

lemma empty_meta_ok: "meta_cache_ok site empty_site_cache"
  by (simp add: meta_cache_ok_def empty_site_cache_def empty_meta_entry_def)

lemma empty_open_ok: "open_cache_ok cfg empty_site_cache"
proof -
  have "open_cache_slots cfg \<le> unat (256 :: u64)"
    unfolding open_cache_slots_def word_le_nat_alt [symmetric] by simp
  then show ?thesis
    by (simp add: open_cache_ok_def empty_site_cache_def empty_open_entry_def valid_count_def)
qed

lemma empty_valid_count: "valid_count (sc_open empty_site_cache) = 0"
  by (simp add: valid_count_def empty_site_cache_def empty_open_entry_def)

definition demo_file :: opened_file where
  "demo_file = \<lparr>f_stat = \<lparr>st_kind = Regular, st_size = 3, st_mtime = 7, st_ino = 5\<rparr>, f_content = ''abc'',
     f_real_path = None\<rparr>"

definition demo_file_env :: host_env where
  "demo_file_env = demo_env\<lparr>e_open := (\<lambda>_ p. if p = ''a.html'' then Inr demo_file else Inl ENOENT)\<rparr>"

theorem static_meta_current_witness:
  "me_mime (fst (static_meta_get demo_file_env site_defaults ''a.html'' demo_file empty_site_cache)) =
     safe_copy 96 (rpsiod_mime_type ''a.html'')"
proof -
  obtain e c where "static_meta_get demo_file_env site_defaults ''a.html'' demo_file empty_site_cache = (e, c)" by fastforce
  with static_meta_current [OF empty_meta_ok _ this] show ?thesis by simp
qed

text \<open>An entry left from an older version of the file is replaced by one that describes it.\<close>

definition stale_cache :: site_cache where
  "stale_cache = empty_site_cache\<lparr>sc_open := (replicate 256 empty_open_entry)[0 :=
     \<lparr>oe_valid = True, oe_path = ''a.html'', oe_has_fd = True, oe_size = 9, oe_mtime = 1, oe_ino = 5, oe_last_used = 1\<rparr>],
     sc_open_count := 1, sc_open_tick := 1\<rparr>"

lemma stale_count: "valid_count (sc_open stale_cache) = 1"
  using valid_count_update [of 0 "sc_open empty_site_cache"] empty_valid_count
  by (simp add: stale_cache_def empty_site_cache_def empty_open_entry_def)

lemma stale_ok:
  assumes "open_cache_slots cfg = 64"
  shows "open_cache_ok cfg stale_cache"
proof -
  let ?c = "empty_site_cache\<lparr>sc_open_count := 1, sc_open_tick := 1\<rparr>"
  have ok: "open_cache_ok cfg ?c"
    using empty_open_ok [of cfg] empty_valid_count assms by (simp add: open_cache_ok_def)
  have es: "sc_open stale_cache = (sc_open ?c)[0 := sc_open stale_cache ! 0]"
    by (simp add: stale_cache_def empty_site_cache_def)
  show ?thesis
    by (rule open_cache_ok_update [OF ok _ _ _ es])
      (use stale_count assms in \<open>simp_all add: es [symmetric]\<close>,
       simp_all add: stale_cache_def empty_site_cache_def empty_open_entry_def)
qed


end
