(* ===== verification/Send.thy ===== *)
theory Send
  imports StaticCache Compress
begin

text \<open>
  The response writers of \<open>src/server.c\<close>: texts, error pages, redirects, rate-limit answers and
  files with ranges, validators and compression.  Each takes the connection's \<open>io\<close> state and
  returns whether the C function returned 0, and the new state.  Access and trace logging are
  left out.
\<close>

section \<open>Texts\<close>

definition text_plain :: string where
  "text_plain = ''text/plain; charset=utf-8''"

text \<open>The common shape: the headers, then, unless the request was a HEAD, the body.\<close>

definition respond ::
  "host_env \<Rightarrow> client \<Rightarrow> http_request \<Rightarrow> int \<Rightarrow> string \<Rightarrow> nat \<Rightarrow> response_options \<Rightarrow> (io \<Rightarrow> bool \<times> io) \<Rightarrow>
     io \<Rightarrow> bool \<times> io" where
  "respond env cl req status content_type len opts write_body w =
     (case write_response_headers env cl status content_type (int len) (r_keep_alive req) opts w of
        (ok, w1) \<Rightarrow>
          if \<not> ok then (False, w1)
          else if r_head_only req then (True, w1)
          else write_body w1)"

definition send_text ::
  "host_env \<Rightarrow> client \<Rightarrow> site_config option \<Rightarrow> int \<Rightarrow> string \<Rightarrow> http_request \<Rightarrow> io \<Rightarrow> bool \<times> io" where
  "send_text env cl site status text req w =
     respond env cl req status text_plain (length text) (no_options\<lparr>ro_site := site\<rparr>)
       (client_writev_all (c_tls cl) [text]) w"

definition send_redirect ::
  "host_env \<Rightarrow> client \<Rightarrow> site_config \<Rightarrow> int \<Rightarrow> string \<Rightarrow> http_request \<Rightarrow> io \<Rightarrow> bool \<times> io" where
  "send_redirect env cl site status location req w =
     (let body = dec_int status @ '' '' @ rpsiod_http_status_text status @ [LF] @ location @ [LF] in
      if 1024 \<le> length body then (False, w)
      else respond env cl req status text_plain (length body)
             (no_options\<lparr>ro_site := Some site, ro_location := Some location\<rparr>)
             (client_writev_all (c_tls cl) [body]) w)"

definition send_rate_limited ::
  "host_env \<Rightarrow> client \<Rightarrow> site_config \<Rightarrow> int \<Rightarrow> http_request \<Rightarrow> io \<Rightarrow> bool \<times> io" where
  "send_rate_limited env cl site retry_after req w =
     (let body = ''429 Too Many Requests'' @ [LF] in
      respond env cl req 429 text_plain (length body)
        (no_options\<lparr>ro_site := Some site, ro_retry_after := Some (dec_int (if retry_after > 0 then retry_after else 1))\<rparr>)
        (client_writev_all (c_tls cl) [body]) w)"

section \<open>Ranges\<close>

text \<open>The first and last byte of a satisfiable range; \<open>None\<close> is answered with 416.\<close>

definition resolve_range :: "http_request \<Rightarrow> nat \<Rightarrow> (nat \<times> nat) option" where
  "resolve_range req size_now =
     (if size_now = 0 then None
      else if r_range_suffix req then
        (let sfx = unat (r_range_start req) in
         Some (if size_now \<le> sfx then 0 else size_now - sfx, size_now - 1))
      else if size_now \<le> unat (r_range_start req) then None
      else
        let start = unat (r_range_start req);
            last_byte = (if r_range_has_end req
                   then (if size_now \<le> unat (r_range_end req) then size_now - 1 else unat (r_range_end req))
                   else size_now - 1) in
        if last_byte < start then None else Some (start, last_byte))"

section \<open>Files\<close>

definition SMALL_FILE_WRITEV_MAX :: nat where "SMALL_FILE_WRITEV_MAX = 16384"

function pread_loop :: "string \<Rightarrow> nat \<Rightarrow> nat \<Rightarrow> io \<Rightarrow> nat option \<times> io" where
  "pread_loop content body_len got w =
     (if body_len \<le> got then (Some got, w)
      else case sys_count (min (body_len - got) (length content - got)) w of
        (EINTR, w') \<Rightarrow> pread_loop content body_len got w'
      | (Count n, w') \<Rightarrow> if n = 0 then (Some got, w') else pread_loop content body_len (got + n) w'
      | (_, w') \<Rightarrow> (None, w'))"
  by pat_completeness auto
termination
  by (relation "measure (\<lambda>(c, b, g, w). (b - g) + length (io_events w))")
     (auto dest!: sys_count_le [OF sym])

declare pread_loop.simps [simp del]

definition write_small_file_response ::
  "host_env \<Rightarrow> client \<Rightarrow> int \<Rightarrow> string \<Rightarrow> string \<Rightarrow> nat \<Rightarrow> bool \<Rightarrow> response_options \<Rightarrow> io \<Rightarrow> bool \<times> io" where
  "write_small_file_response env cl status content_type content len keep_alive opts w =
     (if SMALL_FILE_WRITEV_MAX < len then (False, w)
      else case build_response_headers env cl status content_type (int len) keep_alive opts HEADERS_LEN of
        None \<Rightarrow> (False, w)
      | Some headers \<Rightarrow>
          (case pread_loop content len 0 w of
             (None, w1) \<Rightarrow> (False, w1)
           | (Some got, w1) \<Rightarrow>
               if got \<noteq> len then (False, w1)
               else client_writev_all (c_tls cl) [headers, take len content] w1))"

definition file_options :: "site_config \<Rightarrow> string option \<Rightarrow> file_stat \<Rightarrow> response_options" where
  "file_options site etag st =
     no_options\<lparr>ro_site := Some site, ro_etag := etag, ro_file_stat := Some st, ro_accept_ranges := True\<rparr>"

definition can_compress :: "site_config \<Rightarrow> int \<Rightarrow> http_request \<Rightarrow> string \<Rightarrow> string \<Rightarrow> file_stat \<Rightarrow> bool" where
  "can_compress site status req mime path st \<longleftrightarrow>
     status = 200 \<and> site_compression_enabled site \<and> \<not> r_upgrade_websocket req \<and>
     rpsiod_content_type_compressible mime \<and> \<not> rpsiod_path_already_compressed path \<and>
     site_compression_minimum_size site \<le> word_of_nat (st_size st) \<and> int (st_size st) \<le> 16 * 1024 * 1024"

definition use_br :: "site_config \<Rightarrow> bool \<Rightarrow> http_request \<Rightarrow> bool" where
  "use_br site can req \<longleftrightarrow> can \<and> site_compression_br site \<and> rpsiod_accepts_br (r_accept_encoding req)"

definition use_gzip :: "site_config \<Rightarrow> bool \<Rightarrow> http_request \<Rightarrow> bool" where
  "use_gzip site can req \<longleftrightarrow>
     can \<and> (site_compression_gzip site \<or> \<not> site_compression_br site) \<and> rpsiod_accepts_gzip (r_accept_encoding req)"

text \<open>The precompressed variants to try, in this order.\<close>

definition file_variants :: "bool \<Rightarrow> bool \<Rightarrow> meta_entry option \<Rightarrow> string \<Rightarrow> (string \<times> string) list" where
  "file_variants br gz meta path =
     (if br \<and> (case meta of None \<Rightarrow> True | Some e \<Rightarrow> me_br e \<noteq> None) \<and> length (path @ ''.br'') < PATH_MAX
      then [(path @ ''.br'', ''br'')] else []) @
     (if gz \<and> (case meta of None \<Rightarrow> True | Some e \<Rightarrow> me_gzip e \<noteq> None) \<and> length (path @ ''.gz'') < PATH_MAX
      then [(path @ ''.gz'', ''gzip'')] else [])"

definition bytes_of :: "string \<Rightarrow> byte list" where
  "bytes_of s = map (\<lambda>c. word_of_nat (uchar c)) s"

definition string_of_bytes :: "byte list \<Rightarrow> string" where
  "string_of_bytes bs = map (\<lambda>b. char_of (unat b)) bs"

definition compress_body :: "host_env \<Rightarrow> bool \<Rightarrow> bool \<Rightarrow> string \<Rightarrow> (string \<times> string) option" where
  "compress_body env br gz plain =
     (case (if br then e_brotli env plain else None) of
        Some c \<Rightarrow> Some (''br'', c)
      | None \<Rightarrow>
          if gz then Some (''gzip'', case e_gzip env plain of
                             Some c \<Rightarrow> c
                           | None \<Rightarrow> string_of_bytes (rpsiod_gzip_store (bytes_of plain)))
          else None)"

text \<open>The variant that is sent, and its file.\<close>

fun find_variant :: "host_env \<Rightarrow> site_config \<Rightarrow> (string \<times> string) list \<Rightarrow> (string \<times> opened_file) option" where
  "find_variant env site [] = None"
| "find_variant env site ((p, enc) # vs) =
     (case e_open env site p of
        Inl _ \<Rightarrow> find_variant env site vs
      | Inr f \<Rightarrow> if st_kind (f_stat f) = Regular then Some (enc, f) else find_variant env site vs)"

text \<open>Sending the file as it is: one gathered write for a small file, otherwise \<open>send_file_body\<close>.\<close>

definition send_plain_file ::
  "host_env \<Rightarrow> client \<Rightarrow> int \<Rightarrow> string \<Rightarrow> opened_file \<Rightarrow> response_options \<Rightarrow> http_request \<Rightarrow> io \<Rightarrow> bool \<times> io" where
  "send_plain_file env cl status mime f opts req w =
     (let len = st_size (f_stat f);
          (done, w1) = (if \<not> r_head_only req \<and> len \<le> SMALL_FILE_WRITEV_MAX
            then write_small_file_response env cl status mime (f_content f) len (r_keep_alive req) opts w
            else (False, w)) in
      if done then (True, w1)
      else respond env cl req status mime len opts
             (send_file_body (c_tls cl) (c_sendfile_enabled cl) (f_content f) 0 len) w1)"

definition send_compressed_or_plain ::
  "host_env \<Rightarrow> client \<Rightarrow> site_config \<Rightarrow> int \<Rightarrow> string \<Rightarrow> string \<Rightarrow> opened_file \<Rightarrow> meta_entry option \<Rightarrow>
     string option \<Rightarrow> http_request \<Rightarrow> io \<Rightarrow> bool \<times> io" where
  "send_compressed_or_plain env cl site status path mime f meta etag req w =
     (let st = f_stat f;
          can = can_compress site status req mime path st;
          br = use_br site can req; gz = use_gzip site can req;
          opts = (file_options site etag st)\<lparr>ro_cache_control := (status = 200)\<rparr>;
          plain = (\<lambda>w. send_plain_file env cl status mime f
                     (opts\<lparr>ro_vary_accept_encoding := site_compression_enabled site\<rparr>) req w) in
      if \<not> (br \<or> gz) then plain w
      else case find_variant env site (file_variants br gz meta path) of
        Some (enc, v) \<Rightarrow>
          respond env cl req status mime (st_size (f_stat v))
            (opts\<lparr>ro_content_encoding := Some enc, ro_cache_control := True, ro_vary_accept_encoding := True\<rparr>)
            (send_file_body (c_tls cl) (c_sendfile_enabled cl) (f_content v) 0 (st_size (f_stat v))) w
      | None \<Rightarrow>
          (case sys_count (min (st_size st) (length (f_content f))) w of
             (Count got, w1) \<Rightarrow>
               if got \<noteq> st_size st then plain w1
               else (case compress_body env br gz (take got (f_content f)) of
                 None \<Rightarrow> plain w1
               | Some (enc, body) \<Rightarrow>
                   respond env cl req status mime (length body)
                     (opts\<lparr>ro_content_encoding := Some enc, ro_vary_accept_encoding := True\<rparr>)
                     (client_write_all (c_tls cl) body) w1)
           | (_, w1) \<Rightarrow> plain w1))"

definition content_range_value :: "nat \<Rightarrow> nat \<Rightarrow> nat \<Rightarrow> string" where
  "content_range_value start last_byte size_now =
     ''bytes '' @ dec start @ ''-'' @ dec last_byte @ ''/'' @ dec size_now"

definition send_range ::
  "host_env \<Rightarrow> client \<Rightarrow> site_config \<Rightarrow> string \<Rightarrow> opened_file \<Rightarrow> string option \<Rightarrow> http_request \<Rightarrow> io \<Rightarrow> bool \<times> io" where
  "send_range env cl site mime f etag req w =
     (let st = f_stat f; opts = file_options site etag st in
      case resolve_range req (st_size st) of
        None \<Rightarrow>
          write_response_headers env cl 416 text_plain 0 (r_keep_alive req)
            (opts\<lparr>ro_content_range := Some (''bytes */'' @ dec (st_size st))\<rparr>) w
      | Some (start, last_byte) \<Rightarrow>
          (let len = last_byte + 1 - start in
           respond env cl req 206 mime len
             (opts\<lparr>ro_content_range := Some (content_range_value start last_byte (st_size st)),
                   ro_cache_control := True\<rparr>)
             (send_file_body (c_tls cl) (c_sendfile_enabled cl) (f_content f) start len) w))"

definition send_file_fd ::
  "host_env \<Rightarrow> client \<Rightarrow> site_config \<Rightarrow> int \<Rightarrow> string \<Rightarrow> opened_file \<Rightarrow> meta_entry option \<Rightarrow> http_request \<Rightarrow>
     io \<Rightarrow> bool \<times> io" where
  "send_file_fd env cl site status path f meta req w =
     (let st = f_stat f;
          mime = (case meta of None \<Rightarrow> rpsiod_mime_type path
                  | Some e \<Rightarrow> if me_mime e \<noteq> [] then me_mime e else rpsiod_mime_type path);
          etag = (case meta of None \<Rightarrow> None | Some e \<Rightarrow> if me_etag e \<noteq> [] then Some (me_etag e) else None) in
      if status = 200 \<and> \<not> r_range_present req \<and> request_cache_validator_matches env req st etag
      then write_response_headers env cl 304 mime 0 (r_keep_alive req)
             ((file_options site etag st)\<lparr>ro_cache_control := True,
                ro_vary_accept_encoding := site_compression_enabled site\<rparr>) w
      else if status = 200 \<and> r_range_present req then send_range env cl site mime f etag req w
      else send_compressed_or_plain env cl site status path mime f meta etag req w)"

definition send_error_page ::
  "host_env \<Rightarrow> client \<Rightarrow> site_config \<Rightarrow> int \<Rightarrow> http_request \<Rightarrow> io \<Rightarrow> bool \<times> io" where
  "send_error_page env cl site status req w =
     (let text = send_text env cl (Some site) status
                   (safe_copy 256 (dec_int status @ '' '' @ rpsiod_http_status_text status @ [LF])) req in
      case rpsiod_site_error_page site status of
        None \<Rightarrow> text w
      | Some page \<Rightarrow>
          if page = [] then text w
          else case e_open_abs env page of
            None \<Rightarrow> text w
          | Some f \<Rightarrow>
              if st_kind (f_stat f) = Regular then send_file_fd env cl site status page f None req w
              else text w)"

section \<open>Ranges are the ones asked for\<close>

lemma resolve_range_Some:
  assumes "0 < size_now" and "r_range_suffix req \<Longrightarrow> r_range_start req \<noteq> 0"
    and "resolve_range req size_now = Some (s, e)"
  shows "s \<le> e \<and> e < size_now \<and>
    (i \<in> {s..e} \<longleftrightarrow> i < size_now \<and>
         (if r_range_suffix req then size_now \<le> i + unat (r_range_start req)
          else unat (r_range_start req) \<le> i \<and> (r_range_has_end req \<longrightarrow> i \<le> unat (r_range_end req))))"
proof (cases "r_range_suffix req")
  case True
  then have "0 < unat (r_range_start req)" using assms(2) by (simp add: unat_gt_0)
  with True assms show ?thesis by (auto simp: resolve_range_def Let_def split: if_splits)
next
  case False
  with assms show ?thesis by (auto simp: resolve_range_def Let_def split: if_splits)
qed

lemma resolve_range_None:
  assumes "0 < size_now"
  shows "resolve_range req size_now = None \<longleftrightarrow> \<not> r_range_suffix req \<and>
    (\<forall>i. \<not> (i < size_now \<and> unat (r_range_start req) \<le> i \<and> (r_range_has_end req \<longrightarrow> i \<le> unat (r_range_end req))))"
    (is "?L \<longleftrightarrow> ?R")
proof
  assume ?L
  with assms show ?R by (auto simp: resolve_range_def Let_def split: if_splits)
next
  assume r: ?R
  then have "\<not> (unat (r_range_start req) < size_now \<and>
      (r_range_has_end req \<longrightarrow> unat (r_range_start req) \<le> unat (r_range_end req)))" by blast
  with r show ?L by (auto simp: resolve_range_def Let_def)
qed

text \<open>
  C32: a range response covers exactly the requested bytes that exist: \<open>a-b\<close> and \<open>a-\<close> are
  satisfiable iff \<open>a\<close> is inside the file and not behind \<open>b\<close>, and give the bytes from \<open>a\<close> to
  the smaller of \<open>b\<close> and the last byte; \<open>-n\<close> with \<open>n > 0\<close> gives the last \<open>n\<close> bytes.
\<close>

theorem resolve_range_bytes:
  assumes "0 < size_now" and "r_range_suffix req \<longrightarrow> r_range_start req \<noteq> 0"
  shows "case resolve_range req size_now of
      Some (s, e) \<Rightarrow> s \<le> e \<and> e < size_now \<and>
        {s..e} = {i. i < size_now \<and>
         (if r_range_suffix req then size_now \<le> i + unat (r_range_start req)
          else unat (r_range_start req) \<le> i \<and> (r_range_has_end req \<longrightarrow> i \<le> unat (r_range_end req)))}
    | None \<Rightarrow> \<not> r_range_suffix req \<and>
        {i. i < size_now \<and> unat (r_range_start req) \<le> i \<and>
           (r_range_has_end req \<longrightarrow> i \<le> unat (r_range_end req))} = {}"
proof (cases "resolve_range req size_now")
  case None
  with resolve_range_None [OF assms(1), of req]
  have "\<not> r_range_suffix req \<and> {i. i < size_now \<and> unat (r_range_start req) \<le> i \<and>
      (r_range_has_end req \<longrightarrow> i \<le> unat (r_range_end req))} = {}" by blast
  with None show ?thesis by simp
next
  case (Some se)
  obtain s e where "se = (s, e)" by fastforce
  with Some have r: "resolve_range req size_now = Some (s, e)" by simp
  have n: "r_range_suffix req \<Longrightarrow> r_range_start req \<noteq> 0" using assms(2) by blast
  have "{s..e} = {i. i < size_now \<and>
         (if r_range_suffix req then size_now \<le> i + unat (r_range_start req)
          else unat (r_range_start req) \<le> i \<and> (r_range_has_end req \<longrightarrow> i \<le> unat (r_range_end req)))}"
    using resolve_range_Some [OF assms(1) n r] by (intro set_eqI) simp
  with resolve_range_Some [OF assms(1) n r] r show ?thesis by simp
qed

theorem resolve_range_bytes_witness:
  "case resolve_range (empty_request\<lparr>r_range_start := 2, r_range_end := 9, r_range_has_end := True\<rparr>) 5 of
     Some (s, e) \<Rightarrow> s \<le> e \<and> e < 5 | None \<Rightarrow> False"
proof -
  let ?q = "empty_request\<lparr>r_range_start := 2, r_range_end := 9, r_range_has_end := True\<rparr>"
  have "resolve_range ?q 5 = Some (2, 4)" by (simp add: resolve_range_def Let_def empty_request_def)
  with resolve_range_bytes [of 5 ?q] show ?thesis by (simp add: empty_request_def)
qed

section \<open>The announced length is the length sent\<close>

text \<open>
  One complete reply: a header block whose \<open>Content-Length\<close> value is the length of the body,
  and the body unless the request was a HEAD.
\<close>

definition framed_reply :: "host_env \<Rightarrow> client \<Rightarrow> http_request \<Rightarrow> string \<Rightarrow> bool" where
  "framed_reply env cl req bytes \<longleftrightarrow>
     (\<exists>status ct opts h body.
        build_response_headers env cl status ct (int (length body)) (r_keep_alive req) opts HEADERS_LEN = Some h \<and>
        bytes = h @ (if r_head_only req then [] else body))"

lemma write_response_headers_cases:
  assumes "write_response_headers env cl status ct len ka opts w = (ok, w1)"
  obtains (none) "\<not> ok" "w1 = w"
  | (sent) h where "build_response_headers env cl status ct len ka opts HEADERS_LEN = Some h" "delivers h w (ok, w1)"
proof (cases "build_response_headers env cl status ct len ka opts HEADERS_LEN")
  case None
  then show ?thesis using assms none by (simp add: write_response_headers_def)
next
  case (Some h)
  then show ?thesis
    using assms sent client_write.write_delivers [where tls = "c_tls cl" and x = h and w = w]
    by (simp add: write_response_headers_def)
qed

text \<open>The two halves of a reply are delivered one after the other.\<close>

lemma respond_delivers:
  assumes body: "\<And>w1. \<exists>bs. delivers bs w1 (write_body w1) \<and> (fst (write_body w1) \<longrightarrow> length bs = len)"
  shows "\<exists>bytes. delivers bytes w (respond env cl req status ct len opts write_body w) \<and>
    (fst (respond env cl req status ct len opts write_body w) \<longrightarrow> framed_reply env cl req bytes)"
proof -
  obtain ok w1 where h: "write_response_headers env cl status ct (int len) (r_keep_alive req) opts w = (ok, w1)"
    by fastforce
  show ?thesis
  proof (cases rule: write_response_headers_cases [OF h])
    case 1
    then show ?thesis using h by (auto simp: respond_def delivers_failed intro: exI [of _ "[]"])
  next
    case (2 b)
    show ?thesis
    proof (cases "ok \<and> \<not> r_head_only req")
      case True
      obtain bs where bs: "delivers bs w1 (write_body w1)" "fst (write_body w1) \<longrightarrow> length bs = len"
        using body by blast
      have "delivers (b @ bs) w (write_body w1)" using delivers_append [OF _ bs(1)] 2(2) True by simp
      moreover have "framed_reply env cl req (b @ bs)" if "fst (write_body w1)"
        unfolding framed_reply_def using 2(1) bs(2) True that
        by (intro exI [of _ status] exI [of _ ct] exI [of _ opts] exI [of _ b] exI [of _ bs]) simp
      ultimately show ?thesis using h True by (auto simp: respond_def)
    next
      case False
      have "framed_reply env cl req b" if ok
        unfolding framed_reply_def using 2(1) False that
        by (intro exI [of _ status] exI [of _ ct] exI [of _ opts] exI [of _ b] exI [of _ "replicate len NUL"]) simp
      with 2 False h show ?thesis by (auto simp: respond_def)
    qed
  qed
qed

lemma writer_body:
  "\<exists>bs. delivers bs w1 (client_write_all tls body w1) \<and> (fst (client_write_all tls body w1) \<longrightarrow> length bs = length body)"
  "\<exists>bs. delivers bs w1 (client_writev_all tls [body] w1) \<and> (fst (client_writev_all tls [body] w1) \<longrightarrow> length bs = length body)"
  using client_write.write_delivers [where tls = tls and x = body and w = w1]
    client_writev.write_delivers [where tls = tls and x = "[body]" and w = w1] by auto

lemma file_body:
  "\<exists>bs. delivers bs w1 (send_file_body tls sf content offset len w1) \<and>
     (fst (send_file_body tls sf content offset len w1) \<longrightarrow> length bs = len)"
  using send_file_body_sends [of content offset len w1 tls sf]
  by (intro exI [of _ "slice offset len content"]) (auto simp: sends_def slice_def)

lemma respond_text:
  "\<exists>bytes. delivers bytes w (respond env cl req status ct (length body) opts (client_writev_all tls [body]) w) \<and>
    (fst (respond env cl req status ct (length body) opts (client_writev_all tls [body]) w) \<longrightarrow>
       framed_reply env cl req bytes)"
  by (rule respond_delivers) (rule writer_body)

lemma respond_bytes:
  "\<exists>bytes. delivers bytes w (respond env cl req status ct (length body) opts (client_write_all tls body) w) \<and>
    (fst (respond env cl req status ct (length body) opts (client_write_all tls body) w) \<longrightarrow>
       framed_reply env cl req bytes)"
  by (rule respond_delivers) (rule writer_body)

lemma respond_file:
  "\<exists>bytes. delivers bytes w (respond env cl req status ct len opts (send_file_body tls sf content offset len) w) \<and>
    (fst (respond env cl req status ct len opts (send_file_body tls sf content offset len) w) \<longrightarrow>
       framed_reply env cl req bytes)"
  by (rule respond_delivers) (rule file_body)

text \<open>Header-only answers (304 and 416) announce an empty body.\<close>

lemma empty_reply:
  "\<exists>bytes. delivers bytes w (write_response_headers env cl status ct 0 (r_keep_alive req) opts w) \<and>
     (fst (write_response_headers env cl status ct 0 (r_keep_alive req) opts w) \<longrightarrow> framed_reply env cl req bytes)"
proof -
  obtain ok w1 where h: "write_response_headers env cl status ct 0 (r_keep_alive req) opts w = (ok, w1)" by fastforce
  show ?thesis
  proof (cases rule: write_response_headers_cases [OF h])
    case 1
    then show ?thesis using h by (auto simp: delivers_failed intro: exI [of _ "[]"])
  next
    case (2 b)
    then have "framed_reply env cl req b"
      unfolding framed_reply_def
      by (intro exI [of _ status] exI [of _ ct] exI [of _ opts] exI [of _ b] exI [of _ "[]"]) simp
    with 2 h show ?thesis by auto
  qed
qed

lemma pread_loop_facts:
  "pread_loop content body_len got w = (r, w') \<Longrightarrow> got \<le> length content \<Longrightarrow>
     io_sent w' = io_sent w \<and> io_in w' = io_in w \<and> length (io_events w') \<le> length (io_events w) \<and>
     (\<forall>n. r = Some n \<longrightarrow> n \<le> length content)"
proof (induction content body_len got w arbitrary: r w' rule: pread_loop.induct)
  case (1 content body_len got w)
  show ?case
  proof (cases "body_len \<le> got")
    case True
    then show ?thesis using 1(3,4) by (auto simp: pread_loop.simps [of content body_len got w])
  next
    case False
    obtain x w1 where c: "sys_count (min (body_len - got) (length content - got)) w = (x, w1)" by fastforce
    note le = sys_count_le [OF c]
    have step: "pread_loop content body_len got w =
        (case x of EINTR \<Rightarrow> pread_loop content body_len got w1
         | Count n \<Rightarrow> if n = 0 then (Some got, w1) else pread_loop content body_len (got + n) w1
         | _ \<Rightarrow> (None, w1))"
      using False c by (subst pread_loop.simps) simp
    show ?thesis
    proof (cases x)
      case (Count n)
      show ?thesis
      proof (cases "n = 0")
        case True
        then show ?thesis using 1(3,4) step Count le by auto
      next
        case n: False
        then have "pread_loop content body_len (got + n) w1 = (r, w')" using 1(3) step Count by simp
        moreover have "got + n \<le> length content" using le Count 1(4) by (simp add: le_diff_conv2 add.commute)
        ultimately have "io_sent w' = io_sent w1 \<and> io_in w' = io_in w1 \<and>
            length (io_events w') \<le> length (io_events w1) \<and> (\<forall>n. r = Some n \<longrightarrow> n \<le> length content)"
          by (rule 1(1) [OF False c [symmetric] Count n])
        with le show ?thesis by simp
      qed
    next
      case EINTR
      then have "pread_loop content body_len got w1 = (r, w')" using 1(3) step by simp
      then have "io_sent w' = io_sent w1 \<and> io_in w' = io_in w1 \<and>
          length (io_events w') \<le> length (io_events w1) \<and> (\<forall>n. r = Some n \<longrightarrow> n \<le> length content)"
        using 1(4) by (rule 1(2) [OF False c [symmetric] EINTR])
      with le show ?thesis by simp
    next
      case (EAGAIN b)
      then show ?thesis using 1(3) step le by simp
    next
      case EIO
      then show ?thesis using 1(3) step le by simp
    qed
  qed
qed

lemma small_file_delivers:
  assumes "\<not> r_head_only req"
  shows "\<exists>bytes. delivers bytes w (write_small_file_response env cl status ct content len (r_keep_alive req) opts w) \<and>
    (fst (write_small_file_response env cl status ct content len (r_keep_alive req) opts w) \<longrightarrow>
       framed_reply env cl req bytes)"
proof (cases "SMALL_FILE_WRITEV_MAX < len \<or>
    build_response_headers env cl status ct (int len) (r_keep_alive req) opts HEADERS_LEN = None")
  case True
  then show ?thesis by (auto simp: write_small_file_response_def delivers_failed intro: exI [of _ "[]"])
next
  case False
  then obtain h where h: "build_response_headers env cl status ct (int len) (r_keep_alive req) opts HEADERS_LEN = Some h"
    by auto
  obtain r w1 where p: "pread_loop content len 0 w = (r, w1)" by fastforce
  note facts = pread_loop_facts [OF p]
  show ?thesis
  proof (cases "r = Some len")
    case False
    with \<open>\<not> (_ \<or> _)\<close> h p facts show ?thesis
      by (cases r) (auto simp: write_small_file_response_def intro!: exI [of _ "[]"] delivers_error)
  next
    case r: True
    let ?res = "client_writev_all (c_tls cl) [h, take len content] w1"
    have "delivers (h @ take len content) w1 ?res"
      using client_writev.write_delivers [where tls = "c_tls cl" and x = "[h, take len content]" and w = w1] by simp
    then have "delivers (h @ take len content) w ?res" using facts delivers_error(1) by fastforce
    moreover have "framed_reply env cl req (h @ take len content)"
      unfolding framed_reply_def using h assms facts r
      by (intro exI [of _ status] exI [of _ ct] exI [of _ opts] exI [of _ h] exI [of _ "take len content"]) simp
    moreover have "write_small_file_response env cl status ct content len (r_keep_alive req) opts w = ?res"
      using False h p r by (simp add: write_small_file_response_def)
    ultimately show ?thesis by auto
  qed
qed

text \<open>
  The contract of a response writer: a successful answer is one complete reply.  What can
  precede it is a proper beginning of the same reply, when \<open>small\<close> and a write has stalled.
\<close>

definition replies :: "host_env \<Rightarrow> client \<Rightarrow> http_request \<Rightarrow> bool \<Rightarrow> io \<Rightarrow> bool \<times> io \<Rightarrow> bool" where
  "replies env cl req small w r \<longleftrightarrow>
     (fst r \<longrightarrow> (\<exists>k bytes. io_sent (snd r) = io_sent w @ take k bytes @ bytes \<and> framed_reply env cl req bytes \<and>
        (k \<noteq> 0 \<longrightarrow> k < length bytes \<and> small \<and> stalls (c_tls cl) (io_events w))))"

lemma replies_delivers:
  "\<exists>bytes. delivers bytes w r \<and> (fst r \<longrightarrow> framed_reply env cl req bytes) \<Longrightarrow> replies env cl req small w r"
  unfolding replies_def by (cases r) (fastforce dest: delivers_ok intro: exI [of _ 0])

lemma replies_same:
  "io_sent w1 = io_sent w \<Longrightarrow> set (io_events w1) \<subseteq> set (io_events w) \<Longrightarrow> replies env cl req small w1 r \<Longrightarrow>
     replies env cl req small w r"
  unfolding replies_def using stalls_mono by fastforce

definition small_reply :: "http_request \<Rightarrow> opened_file \<Rightarrow> bool" where
  "small_reply req f \<longleftrightarrow> \<not> r_head_only req \<and> st_size (f_stat f) \<le> SMALL_FILE_WRITEV_MAX"

lemma pread_loop_events: "set (io_events (snd (pread_loop content len got w))) \<subseteq> set (io_events w)"
proof (induction content len got w rule: pread_loop.induct)
  case (1 content len got w)
  show ?case
  proof (cases "len \<le> got")
    case True
    then show ?thesis by (simp add: pread_loop.simps)
  next
    case False
    obtain x w1 where c: "sys_count (min (len - got) (length content - got)) w = (x, w1)" by fastforce
    note le = sys_count_events [OF c]
    have step: "pread_loop content len got w =
        (case x of EINTR \<Rightarrow> pread_loop content len got w1
         | Count n \<Rightarrow> if n = 0 then (Some got, w1) else pread_loop content len (got + n) w1
         | _ \<Rightarrow> (None, w1))"
      using False c by (subst pread_loop.simps) simp
    show ?thesis
      using 1 [OF False c [symmetric]] le unfolding step
      by (cases x) auto
  qed
qed

text \<open>A first attempt that fails leaves a proper beginning of the reply behind.\<close>

lemma small_file_failed:
  assumes "write_small_file_response env cl status ct content len (r_keep_alive req) opts w = (False, w1)"
    and "build_response_headers env cl status ct (int len) (r_keep_alive req) opts HEADERS_LEN = Some h" and "h \<noteq> []"
  shows "\<exists>k. io_sent w1 = io_sent w @ take k (h @ take len content) \<and>
    (k \<noteq> 0 \<longrightarrow> k < length (h @ take len content) \<and> stalls (c_tls cl) (io_events w))"
proof (cases "len \<le> SMALL_FILE_WRITEV_MAX \<and> fst (pread_loop content len 0 w) = Some len")
  case False
  obtain r w0 where p: "pread_loop content len 0 w = (r, w0)" by fastforce
  have "io_sent w1 = io_sent w"
    using False assms(1,2) p pread_loop_facts [OF p]
    by (auto simp: write_small_file_response_def split: if_splits option.splits)
  then show ?thesis by (intro exI [of _ 0]) simp
next
  case True
  then obtain w0 where p: "pread_loop content len 0 w = (Some len, w0)" by (cases "pread_loop content len 0 w") auto
  note facts = pread_loop_facts [OF p] and events = pread_loop_events [of content len 0 w, unfolded p]
  have "client_writev_all (c_tls cl) [h, take len content] w0 = (False, w1)"
    using assms(1,2) True p by (simp add: write_small_file_response_def)
  moreover have "fails_short (c_tls cl) (h @ take len content) w0 (client_writev_all (c_tls cl) [h, take len content] w0)"
    using client_writev_fails_short [of "[h, take len content]"] assms(3) by simp
  ultimately obtain q r where q: "h @ take len content = q @ r" "r \<noteq> []" "io_sent w1 = io_sent w0 @ q"
    "stalls (c_tls cl) (io_events w0)"
    by (auto simp: fails_short_def)
  then show ?thesis
    using facts stalls_mono [OF q(4)] events by (intro exI [of _ "length q"]) (auto simp: q(1))
qed

lemma respond_file_exact:
  assumes "respond env cl req status ct len opts (send_file_body tls sf content 0 len) w = (True, w')"
    and "build_response_headers env cl status ct (int len) (r_keep_alive req) opts HEADERS_LEN = Some h"
    and "\<not> r_head_only req"
  shows "io_sent w' = io_sent w @ h @ take len content \<and> len \<le> length content"
proof -
  obtain ok w1 where c: "client_write_all (c_tls cl) h w = (ok, w1)" by fastforce
  with assms have "ok" and b: "send_file_body tls sf content 0 len w1 = (True, w')"
    by (auto simp: respond_def write_response_headers_def split: if_splits)
  then have "io_sent w1 = io_sent w @ h" using c client_write.write_ok by simp
  moreover have "io_sent w' = io_sent w1 @ take len content" "len \<le> length content"
    using send_file_body_sends [of content 0 len w1 tls sf] b by (auto simp: sends_def slice_def dest: delivers_ok)
  ultimately show ?thesis by simp
qed

lemma headers_not_empty: "build_response_headers env cl status ct len ka opts n = Some h \<Longrightarrow> h \<noteq> []"
  using build_response_headers_text [of env cl status ct len ka opts n h] by auto

lemma plain_replies: "replies env cl req (small_reply req f) w (send_plain_file env cl status mime f opts req w)"
proof (cases "small_reply req f")
  case False
  then have "send_plain_file env cl status mime f opts req w =
      respond env cl req status mime (st_size (f_stat f)) opts
        (send_file_body (c_tls cl) (c_sendfile_enabled cl) (f_content f) 0 (st_size (f_stat f))) w"
    by (auto simp: send_plain_file_def small_reply_def Let_def)
  then show ?thesis using replies_delivers [OF respond_file] by simp
next
  case True
  let ?len = "st_size (f_stat f)"
  let ?r = "\<lambda>w. respond env cl req status mime ?len opts
      (send_file_body (c_tls cl) (c_sendfile_enabled cl) (f_content f) 0 ?len) w"
  obtain ok w1 where s: "write_small_file_response env cl status mime (f_content f) ?len (r_keep_alive req) opts w = (ok, w1)"
    by fastforce
  then obtain bs where bs: "delivers bs w (ok, w1)" "ok \<longrightarrow> framed_reply env cl req bs"
    using small_file_delivers [of req w env cl status mime "f_content f" ?len opts] True
    by (auto simp: small_reply_def)
  have run: "send_plain_file env cl status mime f opts req w = (if ok then (True, w1) else ?r w1)"
    using True s by (simp add: send_plain_file_def small_reply_def Let_def)
  show ?thesis
  proof (cases "ok \<or> \<not> fst (?r w1)")
    case True
    have "replies env cl req (small_reply req f) w (ok, w1)" using bs by (intro replies_delivers) auto
    moreover have "replies env cl req (small_reply req f) w (?r w1)" if "\<not> fst (?r w1)"
      using that by (simp add: replies_def)
    ultimately show ?thesis using run True by auto
  next
    case False
    then obtain w' where r: "?r w1 = (True, w')" by (cases "?r w1") auto
    have head: "\<not> r_head_only req" using True by (simp add: small_reply_def)
    from r obtain h where h: "build_response_headers env cl status mime (int ?len) (r_keep_alive req) opts HEADERS_LEN = Some h"
      by (auto simp: respond_def write_response_headers_def split: option.splits)
    let ?bytes = "h @ take ?len (f_content f)"
    have sent: "io_sent w' = io_sent w1 @ ?bytes" "?len \<le> length (f_content f)"
      using respond_file_exact [OF r h head] by simp_all
    moreover have failed: "write_small_file_response env cl status mime (f_content f) ?len (r_keep_alive req) opts w = (False, w1)"
      using s False by simp
    moreover obtain k where "io_sent w1 = io_sent w @ take k ?bytes"
      "k \<noteq> 0 \<longrightarrow> k < length ?bytes \<and> stalls (c_tls cl) (io_events w)"
      using small_file_failed [OF failed h headers_not_empty [OF h]] by blast
    moreover have "framed_reply env cl req ?bytes"
      unfolding framed_reply_def using h head sent(2)
      by (intro exI [of _ status] exI [of _ mime] exI [of _ opts] exI [of _ h] exI [of _ "take ?len (f_content f)"])
        (simp add: min.absorb1)
    ultimately have "replies env cl req (small_reply req f) w (True, w')"
      unfolding replies_def using True by (intro impI exI [of _ k] exI [of _ ?bytes]) simp
    with run False r show ?thesis by simp
  qed
qed

lemma compressed_replies:
  "replies env cl req (small_reply req f) w (send_compressed_or_plain env cl site status path mime f meta etag req w)"
proof -
  let ?st = "f_stat f"
  obtain x w1 where c: "sys_count (min (st_size ?st) (length (f_content f))) w = (x, w1)" by fastforce
  note same = replies_same [of w1 w, OF _ sys_count_events [OF c]]
  have sent: "io_sent w1 = io_sent w" using sys_count_le [OF c] by simp
  show ?thesis
    unfolding send_compressed_or_plain_def Let_def c
    using same [OF sent plain_replies] plain_replies
      replies_delivers [OF respond_file] same [OF sent replies_delivers [OF respond_bytes]]
    by (auto split: option.splits sys_result.splits)
qed

lemma send_file_replies: "replies env cl req (small_reply req f) w (send_file_fd env cl site status path f meta req w)"
  unfolding send_file_fd_def send_range_def Let_def
  using replies_delivers [OF empty_reply] replies_delivers [OF respond_file] compressed_replies
  by (simp split: option.split)


lemma write_all_quiet: "io_events w = [] \<Longrightarrow> rpsiod_write_all s w = (True, w\<lparr>io_sent := io_sent w @ s\<rparr>)"
  by (simp add: rpsiod_write_all.simps sys_write_def sys_count_def)

definition demo_io :: io where
  "demo_io = \<lparr>io_sent = [], io_in = [], io_events = []\<rparr>"

definition demo_request :: http_request where
  "demo_request = empty_request\<lparr>r_method := ''GET''\<rparr>"

definition demo_head :: http_request where
  "demo_head = empty_request\<lparr>r_method := ''HEAD'', r_head_only := True\<rparr>"


text \<open>
  The bytes of an aborted attempt do occur: when the gathered write of a small file stalls
  for longer than the poll timeout after its first bytes, the function starts over and sends
  the whole reply behind them.
\<close>

lemma small_file_restarts:
  assumes "build_response_headers env cl status mime (int (length c)) (r_keep_alive req) opts HEADERS_LEN = Some h"
    and "length h > 1" and "c \<noteq> []" and "length c \<le> SMALL_FILE_WRITEV_MAX"
    and "\<not> r_head_only req" and "\<not> c_tls cl" and "c_sendfile_enabled cl" and "f_content f = c"
    and "st_size (f_stat f) = length c" and "io_events w = [Short (length c), Short 1, Again False]"
  shows "\<exists>w'. send_plain_file env cl status mime f opts req w = (True, w') \<and>
    io_sent w' = io_sent w @ take 1 h @ h @ c"
proof -
  have "pread_loop c (length c) 0 w = (Some (length c), w\<lparr>io_events := [Short 1, Again False]\<rparr>)"
    using assms(3,10) by (simp add: pread_loop.simps sys_count_def)
  moreover have "min (Suc 0) (length h + length c) = 1" using assms(2) by simp
  moreover have "advance (Suc 0) [h, c] = [drop 1 h, c]" using assms(2) by simp
  moreover obtain x y r where "h = x # y # r" using assms(2) by (cases h; cases "tl h") auto
  ultimately have "write_small_file_response env cl status mime c (length c) (r_keep_alive req) opts w =
      (False, w\<lparr>io_events := [], io_sent := io_sent w @ take 1 h\<rparr>)"
    using assms by (simp add: write_small_file_response_def client_writev_all_def writev_loop.simps
        sys_write_def sys_count_def)
  then show ?thesis
    using assms by (simp add: send_plain_file_def respond_def write_response_headers_def client_write_all_def
        write_all_quiet send_file_body_def sendfile_loop.simps sys_write_def sys_count_def Let_def)
qed

end
