(* ===== verification/Fcgi.thy ===== *)
theory Fcgi
  imports Send
begin

text \<open>
  PHP over FastCGI in \<open>src/server.c\<close>: record and parameter encoding, the request that
  \<open>send_php_fpm\<close> writes, and the loop that turns the records of the application server into
  an HTTP response.  The connection to the application server is an \<open>io\<close> state of its own.
\<close>

section \<open>Records\<close>

definition fcgi_padding :: "nat \<Rightarrow> nat" where
  "fcgi_padding content_len = (8 - content_len mod 8) mod 8"

definition fcgi_header :: "nat \<Rightarrow> nat \<Rightarrow> nat \<Rightarrow> string" where
  "fcgi_header typ request_id content_len =
     map char_of [1, typ, request_id div 256, request_id mod 256, content_len div 256, content_len mod 256,
                  fcgi_padding content_len, 0 :: nat]"

definition fcgi_write_record :: "nat \<Rightarrow> nat \<Rightarrow> string \<Rightarrow> io \<Rightarrow> bool \<times> io" where
  "fcgi_write_record typ request_id content w =
     (let padding = fcgi_padding (length content) in
      write_seq rpsiod_write_all
        (fcgi_header typ request_id (length content) #
         (if 0 < length content then [content] else []) @
         (if 0 < padding then [replicate padding NUL] else [])) w)"

datatype read_result = ReadOk string | ReadTimeout | ReadFailed

function fcgi_read_loop :: "string \<Rightarrow> nat \<Rightarrow> io \<Rightarrow> read_result \<times> io" where
  "fcgi_read_loop buf len w =
     (if len \<le> length buf then (ReadOk buf, w)
      else case sys_read (len - length buf) w of
        ((EINTR, _), w') \<Rightarrow> fcgi_read_loop buf len w'
      | ((EAGAIN _, _), w') \<Rightarrow> (ReadTimeout, w')
      | ((EIO, _), w') \<Rightarrow> (ReadFailed, w')
      | ((Count n, got), w') \<Rightarrow> if got = [] then (ReadFailed, w') else fcgi_read_loop (buf @ got) len w')"
  by pat_completeness auto
termination
  by (relation "measure (\<lambda>(b, n, w). (n - length b) + length (io_events w))")
     (auto simp: sys_read_def dest!: sys_count_le split: prod.splits sys_result.splits)

declare fcgi_read_loop.simps [simp del]

definition fcgi_read_exact :: "nat \<Rightarrow> io \<Rightarrow> read_result \<times> io" where
  "fcgi_read_exact len w = fcgi_read_loop [] len w"

section \<open>Parameters\<close>

definition fcgi_length :: "nat \<Rightarrow> string" where
  "fcgi_length n =
     (if n < 128 then [char_of n]
      else map char_of [128 + n div 16777216 mod 128, n div 65536 mod 256, n div 256 mod 256, n mod 256])"

definition fcgi_name_value :: "nat \<Rightarrow> string \<Rightarrow> string \<Rightarrow> string option" where
  "fcgi_name_value out_len name val =
     (let text = fcgi_length (length name) @ fcgi_length (length val) @ name @ val in
      if out_len < length text then None else Some text)"

definition fcgi_add_param :: "nat \<Rightarrow> string \<Rightarrow> string \<times> string \<Rightarrow> string option" where
  "fcgi_add_param buf_len buf p =
     map_option (\<lambda>t. buf @ t) (fcgi_name_value (buf_len - length buf) (fst p) (snd p))"

fun fcgi_add_params :: "nat \<Rightarrow> string \<Rightarrow> (string \<times> string) list \<Rightarrow> string option" where
  "fcgi_add_params buf_len buf [] = Some buf"
| "fcgi_add_params buf_len buf (p # ps) =
     (case fcgi_add_param buf_len buf p of None \<Rightarrow> None | Some b \<Rightarrow> fcgi_add_params buf_len b ps)"

definition clean_script :: "string \<Rightarrow> string" where
  "clean_script script_rel =
     (let s = safe_copy PATH_MAX script_rel in case strchr (CHR ''?'') s of None \<Rightarrow> s | Some (a, _) \<Rightarrow> a)"

definition trusted_internal_https :: "client \<Rightarrow> http_request \<Rightarrow> bool" where
  "trusted_internal_https cl req \<longleftrightarrow>
     r_internal_https req \<and> (c_client_ip cl = ''127.0.0.1'' \<or> c_client_ip cl = ''::1'')"

definition request_is_https :: "client \<Rightarrow> site_config \<Rightarrow> http_request \<Rightarrow> bool" where
  "request_is_https cl site req \<longleftrightarrow> c_local_port cl = site_https_port site \<or> trusted_internal_https cl req"

definition php_params :: "client \<Rightarrow> site_config \<Rightarrow> http_request \<Rightarrow> string \<Rightarrow> (string \<times> string) list" where
  "php_params cl site req script =
     (let https = request_is_https cl site req;
          port = (if https \<and> site_https_port site \<noteq> 0 then site_https_port site else c_local_port cl) in
      [(''GATEWAY_INTERFACE'', ''CGI/1.1''), (''SERVER_SOFTWARE'', ''rpsiod''),
       (''REQUEST_METHOD'', r_method req), (''QUERY_STRING'', r_query_string req),
       (''REQUEST_URI'', r_path req), (''SCRIPT_FILENAME'', site_static_root_real site @ ''/'' @ script),
       (''SCRIPT_NAME'', ''/'' @ script), (''DOCUMENT_ROOT'', site_static_root_real site),
       (''SERVER_PROTOCOL'', ''HTTP/1.1''), (''REMOTE_ADDR'', c_client_ip cl),
       (''SERVER_ADDR'', c_server_ip cl), (''SERVER_NAME'', r_host req), (''HTTP_HOST'', r_host req),
       (''SERVER_PORT'', dec (unat port)), (''REQUEST_SCHEME'', if https then ''https'' else ''http''),
       (''HTTPS'', if https then ''on'' else ''off''), (''CONTENT_LENGTH'', dec (unat (r_content_length req)))])"

definition PARAMS_LEN :: nat where "PARAMS_LEN = 8192"

section \<open>What the application server reads\<close>

text \<open>The FastCGI specification's decoding of name-value pairs and of a stream of records.\<close>

fun read_length :: "string \<Rightarrow> (nat \<times> string) option" where
  "read_length (a # r) =
     (if uchar a < 128 then Some (uchar a, r)
      else case r of
        b # c # d # r' \<Rightarrow> Some ((uchar a - 128) * 16777216 + uchar b * 65536 + uchar c * 256 + uchar d, r')
      | _ \<Rightarrow> None)"
| "read_length [] = None"

definition read_pair :: "string \<Rightarrow> ((string \<times> string) \<times> string) option" where
  "read_pair s =
     (case read_length s of None \<Rightarrow> None | Some (n, r) \<Rightarrow>
      (case read_length r of None \<Rightarrow> None | Some (v, q) \<Rightarrow>
       if length q < n + v then None else Some ((take n q, take v (drop n q)), drop (n + v) q)))"

lemma read_length_shorter: "read_length s = Some (n, r) \<Longrightarrow> length r < length s"
  by (cases s) (auto split: if_splits list.splits)

lemma read_pair_shorter: "read_pair s = Some (p, r) \<Longrightarrow> length r < length s"
proof -
  assume "read_pair s = Some (p, r)"
  then obtain n r1 v q where "read_length s = Some (n, r1)" "read_length r1 = Some (v, q)" "r = drop (n + v) q"
    by (auto simp: read_pair_def split: option.splits if_splits)
  with read_length_shorter [of s n r1] read_length_shorter [of r1 v q] show ?thesis by simp
qed

function read_pairs :: "string \<Rightarrow> (string \<times> string) list option" where
  "read_pairs s =
     (if s = [] then Some []
      else case read_pair s of None \<Rightarrow> None | Some (p, r) \<Rightarrow> map_option (\<lambda>ps. p # ps) (read_pairs r))"
  by pat_completeness auto
termination
  by (relation "measure length") (auto dest: read_pair_shorter)

declare read_pairs.simps [simp del]

lemma uchar_char_of_mod [simp]: "uchar (char_of n) = n mod 256"
  by (simp add: uchar_def)

lemma base256: "n = n div 16777216 * 16777216 + n div 65536 mod 256 * 65536 + n div 256 mod 256 * 256 + n mod (256::nat)"
proof -
  have "n div 65536 = n div 65536 div 256 * 256 + n div 65536 mod 256" by simp
  moreover have "n div 65536 div 256 = n div 16777216" by (simp flip: div_mult2_eq)
  moreover have "n div 256 = n div 256 div 256 * 256 + n div 256 mod 256" by simp
  moreover have "n div 256 div 256 = n div 65536" by (simp flip: div_mult2_eq)
  moreover have "n = n div 256 * 256 + n mod 256" by simp
  ultimately show ?thesis by linarith
qed

lemma read_length_encoded:
  assumes "n < 2 ^ 31"
  shows "read_length (fcgi_length n @ r) = Some (n, r)"
proof (cases "n < 128")
  case True
  then show ?thesis by (simp add: fcgi_length_def)
next
  case False
  have "n div 16777216 < 128" using assms by (simp add: less_mult_imp_div_less)
  then have "n div 16777216 mod 128 = n div 16777216" "(128 + n div 16777216) mod 256 = 128 + n div 16777216"
    by simp_all
  then show ?thesis using False base256 [of n] by (simp add: fcgi_length_def)
qed

lemma read_pair_encoded:
  assumes "fcgi_name_value k n v = Some t" and "length n < 2 ^ 31" and "length v < 2 ^ 31"
  shows "read_pair (t @ r) = Some ((n, v), r)"
  using assms by (auto simp: fcgi_name_value_def read_pair_def read_length_encoded Let_def split: if_splits)

lemma name_value_not_Nil: "fcgi_name_value k n v = Some t \<Longrightarrow> t \<noteq> []"
  by (auto simp: fcgi_name_value_def fcgi_length_def Let_def split: if_splits)

lemma fcgi_add_params_pairs:
  assumes "fcgi_add_params k buf ps = Some out" and "k < 2 ^ 31"
  shows "\<exists>t. out = buf @ t \<and> read_pairs t = Some ps \<and> (length buf \<le> k \<longrightarrow> length out \<le> k)"
  using assms(1)
proof (induction ps arbitrary: buf)
  case Nil
  then show ?case by (simp add: read_pairs.simps)
next
  case (Cons p ps)
  then obtain t where t: "fcgi_name_value (k - length buf) (fst p) (snd p) = Some t"
    "fcgi_add_params k (buf @ t) ps = Some out"
    by (auto simp: fcgi_add_param_def split: option.splits)
  obtain t' where t': "out = (buf @ t) @ t'" "read_pairs t' = Some ps" "length (buf @ t) \<le> k \<longrightarrow> length out \<le> k"
    using Cons.IH [OF t(2)] by auto
  have len: "length t \<le> k - length buf" "length (fst p) \<le> length t" "length (snd p) \<le> length t"
    using t(1) by (auto simp: fcgi_name_value_def Let_def split: if_splits)
  moreover from len have "length (fst p) < 2 ^ 31" "length (snd p) < 2 ^ 31" using assms(2) by simp_all
  then have "read_pairs (t @ t') = Some (p # ps)"
    using read_pair_encoded [OF t(1), of t'] name_value_not_Nil [OF t(1)] t'(2)
    by (subst read_pairs.simps) simp
  ultimately show ?case using t' by (intro exI [of _ "t @ t'"]) auto
qed

text \<open>One record: type, request id, content.\<close>

definition read_record :: "string \<Rightarrow> ((nat \<times> nat \<times> string) \<times> string) option" where
  "read_record s =
     (if length s < 8 then None
      else let b = (\<lambda>i. uchar (s ! i)); len = b 4 * 256 + b 5; r = drop 8 s in
        if b 0 \<noteq> 1 \<or> length r < len + b 6 then None
        else Some ((b 1, b 2 * 256 + b 3, take len r), drop (len + b 6) r))"

function read_records :: "string \<Rightarrow> (nat \<times> nat \<times> string) list option" where
  "read_records s =
     (if s = [] then Some []
      else case read_record s of None \<Rightarrow> None | Some (x, r) \<Rightarrow> map_option (\<lambda>xs. x # xs) (read_records r))"
  by pat_completeness auto
termination
  by (relation "measure length") (auto simp: read_record_def Let_def split: if_splits)

declare read_records.simps [simp del]

definition fcgi_record :: "nat \<Rightarrow> nat \<Rightarrow> string \<Rightarrow> string" where
  "fcgi_record typ request_id content =
     fcgi_header typ request_id (length content) @ content @ replicate (fcgi_padding (length content)) NUL"

lemma length_fcgi_header [simp]: "length (fcgi_header t i n) = 8"
  by (simp add: fcgi_header_def)

lemma read_record_encoded:
  assumes "length content < 65536" and "typ < 256" and "request_id < 65536"
  shows "read_record (fcgi_record typ request_id content @ r) = Some ((typ, request_id, content), r)"
proof -
  have pad: "fcgi_padding (length content) < 256" by (simp add: fcgi_padding_def)
  have hdr: "uchar (fcgi_header typ request_id (length content) ! 0) = 1"
    "uchar (fcgi_header typ request_id (length content) ! 1) = typ"
    "uchar (fcgi_header typ request_id (length content) ! 2) = request_id div 256"
    "uchar (fcgi_header typ request_id (length content) ! 3) = request_id mod 256"
    "uchar (fcgi_header typ request_id (length content) ! 4) = length content div 256"
    "uchar (fcgi_header typ request_id (length content) ! 5) = length content mod 256"
    "uchar (fcgi_header typ request_id (length content) ! 6) = fcgi_padding (length content)"
    using assms pad by (simp_all add: fcgi_header_def less_mult_imp_div_less)
  have nth: "(fcgi_record typ request_id content @ r) ! i = fcgi_header typ request_id (length content) ! i" if "i < 8" for i
    using that by (simp add: fcgi_record_def nth_append)
  have "length content div 256 * 256 + length content mod 256 = length content" by simp
  moreover have "request_id div 256 * 256 + request_id mod 256 = request_id" by simp
  ultimately show ?thesis
    unfolding read_record_def Let_def by (simp add: nth hdr hdr(2) [unfolded One_nat_def]) (simp add: fcgi_record_def)
qed

lemma fcgi_record_Nil: "fcgi_record t i c \<noteq> []"
  using length_fcgi_header by (auto simp: fcgi_record_def dest: arg_cong [of _ _ length])

lemma read_records_encoded:
  assumes "list_all (\<lambda>(t, i, c). length c < 65536 \<and> t < 256 \<and> i < 65536) rs"
  shows "read_records (concat (map (\<lambda>(t, i, c). fcgi_record t i c) rs)) = Some rs"
  using assms
proof (induction rs)
  case Nil
  then show ?case by (simp add: read_records.simps)
next
  case (Cons x rs)
  obtain t i c where x: "x = (t, i, c)" by (cases x) auto
  with Cons show ?case
    using fcgi_record_Nil [of t i c] read_record_encoded [of c t i]
    by (subst read_records.simps) simp
qed

section \<open>The request to the application server\<close>

definition begin_body :: string where
  "begin_body = map char_of [0, 1, 0, 0, 0, 0, 0, 0 :: nat]"

text \<open>The status of the error page to send, or \<open>None\<close> when the whole request was written.\<close>

definition php_request ::
  "client \<Rightarrow> site_config \<Rightarrow> http_request \<Rightarrow> string \<Rightarrow> string \<Rightarrow> io \<Rightarrow> int option \<times> io" where
  "php_request cl site req script_rel body fpm =
     (case fcgi_write_record 1 1 begin_body fpm of (ok0, fpm) \<Rightarrow>
      if \<not> ok0 then (Some 502, fpm) else
      let script = clean_script script_rel in
      if PATH_MAX \<le> length (site_static_root_real site @ ''/'' @ script) then (Some 414, fpm) else
      if PATH_MAX \<le> length (''/'' @ script) then (Some 414, fpm) else
      case fcgi_add_params PARAMS_LEN [] (php_params cl site req script) of
        None \<Rightarrow> (Some 500, fpm)
      | Some params \<Rightarrow>
          (case write_seq (fcgi_write_record 4 1) [params, []] fpm of (ok1, fpm) \<Rightarrow>
           if \<not> ok1 then (Some 502, fpm) else
           if 65535 < int (length body) then (Some 413, fpm) else
           case write_seq (fcgi_write_record 5 1) ((if 0 < length body then [body] else []) @ [[]]) fpm of
             (ok2, fpm) \<Rightarrow> if \<not> ok2 then (Some 502, fpm) else (None, fpm)))"

interpretation fcgi_record: byte_writer "fcgi_write_record t i" "fcgi_record t i" for t i
proof (unfold_locales, goal_cases)
  case (1 c w)
  have "concat (map (\<lambda>s. s) (fcgi_header t i (length c) # (if 0 < length c then [c] else []) @
      (if 0 < fcgi_padding (length c) then [replicate (fcgi_padding (length c)) NUL] else []))) = fcgi_record t i c"
    by (simp add: fcgi_record_def)
  then show ?case
    using write_all.seq_delivers by (metis fcgi_write_record_def)
qed

text \<open>
  C11: the application server receives the request as it is: when \<open>send_php_fpm\<close> has written
  its request, a reader of the protocol finds the begin record, the parameters (which decode
  to exactly the CGI variables of the request), and the body, each stream properly ended.
\<close>

theorem php_request_decodes:
  assumes "php_request cl site req script_rel body fpm = (None, fpm')"
  shows "\<exists>bytes params. io_sent fpm' = io_sent fpm @ bytes \<and>
    read_records bytes = Some ([(1, 1, begin_body), (4, 1, params), (4, 1, [])] @
      (if body = [] then [] else [(5, 1, body)]) @ [(5, 1, [])]) \<and>
    read_pairs params = Some (php_params cl site req (clean_script script_rel))"
proof -
  obtain w1 where w1: "fcgi_write_record 1 1 begin_body fpm = (True, w1)"
    using assms by (auto simp: php_request_def split: prod.splits if_splits)
  obtain params where p: "fcgi_add_params PARAMS_LEN [] (php_params cl site req (clean_script script_rel)) = Some params"
    using assms w1 by (auto simp: php_request_def Let_def split: prod.splits if_splits option.splits)
  obtain w2 where w2: "write_seq (fcgi_write_record 4 1) [params, []] w1 = (True, w2)"
    using assms w1 p by (auto simp: php_request_def Let_def simp del: write_seq.simps split: prod.splits if_splits)
  let ?b = "if 0 < length body then [body] else []"
  have len: "length body < 65536"
    using assms w1 p w2 by (auto simp: php_request_def Let_def simp del: write_seq.simps split: prod.splits if_splits)
  have w3: "write_seq (fcgi_write_record 5 1) (?b @ [[]]) w2 = (True, fpm')"
    using assms w1 p w2 by (auto simp: php_request_def Let_def simp del: write_seq.simps split: prod.splits if_splits)
  have sent: "io_sent fpm' = io_sent fpm @ fcgi_record 1 1 begin_body @
      concat (map (fcgi_record 4 1) [params, []]) @ concat (map (fcgi_record 5 1) (?b @ [[]]))"
    using delivers_ok [OF fcgi_record.seq_delivers [of 5 1 "?b @ [[]]" w2, unfolded w3]]
      delivers_ok [OF fcgi_record.seq_delivers [of 4 1 "[params, []]" w1, unfolded w2]]
      fcgi_record.write_ok [OF w1]
    by (simp del: write_seq.simps)
  obtain q where q: "params = [] @ q" "read_pairs q = Some (php_params cl site req (clean_script script_rel))"
      "length params \<le> PARAMS_LEN"
    using fcgi_add_params_pairs [OF p] by (auto simp: PARAMS_LEN_def)
  let ?rs = "[(1, 1, begin_body), (4, 1, params), (4, 1, [])] @ (if body = [] then [] else [(5, 1, body)]) @ [(5, 1, [])]"
  have "list_all (\<lambda>(t, i, c). length c < 65536 \<and> t < 256 \<and> i < 65536) (?rs :: (nat \<times> nat \<times> string) list)"
    using q(3) len by (simp add: begin_body_def PARAMS_LEN_def)
  from read_records_encoded [OF this] have "read_records (concat (map (\<lambda>(t, i, c). fcgi_record t i c) ?rs)) = Some ?rs" .
  with sent q show ?thesis
    by (intro exI [of _ "concat (map (\<lambda>(t, i, c). fcgi_record t i c) ?rs)"] exI [of _ params]) simp
qed

lemma write_record_quiet:
  "io_events w = [] \<Longrightarrow> fcgi_write_record t i c w = (True, w\<lparr>io_sent := io_sent w @ fcgi_record t i c\<rparr>)"
  by (simp add: fcgi_write_record_def write_all_quiet Let_def fcgi_record_def)

theorem php_request_decodes_witness:
  "\<exists>bytes params.
     io_sent (snd (php_request demo_client site_defaults (empty_request\<lparr>r_method := ''POST'', r_path := ''/a.php''\<rparr>)
       ''a.php'' ''x=1'' demo_io)) = bytes \<and>
     read_records bytes = Some [(1, 1, begin_body), (4, 1, params), (4, 1, []), (5, 1, ''x=1''), (5, 1, [])]"
proof -
  let ?q = "empty_request\<lparr>r_method := ''POST'', r_path := ''/a.php''\<rparr>"
  have script: "clean_script ''a.php'' = ''a.php''"
    by (simp add: clean_script_def Let_def strchr_def)
  have "dec 80 = ''80''" "dec 0 = ''0''" by code_simp+
  then obtain params where "fcgi_add_params PARAMS_LEN [] (php_params demo_client site_defaults ?q ''a.php'') = Some params"
    by (simp add: php_params_def fcgi_add_param_def fcgi_name_value_def fcgi_length_def PARAMS_LEN_def Let_def
        request_is_https_def trusted_internal_https_def demo_client_def site_defaults_def empty_request_def)
  then have "fst (php_request demo_client site_defaults ?q ''a.php'' ''x=1'' demo_io) = None"
    by (simp add: php_request_def script Let_def write_record_quiet demo_io_def site_defaults_def)
  then obtain w' where r: "php_request demo_client site_defaults ?q ''a.php'' ''x=1'' demo_io = (None, w')"
    by (metis prod.collapse)
  have "io_sent demo_io = []" by (simp add: demo_io_def)
  with php_request_decodes [OF r] show ?thesis unfolding r by auto
qed

section \<open>The response of the application server\<close>

record php_response =
  ph_header_buffer :: string
  ph_started :: bool
  ph_chunked :: bool
  ph_status :: int
  ph_content_length :: int
  ph_content_type :: string

definition php_start :: php_response where
  "php_start = \<lparr>ph_header_buffer = [], ph_started = False, ph_chunked = False, ph_status = 200,
     ph_content_length = - 1, ph_content_type = ''text/html; charset=utf-8''\<rparr>"

definition LLONG_MAX :: u64 where "LLONG_MAX = 0x7fffffffffffffff"

definition is_blank :: "char \<Rightarrow> bool" where
  "is_blank c \<longleftrightarrow> c = CHR '' ''"

definition php_header_line :: "php_response \<Rightarrow> string \<Rightarrow> php_response" where
  "php_header_line st line =
     (if rpsiod_starts_with line ''Status:'' then st\<lparr>ph_status := atoi (drop 7 line)\<rparr>
      else if rpsiod_starts_with line ''Content-Type:'' then
        st\<lparr>ph_content_type := safe_copy 256 (dropWhile is_blank (drop 13 line))\<rparr>
      else if rpsiod_starts_with line ''Content-Length:'' then
        (case strtoull (dropWhile is_blank (drop 15 line)) of
           None \<Rightarrow> st
         | Some (v, rest, erange) \<Rightarrow>
             if dropWhile is_ows rest = [] \<and> \<not> erange \<and> v \<le> LLONG_MAX
             then st\<lparr>ph_content_length := uint v\<rparr> else st)
      else st)"

definition php_parse_headers :: "php_response \<Rightarrow> string \<Rightarrow> php_response" where
  "php_parse_headers st headers = foldl php_header_line st (strtok_lines headers)"

definition php_write_body :: "client \<Rightarrow> bool \<Rightarrow> string \<Rightarrow> io \<Rightarrow> bool \<times> io" where
  "php_write_body cl chunked body w =
     (if chunked then client_write_chunked_body (c_tls cl) body w else client_write_all (c_tls cl) body w)"

text \<open>What handling one piece of standard output leads to.\<close>

datatype php_step = PhpGoOn php_response | PhpErrorPage int | PhpAbort

definition HEADER_BUFFER :: nat where "HEADER_BUFFER = 65536"

definition php_stdout ::
  "host_env \<Rightarrow> client \<Rightarrow> site_config \<Rightarrow> http_request \<Rightarrow> string \<Rightarrow> php_response \<Rightarrow> io \<Rightarrow> php_step \<times> io" where
  "php_stdout env cl site req content st w =
     (if \<not> ph_started st then
        (if HEADER_BUFFER - length (ph_header_buffer st) < length content then (PhpErrorPage 502, w)
         else let buf = ph_header_buffer st @ content; st1 = st\<lparr>ph_header_buffer := buf\<rparr> in
           case memmem (CRLF @ CRLF) buf of
             None \<Rightarrow> (PhpGoOn st1, w)
           | Some (head, rest) \<Rightarrow>
               (let headers = cstr head; st2 = php_parse_headers st1 headers;
                    chunked = ph_content_length st2 < 0 \<and> \<not> r_head_only req;
                    st3 = st2\<lparr>ph_chunked := chunked, ph_started := True\<rparr>; body = drop 4 rest in
                case write_php_response_headers env cl site (ph_status st3) (ph_content_type st3)
                       (ph_content_length st3) (r_keep_alive req) (Some headers) chunked w of
                  (ok, w1) \<Rightarrow>
                    if \<not> ok then (PhpAbort, w1)
                    else if body = [] \<or> r_head_only req then (PhpGoOn st3, w1)
                    else (case php_write_body cl chunked body w1 of
                      (ok2, w2) \<Rightarrow> if ok2 then (PhpGoOn st3, w2) else (PhpAbort, w2))))
      else if r_head_only req then (PhpGoOn st, w)
      else (case php_write_body cl (ph_chunked st) content w of
        (ok, w1) \<Rightarrow> if ok then (PhpGoOn st, w1) else (PhpAbort, w1)))"

definition php_finish ::
  "host_env \<Rightarrow> client \<Rightarrow> site_config \<Rightarrow> http_request \<Rightarrow> php_response \<Rightarrow> io \<Rightarrow> bool \<times> io" where
  "php_finish env cl site req st w =
     (if \<not> ph_started st then
        (let body = ph_header_buffer st in
         case write_php_response_headers env cl site (ph_status st) (ph_content_type st) (int (length body))
                (r_keep_alive req) None False w of
           (ok, w1) \<Rightarrow>
             if ok \<and> \<not> r_head_only req \<and> 0 < length body then client_write_all (c_tls cl) body w1 else (ok, w1))
      else if ph_chunked st \<and> \<not> r_head_only req then client_write_chunked_end (c_tls cl) w
      else (True, w))"

text \<open>One record: its type and contents, or the status of the error page.\<close>

definition fcgi_read_record :: "io \<Rightarrow> (int + nat \<times> string) \<times> io" where
  "fcgi_read_record fpm =
     (let failed = (\<lambda>r. Inl (if r = ReadTimeout then 504 else 502)) in
      case fcgi_read_exact 8 fpm of
        (ReadOk hdr, fpm1) \<Rightarrow>
          (let typ = uchar (hdr ! 1); clen = uchar (hdr ! 4) * 256 + uchar (hdr ! 5); padding = uchar (hdr ! 6) in
           case fcgi_read_exact clen fpm1 of
             (ReadOk content, fpm2) \<Rightarrow>
               (case fcgi_read_exact padding fpm2 of
                  (ReadOk _, fpm3) \<Rightarrow> (Inr (typ, content), fpm3)
                | (r, fpm3) \<Rightarrow> (failed r, fpm3))
           | (r, fpm2) \<Rightarrow> (failed r, fpm2))
      | (r, fpm1) \<Rightarrow> (failed r, fpm1))"

lemma fcgi_read_loop_facts:
  "fcgi_read_loop buf len w = (r, w') \<Longrightarrow> length buf \<le> len \<Longrightarrow>
     (\<forall>s. r = ReadOk s \<longrightarrow> length s = len \<and> buf @ io_in w = s @ io_in w') \<and> length (io_in w') \<le> length (io_in w)"
proof (induction buf len w arbitrary: r w' rule: fcgi_read_loop.induct)
  case (1 buf len w)
  show ?case
  proof (cases "len \<le> length buf")
    case True
    with 1(3,4) show ?thesis by (subst (asm) fcgi_read_loop.simps) auto
  next
    case False
    obtain x got w1 where s: "sys_read (len - length buf) w = ((x, got), w1)" by (metis prod.collapse)
    obtain y w0 where c: "sys_count (min (len - length buf) (length (io_in w))) w = (y, w0)" by fastforce
    note le = sys_count_le [OF c]
    show ?thesis
    proof (cases x)
      case (Count n)
      then have got: "got = take n (io_in w)" "io_in w1 = drop n (io_in w)" "n \<le> len - length buf"
        using s c le by (auto simp: sys_read_def split: sys_result.splits)
      show ?thesis
      proof (cases "got = []")
        case True
        then show ?thesis using 1(3) False s Count got by (subst (asm) fcgi_read_loop.simps) simp
      next
        case g: False
        then have "fcgi_read_loop (buf @ got) len w1 = (r, w')"
          using 1(3) False s Count by (subst (asm) fcgi_read_loop.simps) simp
        moreover have "length (buf @ got) \<le> len" using got False by simp
        ultimately have "(\<forall>s. r = ReadOk s \<longrightarrow> length s = len \<and> (buf @ got) @ io_in w1 = s @ io_in w') \<and>
            length (io_in w') \<le> length (io_in w1)"
          by (rule 1(1) [OF False s [symmetric] refl Count g])
        moreover have "(buf @ got) @ io_in w1 = buf @ io_in w" "length (io_in w1) \<le> length (io_in w)"
          using got by simp_all
        ultimately show ?thesis by (metis le_trans)
      qed
    next
      case EINTR
      then have "fcgi_read_loop buf len w1 = (r, w')"
        using 1(3) False s by (subst (asm) fcgi_read_loop.simps) simp
      moreover have "io_in w1 = io_in w" using s c le EINTR by (auto simp: sys_read_def split: sys_result.splits)
      ultimately show ?thesis using 1(2) [OF False s [symmetric] refl EINTR _ 1(4)] by metis
    next
      case (EAGAIN b)
      moreover have "io_in w1 = io_in w" using s c le EAGAIN by (auto simp: sys_read_def split: sys_result.splits)
      ultimately show ?thesis using 1(3) False s by (subst (asm) fcgi_read_loop.simps) auto
    next
      case EIO
      moreover have "io_in w1 = io_in w" using s c le EIO by (auto simp: sys_read_def split: sys_result.splits)
      ultimately show ?thesis using 1(3) False s by (subst (asm) fcgi_read_loop.simps) auto
    qed
  qed
qed

lemma fcgi_read_exact_facts:
  "fcgi_read_exact len w = (r, w') \<Longrightarrow>
     (\<forall>s. r = ReadOk s \<longrightarrow> length s = len \<and> io_in w = s @ io_in w') \<and> length (io_in w') \<le> length (io_in w)"
  using fcgi_read_loop_facts [of "[]" len w r w'] by (simp add: fcgi_read_exact_def)

lemma fcgi_read_record_bytes:
  assumes "fcgi_read_record fpm = (Inr (t, c), fpm')"
  shows "\<exists>hdr pad. io_in fpm = hdr @ c @ pad @ io_in fpm' \<and> length hdr = 8 \<and> t = uchar (hdr ! 1) \<and>
    length c = uchar (hdr ! 4) * 256 + uchar (hdr ! 5) \<and> length pad = uchar (hdr ! 6)"
proof -
  obtain hdr f1 where h: "fcgi_read_exact 8 fpm = (ReadOk hdr, f1)"
    using assms by (auto simp: fcgi_read_record_def Let_def split: prod.splits read_result.splits)
  obtain f2 where c: "fcgi_read_exact (uchar (hdr ! 4) * 256 + uchar (hdr ! 5)) f1 = (ReadOk c, f2)"
    and t: "t = uchar (hdr ! 1)"
    using assms h by (auto simp: fcgi_read_record_def Let_def split: prod.splits read_result.splits)
  obtain pad where p: "fcgi_read_exact (uchar (hdr ! 6)) f2 = (ReadOk pad, fpm')"
    using assms h c by (auto simp: fcgi_read_record_def Let_def split: prod.splits read_result.splits)
  show ?thesis
    using fcgi_read_exact_facts [OF h] fcgi_read_exact_facts [OF c] fcgi_read_exact_facts [OF p] t
    by (intro exI [of _ hdr] exI [of _ pad]) simp
qed

function php_loop ::
  "host_env \<Rightarrow> client \<Rightarrow> site_config \<Rightarrow> http_request \<Rightarrow> php_response \<Rightarrow> io \<Rightarrow> io \<Rightarrow> bool \<times> io" where
  "php_loop env cl site req st fpm w =
     (case fcgi_read_record fpm of
        (Inl status, _) \<Rightarrow> send_error_page env cl site status req w
      | (Inr (typ, content), fpm') \<Rightarrow>
          if typ = 6 \<and> content \<noteq> [] then
            (case php_stdout env cl site req content st w of
               (PhpGoOn st', w') \<Rightarrow> php_loop env cl site req st' fpm' w'
             | (PhpErrorPage status, w') \<Rightarrow> send_error_page env cl site status req w'
             | (PhpAbort, w') \<Rightarrow> (False, w'))
          else if typ = 3 then php_finish env cl site req st w
          else php_loop env cl site req st fpm' w)"
  by pat_completeness auto
termination
  by (relation "measure (\<lambda>(env, cl, site, req, st, fpm, w). length (io_in fpm))")
     (auto dest!: fcgi_read_record_bytes [OF sym])

declare php_loop.simps [simp del]

definition send_php_fpm ::
  "host_env \<Rightarrow> client \<Rightarrow> site_config \<Rightarrow> http_request \<Rightarrow> string \<Rightarrow> string \<Rightarrow> io option \<Rightarrow> io \<Rightarrow> bool \<times> io" where
  "send_php_fpm env cl site req script_rel body connection w =
     (case connection of
        None \<Rightarrow> send_error_page env cl site 502 req w
      | Some fpm \<Rightarrow>
          (case php_request cl site req script_rel body fpm of
             (Some status, _) \<Rightarrow> send_error_page env cl site status req w
           | (None, fpm') \<Rightarrow> php_loop env cl site req php_start fpm' w))"

end
