(* ===== verification/Static.thy ===== *)
theory Static
  imports Fcgi
begin

text \<open>
  \<open>serve_static\<close> of \<open>src/server.c\<close>: maintenance, methods, path checks, directory redirects, index
  files, PHP routing and the fallback, down to the file that is sent.  The decision is a
  value of type \<open>static_action\<close>; \<open>perform_static\<close> carries it out.  The caches of the site
  are threaded through.
\<close>

section \<open>Opening a path\<close>

text \<open>The first index file that opens as a regular file.\<close>

fun try_indexes ::
  "host_env \<Rightarrow> config \<Rightarrow> site_config \<Rightarrow> (string \<Rightarrow> string) \<Rightarrow> string list \<Rightarrow> site_cache \<Rightarrow>
     (string \<times> opened_file) option \<times> site_cache" where
  "try_indexes env cfg site path_of [] cache = (None, cache)"
| "try_indexes env cfg site path_of (i # is) cache =
     (let idx = path_of i in
      if PATH_MAX \<le> length idx then try_indexes env cfg site path_of is cache
      else case open_static_path env cfg site idx cache of
        (Inl _, cache') \<Rightarrow> try_indexes env cfg site path_of is cache'
      | (Inr f, cache') \<Rightarrow>
          if st_kind (f_stat f) = Regular then (Some (idx, f), cache')
          else try_indexes env cfg site path_of is cache')"

text \<open>\<open>Inl\<close> is a failure with its \<open>errno\<close>, \<open>Inr\<close> the selected relative path and the file.\<close>

definition try_open_static ::
  "host_env \<Rightarrow> config \<Rightarrow> site_config \<Rightarrow> string \<Rightarrow> site_cache \<Rightarrow>
     (open_error + string \<times> opened_file) \<times> site_cache" where
  "try_open_static env cfg site request_path cache =
     (let rel = rpsiod_static_relative_request_path request_path;
          root = (rel = ''.'');
          (found, cache1) =
            (if root \<or> last rel = CHR ''/''
             then try_indexes env cfg site (\<lambda>i. if root then i else rel @ i) (site_indexes site) cache
             else (None, cache)) in
      case found of
        Some (idx, f) \<Rightarrow> (Inr (safe_copy PATH_MAX idx, f), cache1)
      | None \<Rightarrow>
          (case open_static_path env cfg site rel cache1 of
             (Inl e, cache2) \<Rightarrow> (Inl e, cache2)
           | (Inr f, cache2) \<Rightarrow>
               if st_kind (f_stat f) = Directory then
                 (case try_indexes env cfg site (\<lambda>i. if root then i else rel @ ''/'' @ i) (site_indexes site) cache2 of
                    (Some (idx, g), cache3) \<Rightarrow> (Inr (safe_copy PATH_MAX idx, g), cache3)
                  | (None, cache3) \<Rightarrow> (Inl EISDIR, cache3))
               else if st_kind (f_stat f) \<noteq> Regular then (Inl EACCES, cache2)
               else (Inr (safe_copy PATH_MAX rel, f), cache2)))"

section \<open>The decision\<close>

datatype static_action =
    ErrorPage int
  | MaintenanceFile string opened_file
  | DirectoryRedirect
  | RunPhp string
  | StaticFile string opened_file meta_entry

definition request_path_has_trailing_slash :: "string \<Rightarrow> bool" where
  "request_path_has_trailing_slash path =
     (let p = takeWhile (\<lambda>c. c \<noteq> CHR ''?'') path in p \<noteq> [] \<and> last p = CHR ''/'')"

definition site_path_is_directory :: "host_env \<Rightarrow> site_config \<Rightarrow> string \<Rightarrow> bool" where
  "site_path_is_directory env site decoded_path =
     (case e_open env site (rpsiod_static_relative_request_path decoded_path) of
        Inl _ \<Rightarrow> False | Inr f \<Rightarrow> st_kind (f_stat f) = Directory)"

definition open_failure_status :: "open_error \<Rightarrow> int" where
  "open_failure_status e = (if e = EACCES \<or> e = EISDIR then 403 else 404)"

definition maintenance_action :: "host_env \<Rightarrow> site_config \<Rightarrow> static_action" where
  "maintenance_action env site =
     (if site_maintenance_page site = [] then ErrorPage (site_maintenance_status site)
      else case e_open_abs env (site_maintenance_page site) of
        None \<Rightarrow> ErrorPage (site_maintenance_status site)
      | Some f \<Rightarrow>
          if st_kind (f_stat f) = Regular then MaintenanceFile (site_maintenance_page site) f
          else ErrorPage (site_maintenance_status site))"

definition php_target :: "site_config \<Rightarrow> string \<Rightarrow> string" where
  "php_target site decoded =
     (if rpsiod_php_path_is_php decoded then safe_copy PATH_LEN decoded
      else if site_fallback site \<noteq> [] then safe_copy PATH_LEN (site_fallback site)
      else ''/index.php'')"

definition run_php :: "site_config \<Rightarrow> http_request \<Rightarrow> string \<Rightarrow> static_action" where
  "run_php site req selected =
     (if r_content_length req > site_php_max_body_size site then ErrorPage 413 else RunPhp selected)"

definition php_routing_action ::
  "host_env \<Rightarrow> config \<Rightarrow> site_config \<Rightarrow> http_request \<Rightarrow> string \<Rightarrow> site_cache \<Rightarrow> static_action \<times> site_cache" where
  "php_routing_action env cfg site req decoded cache =
     (case try_open_static env cfg site (php_target site decoded) cache of
        (Inl e, cache1) \<Rightarrow> (ErrorPage (open_failure_status e), cache1)
      | (Inr (selected, f), cache1) \<Rightarrow>
          (if selected_path_blocked_direct_access site selected then ErrorPage 403
           else if \<not> rpsiod_php_path_is_php selected then ErrorPage 403
           else run_php site req selected, cache1))"

definition selected_action ::
  "host_env \<Rightarrow> site_config \<Rightarrow> http_request \<Rightarrow> string \<Rightarrow> opened_file \<Rightarrow> site_cache \<Rightarrow> static_action \<times> site_cache" where
  "selected_action env site req selected f cache =
     (if selected_path_blocked_direct_access site selected then (ErrorPage 403, cache)
      else if site_php_enabled site \<and> rpsiod_php_path_is_php selected then (run_php site req selected, cache)
      else if \<not> rpsiod_streq_ci (r_method req) ''GET'' \<and> \<not> rpsiod_streq_ci (r_method req) ''HEAD''
      then (ErrorPage 405, cache)
      else if rpsiod_php_path_is_source_like selected then (ErrorPage 403, cache)
      else case static_meta_get env site selected f cache of
        (meta, cache1) \<Rightarrow> (if me_blocked meta then ErrorPage 403 else StaticFile selected f meta, cache1))"

definition static_routing_action ::
  "host_env \<Rightarrow> config \<Rightarrow> site_config \<Rightarrow> http_request \<Rightarrow> string \<Rightarrow> site_cache \<Rightarrow> static_action \<times> site_cache" where
  "static_routing_action env cfg site req decoded cache =
     (let (r, cache1) = try_open_static env cfg site decoded cache;
          (r, cache1) = (if r = Inl ENOENT \<and> site_fallback site \<noteq> [] \<and> decoded \<noteq> ''/''
                         then try_open_static env cfg site (site_fallback site) cache1 else (r, cache1)) in
      case r of
        Inl e \<Rightarrow> (ErrorPage (open_failure_status e), cache1)
      | Inr (selected, f) \<Rightarrow> selected_action env site req selected f cache1)"

definition serve_static_action ::
  "host_env \<Rightarrow> config \<Rightarrow> site_config \<Rightarrow> http_request \<Rightarrow> site_cache \<Rightarrow> static_action \<times> site_cache" where
  "serve_static_action env cfg site req cache =
     (if site_maintenance_enabled site then (maintenance_action env site, cache)
      else if \<not> rpsiod_site_allows_method site (r_method req) then (ErrorPage 405, cache)
      else case rpsiod_percent_decode_path (r_path req) PATH_LEN of
        None \<Rightarrow> (ErrorPage 400, cache)
      | Some decoded \<Rightarrow>
          if rpsiod_path_has_forbidden_segment decoded then (ErrorPage 400, cache)
          else if path_blocked site decoded then (ErrorPage 403, cache)
          else if \<not> request_path_has_trailing_slash (r_path req) \<and> site_path_is_directory env site decoded
          then (DirectoryRedirect, cache)
          else if rpsiod_streq_ci (site_routing_type site) ''php'' then php_routing_action env cfg site req decoded cache
          else static_routing_action env cfg site req decoded cache)"

section \<open>Carrying it out\<close>

definition redirect_directory_slash ::
  "host_env \<Rightarrow> client \<Rightarrow> site_config \<Rightarrow> http_request \<Rightarrow> io \<Rightarrow> bool \<times> io" where
  "redirect_directory_slash env cl site req w =
     (let path = takeWhile (\<lambda>c. c \<noteq> CHR ''?'') (r_path req);
          query = dropWhile (\<lambda>c. c \<noteq> CHR ''?'') (r_path req) in
      if PATH_LEN + 2 \<le> length path + 1 then send_error_page env cl site 414 req w
      else if query \<noteq> [] \<and> PATH_LEN + 2 \<le> length path + 1 + length query
      then send_error_page env cl site 414 req w
      else send_redirect env cl site 301 (path @ ''/'' @ query) req w)"

definition perform_static ::
  "host_env \<Rightarrow> client \<Rightarrow> site_config \<Rightarrow> http_request \<Rightarrow> string \<Rightarrow> io option \<Rightarrow> static_action \<Rightarrow> io \<Rightarrow> bool \<times> io" where
  "perform_static env cl site req body fpm a w =
     (case a of
        ErrorPage status \<Rightarrow> send_error_page env cl site status req w
      | MaintenanceFile page f \<Rightarrow> send_file_fd env cl site (site_maintenance_status site) page f None req w
      | DirectoryRedirect \<Rightarrow> redirect_directory_slash env cl site req w
      | RunPhp selected \<Rightarrow> send_php_fpm env cl site req selected body fpm w
      | StaticFile selected f meta \<Rightarrow> send_file_fd env cl site 200 selected f (Some meta) req w)"

definition serve_static ::
  "host_env \<Rightarrow> client \<Rightarrow> config \<Rightarrow> site_config \<Rightarrow> http_request \<Rightarrow> string \<Rightarrow> io option \<Rightarrow> site_cache \<Rightarrow> io \<Rightarrow>
     (bool \<times> io) \<times> site_cache" where
  "serve_static env cl cfg site req body fpm cache w =
     (case serve_static_action env cfg site req cache of
        (a, cache1) \<Rightarrow> (perform_static env cl site req body fpm a w, cache1))"

section \<open>Safety of what is served\<close>

definition opened_as :: "host_env \<Rightarrow> site_config \<Rightarrow> string \<Rightarrow> opened_file \<Rightarrow> bool" where
  "opened_as env site selected f \<longleftrightarrow>
     st_kind (f_stat f) = Regular \<and> (\<exists>p. selected = safe_copy PATH_MAX p \<and> e_open env site p = Inr f)"

lemma open_static_path_Inr: "open_static_path env cfg site p cache = (Inr f, c) \<Longrightarrow> e_open env site p = Inr f"
  using open_static_path_fresh [of env cfg site p cache] by simp

lemma try_indexes_opened:
  "try_indexes env cfg site path_of is cache = (Some (idx, f), c) \<Longrightarrow>
     st_kind (f_stat f) = Regular \<and> e_open env site idx = Inr f"
  by (induction "is" arbitrary: cache)
     (auto simp: Let_def dest: open_static_path_Inr split: if_splits prod.splits sum.splits)

lemma try_open_static_opened:
  assumes "try_open_static env cfg site path cache = (Inr (selected, f), c)"
  shows "opened_as env site selected f"
  using assms
  by (auto simp: try_open_static_def Let_def opened_as_def dest: open_static_path_Inr dest!: try_indexes_opened
      split: if_splits prod.splits sum.splits option.splits)

lemma selected_action_static:
  assumes "selected_action env site req selected0 f0 cache = (StaticFile selected f meta, c)"
  shows "selected0 = selected \<and> f0 = f \<and> \<not> selected_path_blocked_direct_access site selected \<and>
    \<not> rpsiod_php_path_is_source_like selected \<and> \<not> (site_php_enabled site \<and> rpsiod_php_path_is_php selected) \<and>
    (rpsiod_streq_ci (r_method req) ''GET'' \<or> rpsiod_streq_ci (r_method req) ''HEAD'')"
  using assms by (auto simp: selected_action_def run_php_def split: if_splits prod.splits)

lemma selected_action_php:
  assumes "selected_action env site req selected0 f0 cache = (RunPhp selected, c)"
  shows "selected0 = selected \<and> \<not> selected_path_blocked_direct_access site selected \<and>
    rpsiod_php_path_is_php selected \<and> r_content_length req \<le> site_php_max_body_size site"
  using assms by (auto simp: selected_action_def run_php_def split: if_splits prod.splits)

definition path_admitted :: "site_config \<Rightarrow> http_request \<Rightarrow> bool" where
  "path_admitted site req \<longleftrightarrow>
     \<not> site_maintenance_enabled site \<and> rpsiod_site_allows_method site (r_method req) \<and>
     (\<exists>decoded. rpsiod_percent_decode_path (r_path req) PATH_LEN = Some decoded \<and>
        \<not> rpsiod_path_has_forbidden_segment decoded \<and> \<not> path_blocked site decoded)"

lemma serve_static_admitted:
  assumes "serve_static_action env cfg site req cache = (a, c)"
    and "(\<exists>s f m. a = StaticFile s f m) \<or> (\<exists>s. a = RunPhp s) \<or> a = DirectoryRedirect"
  shows "path_admitted site req"
  using assms
  by (auto simp: serve_static_action_def path_admitted_def maintenance_action_def
      split: if_splits option.splits)

lemma php_routing_action_cases:
  assumes "php_routing_action env cfg site req decoded cache = (a, c)"
  shows "(\<exists>s. a = ErrorPage s) \<or>
    (\<exists>s. a = RunPhp s \<and> rpsiod_php_path_is_php s \<and> \<not> selected_path_blocked_direct_access site s \<and>
       r_content_length req \<le> site_php_max_body_size site)"
  using assms by (auto simp: php_routing_action_def run_php_def split: if_splits prod.splits sum.splits)

lemma static_routing_action_file:
  assumes "static_routing_action env cfg site req decoded cache = (StaticFile selected f meta, c)"
  shows "opened_as env site selected f \<and> \<not> selected_path_blocked_direct_access site selected \<and>
    \<not> rpsiod_php_path_is_source_like selected \<and> \<not> (site_php_enabled site \<and> rpsiod_php_path_is_php selected) \<and>
    (rpsiod_streq_ci (r_method req) ''GET'' \<or> rpsiod_streq_ci (r_method req) ''HEAD'')"
  using assms
  by (auto simp: static_routing_action_def Let_def dest: try_open_static_opened dest!: selected_action_static
      split: if_splits prod.splits sum.splits)

text \<open>
  C4: a static file that is sent may be sent: the request's method is allowed and is GET or
  HEAD, its decoded path has no dot segment and no blocked name, the file was opened beneath
  the site's root as a regular file, and its name is neither blocked nor a PHP source, a
  backup of one, or a script of the site.
\<close>

theorem static_file_allowed:
  assumes "serve_static_action env cfg site req cache = (StaticFile selected f meta, cache')"
  shows "path_admitted site req \<and> opened_as env site selected f \<and>
    \<not> selected_path_blocked_direct_access site selected \<and> \<not> rpsiod_php_path_is_source_like selected \<and>
    \<not> (site_php_enabled site \<and> rpsiod_php_path_is_php selected) \<and>
    (rpsiod_streq_ci (r_method req) ''GET'' \<or> rpsiod_streq_ci (r_method req) ''HEAD'')"
proof -
  have "path_admitted site req" using serve_static_admitted [OF assms] by blast
  moreover obtain decoded where
    "static_routing_action env cfg site req decoded cache = (StaticFile selected f meta, cache')"
    using assms php_routing_action_cases [of env cfg site req _ cache "StaticFile selected f meta" cache']
    by (auto simp: serve_static_action_def maintenance_action_def split: if_splits option.splits)
  ultimately show ?thesis using static_routing_action_file by blast
qed

text \<open>
  only scripts are run: whatever is handed to the application server has a PHP name,
  is not blocked, came from an admitted path and has a body within the configured limit.
\<close>

theorem php_run_allowed:
  assumes "serve_static_action env cfg site req cache = (RunPhp selected, cache')"
  shows "path_admitted site req \<and> rpsiod_php_path_is_php selected \<and>
    \<not> selected_path_blocked_direct_access site selected \<and> r_content_length req \<le> site_php_max_body_size site"
proof -
  have "path_admitted site req" using serve_static_admitted [OF assms] by blast
  moreover consider decoded where "static_routing_action env cfg site req decoded cache = (RunPhp selected, cache')"
    | decoded where "php_routing_action env cfg site req decoded cache = (RunPhp selected, cache')"
    using assms by (auto simp: serve_static_action_def maintenance_action_def split: if_splits option.splits)
  then have "rpsiod_php_path_is_php selected \<and>
    \<not> selected_path_blocked_direct_access site selected \<and> r_content_length req \<le> site_php_max_body_size site"
  proof cases
    case (1 decoded)
    then show ?thesis
      by (auto simp: static_routing_action_def Let_def dest!: selected_action_php
          split: if_splits prod.splits sum.splits)
  next
    case 2
    then show ?thesis using php_routing_action_cases by blast
  qed
  ultimately show ?thesis by blast
qed

definition demo_static_site :: site_config where
  "demo_static_site = site_defaults\<lparr>site_allowed_methods := [''GET''], site_php_enabled := True,
     site_routing_type := ''static''\<rparr>"

definition demo_static_cfg :: config where
  "demo_static_cfg = rpsiod_config_defaults\<lparr>cfg_open_file_cache_enabled := False\<rparr>"

lemma open_without_cache: "open_static_path env demo_static_cfg site p cache = (e_open env site p, cache)"
  by (simp add: open_static_path_def static_open_cache_lookup_def static_open_cache_store_def open_cache_on_def
      demo_static_cfg_def split: sum.splits)

lemma demo_path:
  "rpsiod_percent_decode_path ''/a.html'' PATH_LEN = Some ''/a.html''"
  "\<not> rpsiod_path_has_forbidden_segment ''/a.html''"
  "rpsiod_static_relative_request_path ''/a.html'' = ''a.html''"
  "\<not> rpsiod_php_path_is_source_like ''a.html''" "\<not> rpsiod_php_path_is_php ''a.html''"
proof -
  show "rpsiod_percent_decode_path ''/a.html'' PATH_LEN = Some ''/a.html''"
    by (simp add: rpsiod_percent_decode_path_def path_char_ok_def uchar_def)
  have "clean_path_copy PATH_MAX ''a.html'' = ''a.html''"
    by (simp add: clean_path_copy_def Let_def strchr_def)
  moreover have "\<not> path_has_php_source_extension (peel_all ''a.html'')"
    "\<not> list_ex (path_has_suffix_ci ''a.html'')
       [''.php'', ''.php3'', ''.php4'', ''.php5'', ''.php7'', ''.php8'', ''.phtml'', ''.pht'']" by code_simp+
  ultimately show "\<not> rpsiod_php_path_is_source_like ''a.html''" "\<not> rpsiod_php_path_is_php ''a.html''"
    by (simp_all only: rpsiod_php_path_is_source_like_def rpsiod_php_path_is_php_def not_False_eq_True)
qed code_simp+

lemma demo_not_blocked: "\<not> path_blocked demo_static_site p"
  by (simp add: path_blocked_def rpsiod_blocked_direct_access_def demo_static_site_def site_defaults_def)

theorem static_file_allowed_witness:
  "\<exists>f meta. fst (serve_static_action demo_file_env demo_static_cfg demo_static_site
      (empty_request\<lparr>r_method := ''GET'', r_path := ''/a.html''\<rparr>) empty_site_cache) = StaticFile ''a.html'' f meta \<and>
    opened_as demo_file_env demo_static_site ''a.html'' f"
proof -
  let ?q = "empty_request\<lparr>r_method := ''GET'', r_path := ''/a.html''\<rparr>"
  let ?a = "serve_static_action demo_file_env demo_static_cfg demo_static_site ?q empty_site_cache"
  have open_demo: "e_open demo_file_env demo_static_site ''a.html'' = Inr demo_file" "st_kind (f_stat demo_file) = Regular"
    by (simp_all add: demo_file_env_def demo_file_def)
  have req: "r_method ?q = ''GET''" "r_path ?q = ''/a.html''" by simp_all
  have cfg: "\<not> site_maintenance_enabled demo_static_site" "rpsiod_site_allows_method demo_static_site ''GET''"
    "\<not> rpsiod_streq_ci (site_routing_type demo_static_site) ''php''" "\<not> request_path_has_trailing_slash ''/a.html''"
    by code_simp+
  have "try_open_static demo_file_env demo_static_cfg demo_static_site ''/a.html'' empty_site_cache =
      (Inr (''a.html'', demo_file), empty_site_cache)"
    by (simp add: try_open_static_def demo_path open_without_cache open_demo)
  moreover have "\<not> selected_path_blocked_direct_access demo_static_site ''a.html''"
    by (simp add: selected_path_blocked_direct_access_def demo_not_blocked)
  moreover obtain m c where "static_meta_get demo_file_env demo_static_site ''a.html'' demo_file empty_site_cache = (m, c)"
    by fastforce
  moreover from this have "\<not> me_blocked m"
    using static_meta_current [OF empty_meta_ok, of "''a.html''"] demo_not_blocked by simp
  ultimately have "?a = (StaticFile ''a.html'' demo_file m, c)"
    unfolding serve_static_action_def req
    by (simp add: cfg demo_path demo_not_blocked site_path_is_directory_def open_demo static_routing_action_def
        selected_action_def)
  from static_file_allowed [OF this] this show ?thesis by auto
qed

lemma demo_php:
  "rpsiod_percent_decode_path ''/a.php'' PATH_LEN = Some ''/a.php''"
  "\<not> rpsiod_path_has_forbidden_segment ''/a.php''"
  "rpsiod_static_relative_request_path ''/a.php'' = ''a.php''" "rpsiod_php_path_is_php ''a.php''"
proof -
  show "rpsiod_percent_decode_path ''/a.php'' PATH_LEN = Some ''/a.php''"
    by (simp add: rpsiod_percent_decode_path_def path_char_ok_def uchar_def)
  have "clean_path_copy PATH_MAX ''a.php'' = ''a.php''" by (simp add: clean_path_copy_def Let_def strchr_def)
  moreover have "list_ex (path_has_suffix_ci ''a.php'')
       [''.php'', ''.php3'', ''.php4'', ''.php5'', ''.php7'', ''.php8'', ''.phtml'', ''.pht'']" by code_simp
  ultimately show "rpsiod_php_path_is_php ''a.php''" by (simp only: rpsiod_php_path_is_php_def)
qed code_simp+

theorem php_run_allowed_witness:
  "fst (serve_static_action (demo_env\<lparr>e_open := \<lambda>_ p. if p = ''a.php'' then Inr demo_file else Inl ENOENT\<rparr>)
      demo_static_cfg demo_static_site (empty_request\<lparr>r_method := ''GET'', r_path := ''/a.php''\<rparr>) empty_site_cache) = RunPhp ''a.php'' \<and>
    rpsiod_php_path_is_php ''a.php''"
proof -
  let ?env = "demo_env\<lparr>e_open := \<lambda>_ p. if p = ''a.php'' then Inr demo_file else Inl ENOENT\<rparr>"
  let ?q = "empty_request\<lparr>r_method := ''GET'', r_path := ''/a.php''\<rparr>"
  let ?a = "serve_static_action ?env demo_static_cfg demo_static_site ?q empty_site_cache"
  have open_demo: "e_open ?env demo_static_site ''a.php'' = Inr demo_file" "st_kind (f_stat demo_file) = Regular"
    by (simp_all add: demo_file_def)
  have req: "r_method ?q = ''GET''" "r_path ?q = ''/a.php''" "r_content_length ?q = 0"
    by (simp_all add: empty_request_def)
  have cfg: "\<not> site_maintenance_enabled demo_static_site" "rpsiod_site_allows_method demo_static_site ''GET''"
    "\<not> rpsiod_streq_ci (site_routing_type demo_static_site) ''php''" "\<not> request_path_has_trailing_slash ''/a.php''"
    "site_php_enabled demo_static_site"
    by code_simp+
  have "try_open_static ?env demo_static_cfg demo_static_site ''/a.php'' empty_site_cache =
      (Inr (''a.php'', demo_file), empty_site_cache)"
    by (simp add: try_open_static_def demo_php open_without_cache open_demo)
  moreover have "\<not> selected_path_blocked_direct_access demo_static_site ''a.php''"
    by (simp add: selected_path_blocked_direct_access_def demo_not_blocked)
  ultimately have "?a = (RunPhp ''a.php'', empty_site_cache)"
    unfolding serve_static_action_def req
    by (simp add: cfg demo_php demo_not_blocked site_path_is_directory_def open_demo static_routing_action_def
        selected_action_def run_php_def req)
  from php_run_allowed [OF this] this show ?thesis by simp
qed

section \<open>The directory redirect\<close>

text \<open>
  The location of a directory redirect starts with the path of the request.  A path that
  begins with two slashes is kept, so \<open>//dir\<close> is redirected to \<open>//dir/\<close>, which a client
  takes for a URL on the host \<open>dir\<close>.
\<close>

lemma directory_redirect_protocol_relative:
  assumes "r_path req = ''//dir''"
  shows "redirect_directory_slash env cl site req w = send_redirect env cl site 301 ''//dir/'' req w"
  using assms by (simp add: redirect_directory_slash_def Let_def)
end
