(* ===== verification/Proxy.thy ===== *)
theory Proxy
  imports Send
begin

text \<open>
  The reverse proxy: \<open>src/proxy.c\<close> (header filter, status of a response) and
  \<open>build_proxy_request\<close>, \<open>parse_proxy_status_line\<close>, \<open>websocket_tunnel\<close> and \<open>serve_proxy\<close> of
  \<open>src/server.c\<close>.  The upstream connection is an \<open>io\<close> state of its own, \<open>None\<close> when
  connecting failed.
\<close>

section \<open>Headers passed on\<close>

definition request_header_name_is :: "string \<Rightarrow> string \<Rightarrow> bool" where
  "request_header_name_is line name =
     (if length line \<le> length name \<or> line ! length name \<noteq> CHR '':'' then False
      else rpsiod_streq_ci (take (length name) line) name)"

definition proxy_own_names :: "string list" where
  "proxy_own_names = [''Host'', ''Connection'', ''Proxy-Connection'', ''X-Real-IP'', ''X-Forwarded-For'',
     ''X-Forwarded-Proto'']"

definition rpsiod_proxy_skip_header :: "string \<Rightarrow> bool" where
  "rpsiod_proxy_skip_header line = list_ex (request_header_name_is line) proxy_own_names"

text \<open>The lines of the header region; what follows its last CRLF is not visited.\<close>

function proxy_lines :: "string \<Rightarrow> string list" where
  "proxy_lines p =
     (case memmem CRLF p of None \<Rightarrow> [] | Some (line, rest) \<Rightarrow> line # proxy_lines (drop 2 rest))"
  by pat_completeness auto
termination
  by (relation "measure length") (auto dest!: memmem_Some simp: starts_with_iff)

declare proxy_lines.simps [simp del]

definition proxy_passes :: "string \<Rightarrow> bool" where
  "proxy_passes line \<longleftrightarrow> line \<noteq> [] \<and> \<not> rpsiod_proxy_skip_header line"

fun append_lines :: "nat \<Rightarrow> string \<Rightarrow> string list \<Rightarrow> string option" where
  "append_lines out_len out [] = Some out"
| "append_lines out_len out (l # ls) =
     (if \<not> proxy_passes l then append_lines out_len out ls
      else if out_len \<le> length out + length l + 2 then None
      else append_lines out_len (out @ l @ CRLF) ls)"

definition proxy_request_line :: "http_request \<Rightarrow> string" where
  "proxy_request_line req = r_method req @ '' '' @ r_path req @ '' HTTP/1.1''"

definition proxy_own_fields :: "site_config \<Rightarrow> http_request \<Rightarrow> (string \<times> string) list" where
  "proxy_own_fields site req =
     [(''Host'', if site_proxy_pass_host site \<and> r_host req \<noteq> [] then r_host req else site_proxy_host site),
      (''Connection'', if r_upgrade_websocket req \<and> site_proxy_websocket site then ''Upgrade'' else ''close'')]"

definition proxy_forward_fields :: "client \<Rightarrow> site_config \<Rightarrow> (string \<times> string) list" where
  "proxy_forward_fields cl site =
     field_if (site_proxy_real_ip site) ''X-Real-IP'' (c_client_ip cl) @
     field_if (site_proxy_forwarded_for site) ''X-Forwarded-For'' (c_client_ip cl) @
     field_if (site_proxy_forwarded_proto site) ''X-Forwarded-Proto''
       (if c_local_port cl = site_https_port site then ''https'' else ''http'')"

text \<open>The header region of the raw request: behind the first CRLF, before the final blank line.\<close>

definition header_region :: "http_request \<Rightarrow> string \<Rightarrow> string option" where
  "header_region req raw =
     (case memmem CRLF raw of
        None \<Rightarrow> None
      | Some (line, _) \<Rightarrow>
          if r_header_len req < 4 \<or> length raw < r_header_len req then None
          else Some (drop (length line + 2) (take (r_header_len req - 4) raw)))"

definition build_proxy_request ::
  "nat \<Rightarrow> client \<Rightarrow> site_config \<Rightarrow> http_request \<Rightarrow> string \<Rightarrow> string \<Rightarrow> string option" where
  "build_proxy_request out_len cl site req raw body =
     (let start = proxy_request_line req @ CRLF in
      if out_len \<le> length start then None
      else case append_headers out_len start (proxy_own_fields site req) of
        None \<Rightarrow> None
      | Some o1 \<Rightarrow>
          (case header_region req raw of
             None \<Rightarrow> None
           | Some region \<Rightarrow>
               (case append_lines out_len o1 (proxy_lines region) of
                  None \<Rightarrow> None
                | Some o2 \<Rightarrow>
                    (case append_headers out_len o2 (proxy_forward_fields cl site) of
                       None \<Rightarrow> None
                     | Some o3 \<Rightarrow>
                         if out_len \<le> length o3 + 2 + length body then None else Some (o3 @ CRLF @ body)))))"

section \<open>The response\<close>

definition rpsiod_proxy_parse_response_status :: "string \<Rightarrow> int" where
  "rpsiod_proxy_parse_response_status buf =
     (if length buf < 12 \<or> \<not> starts_with buf ''HTTP/'' then 502
      else case strchr (CHR '' '') buf of
        None \<Rightarrow> 502
      | Some (a, rest) \<Rightarrow>
          if length rest < 4 then 502
          else let status = atoi (cstr (tl rest)) in if status > 0 then status else 502)"

definition parse_proxy_status_line :: "string \<Rightarrow> int option" where
  "parse_proxy_status_line buf =
     (let line = (case memmem CRLF buf of Some (l, _) \<Rightarrow> l | None \<Rightarrow> buf) in
      if length line < 12 \<or> \<not> starts_with line ''HTTP/'' then None
      else case strchr (CHR '' '') line of
        None \<Rightarrow> None
      | Some (_, rest) \<Rightarrow>
          (case tl rest of
             a # b # c # more_line \<Rightarrow>
               if 49 \<le> uchar a \<and> uchar a \<le> 53 \<and> is_digit b \<and> is_digit c \<and>
                  (more_line = [] \<or> hd more_line = CHR '' '')
               then Some (int (nat_of_digits [a, b, c])) else None
           | _ \<Rightarrow> None))"

text \<open>
  The tunnel: \<open>ready\<close> lists what \<open>select\<close> reports (client readable, upstream readable).  The
  code returned comes with both connections: \<open>0\<close> when one side ended, \<open>-1\<close> when a write
  failed, and none when the list ends and the tunnel is left waiting in \<open>select\<close>.
\<close>

definition client_read :: "nat \<Rightarrow> io \<Rightarrow> string option \<times> io" where
  "client_read want w =
     (case sys_read want w of ((Count n, s), w') \<Rightarrow> (if s = [] then None else Some s, w') | ((_, _), w') \<Rightarrow> (None, w'))"

definition TUNNEL_BUF :: nat where "TUNNEL_BUF = 16384"

fun websocket_tunnel :: "bool \<Rightarrow> (bool \<times> bool) list \<Rightarrow> io \<Rightarrow> io \<Rightarrow> int option \<times> io \<times> io" where
  "websocket_tunnel tls [] w up = (None, w, up)"
| "websocket_tunnel tls ((from_client, from_upstream) # ready) w up =
     (let (end1, w1, up1) =
        (if from_client then
           (case client_read TUNNEL_BUF w of
              (None, w') \<Rightarrow> (Some 0, w', up)
            | (Some s, w') \<Rightarrow> (case rpsiod_write_all s up of (ok, up') \<Rightarrow> (if ok then None else Some (-1), w', up')))
         else (None, w, up)) in
      if end1 \<noteq> None then (end1, w1, up1)
      else let (end2, w2, up2) =
        (if from_upstream then
           (case client_read TUNNEL_BUF up1 of
              (None, up') \<Rightarrow> (Some 0, w1, up')
            | (Some s, up') \<Rightarrow> (case client_write_all tls s w1 of (ok, w') \<Rightarrow> (if ok then None else Some (-1), w', up')))
         else (None, w1, up1)) in
      if end2 \<noteq> None then (end2, w2, up2) else websocket_tunnel tls ready w2 up2)"

definition FIRST_RESPONSE :: nat where "FIRST_RESPONSE = 8192"
definition PROXY_BUF :: nat where "PROXY_BUF = 65536"

lemma sys_read_facts:
  assumes "sys_read want w = ((r, s), w')"
  shows "io_in w = s @ io_in w' \<and> length (io_events w') \<le> length (io_events w) \<and> io_sent w' = io_sent w \<and>
    ((\<forall>n. r \<noteq> Count n) \<longrightarrow> s = [] \<and> length (io_events w') < length (io_events w))"
proof -
  obtain y w0 where c: "sys_count (min want (length (io_in w))) w = (y, w0)" by fastforce
  show ?thesis
    using assms c sys_count_le [OF c] by (auto simp: sys_read_def split: sys_result.splits)
qed

lemma sys_read_progress:
  assumes "sys_read want w = ((r, s), w')" and "s \<noteq> [] \<or> (\<forall>n. r \<noteq> Count n)"
  shows "length (io_in w') + length (io_events w') < length (io_in w) + length (io_events w)"
proof -
  note f = sys_read_facts [OF assms(1)]
  then have "length (io_in w) = length s + length (io_in w')" by (metis length_append)
  with f assms(2) show ?thesis by (cases s) auto
qed

text \<open>
  The read loop; \<open>first\<close> holds what was read before the status line is complete, \<open>None\<close>
  afterwards.
\<close>

function proxy_loop ::
  "host_env \<Rightarrow> client \<Rightarrow> site_config \<Rightarrow> http_request \<Rightarrow> (bool \<times> bool) list \<Rightarrow> string option \<Rightarrow> int \<Rightarrow> io \<Rightarrow> io \<Rightarrow>
     bool \<times> io" where
  "proxy_loop env cl site req ready first status up w =
     (let tunnel = r_upgrade_websocket req \<and> site_proxy_websocket site in
      case sys_read PROXY_BUF up of
        ((EINTR, _), up') \<Rightarrow> proxy_loop env cl site req ready first status up' w
      | ((EAGAIN _, _), _) \<Rightarrow> send_error_page env cl site 504 req w
      | ((EIO, _), _) \<Rightarrow> send_error_page env cl site 502 req w
      | ((Count _, s), up') \<Rightarrow>
          if s = [] then (if first \<noteq> None then send_error_page env cl site 502 req w else (True, w))
          else (case first of
            Some acc \<Rightarrow>
              if FIRST_RESPONSE - length acc < length s then send_error_page env cl site 502 req w
              else let got = acc @ s in
                if memmem CRLF got = None then proxy_loop env cl site req ready (Some got) status up' w
                else (case parse_proxy_status_line got of
                  None \<Rightarrow> send_error_page env cl site 502 req w
                | Some st \<Rightarrow>
                    (case client_write_all (c_tls cl) got w of (ok, w1) \<Rightarrow>
                       if \<not> ok then (False, w1)
                       else if tunnel \<and> st = 101 then (True, fst (snd (websocket_tunnel (c_tls cl) ready w1 up')))
                       else proxy_loop env cl site req ready None st up' w1))
          | None \<Rightarrow>
              (case client_write_all (c_tls cl) s w of (ok, w1) \<Rightarrow>
                 if \<not> ok then (False, w1)
                 else if tunnel \<and> status = 101 then (True, fst (snd (websocket_tunnel (c_tls cl) ready w1 up')))
                 else proxy_loop env cl site req ready None status up' w1)))"
  by pat_completeness auto
termination
  by (relation "measure (\<lambda>(env, cl, site, req, ready, first, status, up, w). length (io_in up) + length (io_events up))")
     (auto dest: sys_read_progress [OF sym])

declare proxy_loop.simps [simp del]

definition serve_proxy ::
  "host_env \<Rightarrow> client \<Rightarrow> site_config \<Rightarrow> http_request \<Rightarrow> string \<Rightarrow> string \<Rightarrow> io option \<Rightarrow> (bool \<times> bool) list \<Rightarrow>
     io \<Rightarrow> bool \<times> io" where
  "serve_proxy env cl site req raw body connection ready w =
     (case connection of
        None \<Rightarrow> send_error_page env cl site 502 req w
      | Some up \<Rightarrow>
          (case build_proxy_request (r_header_len req + length body + 4096) cl site req raw body of
             None \<Rightarrow> send_error_page env cl site 502 req w
           | Some text \<Rightarrow>
               (case rpsiod_write_all text up of (ok, up') \<Rightarrow>
                  if \<not> ok then send_error_page env cl site 502 req w
                  else proxy_loop env cl site req ready (Some []) 502 up' w)))"

section \<open>What the upstream server reads\<close>

lemma append_lines_text:
  "append_lines n out ls = Some b \<Longrightarrow> b = out @ lines_text (filter proxy_passes ls)"
  by (induction n out ls rule: append_lines.induct) (auto split: if_splits)

lemma build_proxy_request_text:
  assumes "build_proxy_request n cl site req raw body = Some t"
  shows "\<exists>region. header_region req raw = Some region \<and>
    t = lines_text (proxy_request_line req # map header_line (proxy_own_fields site req) @
          filter proxy_passes (proxy_lines region) @ map header_line (proxy_forward_fields cl site)) @ CRLF @ body"
proof -
  obtain o1 region o2 o3 where
    "append_headers n (proxy_request_line req @ CRLF) (proxy_own_fields site req) = Some o1"
    "header_region req raw = Some region" "append_lines n o1 (proxy_lines region) = Some o2"
    "append_headers n o2 (proxy_forward_fields cl site) = Some o3" "t = o3 @ CRLF @ body"
    using assms by (auto simp: build_proxy_request_def Let_def split: if_splits option.splits)
  note parts = this
  have "o3 = o2 @ lines_text (map header_line (proxy_forward_fields cl site))"
    "o2 = o1 @ lines_text (filter proxy_passes (proxy_lines region))"
    "o1 = (proxy_request_line req @ CRLF) @ lines_text (map header_line (proxy_own_fields site req))"
    using append_headers_text [OF parts(4)] append_lines_text [OF parts(3)] append_headers_text [OF parts(1)]
    by simp_all
  with parts(2,5) show ?thesis by simp
qed

text \<open>
  The loop stops at the line without a CRLF behind it inside the region, so the last header
  of a request is never passed on.
\<close>

lemma proxy_drops_last_header: "list_all line_ok ls \<Longrightarrow> proxy_lines (join_lines ls) = butlast ls"
proof (induction ls rule: join_lines.induct)
  case 1
  show ?case by (simp add: proxy_lines.simps)
next
  case (2 l)
  then have "memmem CRLF l = None" by (simp add: line_ok_def memmem_CRLF_None)
  then show ?case by (simp add: proxy_lines.simps [of l])
next
  case (3 l l' ls)
  then have "CR \<notin> set l" by (simp add: line_ok_def)
  then have m: "memmem CRLF (l @ CRLF @ join_lines (l' # ls)) = Some (l, CRLF @ join_lines (l' # ls))"
    using memmem_CRLF_append [of l "join_lines (l' # ls)"] by simp
  have "proxy_lines (l @ CRLF @ join_lines (l' # ls)) = l # proxy_lines (join_lines (l' # ls))"
    unfolding proxy_lines.simps [of "l @ CRLF @ join_lines (l' # ls)"] m by simp
  with 3 show ?case
    by (simp only: join_lines.simps list.pred_inject(2) butlast.simps list.distinct if_False)
qed

end
