(* ===== verification/RequestText.thy ===== *)
theory RequestText
  imports HttpProps
begin

text \<open>
  Requests the program writes itself, read back by its own parser (\<open>rpsiod_http_parse_request\<close>
  of \<open>src/http.c\<close>): a request line and header lines joined by CRLF reach the header loop line
  by line.
\<close>

section \<open>Lines joined by CRLF\<close>

fun crlf_lines :: "string list \<Rightarrow> string" where
  "crlf_lines [] = []"
| "crlf_lines [l] = l"
| "crlf_lines (l # l' # ls) = l @ CRLF @ crlf_lines (l' # ls)"

definition plain_line :: "string \<Rightarrow> bool" where
  "plain_line l \<longleftrightarrow> l \<noteq> [] \<and> CR \<notin> set l \<and> LF \<notin> set l"

lemma crlf_lines_Cons: "ls \<noteq> [] \<Longrightarrow> crlf_lines (l # ls) = l @ CRLF @ crlf_lines ls"
  by (cases ls) auto

lemma memmem_skip_line:
  "CR \<notin> set a \<Longrightarrow> memmem (CR # p) (a @ s) = map_option (\<lambda>(x, y). (a @ x, y)) (memmem (CR # p) s)"
  by (induction a) (auto simp: starts_with_def option.map_comp comp_def option.map_id [unfolded id_def] id_def split: option.splits)

lemma memmem_skip_CRLF:
  "c \<noteq> CR \<Longrightarrow> memmem (CRLF @ CRLF) (CR # LF # c # s) =
     map_option (\<lambda>(x, y). (CR # LF # x, y)) (memmem (CRLF @ CRLF) (c # s))"
  by (auto simp: starts_with_def split: option.splits)

lemma crlf_lines_end:
  assumes "ls \<noteq> []" and "list_all plain_line ls"
  shows "memmem (CRLF @ CRLF) (crlf_lines ls @ CRLF @ CRLF @ rest) = Some (crlf_lines ls, CRLF @ CRLF @ rest)"
  using assms
proof (induction ls rule: crlf_lines.induct)
  case (2 l)
  then show ?case
    using memmem_skip_line [of l "LF # CRLF" "CRLF @ CRLF @ rest"] by (simp add: plain_line_def starts_with_def)
next
  case (3 l l' ls)
  then have IH: "memmem (CRLF @ CRLF) (crlf_lines (l' # ls) @ CRLF @ CRLF @ rest) =
      Some (crlf_lines (l' # ls), CRLF @ CRLF @ rest)" and l: "CR \<notin> set l"
    by (simp_all add: plain_line_def)
  obtain c s where c: "crlf_lines (l' # ls) = c # s" "c \<noteq> CR"
    using 3(3) by (cases l'; cases ls) (auto simp: plain_line_def)
  show ?case
    using memmem_skip_line [OF l, of "LF # CRLF" "CRLF @ crlf_lines (l' # ls) @ CRLF @ CRLF @ rest"]
      memmem_skip_CRLF [OF c(2), of "s @ CRLF @ CRLF @ rest"] IH c(1) by simp
qed simp

lemma header_lines_crlf: "list_all plain_line ls \<Longrightarrow> header_lines (crlf_lines ls) = ls"
proof (induction ls rule: crlf_lines.induct)
  case 1
  show ?case by (simp add: header_lines.simps)
next
  case (2 l)
  then show ?case by (subst header_lines.simps) (simp add: plain_line_def memmem_CRLF_None)
next
  case (3 l l' ls)
  then show ?case by (subst header_lines.simps) (simp add: plain_line_def memmem_CRLF_append)
qed

lemma valid_newlines_skip:
  "CR \<notin> set a \<Longrightarrow> LF \<notin> set a \<Longrightarrow> valid_header_block_newlines (a @ s) = valid_header_block_newlines s"
  by (induction a) auto

lemma valid_newlines_join:
  "list_all plain_line ls \<Longrightarrow> valid_header_block_newlines (crlf_lines ls @ CRLF @ CRLF)"
  by (induction ls rule: crlf_lines.induct) (simp_all add: plain_line_def valid_newlines_skip)

section \<open>Parsing them\<close>

lemma token_char_range: "valid_token_char c \<Longrightarrow> 32 < uchar c \<and> uchar c < 127"
  by (auto simp: valid_token_char_def is_digit_def is_upper_def is_lower_def uchar_def)

lemma valid_method_chars: "valid_method m \<Longrightarrow> c \<in> set m \<Longrightarrow> 32 < uchar c \<and> uchar c < 127"
  by (auto simp: valid_method_def list_all_iff token_char_range split: if_splits)

lemma parse_request_text:
  assumes "list_all plain_line (line # hs)" and "length (crlf_lines (line # hs)) + 4 \<le> 16384"
    and "length line \<le> 2048" and "parse_request_line line 32 HOST_LEN = Some rl"
  shows "rpsiod_http_parse_request (crlf_lines (line # hs) @ CRLF @ CRLF @ rest) =
     (case parse_header_lines (start_state (start_request (length (crlf_lines (line # hs)) + 4) rl)) hs of
        Inl st \<Rightarrow> Malformed (ps_req st)
      | Inr st \<Rightarrow> finish_request rl st)"
proof -
  have m: "memmem (CRLF @ CRLF) (crlf_lines (line # hs) @ CRLF @ CRLF @ rest) =
      Some (crlf_lines (line # hs), CRLF @ CRLF @ rest)"
    using crlf_lines_end [OF _ assms(1)] by simp
  have t: "take (length (crlf_lines (line # hs)) + 4) (crlf_lines (line # hs) @ CRLF @ CRLF @ rest) =
      crlf_lines (line # hs) @ CRLF @ CRLF" by simp
  have l: "memmem CRLF (crlf_lines (line # hs) @ CRLF @ CRLF @ rest) = Some (line, r)"
    if "crlf_lines (line # hs) @ CRLF @ CRLF @ rest = line @ r" and "starts_with r CRLF" for r
    using that assms(1) memmem_CRLF_append by (auto simp: plain_line_def starts_with_iff)
  have d: "header_lines (drop (length line + 2) (crlf_lines (line # hs))) = hs"
    using assms(1) header_lines_crlf [of hs] header_lines_crlf [of "[]"] by (cases hs) auto
  obtain r where r: "crlf_lines (line # hs) @ CRLF @ CRLF @ rest = line @ r" "starts_with r CRLF"
    by (cases hs) (auto simp: starts_with_iff)
  show ?thesis
    unfolding rpsiod_http_parse_request_def m
    using assms(2-4) valid_newlines_join [OF assms(1)] d l [OF r] t by (simp add: Let_def)
qed

lemma origin_form_target: "\<not> starts_with_ci (CHR ''/'' # t) (CHR ''h'' # p)"
proof -
  have "c_tolower (CHR ''/'') \<noteq> c_tolower (CHR ''h'')" by code_simp
  then show ?thesis by (simp add: starts_with_ci_def rpsiod_streq_ci.simps)
qed

lemma parse_request_line_text:
  assumes "valid_method m" and "valid_request_target_bytes (CHR ''/'' # t)"
  shows "parse_request_line (m @ '' '' @ CHR ''/'' # t @ '' HTTP/1.1'') 32 HOST_LEN =
     Some \<lparr>rl_method = m, rl_path = CHR ''/'' # t, rl_version = ''HTTP/1.1'', rl_authority = [],
           rl_absolute_form = False\<rparr>"
proof -
  have m: "CHR '' '' \<notin> set m" "list_all (\<lambda>ch. \<not> (uchar ch < 32 \<or> uchar ch = 127)) m"
    using valid_method_chars [OF assms(1)] by (force simp: uchar_def, force simp: list_all_iff)
  have t: "CHR '' '' \<notin> set t" "list_all (\<lambda>ch. \<not> (uchar ch < 32 \<or> uchar ch = 127)) t"
    using assms(2) by (auto simp: valid_request_target_bytes_def list_all_iff uchar_def split: if_splits)
  have p: "parse_request_target (CHR ''/'' # t) PATH_LEN HOST_LEN = Some (CHR ''/'' # t, [], False)"
    using assms(2) by (auto simp: parse_request_target_def origin_form_target valid_request_target_bytes_def
        split: if_splits)
  have v: "rpsiod_streq_ci ''HTTP/1.1'' ''HTTP/1.1''" by code_simp
  show ?thesis
    using m t p v assms(1) unfolding parse_request_line_def
    by (simp add: strchr_append [of "CHR '' ''" m] strchr_append [of "CHR '' ''" "CHR ''/'' # t", simplified] Let_def uchar_def)
qed

text \<open>An origin-form request over plain header lines reaches the header loop as written.\<close>

definition origin_line :: "string \<Rightarrow> string \<Rightarrow> request_line" where
  "origin_line m path = \<lparr>rl_method = m, rl_path = path, rl_version = ''HTTP/1.1'', rl_authority = [],
     rl_absolute_form = False\<rparr>"

lemma parse_written_request:
  assumes "valid_method m" and "path = CHR ''/'' # p" and "valid_request_target_bytes path"
    and "length m + length path + 10 \<le> 2048" and "list_all plain_line hs"
    and "length (crlf_lines ((m @ '' '' @ path @ '' HTTP/1.1'') # hs)) + 4 = n" and "n \<le> 16384"
  shows "rpsiod_http_parse_request (crlf_lines ((m @ '' '' @ path @ '' HTTP/1.1'') # hs) @ CRLF @ CRLF @ rest) =
     (case parse_header_lines (start_state (start_request n (origin_line m path))) hs of
        Inl st \<Rightarrow> Malformed (ps_req st)
      | Inr st \<Rightarrow> finish_request (origin_line m path) st)"
proof -
  let ?line = "m @ '' '' @ path @ '' HTTP/1.1''"
  have rl: "parse_request_line ?line 32 HOST_LEN = Some (origin_line m path)"
    using parse_request_line_text [of m p] assms(1-3) by (simp add: origin_line_def)
  have "CR \<notin> set m" "LF \<notin> set m"
    using valid_method_chars [OF assms(1)] by (force simp: uchar_def)+
  moreover have "CR \<notin> set path" "LF \<notin> set path"
    using assms(3) by (auto simp: valid_request_target_bytes_def list_all_iff uchar_def split: if_splits)
  ultimately have pl: "list_all plain_line (?line # hs)"
    using assms(5) by (simp add: plain_line_def)
  have "length ?line \<le> 2048" using assms(4) by simp
  from parse_request_text [OF pl _ this rl] show ?thesis
    unfolding assms(6) using assms(7) by simp
qed

section \<open>Header lines\<close>

lemma trim_ends: "trim P s = [] \<or> \<not> P (hd (trim P s)) \<and> \<not> P (last (trim P s))"
proof (cases "trim P s")
  case (Cons c t)
  obtain u where u: "dropWhile P s = trim P s @ u" using rtrim_decomp [of "dropWhile P s" P] by (auto simp: trim_def)
  then have "hd (dropWhile P s) = c" "dropWhile P s \<noteq> []" by (simp_all add: Cons)
  then have "\<not> P c" using hd_dropWhile by metis
  moreover have "\<not> P (last (trim P s))" using last_rtrim [of P "dropWhile P s"] Cons unfolding trim_def by (metis list.distinct(1))
  ultimately show ?thesis using Cons by simp
qed simp

lemma trim_fixed: "s = [] \<or> \<not> P (hd s) \<and> \<not> P (last s) \<Longrightarrow> trim P s = s"
  by (cases s) (auto simp: trim_def rtrim_id)

lemma trim_idem [simp]: "trim P (trim P s) = trim P s"
  by (rule trim_fixed [OF trim_ends])

lemma trim_skip: "P c \<Longrightarrow> trim P (c # s) = trim P s"
  by (simp add: trim_def)

lemma colon_not_token: "\<not> valid_token_char (CHR '':'')"
  by code_simp

lemma parse_field_line:
  assumes "valid_header_name name" and "length name < 128" and "valid_header_value v" and "length v < 800"
    and "ps_header_count st < 100"
  shows "parse_header_line st (name @ '': '' @ v) =
     apply_header (st\<lparr>ps_header_count := ps_header_count st + 1\<rparr>) name (trim is_ows v)"
proof -
  have "CHR '':'' \<notin> set name"
    using assms(1) colon_not_token by (auto simp: valid_header_name_def list_all_iff split: if_splits)
  then have s: "strchr (CHR '':'') (name @ CHR '':'' # CHR '' '' # v) = Some (name, CHR '':'' # CHR '' '' # v)"
    by (rule strchr_append)
  have v: "valid_header_value (CHR '' '' # v)"
    using assms(3) by (simp add: valid_header_value_def header_value_char_def uchar_def)
  have t: "copy_trimmed_value 1024 (CHR '' '' # v) = Some (trim is_ows v)"
    using length_trim [of is_ows v] assms(4) by (simp add: copy_trimmed_value_def trim_skip ctype_simps Let_def)
  show ?thesis
    using assms s v t by (simp add: parse_header_line_def Let_def)
qed

text \<open>A host value: the characters that are trimmed are blanks, the others are those of a host.\<close>

lemma host_value_chars:
  assumes "parse_host_value n a = Some h"
  shows "valid_header_value a" and "parse_host_value n (trim is_ows a) = Some h"
    and "a \<noteq> []" and "CR \<notin> set a" and "LF \<notin> set a"
proof -
  have t: "list_all host_char_ok (trim is_ows a)" "trim is_ows a \<noteq> []"
    using assms by (auto simp: parse_host_value_def copy_trimmed_value_def Let_def split: option.splits if_splits)
  have c: "is_ows c \<or> host_char_ok c" if "c \<in> set a" for c
  proof -
    obtain u where u: "dropWhile is_ows a = trim is_ows a @ u" "\<forall>c \<in> set u. is_ows c"
      using rtrim_decomp [of "dropWhile is_ows a" is_ows] by (auto simp: trim_def)
    have "c \<in> set (takeWhile is_ows a @ dropWhile is_ows a)" using that by simp
    then have "c \<in> set (takeWhile is_ows a) \<or> c \<in> set (trim is_ows a) \<or> c \<in> set u"
      unfolding u(1) by simp
    with t(1) u(2) show ?thesis by (auto simp: list_all_iff dest: set_takeWhileD)
  qed
  have h: "header_value_char c \<and> c \<noteq> CR \<and> c \<noteq> LF" if "is_ows c \<or> host_char_ok c" for c
    using that by (auto simp: ctype_simps host_char_ok_def header_value_char_def uchar_def)
  show "valid_header_value a" unfolding valid_header_value_def list_all_iff using c h by blast
  show "CR \<notin> set a" "LF \<notin> set a" using c h by blast+
  show "a \<noteq> []" using t(2) by (auto simp: trim_def)
  show "parse_host_value n (trim is_ows a) = Some h"
    using assms by (simp add: parse_host_value_def copy_trimmed_value_def)
qed

lemma parse_host_line:
  assumes "parse_host_value HOST_LEN a = Some h" and "length a < 800" and "ps_header_count st < 100"
    and "\<not> ps_have_host st"
  shows "parse_header_line st (''Host: '' @ a) =
     Inr (upd_req (\<lambda>r. r\<lparr>r_host := h\<rparr>) (st\<lparr>ps_header_count := ps_header_count st + 1, ps_have_host := True\<rparr>))"
proof -
  have n: "valid_header_name ''Host''" by code_simp
  show ?thesis
    using parse_field_line [OF n _ host_value_chars(1) [OF assms(1)] assms(2,3)] host_value_chars(2) [OF assms(1)] assms(4)
    by (simp add: apply_header_def)
qed

text \<open>The fixed header lines the program writes.\<close>

definition known_headers :: "string list" where
  "known_headers = [''Host'', ''Accept-Encoding'', ''If-None-Match'', ''If-Modified-Since'', ''Range'',
     ''Content-Length'', ''Transfer-Encoding'', ''Connection'', ''Upgrade'', ''X-Rpsiod-Internal-Scheme'',
     ''X-Rpsiod-Trace'']"

lemma apply_unknown:
  assumes "list_all (\<lambda>k. \<not> rpsiod_streq_ci name k) known_headers"
  shows "apply_header st name v = Inr st"
  using assms by (simp add: known_headers_def apply_header_def)

lemma apply_connection_close:
  "apply_header st ''Connection'' ''close'' = Inr (upd_req (\<lambda>r. r\<lparr>r_keep_alive := False\<rparr>) st)"
proof -
  have "list_all (\<lambda>k. \<not> rpsiod_streq_ci ''Connection'' k) (take 7 known_headers)"
    "header_token_present ''close'' ''close''" "\<not> header_token_present ''close'' ''upgrade''" by code_simp+
  then show ?thesis by (simp add: apply_header_def known_headers_def)
qed

lemma apply_internal_scheme:
  "apply_header st ''X-Rpsiod-Internal-Scheme'' ''https'' = Inr (upd_req (\<lambda>r. r\<lparr>r_internal_https := True\<rparr>) st)"
proof -
  have "list_all (\<lambda>k. \<not> rpsiod_streq_ci ''X-Rpsiod-Internal-Scheme'' k) (take 9 known_headers)" by code_simp
  then show ?thesis by (simp add: apply_header_def known_headers_def)
qed

lemma apply_trace:
  "apply_header st ''X-Rpsiod-Trace'' ''1'' = Inr (upd_req (\<lambda>r. r\<lparr>r_trace_request := True\<rparr>) st)"
proof -
  have "list_all (\<lambda>k. \<not> rpsiod_streq_ci ''X-Rpsiod-Trace'' k) (take 10 known_headers)" by code_simp
  then show ?thesis by (simp add: apply_header_def known_headers_def)
qed

end
