(* ===== verification/ProxyRequest.thy ===== *)
theory ProxyRequest
  imports Proxy RequestText
begin

text \<open>
  What the upstream server reads of a proxied request.  The text written by
  \<open>build_proxy_request\<close> (\<open>src/server.c\<close>, model in \<open>Proxy\<close>) is split at the CRLFs and the
  name of a field is read up to its first colon, whatever its case; for every request the
  parser of \<open>src/http.c\<close> accepted, the headers the proxy speaks for itself are its own.
\<close>

section \<open>Accepted requests hold no bare CR\<close>

lemma memmem_CRLF_split:
  assumes "memmem CRLF p = Some (l, rest)"
  shows "p = l @ CRLF @ drop 2 rest" and "rest = CRLF @ drop 2 rest" and "memmem CRLF l = None"
proof -
  show r: "rest = CRLF @ drop 2 rest" and "p = l @ CRLF @ drop 2 rest"
    using memmem_Some [OF assms] by (auto simp: starts_with_iff)
  show "memmem CRLF l = None"
  proof (rule ccontr)
    assume "memmem CRLF l \<noteq> None"
    then obtain a b where m: "memmem CRLF l = Some (a, b)" by auto
    have "memmem CRLF p = Some (a, b @ rest)"
      using memmem_append [OF m, of rest] memmem_Some [OF assms] by simp
    then have "l = a" using assms by simp
    with memmem_length [OF m] show False by simp
  qed
qed

lemma newlines_line:
  "valid_header_block_newlines (l @ CRLF @ s) \<Longrightarrow> memmem CRLF l = None \<Longrightarrow>
     CR \<notin> set l \<and> valid_header_block_newlines s"
proof (induction l)
  case (Cons c l)
  then show ?case by (cases l) (auto simp: starts_with_def split: if_splits option.splits)
qed simp

lemma proxy_lines_no_CR:
  "valid_header_block_newlines (p @ CRLF @ t) \<Longrightarrow> l \<in> set (proxy_lines p) \<Longrightarrow> CR \<notin> set l"
proof (induction p rule: proxy_lines.induct)
  case (1 p)
  show ?case
  proof (cases "memmem CRLF p")
    case None
    with 1(3) show ?thesis by (simp add: proxy_lines.simps [of p])
  next
    case (Some a)
    obtain line rest where m: "memmem CRLF p = Some (line, rest)" using Some by (cases a) simp
    have ls: "proxy_lines p = line # proxy_lines (drop 2 rest)"
      by (simp add: proxy_lines.simps [of p] m)
    have "valid_header_block_newlines (line @ CRLF @ drop 2 rest @ CRLF @ t)"
      using 1(2) memmem_CRLF_split(1) [OF m] by (metis append.assoc)
    from newlines_line [OF this memmem_CRLF_split(3) [OF m]] 1(1) [OF m refl] 1(3) ls
    show ?thesis by auto
  qed
qed

lemma parsed_newlines:
  assumes "rpsiod_http_parse_request raw = Parsed req"
  obtains head line rest where "take (length head + 4) raw = head @ CRLF @ CRLF"
    and "valid_header_block_newlines (head @ CRLF @ CRLF)"
    and "memmem CRLF raw = Some (line, rest)" and "r_header_len req = length head + 4"
proof -
  from parse_request_Parsed [OF assms] obtain head rest line rest' rl st where
    m: "memmem (CRLF @ CRLF) raw = Some (head, rest)" "memmem CRLF raw = Some (line, rest')"
    and ls: "parse_header_lines (start_state (start_request (length head + 4) rl))
       (header_lines (drop (length line + 2) head)) = Inr st"
    and r: "req = (ps_req st)\<lparr>r_upgrade_websocket := ps_connection_upgrade st \<and> ps_upgrade_websocket st\<rparr>"
    by metis
  have t: "take (length head + 4) raw = head @ CRLF @ CRLF"
    using memmem_Some [OF m(1)] by (auto simp: starts_with_iff)
  have "valid_header_block_newlines (take (length head + 4) raw)"
    using assms m(1) by (auto simp: rpsiod_http_parse_request_def Let_def split: if_splits)
  moreover have "r_header_len req = length head + 4"
    using parse_header_lines_header_len [OF ls] r
    by (simp add: start_state_def start_request_def empty_request_def)
  ultimately show thesis using that [OF t _ m(2)] t by simp
qed

lemma region_lines_no_CR:
  assumes "rpsiod_http_parse_request raw = Parsed req" and "header_region req raw = Some region"
    and "l \<in> set (proxy_lines region)"
  shows "CR \<notin> set l"
proof -
  obtain head line rest where h: "take (length head + 4) raw = head @ CRLF @ CRLF"
    "valid_header_block_newlines (head @ CRLF @ CRLF)" "memmem CRLF raw = Some (line, rest)"
    "r_header_len req = length head + 4"
    by (rule parsed_newlines [OF assms(1)])
  have head: "take (length head) raw = head"
    using h(1) by (metis append_eq_conv_conj length_append take_take min.absorb1 le_add1)
  then have region: "region = drop (length line + 2) head"
    using assms(2) h(3,4) by (auto simp: header_region_def split: if_splits)
  show ?thesis
  proof (cases "length line + 2 \<le> length head")
    case True
    note raw = memmem_CRLF_split [OF h(3)]
    have "take (length line + 2) head = take (length line + 2) raw"
      using True head by (metis min.absorb1 take_take)
    also have "\<dots> = line @ CRLF" by (subst raw(1)) simp
    finally have "head = line @ CRLF @ region"
      unfolding region by (metis append_assoc append_take_drop_id)
    then have "valid_header_block_newlines (line @ CRLF @ region @ CRLF @ CRLF)" using h(2) by simp
    from newlines_line [OF this raw(3)] have "valid_header_block_newlines (region @ CRLF @ CRLF)" by simp
    from proxy_lines_no_CR [OF this assms(3)] show ?thesis .
  next
    case False
    with region assms(3) show ?thesis by (simp add: proxy_lines.simps)
  qed
qed

lemma set_strip_host_port: "strip_host_port host = Some h \<Longrightarrow> host \<noteq> [] \<Longrightarrow> set h \<subseteq> insert (CHR '']'') (set host)"
  by (auto simp: strip_host_port_def Let_def strchr_def strrchr_def
      split: if_splits option.splits list.splits dest: set_takeWhileD)

lemma parse_host_value_no_CR:
  assumes "parse_host_value n v = Some h"
  shows "CR \<notin> set h"
proof -
  obtain host where "list_all host_char_ok host" "host \<noteq> []" "strip_host_port host = Some h"
    using assms by (auto simp: parse_host_value_def split: option.splits if_splits)
  moreover have "\<not> host_char_ok CR" by code_simp
  ultimately show ?thesis using set_strip_host_port by (auto simp: list_all_iff)
qed

lemma parsed_request_no_CR:
  assumes "rpsiod_http_parse_request raw = Parsed req"
  shows "CR \<notin> set (r_host req)" and "CR \<notin> set (r_method req)" and "CR \<notin> set (r_path req)"
proof -
  note fits = parsed_request_fits [OF assms, unfolded request_fits_def]
  have "\<not> valid_token_char CR" "\<not> 32 < uchar CR" by code_simp+
  with fits show "CR \<notin> set (r_method req)" "CR \<notin> set (r_path req)" by (auto simp: list_all_iff)
  from parse_request_Parsed [OF assms] obtain n rl ls st where
    ls: "parse_header_lines (start_state (start_request n rl)) ls = Inr st" and "ps_have_host st"
    and r: "req = (ps_req st)\<lparr>r_upgrade_websocket := ps_connection_upgrade st \<and> ps_upgrade_websocket st\<rparr>"
    by metis
  with parse_header_lines_framing [OF ls start_framing] have "\<exists>v. parse_host_value HOST_LEN v = Some (r_host req)"
    by (auto simp: framing_inv_def)
  then show "CR \<notin> set (r_host req)" using parse_host_value_no_CR by blast
qed

section \<open>The fields of the upstream request\<close>

lemma tolower_colon: "c_tolower c = CHR '':'' \<longleftrightarrow> c = CHR '':''"
  by (rule tolower_eq_non_letter) (simp_all add: is_lower_def is_upper_def uchar_def)

lemma name_is_iff:
  assumes "CHR '':'' \<notin> set n"
  shows "request_header_name_is l n \<longleftrightarrow>
    CHR '':'' \<in> set l \<and> map c_tolower (takeWhile (\<lambda>c. c \<noteq> CHR '':'') l) = map c_tolower n"
proof
  assume "request_header_name_is l n"
  then have r: "length n < length l" "l ! length n = CHR '':''" "map c_tolower (take (length n) l) = map c_tolower n"
    by (auto simp: request_header_name_is_def streq_ci_iff not_le split: if_splits)
  have no: "CHR '':'' \<notin> set (take (length n) l)"
  proof
    assume "CHR '':'' \<in> set (take (length n) l)"
    then have "c_tolower (CHR '':'') \<in> set (map c_tolower n)"
      using r(3) by (metis image_eqI list.set_map)
    then obtain c where "c \<in> set n" "c_tolower (CHR '':'') = c_tolower c" by (auto simp del: tolower_non_upper)
    then have "c = CHR '':''" using tolower_colon by metis
    with assms \<open>c \<in> set n\<close> show False by simp
  qed
  have "l = take (length n) l @ CHR '':'' # drop (Suc (length n)) l"
    using r(1,2) by (metis id_take_nth_drop)
  moreover have "takeWhile (\<lambda>c. c \<noteq> CHR '':'') (u @ CHR '':'' # v) = u \<and> CHR '':'' \<in> set (u @ CHR '':'' # v)"
    if "CHR '':'' \<notin> set u" for u v
    using that by (induction u) auto
  from this [OF no, of "drop (Suc (length n)) l"]
  have "takeWhile (\<lambda>c. c \<noteq> CHR '':'') l = take (length n) l \<and> CHR '':'' \<in> set l"
    using calculation by simp
  with r(3) show "CHR '':'' \<in> set l \<and> map c_tolower (takeWhile (\<lambda>c. c \<noteq> CHR '':'') l) = map c_tolower n" by simp
next
  assume a: "CHR '':'' \<in> set l \<and> map c_tolower (takeWhile (\<lambda>c. c \<noteq> CHR '':'') l) = map c_tolower n"
  then have len: "length n = length (takeWhile (\<lambda>c. c \<noteq> CHR '':'') l)" by (metis length_map)
  obtain u v where l: "l = u @ CHR '':'' # v" "CHR '':'' \<notin> set u" using a by (meson split_list_first)
  have "takeWhile (\<lambda>c. c \<noteq> CHR '':'') (u @ CHR '':'' # v) = u" using l(2) by (induction u) auto
  then have "length n = length u" "map c_tolower u = map c_tolower n" using len a l(1) by simp_all
  with l(1) show "request_header_name_is l n" by (simp add: request_header_name_is_def streq_ci_iff)
qed

lemma passed_lines_unnamed:
  assumes "n \<in> set proxy_own_names" and "name = map c_tolower n"
  shows "lines_named name (filter proxy_passes ls) = []"
proof -
  have "CHR '':'' \<notin> set n" using assms(1) by (auto simp: proxy_own_names_def)
  note iff = name_is_iff [OF this]
  have "\<not> (CHR '':'' \<in> set l \<and> map c_tolower (takeWhile (\<lambda>c. c \<noteq> CHR '':'') l) = name)"
    if "proxy_passes l" for l
    using that assms iff [of l] unfolding proxy_passes_def rpsiod_proxy_skip_header_def list_ex_iff by blast
  then show ?thesis by (auto simp: lines_named_def filter_empty_conv)
qed


lemma own_names_lower:
  "map c_tolower ''Host'' = ''host''" "map c_tolower ''Connection'' = ''connection''"
  "map c_tolower ''Proxy-Connection'' = ''proxy-connection''" "map c_tolower ''X-Real-IP'' = ''x-real-ip''"
  "map c_tolower ''X-Forwarded-For'' = ''x-forwarded-for''"
  "map c_tolower ''X-Forwarded-Proto'' = ''x-forwarded-proto''"
  by code_simp+

lemma passed_lines_named:
  "lines_named ''host'' (filter proxy_passes ls) = []"
  "lines_named ''connection'' (filter proxy_passes ls) = []"
  "lines_named ''proxy-connection'' (filter proxy_passes ls) = []"
  "lines_named ''x-real-ip'' (filter proxy_passes ls) = []"
  "lines_named ''x-forwarded-for'' (filter proxy_passes ls) = []"
  "lines_named ''x-forwarded-proto'' (filter proxy_passes ls) = []"
  by (rule passed_lines_unnamed [OF _ own_names_lower(1) [symmetric]]
        passed_lines_unnamed [OF _ own_names_lower(2) [symmetric]]
        passed_lines_unnamed [OF _ own_names_lower(3) [symmetric]]
        passed_lines_unnamed [OF _ own_names_lower(4) [symmetric]]
        passed_lines_unnamed [OF _ own_names_lower(5) [symmetric]]
        passed_lines_unnamed [OF _ own_names_lower(6) [symmetric]]; simp add: proxy_own_names_def)+

lemma lines_named_written:
  "lines_named name [header_line (''Host'', v)] = (if name = ''host'' then [''Host: '' @ v] else [])"
  "lines_named name [header_line (''Connection'', v)] = (if name = ''connection'' then [''Connection: '' @ v] else [])"
  "lines_named name [header_line (''X-Real-IP'', v)] = (if name = ''x-real-ip'' then [''X-Real-IP: '' @ v] else [])"
  "lines_named name [header_line (''X-Forwarded-For'', v)] =
     (if name = ''x-forwarded-for'' then [''X-Forwarded-For: '' @ v] else [])"
  "lines_named name [header_line (''X-Forwarded-Proto'', v)] =
     (if name = ''x-forwarded-proto'' then [''X-Forwarded-Proto: '' @ v] else [])"
  using lines_named_one [of "''Host''" name v] lines_named_one [of "''Connection''" name v]
    lines_named_one [of "''X-Real-IP''" name v] lines_named_one [of "''X-Forwarded-For''" name v]
    lines_named_one [of "''X-Forwarded-Proto''" name v]
  unfolding own_names_lower by (simp_all add: header_line_def eq_commute [of name])

lemma region_lines_ok:
  assumes "rpsiod_http_parse_request raw = Parsed req" and "header_region req raw = Some region"
  shows "list_all line_ok (filter proxy_passes (proxy_lines region))"
  using region_lines_no_CR [OF assms] by (auto simp: list_all_iff line_ok_def proxy_passes_def)

lemma header_region_keep [simp]: "header_region (req\<lparr>r_keep_alive := k\<rparr>) raw = header_region req raw"
  by (simp add: header_region_def split: option.split)

lemma proxy_fields_ok:
  assumes "rpsiod_http_parse_request raw = Parsed req" and "CR \<notin> set (site_proxy_host site)"
    and "CR \<notin> set (c_client_ip cl)"
  shows "list_all line_ok (map header_line (proxy_own_fields site req @ proxy_forward_fields cl site))"
  using parsed_request_no_CR [OF assms(1)] assms(2,3)
  by (auto simp: proxy_own_fields_def proxy_forward_fields_def field_if_def header_line_def line_ok_def)

lemma proxy_fields_named:
  fixes region_lines site req cl
  defines "ls \<equiv> map header_line (proxy_own_fields site req) @ filter proxy_passes region_lines @
    map header_line (proxy_forward_fields cl site)"
  shows "lines_named ''host'' ls =
         [''Host: '' @ (if site_proxy_pass_host site \<and> r_host req \<noteq> [] then r_host req else site_proxy_host site)] \<and>
       lines_named ''connection'' ls =
         [if r_upgrade_websocket req \<and> site_proxy_websocket site then ''Connection: Upgrade'' else ''Connection: close''] \<and>
       lines_named ''proxy-connection'' ls = [] \<and>
       lines_named ''x-real-ip'' ls = (if site_proxy_real_ip site then [''X-Real-IP: '' @ c_client_ip cl] else []) \<and>
       lines_named ''x-forwarded-for'' ls =
         (if site_proxy_forwarded_for site then [''X-Forwarded-For: '' @ c_client_ip cl] else []) \<and>
       lines_named ''x-forwarded-proto'' ls =
         (if site_proxy_forwarded_proto site
          then [if c_local_port cl = site_https_port site then ''X-Forwarded-Proto: https'' else ''X-Forwarded-Proto: http'']
          else [])"
  unfolding ls_def lines_named_simps(2) passed_lines_named
  by (intro conjI)
    (simp_all add: proxy_own_fields_def proxy_forward_fields_def field_if_def lines_named_written)

text \<open>
  C9: a client cannot speak for the proxy.  Whatever accepted request is passed on, the upstream
  server reads the client's method and target in the request line, exactly one \<open>Host\<close> (the
  client's only when the site passes it on), exactly one \<open>Connection\<close>, no
  \<open>Proxy-Connection\<close>, and \<open>X-Real-IP\<close>, \<open>X-Forwarded-For\<close> and \<open>X-Forwarded-Proto\<close> once with
  the proxy's own value where the site asks for them and not at all where it does not; the
  body follows unchanged behind the one blank line.  The address of the client and the
  configured upstream host hold no CR.
\<close>

theorem proxy_headers_own:
  assumes "rpsiod_http_parse_request raw = Parsed req0" and "req = req0\<lparr>r_keep_alive := k\<rparr>"
    and "build_proxy_request n cl site req raw body = Some t"
    and "CR \<notin> set (site_proxy_host site)" and "CR \<notin> set (c_client_ip cl)"
  shows "\<exists>head. memmem (CRLF @ CRLF) t = Some (head, CRLF @ CRLF @ body) \<and>
    hd (header_lines head) = r_method req @ '' '' @ r_path req @ '' HTTP/1.1'' \<and>
    (let ls = tl (header_lines head) in
       lines_named ''host'' ls =
         [''Host: '' @ (if site_proxy_pass_host site \<and> r_host req \<noteq> [] then r_host req else site_proxy_host site)] \<and>
       lines_named ''connection'' ls =
         [if r_upgrade_websocket req \<and> site_proxy_websocket site then ''Connection: Upgrade'' else ''Connection: close''] \<and>
       lines_named ''proxy-connection'' ls = [] \<and>
       lines_named ''x-real-ip'' ls = (if site_proxy_real_ip site then [''X-Real-IP: '' @ c_client_ip cl] else []) \<and>
       lines_named ''x-forwarded-for'' ls =
         (if site_proxy_forwarded_for site then [''X-Forwarded-For: '' @ c_client_ip cl] else []) \<and>
       lines_named ''x-forwarded-proto'' ls =
         (if site_proxy_forwarded_proto site
          then [if c_local_port cl = site_https_port site then ''X-Forwarded-Proto: https'' else ''X-Forwarded-Proto: http'']
          else []))"
proof -
  let ?own = "map header_line (proxy_own_fields site req)" and ?fwd = "map header_line (proxy_forward_fields cl site)"
  obtain region where region: "header_region req raw = Some region" and
    t: "t = lines_text (proxy_request_line req # ?own @ filter proxy_passes (proxy_lines region) @ ?fwd) @ CRLF @ body"
    using build_proxy_request_text [OF assms(3)] by auto
  let ?ls = "?own @ filter proxy_passes (proxy_lines region) @ ?fwd"
  have "list_all line_ok (map header_line (proxy_own_fields site req0 @ proxy_forward_fields cl site))"
    by (rule proxy_fields_ok [OF assms(1,4,5)])
  moreover have "proxy_own_fields site req = proxy_own_fields site req0"
    by (simp add: assms(2) proxy_own_fields_def)
  moreover have "list_all line_ok (filter proxy_passes (proxy_lines region))"
    using region assms(2) by (intro region_lines_ok [OF assms(1)]) simp
  moreover have "line_ok (proxy_request_line req)"
    using parsed_request_no_CR [OF assms(1)] assms(2) by (simp add: line_ok_def proxy_request_line_def)
  ultimately have ok: "list_all line_ok (proxy_request_line req # ?ls)" by simp
  have m: "memmem (CRLF @ CRLF) t = Some (join_lines (proxy_request_line req # ?ls), CRLF @ CRLF @ body)"
    unfolding t by (rule memmem_head_end [OF _ ok]) simp
  have h: "header_lines (join_lines (proxy_request_line req # ?ls)) = proxy_request_line req # ?ls"
    by (rule header_lines_join [OF ok])
  have "hd (header_lines (join_lines (proxy_request_line req # ?ls))) = r_method req @ '' '' @ r_path req @ '' HTTP/1.1''"
    unfolding h by (simp add: proxy_request_line_def)
  moreover have "tl (header_lines (join_lines (proxy_request_line req # ?ls))) = ?ls" unfolding h by simp
  note ls = this
  show ?thesis
    unfolding Let_def
    by (rule exI, rule conjI [OF m], rule conjI [OF calculation], unfold ls, rule proxy_fields_named)
qed

definition demo_upstream_site :: site_config where
  "demo_upstream_site = site_defaults\<lparr>site_proxy_host := ''app'', site_proxy_pass_host := False,
     site_proxy_real_ip := True, site_proxy_forwarded_for := True, site_proxy_forwarded_proto := False\<rparr>"

definition demo_raw :: string where
  "demo_raw = ''GET /a HTTP/1.1'' @ CRLF @ ''Host: a'' @ CRLF @ ''x-real-ip: 6'' @ CRLF @
     ''X-Forwarded-Proto: https'' @ CRLF @ ''A: b'' @ CRLF @ CRLF"

definition demo_get :: http_request where
  "demo_get = empty_request\<lparr>r_method := ''GET'', r_path := ''/a'', r_host := ''a'', r_keep_alive := True,
     r_header_len := length demo_raw\<rparr>"

theorem proxy_headers_own_witness:
  "\<exists>t head. build_proxy_request 300 demo_client demo_upstream_site demo_get demo_raw ''zz'' = Some t \<and>
     memmem (CRLF @ CRLF) t = Some (head, CRLF @ CRLF @ ''zz'') \<and>
     lines_named ''host'' (tl (header_lines head)) = [''Host: app''] \<and>
     lines_named ''x-real-ip'' (tl (header_lines head)) = [''X-Real-IP: 1.2.3.4''] \<and>
     lines_named ''x-forwarded-proto'' (tl (header_lines head)) = []"
proof -
  have "build_proxy_request 300 demo_client demo_upstream_site demo_get demo_raw ''zz'' \<noteq> None"
    by code_simp
  then obtain t where t: "build_proxy_request 300 demo_client demo_upstream_site demo_get demo_raw ''zz'' = Some t"
    by blast
  have p: "rpsiod_http_parse_request demo_raw = Parsed demo_get" by code_simp
  have k: "demo_get = demo_get\<lparr>r_keep_alive := True\<rparr>" by (simp add: demo_get_def)
  have c: "CR \<notin> set (site_proxy_host demo_upstream_site)" "CR \<notin> set (c_client_ip demo_client)"
    by code_simp+
  have site: "site_proxy_pass_host demo_upstream_site = False" "site_proxy_host demo_upstream_site = ''app''"
    "site_proxy_real_ip demo_upstream_site = True" "site_proxy_forwarded_proto demo_upstream_site = False"
    and ip: "c_client_ip demo_client = ''1.2.3.4''"
    by code_simp+
  from proxy_headers_own [OF p k t c, unfolded Let_def site ip] obtain head where
    "memmem (CRLF @ CRLF) t = Some (head, CRLF @ CRLF @ ''zz'')"
    "lines_named ''host'' (tl (header_lines head)) = [''Host: app'']"
    "lines_named ''x-real-ip'' (tl (header_lines head)) = [''X-Real-IP: 1.2.3.4'']"
    "lines_named ''x-forwarded-proto'' (tl (header_lines head)) = []"
    by auto
  with t show ?thesis by blast
qed

end
