(* ===== verification/Dispatch.thy ===== *)
theory Dispatch
  imports Static Proxy Redirect RateLimit ConfigValidate
begin

text \<open>
  \<open>serve_request\<close> of \<open>src/server.c\<close>: one parsed request from the method check over the site
  lookup, redirects and the rate limiter to the proxy or the static handler.  What changes
  between requests is the record \<open>server_state\<close>; what the request meets outside the server is
  the record \<open>surroundings\<close>.
\<close>

section \<open>State\<close>

record server_state =
  ss_caches :: "nat \<Rightarrow> site_cache"
  ss_buckets :: "nat \<Rightarrow> rate_bucket list"
  ss_pid :: u64
  ss_request_counter :: u64

text \<open>
  The time a request starts, the clocks and files it sees, the connections to the application server and the
  upstream server (\<open>None\<close>: connecting failed), the readiness \<open>select\<close> reports to a tunnel,
  and whether the socket can be made non-blocking again.
\<close>

record surroundings =
  sr_start_mono :: timespec
  sr_start_real :: timespec
  sr_env :: host_env
  sr_fpm :: "io option"
  sr_upstream :: "io option"
  sr_ready :: "(bool \<times> bool) list"
  sr_nonblocking_ok :: bool

section \<open>The request\<close>

definition serve_site ::
  "surroundings \<Rightarrow> client \<Rightarrow> config \<Rightarrow> nat \<Rightarrow> http_request \<Rightarrow> string \<Rightarrow> string \<Rightarrow> server_state \<Rightarrow> io \<Rightarrow>
     (bool \<times> io) \<times> server_state" where
  "serve_site sr cl cfg i req raw body st w =
     (let site = cfg_sites cfg ! i; env = sr_env sr in
      if site_listen_ip site \<noteq> ''0.0.0.0'' \<and> site_listen_ip site \<noteq> c_server_ip cl then
        (send_text env cl (Some site) 400 (''400 Bad Request'' @ [LF]) req w, st)
      else case rpsiod_route_build_redirect_location site req (c_local_port cl)
                  (trusted_internal_https cl req) 1024 of
        Some (location, status) \<Rightarrow> (send_redirect env cl site status location req w, st)
      | None \<Rightarrow>
          (let ((limited, retry_after), buckets) =
                 rpsiod_rate_limit_exceeded site (c_client_ip cl) (word_of_int (e_now env)) (ss_buckets st i);
               st = st\<lparr>ss_buckets := (ss_buckets st)(i := buckets)\<rparr> in
           if limited then (send_rate_limited env cl site retry_after req w, st)
           else if rpsiod_streq_ci (site_routing_type site) ''proxy'' then
             (if \<not> rpsiod_site_allows_method site (r_method req) then send_error_page env cl site 405 req w
              else serve_proxy env cl site req raw body (sr_upstream sr) (sr_ready sr) w, st)
           else case serve_static env cl cfg site req body (sr_fpm sr) (ss_caches st i) w of
             (r, cache) \<Rightarrow> (r, st\<lparr>ss_caches := (ss_caches st)(i := cache)\<rparr>)))"

definition serve_request ::
  "surroundings \<Rightarrow> client \<Rightarrow> config \<Rightarrow> route_table \<Rightarrow> http_request \<Rightarrow> string \<Rightarrow> string \<Rightarrow> server_state \<Rightarrow> io \<Rightarrow>
     (bool \<times> io) \<times> server_state" where
  "serve_request sr cl cfg tbl req raw body st w =
     (if rpsiod_streq_ci (r_method req) ''TRACE'' \<or> rpsiod_streq_ci (r_method req) ''CONNECT'' then
        (send_text (sr_env sr) cl None 405 (''405 Method Not Allowed'' @ [LF]) req w, st)
      else case rpsiod_config_find_site_for_listener cfg tbl (r_host req) (c_local_port cl) (Some (c_server_ip cl)) of
        None \<Rightarrow> (send_text (sr_env sr) cl None 404 (''404 Not Found'' @ [LF]) req w, st)
      | Some i \<Rightarrow> serve_site sr cl cfg i req raw body st w)"

section \<open>Every reply is framed\<close>

lemma send_text_replies: "replies env cl req small w (send_text env cl site status text req w)"
  unfolding send_text_def by (rule replies_delivers [OF respond_text])

lemma send_redirect_replies: "replies env cl req small w (send_redirect env cl site status location req w)"
  unfolding send_redirect_def Let_def
  by (split if_split, intro conjI impI, simp add: replies_def, rule replies_delivers [OF respond_text])

lemma send_rate_limited_replies: "replies env cl req small w (send_rate_limited env cl site retry req w)"
  unfolding send_rate_limited_def Let_def by (rule replies_delivers [OF respond_text])

lemma replies_weaken: "replies env cl req (small_reply req f) w r \<Longrightarrow> replies env cl req (\<not> r_head_only req) w r"
  by (fastforce simp: replies_def small_reply_def)

lemma send_error_page_replies: "replies env cl req (\<not> r_head_only req) w (send_error_page env cl site status req w)"
  unfolding send_error_page_def Let_def
  using send_text_replies replies_weaken [OF send_file_replies]
  by (simp split: option.split)

lemma perform_static_replies:
  assumes "\<forall>s. a \<noteq> RunPhp s"
  shows "replies env cl req (\<not> r_head_only req) w (perform_static env cl site req body fpm a w)"
proof (cases a)
  case (RunPhp s)
  with assms show ?thesis by blast
qed (simp_all add: perform_static_def redirect_directory_slash_def Let_def send_error_page_replies
    replies_weaken [OF send_file_replies] send_redirect_replies)

lemma serve_static_no_php:
  assumes "\<not> site_php_enabled site" and "\<not> rpsiod_streq_ci (site_routing_type site) ''php''"
    and "serve_static_action env cfg site req cache = (a, c)"
  shows "\<forall>s. a \<noteq> RunPhp s"
  using assms
  by (auto simp: serve_static_action_def maintenance_action_def static_routing_action_def selected_action_def Let_def
      split: if_splits option.splits prod.splits sum.splits)

definition plain_site :: "site_config \<Rightarrow> bool" where
  "plain_site site \<longleftrightarrow> \<not> site_php_enabled site \<and> \<not> rpsiod_streq_ci (site_routing_type site) ''php'' \<and>
     \<not> rpsiod_streq_ci (site_routing_type site) ''proxy''"

lemma serve_site_replies:
  assumes "plain_site (cfg_sites cfg ! i)"
  shows "replies (sr_env sr) cl req (\<not> r_head_only req) w (fst (serve_site sr cl cfg i req raw body st w))"
proof -
  obtain a c where a: "serve_static_action (sr_env sr) cfg (cfg_sites cfg ! i) req (ss_caches st i) = (a, c)"
    by fastforce
  have "\<forall>s. a \<noteq> RunPhp s"
    using assms by (intro serve_static_no_php [OF _ _ a]) (simp_all add: plain_site_def)
  note perform_static_replies [OF this]
  with a show ?thesis
    unfolding serve_site_def Let_def serve_static_def
    using assms send_text_replies send_redirect_replies send_rate_limited_replies
    by (auto simp: plain_site_def split: option.split prod.split)
qed


definition demo_surroundings :: surroundings where
  "demo_surroundings = \<lparr>sr_start_mono = \<lparr>tv_sec = 1, tv_nsec = 0\<rparr>,
     sr_start_real = \<lparr>tv_sec = 1, tv_nsec = 0\<rparr>, sr_env = demo_env, sr_fpm = None, sr_upstream = None, sr_ready = [], sr_nonblocking_ok = True\<rparr>"

definition demo_state :: server_state where
  "demo_state = \<lparr>ss_caches = (\<lambda>_. empty_site_cache), ss_buckets = (\<lambda>_. fresh_buckets), ss_pid = 7, ss_request_counter = 0\<rparr>"

lemma demo_unrouted:
  "rpsiod_config_find_site_for_listener rpsiod_config_defaults tbl host port ip = None"
  by (simp add: rpsiod_config_find_site_for_listener_def lookup_route_def rpsiod_config_defaults_def Let_def
      split: option.split)


text \<open>
  Two \<open>Range\<close> fields of one request are merged field by field: the flag of a suffix range stays
  set when a later field with start 0 replaces the number, and the answer is an empty 206.
\<close>

lemma two_ranges_merge:
  shows "parse_byte_range ''bytes=0-'' (snd (parse_byte_range ''bytes=-2'' r)) =
    (True, r\<lparr>r_range_present := True, r_range_suffix := True, r_range_start := 0\<rparr>) \<and>
   resolve_range (snd (parse_byte_range ''bytes=0-'' (snd (parse_byte_range ''bytes=-2'' r)))) 5 = Some (5, 4)"
proof -
  have d: "dec 2 = ''2''" "dec 0 = ''0''" by code_simp+
  have "strtoull ''2'' = Some (2, [], False)" "strtoull ''0-'' = Some (0, ''-'', False)"
    using strtoull_dec [of "[]" 2] strtoull_dec [of "''-''" 0] by (simp_all add: d ctype_simps)
  moreover have "strchr (CHR ''-'') ''-2'' = Some ([], ''-2'')" "strchr (CHR ''-'') ''0-'' = Some (''0'', ''-'')"
    by code_simp+
  ultimately show ?thesis
    by (simp add: parse_byte_range_def rpsiod_starts_with_def resolve_range_def Let_def)
qed

end
