(* ===== verification/Connection.thy ===== *)
theory Connection
  imports Dispatch HttpProps
begin

text \<open>
  The life of a connection: \<open>handle_client_event\<close> of \<open>src/server.c\<close>, its buffer, pipelined and
  kept-alive requests.  The bytes arrive as a list of \<open>read_event\<close>s, at whose end \<open>read\<close> would
  block; the buffer is a string of at most \<open>CLIENT_BUFFER\<close> bytes passed along with the client.
\<close>

section \<open>The buffer\<close>

definition CLIENT_BUFFER :: nat where "CLIENT_BUFFER = 32768"

definition buffered_request_ready :: "string \<Rightarrow> bool" where
  "buffered_request_ready buf =
     (if buf = [] then False
      else case rpsiod_http_parse_request buf of
        Malformed _ \<Rightarrow> True
      | Incomplete \<Rightarrow> False
      | Parsed req \<Rightarrow> unat (r_content_length req) \<le> length buf - r_header_len req)"

definition next_request_id :: "server_state \<Rightarrow> u64 \<times> server_state" where
  "next_request_id st =
     (let counter = ss_request_counter st + 1 in
      (push_bit 32 (ss_pid st) OR counter, st\<lparr>ss_request_counter := counter\<rparr>))"

definition mark_request_start :: "surroundings \<Rightarrow> client \<Rightarrow> server_state \<Rightarrow> client \<times> server_state" where
  "mark_request_start sr cl st =
     (case next_request_id st of (rid, st') \<Rightarrow>
       (cl\<lparr>c_request_id := rid, c_request_started_mono := sr_start_mono sr,
           c_request_started_real := sr_start_real sr, c_last_active_mono := sr_start_mono sr,
           c_idle_keep_alive := False\<rparr>, st'))"

section \<open>One buffered request\<close>

text \<open>
  \<open>Crash\<close> is the dereference of a null site; \<open>NextRequest\<close> holds the client and the rest of the
  buffer after an answered request that keeps the connection.
\<close>

datatype request_step = NeedMore | Stop | Crash | NextRequest client string

definition refuse_request :: "surroundings \<Rightarrow> client \<Rightarrow> http_request \<Rightarrow> server_state \<Rightarrow> io \<Rightarrow> server_state \<times> io" where
  "refuse_request sr cl req st w =
     (case mark_request_start sr cl st of (cl1, st1) \<Rightarrow>
        (st1, snd (send_text (sr_env sr) cl1 None 400 (''400 Bad Request'' @ [LF])
           (req\<lparr>r_method := ''GET'', r_path := ''-'', r_keep_alive := False\<rparr>) w)))"

definition refuse_body ::
  "surroundings \<Rightarrow> client \<Rightarrow> config \<Rightarrow> nat \<Rightarrow> http_request \<Rightarrow> server_state \<Rightarrow> io \<Rightarrow> server_state \<times> io" where
  "refuse_body sr cl cfg i req st w =
     (case mark_request_start sr cl st of (cl1, st1) \<Rightarrow>
        (st1, snd (send_error_page (sr_env sr) cl1 (cfg_sites cfg ! i) 413 (req\<lparr>r_keep_alive := False\<rparr>) w)))"

definition should_keep_alive :: "config \<Rightarrow> client \<Rightarrow> nat option \<Rightarrow> http_request \<Rightarrow> bool" where
  "should_keep_alive cfg cl site req \<longleftrightarrow>
     cfg_keep_alive_enabled cfg \<and> r_keep_alive req \<and>
     c_keep_alive_requests cl + 1 < word_of_int (cfg_keep_alive_max_requests cfg) \<and>
     \<not> (case site of None \<Rightarrow> False
         | Some i \<Rightarrow> rpsiod_streq_ci (site_routing_type (cfg_sites cfg ! i)) ''proxy'')"

definition process_request ::
  "surroundings \<Rightarrow> config \<Rightarrow> route_table \<Rightarrow> client \<Rightarrow> string \<Rightarrow> server_state \<Rightarrow> io \<Rightarrow>
     request_step \<times> server_state \<times> io" where
  "process_request sr cfg tbl cl buf st w =
     (case rpsiod_http_parse_request buf of
        Incomplete \<Rightarrow> (NeedMore, st, w)
      | Malformed req \<Rightarrow> (Stop, refuse_request sr cl req st w)
      | Parsed req \<Rightarrow>
          (let site = rpsiod_config_find_site_for_listener cfg tbl (r_host req) (c_local_port cl) (Some (c_server_ip cl));
               body_len = unat (r_content_length req) in
           if (case site of None \<Rightarrow> False
               | Some i \<Rightarrow> site_max_body_size (cfg_sites cfg ! i) < r_content_length req)
           then (Stop, refuse_body sr cl cfg (the site) req st w)
           else if length buf - r_header_len req < body_len then
             (if CLIENT_BUFFER - r_header_len req < body_len
              then (case site of None \<Rightarrow> (Crash, st, w) | Some i \<Rightarrow> (Stop, refuse_body sr cl cfg i req st w))
              else (NeedMore, st, w))
           else
             let keep = should_keep_alive cfg cl site req;
                 req1 = (if keep then req else req\<lparr>r_keep_alive := False\<rparr>);
                 (cl1, st1) = mark_request_start sr cl st;
                 ((ok, w1), st2) = serve_request sr cl1 cfg tbl req1 buf
                    (take body_len (drop (r_header_len req) buf)) st1 w in
             if keep \<and> ok then
               (NextRequest
                  (cl1\<lparr>c_keep_alive_requests := c_keep_alive_requests cl1 + 1, c_idle_keep_alive := True,
                       c_last_active_mono := e_now_mono (sr_env sr)\<rparr>)
                  (drop (r_header_len req + body_len) buf), st2, w1)
             else (Stop, st2, w1)))"

section \<open>One event\<close>

datatype read_event = Data string | ReadEintr | ReadEof | ReadError

datatype fetch_result = Blocked | Again "read_event list" | Ended "read_event list" | Full "read_event list"
  | Got "read_event list" string

fun fetch :: "read_event list \<Rightarrow> string \<Rightarrow> fetch_result" where
  "fetch [] buf = Blocked"
| "fetch (ReadEintr # rs) buf = Again rs"
| "fetch (ReadEof # rs) buf = Ended rs"
| "fetch (ReadError # rs) buf = Ended rs"
| "fetch (Data s # rs) buf =
     (let room = CLIENT_BUFFER - length buf; got = take room s;
          rs' = (if drop room s = [] then rs else Data (drop room s) # rs) in
      if got = [] then Ended rs'
      else if length buf + length got = CLIENT_BUFFER then Full rs'
      else Got rs' (buf @ got))"

datatype outcome = Waiting client string | Closed | Crashed

definition reads_weight :: "read_event list \<Rightarrow> nat" where
  "reads_weight rs = sum_list (map (\<lambda>r. case r of Data s \<Rightarrow> Suc (2 * length s) | _ \<Rightarrow> 1) rs)"

lemma fetch_weight:
  "fetch rs buf = Again rs' \<Longrightarrow> reads_weight rs' < reads_weight rs"
  "fetch rs buf = Got rs' buf' \<Longrightarrow> reads_weight rs' + length buf' < reads_weight rs + length buf"
  by (cases "(rs, buf)" rule: fetch.cases; auto simp: reads_weight_def Let_def split: if_splits)+

lemma ready_not_NeedMore:
  "buffered_request_ready buf \<Longrightarrow> fst (process_request sr cfg tbl cl buf st w) \<noteq> NeedMore"
  by (auto simp: buffered_request_ready_def process_request_def Let_def
      split: if_splits parse_result.splits option.splits prod.splits)

lemma parsed_header_len:
  assumes "rpsiod_http_parse_request buf = Parsed req"
  shows "4 \<le> r_header_len req \<and> r_header_len req \<le> length buf \<and>
    (\<exists>head rest. memmem (CRLF @ CRLF) buf = Some (head, rest) \<and> r_header_len req = length head + 4)"
proof -
  obtain head rest line rest' rl st where
    m: "memmem (CRLF @ CRLF) buf = Some (head, rest)" and "length head + 4 \<le> 16384"
    "memmem CRLF buf = Some (line, rest')" "parse_request_line line 32 HOST_LEN = Some rl"
    and ls: "parse_header_lines (start_state (start_request (length head + 4) rl))
       (header_lines (drop (length line + 2) head)) = Inr st"
    and "ps_have_host st" "\<not> ps_have_transfer_encoding st"
    "r_absolute_form (ps_req st) \<longrightarrow> authority_matches_host (rl_authority rl) (r_host (ps_req st))"
    and r: "req = (ps_req st)\<lparr>r_upgrade_websocket := ps_connection_upgrade st \<and> ps_upgrade_websocket st\<rparr>"
    by (rule parse_request_Parsed [OF assms])
  have "r_header_len (ps_req st) = length head + 4"
    using parse_header_lines_header_len [OF ls] by (simp add: start_state_def start_request_def empty_request_def)
  then have h: "r_header_len req = length head + 4" unfolding r by simp
  moreover have "length head + 4 \<le> length buf" using memmem_length [OF m] by simp
  ultimately show ?thesis using m by auto
qed

lemma process_shrinks:
  "fst (process_request sr cfg tbl cl buf st w) = NextRequest cl' rest \<Longrightarrow> length rest < length buf"
proof (cases "rpsiod_http_parse_request buf")
  case (Parsed req)
  assume "fst (process_request sr cfg tbl cl buf st w) = NextRequest cl' rest"
  then have "rest = drop (r_header_len req + unat (r_content_length req)) buf"
    by (simp add: process_request_def Parsed Let_def split: if_splits option.splits prod.splits)
  with parsed_header_len [OF Parsed] show ?thesis by auto
qed (simp_all add: process_request_def)

text \<open>
  The loop of \<open>handle_client_event\<close>.  Request number \<open>n\<close> of the connection meets the
  surroundings \<open>world n\<close>.
\<close>

function handle_client_event ::
  "(nat \<Rightarrow> surroundings) \<Rightarrow> config \<Rightarrow> route_table \<Rightarrow> read_event list \<Rightarrow> client \<Rightarrow> string \<Rightarrow> server_state \<Rightarrow> io \<Rightarrow>
     outcome \<times> read_event list \<times> server_state \<times> io" where
  "handle_client_event world cfg tbl reads cl buf st w =
     (let sr = world (unat (c_keep_alive_requests cl)) in
      case (if buffered_request_ready buf then Got reads buf else fetch reads buf) of
        Blocked \<Rightarrow> (Waiting cl buf, [], st, w)
      | Again rs \<Rightarrow> handle_client_event world cfg tbl rs cl buf st w
      | Ended rs \<Rightarrow> (Closed, rs, st, w)
      | Full rs \<Rightarrow> (Closed, rs, refuse_request sr cl empty_request st w)
      | Got rs buf1 \<Rightarrow>
          (case process_request sr cfg tbl cl buf1 st w of
             (NeedMore, st1, w1) \<Rightarrow> handle_client_event world cfg tbl rs cl buf1 st1 w1
           | (Stop, st1, w1) \<Rightarrow> (Closed, rs, st1, w1)
           | (Crash, st1, w1) \<Rightarrow> (Crashed, rs, st1, w1)
           | (NextRequest cl1 rest, st1, w1) \<Rightarrow>
               if buffered_request_ready rest then handle_client_event world cfg tbl rs cl1 rest st1 w1
               else if sr_nonblocking_ok sr then (Waiting cl1 rest, rs, st1, w1)
               else (Closed, rs, st1, w1)))"
  by pat_completeness auto

lemma got_weight:
  assumes "(if buffered_request_ready buf then Got reads buf else fetch reads buf) = Got rs buf1"
  shows "reads_weight rs + length buf1 \<le> reads_weight reads + length buf"
    "\<not> buffered_request_ready buf1 \<Longrightarrow> reads_weight rs + length buf1 < reads_weight reads + length buf"
  using assms fetch_weight(2) [of reads buf rs buf1] by (auto split: if_splits)

lemma need_more_weight:
  assumes "(if buffered_request_ready buf then Got reads buf else fetch reads buf) = Got rs buf1"
    and "process_request sr cfg tbl cl buf1 st w = (NeedMore, y)"
  shows "reads_weight rs + length buf1 < reads_weight reads + length buf"
proof -
  have "\<not> buffered_request_ready buf1" using ready_not_NeedMore [of buf1 sr cfg tbl cl st w] assms(2) by auto
  with got_weight(2) [OF assms(1)] show ?thesis by blast
qed

lemma next_weight:
  assumes "(if buffered_request_ready buf then Got reads buf else fetch reads buf) = Got rs buf1"
    and "process_request sr cfg tbl cl buf1 st w = (NextRequest cl1 rest, y)"
  shows "reads_weight rs + length rest < reads_weight reads + length buf"
  using got_weight(1) [OF assms(1)] process_shrinks [of sr cfg tbl cl buf1 st w cl1 rest] assms(2) by simp

termination handle_client_event
proof (relation "measure (\<lambda>(world, cfg, tbl, reads, cl, buf, st, w). reads_weight reads + length buf)",
    goal_cases)
  case 1
  then show ?case by simp
next
  case (2 world cfg tbl reads cl buf st w sr rs)
  then show ?case using fetch_weight(1) [of reads buf rs] by (auto split: if_splits)
next
  case 3
  then show ?case using need_more_weight [OF 3(2) 3(3) [symmetric, unfolded 3(4)]] by simp
next
  case 4
  then show ?case using next_weight [OF 4(2) 4(3) [symmetric, unfolded 4(4)]] by simp
qed

declare handle_client_event.simps [simp del]

text \<open>
  The events of one connection: as long as unread bytes are left, the level-triggered
  \<open>epoll_wait\<close> reports it again.
\<close>

function serve_connection ::
  "(nat \<Rightarrow> surroundings) \<Rightarrow> config \<Rightarrow> route_table \<Rightarrow> read_event list \<Rightarrow> client \<Rightarrow> string \<Rightarrow> server_state \<Rightarrow> io \<Rightarrow>
     outcome \<times> server_state \<times> io" where
  "serve_connection world cfg tbl reads cl buf st w =
     (case handle_client_event world cfg tbl reads cl buf st w of
        (Waiting cl1 buf1, rs, st1, w1) \<Rightarrow>
          if rs = [] then (Waiting cl1 buf1, st1, w1) else serve_connection world cfg tbl rs cl1 buf1 st1 w1
      | (out, rs, st1, w1) \<Rightarrow> (out, st1, w1))"
  by pat_completeness auto

lemma handle_weight:
  "handle_client_event world cfg tbl reads cl buf st w = (Waiting cl1 buf1, rs, st1, w1) \<Longrightarrow> rs \<noteq> [] \<Longrightarrow>
     reads_weight rs + length buf1 < reads_weight reads + length buf"
proof (induction world cfg tbl reads cl buf st w arbitrary: cl1 buf1 rs st1 w1 rule: handle_client_event.induct)
  case (1 world cfg tbl reads cl buf st w)
  let ?sr = "world (unat (c_keep_alive_requests cl))"
  let ?f = "if buffered_request_ready buf then Got reads buf else fetch reads buf"
  note unf = 1(4) [unfolded handle_client_event.simps [of world cfg tbl reads cl buf st w] Let_def]
  show ?case
  proof (cases ?f)
    case (Again rs')
    with unf have "handle_client_event world cfg tbl rs' cl buf st w = (Waiting cl1 buf1, rs, st1, w1)" by simp
    from 1(1) [OF refl Again this 1(5)] fetch_weight(1) [of reads buf rs'] Again show ?thesis
      by (simp split: if_splits)
  next
    case (Got rs' b)
    obtain p st' w' where p: "process_request ?sr cfg tbl cl b st w = (p, st', w')"
      by (metis prod.collapse)
    show ?thesis
    proof (cases p)
      case NeedMore
      with unf Got p have "handle_client_event world cfg tbl rs' cl b st' w' = (Waiting cl1 buf1, rs, st1, w1)" by simp
      from 1(2) [OF refl Got p [symmetric] NeedMore refl this 1(5)] need_more_weight [OF Got p [unfolded NeedMore]]
      show ?thesis by simp
    next
      case (NextRequest cl' rest)
      show ?thesis
      proof (cases "buffered_request_ready rest")
        case True
        with unf Got p NextRequest
        have "handle_client_event world cfg tbl rs' cl' rest st' w' = (Waiting cl1 buf1, rs, st1, w1)" by simp
        from 1(3) [OF refl Got p [symmetric] NextRequest refl True this 1(5)] next_weight [OF Got p [unfolded NextRequest]]
        show ?thesis by simp
      next
        case False
        with unf Got p NextRequest have "buf1 = rest \<and> rs = rs'" by (simp split: if_splits)
        with next_weight [OF Got p [unfolded NextRequest]] show ?thesis by simp
      qed
    qed (use unf Got p in simp_all)
  qed (use unf 1(5) in \<open>simp_all\<close>)
qed

termination serve_connection
  by (relation "measure (\<lambda>(world, cfg, tbl, reads, cl, buf, st, w). reads_weight reads + length buf)")
     (auto dest!: handle_weight [OF sym])

declare serve_connection.simps [simp del]

section \<open>The stream of requests\<close>

text \<open>The reference: the buffered requests one after the other, without looking at the arrival of bytes.\<close>

function drain ::
  "(nat \<Rightarrow> surroundings) \<Rightarrow> config \<Rightarrow> route_table \<Rightarrow> client \<Rightarrow> string \<Rightarrow> server_state \<Rightarrow> io \<Rightarrow>
     outcome \<times> server_state \<times> io" where
  "drain world cfg tbl cl buf st w =
     (case process_request (world (unat (c_keep_alive_requests cl))) cfg tbl cl buf st w of
        (NeedMore, _, _) \<Rightarrow> (Waiting cl buf, st, w)
      | (Stop, st1, w1) \<Rightarrow> (Closed, st1, w1)
      | (Crash, st1, w1) \<Rightarrow> (Crashed, st1, w1)
      | (NextRequest cl1 rest, st1, w1) \<Rightarrow> drain world cfg tbl cl1 rest st1 w1)"
  by pat_completeness auto
termination drain
proof (relation "measure (\<lambda>(world, cfg, tbl, cl, buf, st, w). length buf)", goal_cases)
  case 2
  then show ?case
    using process_shrinks [OF arg_cong [where f = fst, OF 2(1) [symmetric], unfolded 2(2) fst_conv]] by simp
qed simp

declare drain.simps [simp del]

lemma header_region_append:
  assumes "rpsiod_http_parse_request buf = Parsed req"
  shows "header_region (req\<lparr>r_keep_alive := k\<rparr>) (buf @ more_bytes) = header_region (req\<lparr>r_keep_alive := k\<rparr>) buf"
proof -
  note l = parsed_header_len [OF assms]
  obtain line rest where m: "memmem CRLF buf = Some (line, rest)"
    by (rule parse_request_Parsed [OF assms])
  show ?thesis
    using l memmem_append [OF m] m by (simp add: header_region_def)
qed

lemma serve_request_raw:
  assumes "header_region req raw = header_region req raw'"
  shows "serve_request sr cl cfg tbl req raw body st w = serve_request sr cl cfg tbl req raw' body st w"
proof -
  have b: "build_proxy_request n cl site req raw body = build_proxy_request n cl site req raw' body" for n site
    unfolding build_proxy_request_def assms ..
  have p: "serve_proxy env cl site req raw body up ready w = serve_proxy env cl site req raw' body up ready w"
    for env site up ready
    unfolding serve_proxy_def b ..
  have "serve_site sr cl cfg i req raw body st w = serve_site sr cl cfg i req raw' body st w" for i
    unfolding serve_site_def p ..
  then show ?thesis unfolding serve_request_def by (simp split: option.split)
qed

definition extend_step :: "string \<Rightarrow> request_step \<Rightarrow> request_step" where
  "extend_step more_bytes p = (case p of NextRequest cl rest \<Rightarrow> NextRequest cl (rest @ more_bytes) | _ \<Rightarrow> p)"

text \<open>A decision taken on the bytes at hand does not change when more arrive.\<close>

lemma process_extend:
  assumes "process_request sr cfg tbl cl buf st w = (p, y)" and "p \<noteq> NeedMore"
    and "length (buf @ more_bytes) \<le> CLIENT_BUFFER"
  shows "process_request sr cfg tbl cl (buf @ more_bytes) st w = (extend_step more_bytes p, y)"
proof (cases "rpsiod_http_parse_request buf")
  case Incomplete
  then show ?thesis using assms by (simp add: process_request_def)
next
  case (Malformed req)
  then have "rpsiod_http_parse_request (buf @ more_bytes) = Malformed req"
    using parse_request_prefix [of buf more_bytes] by simp
  with Malformed assms(1) show ?thesis by (auto simp: process_request_def extend_step_def)
next
  case (Parsed req)
  have parsed: "rpsiod_http_parse_request (buf @ more_bytes) = Parsed req"
    using parse_request_prefix [of buf more_bytes] Parsed by simp
  note l = parsed_header_len [OF Parsed]
  let ?site = "rpsiod_config_find_site_for_listener cfg tbl (r_host req) (c_local_port cl) (Some (c_server_ip cl))"
  let ?n = "unat (r_content_length req)"
  let ?over = "case ?site of None \<Rightarrow> False | Some i \<Rightarrow> site_max_body_size (cfg_sites cfg ! i) < r_content_length req"
  show ?thesis
  proof (cases "?over")
    case True
    with assms(1) show ?thesis by (auto simp: process_request_def Parsed parsed Let_def extend_step_def)
  next
    case over: False
    show ?thesis
    proof (cases "length buf - r_header_len req < ?n")
      case True
      then have "CLIENT_BUFFER - r_header_len req < ?n"
        using assms(1,2) over by (auto simp: process_request_def Parsed Let_def split: if_splits)
      moreover from this assms(3) have "length (buf @ more_bytes) - r_header_len req < ?n" by linarith
      ultimately show ?thesis
        using assms(1) True over
        by (auto simp: process_request_def Parsed parsed Let_def extend_step_def split: option.splits)
    next
      case False
      then have "\<not> length (buf @ more_bytes) - r_header_len req < ?n" by simp
      moreover have "r_header_len req + ?n \<le> length buf" using False l by linarith
      then have "take ?n (drop (r_header_len req) (buf @ more_bytes)) = take ?n (drop (r_header_len req) buf)"
        "drop (r_header_len req + ?n) (buf @ more_bytes) = drop (r_header_len req + ?n) buf @ more_bytes"
        by simp_all
      moreover have "header_region (if k then req else req\<lparr>r_keep_alive := False\<rparr>) (buf @ more_bytes) =
          header_region (if k then req else req\<lparr>r_keep_alive := False\<rparr>) buf" for k
        using header_region_append [OF Parsed, of "r_keep_alive req" more_bytes]
          header_region_append [OF Parsed, of False more_bytes] by simp
      note serve_request_raw [OF this]
      ultimately show ?thesis
        using assms(1) False over unfolding process_request_def Parsed parsed
        by (auto simp: Let_def extend_step_def split: prod.splits if_splits)
    qed
  qed
qed

lemma drain_extend:
  assumes "drain world cfg tbl cl buf st w = (out, st1, w1)" and "length (buf @ more_bytes) \<le> CLIENT_BUFFER"
  shows "drain world cfg tbl cl (buf @ more_bytes) st w =
    (case out of Waiting cl1 buf1 \<Rightarrow> drain world cfg tbl cl1 (buf1 @ more_bytes) st1 w1 | _ \<Rightarrow> (out, st1, w1))"
  using assms
proof (induction world cfg tbl cl buf st w rule: drain.induct)
  case (1 world cfg tbl cl buf st w)
  obtain p y where p: "process_request (world (unat (c_keep_alive_requests cl))) cfg tbl cl buf st w = (p, y)"
    by (rule prod.exhaust)
  obtain st' w' where y: "y = (st', w')" by (rule prod.exhaust)
  note ext = process_extend [OF p _ 1(3)]
  show ?case
  proof (cases p)
    case NeedMore
    then show ?thesis using 1(2) p y by (auto simp: drain.simps [of world cfg tbl cl buf st w])
  next
    case (NextRequest cl' rest)
    have "length (rest @ more_bytes) \<le> CLIENT_BUFFER"
      using process_shrinks [of "world (unat (c_keep_alive_requests cl))" cfg tbl cl buf st w cl' rest]
        p NextRequest 1(3) by simp
    moreover have "drain world cfg tbl cl' rest st' w' = (out, st1, w1)"
      using 1(2) p y NextRequest by (simp add: drain.simps [of world cfg tbl cl buf st w])
    ultimately have "drain world cfg tbl cl' (rest @ more_bytes) st' w' =
        (case out of Waiting cl1 buf1 \<Rightarrow> drain world cfg tbl cl1 (buf1 @ more_bytes) st1 w1 | _ \<Rightarrow> (out, st1, w1))"
      using 1(1) p y NextRequest by metis
    then show ?thesis
      using ext NextRequest y by (simp add: drain.simps [of world cfg tbl cl "buf @ more_bytes" st w] extend_step_def)
  qed (use 1(2) p y ext in \<open>auto simp: drain.simps [of world cfg tbl cl buf st w]
        drain.simps [of world cfg tbl cl "buf @ more_bytes" st w] extend_step_def\<close>)
qed

fun arrived :: "read_event \<Rightarrow> string option" where
  "arrived (Data s) = (if s = [] then None else Some s)"
| "arrived ReadEintr = Some []"
| "arrived ReadEof = None"
| "arrived ReadError = None"

definition arriving :: "read_event list \<Rightarrow> bool" where
  "arriving rs = list_all (\<lambda>r. arrived r \<noteq> None) rs"

definition bytes_in :: "read_event list \<Rightarrow> string" where
  "bytes_in rs = concat (map (\<lambda>r. the (arrived r)) rs)"

lemma arriving_simps [simp]:
  "arriving []" "arriving (r # rs) \<longleftrightarrow> arrived r \<noteq> None \<and> arriving rs"
  "bytes_in [] = []" "bytes_in (r # rs) = the (arrived r) @ bytes_in rs"
  by (simp_all add: arriving_def bytes_in_def)

lemma fetch_arriving:
  assumes "arriving rs" and "length (buf @ bytes_in rs) < CLIENT_BUFFER"
  shows "case fetch rs buf of
      Blocked \<Rightarrow> rs = []
    | Again rs' \<Rightarrow> arriving rs' \<and> bytes_in rs' = bytes_in rs
    | Got rs' buf' \<Rightarrow> arriving rs' \<and> buf' @ bytes_in rs' = buf @ bytes_in rs
    | _ \<Rightarrow> False"
proof (cases rs)
  case (Cons r rs')
  show ?thesis
  proof (cases r)
    case (Data s)
    with Cons assms have "s \<noteq> []" "length buf + length s < CLIENT_BUFFER" by (auto split: if_splits)
    with Cons Data assms show ?thesis by (auto simp: Let_def)
  qed (use Cons assms in simp_all)
qed simp

lemma handle_drains:
  assumes "handle_client_event world cfg tbl reads cl buf st w = (out, rs, st1, w1)"
    and "arriving reads" and "length (buf @ bytes_in reads) < CLIENT_BUFFER"
    and "\<forall>n. sr_nonblocking_ok (world n)"
  shows "drain world cfg tbl cl (buf @ bytes_in reads) st w =
    (case out of Waiting cl1 buf1 \<Rightarrow> drain world cfg tbl cl1 (buf1 @ bytes_in rs) st1 w1 | _ \<Rightarrow> (out, st1, w1)) \<and>
    (\<forall>cl1 buf1. out = Waiting cl1 buf1 \<longrightarrow> arriving rs \<and> length (buf1 @ bytes_in rs) < CLIENT_BUFFER)"
  using assms
proof (induction world cfg tbl reads cl buf st w rule: handle_client_event.induct)
  case (1 world cfg tbl reads cl buf st w)
  let ?sr = "world (unat (c_keep_alive_requests cl))"
  let ?f = "if buffered_request_ready buf then Got reads buf else fetch reads buf"
  note unf = 1(4) [unfolded handle_client_event.simps [of world cfg tbl reads cl buf st w] Let_def]
  note fe = fetch_arriving [OF 1(5,6)]
  show ?case
  proof (cases ?f)
    case (Again rs')
    with unf have "handle_client_event world cfg tbl rs' cl buf st w = (out, rs, st1, w1)" by simp
    moreover have "arriving rs'" "bytes_in rs' = bytes_in reads" using Again fe by (simp_all split: if_splits)
    ultimately show ?thesis using 1(1) [OF refl Again] 1(6,7) by simp
  next
    case (Got rs' b)
    have rs': "arriving rs'" "b @ bytes_in rs' = buf @ bytes_in reads" using Got fe 1(5) by (auto split: if_splits)
    then have len: "length (b @ bytes_in rs') < CLIENT_BUFFER" using 1(6) by simp
    obtain p st' w' where p: "process_request ?sr cfg tbl cl b st w = (p, st', w')"
      by (metis prod.collapse)
    note ext = process_extend [OF p _ less_imp_le [OF len]]
    show ?thesis
    proof (cases p)
      case NeedMore
      with unf Got p have h: "handle_client_event world cfg tbl rs' cl b st' w' = (out, rs, st1, w1)" by simp
      from NeedMore p have "st' = st \<and> w' = w"
        by (auto simp: process_request_def Let_def split: parse_result.splits if_splits option.splits prod.splits)
      with 1(2) [OF refl Got p [symmetric] NeedMore refl h rs'(1) len 1(7)] rs'(2) show ?thesis by simp
    next
      case (NextRequest cl' rest)
      then have d: "drain world cfg tbl cl (buf @ bytes_in reads) st w = drain world cfg tbl cl' (rest @ bytes_in rs') st' w'"
        using ext rs'(2) by (simp add: drain.simps [of world cfg tbl cl "buf @ bytes_in reads" st w] extend_step_def)
      have len': "length (rest @ bytes_in rs') < CLIENT_BUFFER"
        using process_shrinks [of ?sr cfg tbl cl b st w cl' rest] p NextRequest len by simp
      show ?thesis
      proof (cases "buffered_request_ready rest")
        case True
        with unf Got p NextRequest
        have h: "handle_client_event world cfg tbl rs' cl' rest st' w' = (out, rs, st1, w1)" by simp
        from 1(3) [OF refl Got p [symmetric] NextRequest refl True h rs'(1) len' 1(7)] d show ?thesis by simp
      next
        case False
        have "sr_nonblocking_ok ?sr" using 1(7) by blast
        with False unf Got p NextRequest have "out = Waiting cl' rest \<and> rs = rs' \<and> st1 = st' \<and> w1 = w'" by simp
        with d rs'(1) len' show ?thesis by simp
      qed
    qed (use unf Got p ext rs'(2) in \<open>auto simp: drain.simps [of world cfg tbl cl "buf @ bytes_in reads" st w]
          extend_step_def\<close>)
  qed (use unf fe 1(6) in \<open>auto split: if_splits\<close>)
qed

text \<open>The loop returns to wait only with a buffer that holds no complete request.\<close>

lemma handle_waits:
  "handle_client_event world cfg tbl reads cl buf st w = (Waiting cl1 buf1, rs, st1, w1) \<Longrightarrow>
     \<not> buffered_request_ready buf1"
proof (induction world cfg tbl reads cl buf st w rule: handle_client_event.induct)
  case (1 world cfg tbl reads cl buf st w)
  let ?sr = "world (unat (c_keep_alive_requests cl))"
  let ?f = "if buffered_request_ready buf then Got reads buf else fetch reads buf"
  note unf = 1(4) [unfolded handle_client_event.simps [of world cfg tbl reads cl buf st w] Let_def]
  show ?case
  proof (cases ?f)
    case Blocked
    with unf show ?thesis by (auto split: if_splits)
  next
    case (Again rs')
    with unf 1(1) [OF refl Again] show ?thesis by simp
  next
    case (Got rs' b)
    obtain p st' w' where p: "process_request ?sr cfg tbl cl b st w = (p, st', w')"
      by (metis prod.collapse)
    show ?thesis
    proof (cases p)
      case NeedMore
      with unf Got p 1(2) [OF refl Got p [symmetric] NeedMore refl] show ?thesis by simp
    next
      case (NextRequest cl' rest)
      with unf Got p 1(3) [OF refl Got p [symmetric] NextRequest refl] show ?thesis
        by (cases "buffered_request_ready rest") (simp_all split: if_splits)
    qed (use unf Got p in simp_all)
  qed (use unf in simp_all)
qed

lemma serve_connection_drains:
  assumes "arriving reads" and "length (buf @ bytes_in reads) < CLIENT_BUFFER"
    and "\<forall>n. sr_nonblocking_ok (world n)"
  shows "drain world cfg tbl cl (buf @ bytes_in reads) st w =
    (case serve_connection world cfg tbl reads cl buf st w of
       (Waiting cl1 buf1, st1, w1) \<Rightarrow> drain world cfg tbl cl1 buf1 st1 w1 | r \<Rightarrow> r) \<and>
    (\<forall>cl1 buf1 st1 w1. serve_connection world cfg tbl reads cl buf st w = (Waiting cl1 buf1, st1, w1) \<longrightarrow>
       \<not> buffered_request_ready buf1)"
  using assms
proof (induction world cfg tbl reads cl buf st w rule: serve_connection.induct)
  case (1 world cfg tbl reads cl buf st w)
  obtain out rs st1 w1 where h: "handle_client_event world cfg tbl reads cl buf st w = (out, rs, st1, w1)"
    by (metis prod.collapse)
  note d = handle_drains [OF h 1(2,3,4)]
  note serve = serve_connection.simps [of world cfg tbl reads cl buf st w, unfolded h prod.case]
  show ?case
  proof (cases out)
    case (Waiting cl1 buf1)
    note ready = handle_waits [OF h [unfolded Waiting]]
    show ?thesis
    proof (cases "rs = []")
      case True
      with Waiting d serve ready show ?thesis by simp
    next
      case False
      have "arriving rs" "length (buf1 @ bytes_in rs) < CLIENT_BUFFER" using d Waiting by simp_all
      note rest = 1(1) [OF h [symmetric] Waiting refl refl False this 1(4)]
      from serve Waiting False have "serve_connection world cfg tbl reads cl buf st w =
          serve_connection world cfg tbl rs cl1 buf1 st1 w1" by simp
      moreover have "drain world cfg tbl cl (buf @ bytes_in reads) st w = drain world cfg tbl cl1 (buf1 @ bytes_in rs) st1 w1"
        using d Waiting by simp
      ultimately show ?thesis using rest by simp
    qed
  qed (use d serve in simp_all)
qed

text \<open>
  What \<open>process_request\<close> does with such a buffer: it waits for more bytes, or refuses a request
  whose body is incomplete and too large.
\<close>

definition oversized :: "config \<Rightarrow> nat option \<Rightarrow> http_request \<Rightarrow> bool" where
  "oversized cfg site req \<longleftrightarrow>
     (case site of None \<Rightarrow> False | Some i \<Rightarrow> site_max_body_size (cfg_sites cfg ! i) < r_content_length req) \<or>
     CLIENT_BUFFER - r_header_len req < unat (r_content_length req)"

lemma not_ready_process:
  assumes "\<not> buffered_request_ready buf"
  shows "process_request sr cfg tbl cl buf st w = (NeedMore, st, w) \<or>
    (\<exists>req. rpsiod_http_parse_request buf = Parsed req \<and> length buf < r_header_len req + unat (r_content_length req) \<and>
       oversized cfg (rpsiod_config_find_site_for_listener cfg tbl (r_host req) (c_local_port cl) (Some (c_server_ip cl))) req \<and>
       process_request sr cfg tbl cl buf st w =
         (case rpsiod_config_find_site_for_listener cfg tbl (r_host req) (c_local_port cl) (Some (c_server_ip cl)) of
            Some i \<Rightarrow> (Stop, refuse_body sr cl cfg i req st w) | None \<Rightarrow> (Crash, st, w)))"
proof (cases "rpsiod_http_parse_request buf")
  case Incomplete
  then show ?thesis by (simp add: process_request_def)
next
  case (Malformed req)
  then have "buf \<noteq> []" by (auto simp: rpsiod_http_parse_request_def)
  with Malformed assms show ?thesis by (simp add: buffered_request_ready_def)
next
  case (Parsed req)
  note len = parsed_header_len [OF Parsed]
  then have "buf \<noteq> []" by auto
  with Parsed assms have short: "length buf - r_header_len req < unat (r_content_length req)"
    by (simp add: buffered_request_ready_def)
  then have "length buf < r_header_len req + unat (r_content_length req)" using len by linarith
  with Parsed short show ?thesis
    by (auto simp: process_request_def oversized_def Let_def split: option.splits)
qed

text \<open>
  C2: the answers do not depend on how the network cuts the byte stream.  However the bytes of a
  connection arrive (in one piece, byte by byte, interrupted; without an end of file or a read
  error), if they fit into the 32768 bytes
  of the connection buffer and the socket can be made non-blocking again, the connection ends
  as answering its requests one after the other from the whole input ends it, with one
  exception: when the last request in the buffer announces a body that is too large and not
  there, its refusal (413 and closing, or the null site of a host nobody serves) is still
  pending while the connection waits for another byte.
\<close>

theorem connection_segmentation:
  assumes "arriving reads" and "length (buf @ bytes_in reads) < 32768"
    and "\<forall>n. sr_nonblocking_ok (world n)"
  shows "serve_connection world cfg tbl reads cl buf st w = drain world cfg tbl cl (buf @ bytes_in reads) st w \<or>
    (\<exists>cl1 buf1 st1 w1 req. serve_connection world cfg tbl reads cl buf st w = (Waiting cl1 buf1, st1, w1) \<and>
       rpsiod_http_parse_request buf1 = Parsed req \<and> length buf1 < r_header_len req + unat (r_content_length req) \<and>
       oversized cfg (rpsiod_config_find_site_for_listener cfg tbl (r_host req) (c_local_port cl1) (Some (c_server_ip cl1))) req \<and>
       drain world cfg tbl cl (buf @ bytes_in reads) st w =
         (case rpsiod_config_find_site_for_listener cfg tbl (r_host req) (c_local_port cl1) (Some (c_server_ip cl1)) of
            Some i \<Rightarrow> (Closed, refuse_body (world (unat (c_keep_alive_requests cl1))) cl1 cfg i req st1 w1)
          | None \<Rightarrow> (Crashed, st1, w1)))"
proof -
  obtain out st1 w1 where r: "serve_connection world cfg tbl reads cl buf st w = (out, st1, w1)"
    by (rule prod_cases3)
  note d = serve_connection_drains [OF assms(1) _ assms(3), of buf cfg tbl cl st w, folded CLIENT_BUFFER_def, unfolded r prod.case]
  have len: "length (buf @ bytes_in reads) < CLIENT_BUFFER" using assms(2) by (simp add: CLIENT_BUFFER_def)
  show ?thesis
  proof (cases out)
    case (Waiting cl1 buf1)
    with d [OF len] have drain: "drain world cfg tbl cl (buf @ bytes_in reads) st w = drain world cfg tbl cl1 buf1 st1 w1"
      and ready: "\<not> buffered_request_ready buf1"
      by simp_all
    let ?sr = "world (unat (c_keep_alive_requests cl1))"
    from not_ready_process [OF ready, of ?sr cfg tbl cl1 st1 w1] show ?thesis
    proof
      assume "process_request ?sr cfg tbl cl1 buf1 st1 w1 = (NeedMore, st1, w1)"
      then have "drain world cfg tbl cl1 buf1 st1 w1 = (Waiting cl1 buf1, st1, w1)"
        by (simp add: drain.simps [of world cfg tbl cl1 buf1 st1 w1])
      with drain r Waiting show ?thesis by simp
    next
      let ?site = "\<lambda>req. rpsiod_config_find_site_for_listener cfg tbl (r_host req) (c_local_port cl1) (Some (c_server_ip cl1))"
      assume "\<exists>req. rpsiod_http_parse_request buf1 = Parsed req \<and> length buf1 < r_header_len req + unat (r_content_length req) \<and>
        oversized cfg (?site req) req \<and> process_request ?sr cfg tbl cl1 buf1 st1 w1 =
         (case ?site req of Some i \<Rightarrow> (Stop, refuse_body ?sr cl1 cfg i req st1 w1) | None \<Rightarrow> (Crash, st1, w1))"
      then obtain req where req: "rpsiod_http_parse_request buf1 = Parsed req"
        "length buf1 < r_header_len req + unat (r_content_length req)" "oversized cfg (?site req) req"
        and p: "process_request ?sr cfg tbl cl1 buf1 st1 w1 =
         (case ?site req of Some i \<Rightarrow> (Stop, refuse_body ?sr cl1 cfg i req st1 w1) | None \<Rightarrow> (Crash, st1, w1))"
        by blast
      have "drain world cfg tbl cl1 buf1 st1 w1 =
          (case ?site req of Some i \<Rightarrow> (Closed, refuse_body ?sr cl1 cfg i req st1 w1) | None \<Rightarrow> (Crashed, st1, w1))"
        using p by (simp add: drain.simps [of world cfg tbl cl1 buf1 st1 w1] split: option.splits prod.splits)
      with req drain r Waiting show ?thesis by auto
    qed
  qed (use d [OF len] r in simp_all)
qed

text \<open>A whole request in two pieces with the beginning of the next one behind it.\<close>

definition demo_stream :: string where
  "demo_stream = ''GET / HTTP/1.1'' @ CRLF @ ''Host: a'' @ CRLF @ CRLF"

definition demo_reads :: "read_event list" where
  "demo_reads = [Data (take 16 demo_stream), ReadEintr, Data (drop 16 demo_stream @ ''GET'')]"

definition first_state :: server_state where
  "first_state = demo_state\<lparr>ss_pid := 0\<rparr>"

definition demo_parsed :: http_request where
  "demo_parsed = empty_request\<lparr>r_method := ''GET'', r_path := ''/'', r_host := ''a'', r_keep_alive := True,
     r_header_len := length demo_stream\<rparr>"

lemma demo_stream_parsed: "rpsiod_http_parse_request demo_stream = Parsed demo_parsed"
  by code_simp

lemma text_delivered:
  assumes "build_response_headers env cl status text_plain (int (length text)) (r_keep_alive req) (no_options\<lparr>ro_site := site\<rparr>) HEADERS_LEN = Some h"
    and "text \<noteq> []" and "\<not> c_tls cl" and "io_events w = []"
  shows "fst (send_text env cl site status text req w)"
  using assms writev_loop_write_all [of "[text]" "w\<lparr>io_sent := io_sent w @ h\<rparr>"]
  by (simp add: send_text_def respond_def write_response_headers_def client_write_all_def client_writev_all_def
      write_all_quiet)

lemma demo_answered:
  "\<exists>cl1 st1 w1. process_request demo_surroundings rpsiod_config_defaults empty_route_table demo_client demo_stream
     first_state demo_io = (NextRequest cl1 [], st1, w1)"
proof -
  obtain cl1 st1 where m: "mark_request_start demo_surroundings demo_client first_state = (cl1, st1)" by fastforce
  have cl1: "\<not> c_tls cl1" using m by (auto simp: mark_request_start_def demo_client_def split: prod.splits)
  let ?o = "no_options\<lparr>ro_site := None\<rparr>"
  have "length (lines_text (status_line 404 # map header_line
      (response_fields demo_env (fst (mark_request_start demo_surroundings demo_client first_state)) text_plain 14 True ?o))) < 700"
    by code_simp
  then have "length (lines_text (status_line 404 # map header_line
      (response_fields demo_env cl1 text_plain 14 True ?o))) < 700"
    by (simp only: m fst_conv)
  then obtain h where h: "build_response_headers demo_env cl1 404 text_plain 14 True ?o HEADERS_LEN = Some h"
    using build_response_headers_fits [of 404 demo_env cl1 text_plain 14 True ?o HEADERS_LEN]
    by (auto simp: HEADERS_LEN_def)
  have keep: "should_keep_alive rpsiod_config_defaults demo_client None demo_parsed"
    by code_simp
  have m2: "\<not> rpsiod_streq_ci (r_method demo_parsed) ''TRACE''" "\<not> rpsiod_streq_ci (r_method demo_parsed) ''CONNECT''"
    by code_simp+
  let ?body = "take 0 (drop (r_header_len demo_parsed) demo_stream)"
  have ok: "fst (send_text demo_env cl1 None 404 (''404 Not Found'' @ [LF]) demo_parsed demo_io)"
    using h cl1 by (intro text_delivered) (simp_all add: demo_parsed_def empty_request_def demo_io_def)
  have s: "serve_request demo_surroundings cl1 rpsiod_config_defaults empty_route_table demo_parsed demo_stream body st1 demo_io =
      (send_text demo_env cl1 None 404 (''404 Not Found'' @ [LF]) demo_parsed demo_io, st1)" for body
    by (simp add: serve_request_def m2 demo_unrouted demo_surroundings_def)
  have l: "r_header_len demo_parsed = length demo_stream" "r_content_length demo_parsed = 0"
    by (simp_all add: demo_parsed_def empty_request_def)
  from ok obtain w1 where "send_text demo_env cl1 None 404 (''404 Not Found'' @ [LF]) demo_parsed demo_io = (True, w1)"
    by (metis prod.collapse)
  with keep show ?thesis
    by (simp add: process_request_def demo_stream_parsed demo_unrouted Let_def m s l)
qed

theorem connection_segmentation_witness:
  "\<exists>cl1 st1 w1. serve_connection (\<lambda>_. demo_surroundings) rpsiod_config_defaults empty_route_table demo_reads
      demo_client [] first_state demo_io = (Waiting cl1 ''GET'', st1, w1) \<and>
    drain (\<lambda>_. demo_surroundings) rpsiod_config_defaults empty_route_table demo_client (demo_stream @ ''GET'')
      first_state demo_io = (Waiting cl1 ''GET'', st1, w1)"
proof -
  obtain cl1 st1 w1 where p: "process_request demo_surroundings rpsiod_config_defaults empty_route_table demo_client
      demo_stream first_state demo_io = (NextRequest cl1 [], st1, w1)"
    using demo_answered by blast
  have len: "length demo_stream = 27" by (simp add: demo_stream_def)
  have "process_request demo_surroundings rpsiod_config_defaults empty_route_table demo_client
      (demo_stream @ ''GET'') first_state demo_io = (NextRequest cl1 ''GET'', st1, w1)"
    using process_extend [OF p, of "''GET''"] by (simp add: extend_step_def len CLIENT_BUFFER_def)
  moreover have "rpsiod_http_parse_request ''GET'' = Incomplete" by code_simp
  then have "process_request demo_surroundings rpsiod_config_defaults empty_route_table cl1 ''GET'' st1 w1 = (NeedMore, st1, w1)"
    by (simp add: process_request_def)
  ultimately have d: "drain (\<lambda>_. demo_surroundings) rpsiod_config_defaults empty_route_table demo_client (demo_stream @ ''GET'')
      first_state demo_io = (Waiting cl1 ''GET'', st1, w1)"
    by (simp add: drain.simps)
  have r: "arriving demo_reads" "bytes_in demo_reads = demo_stream @ ''GET''"
    by (simp_all add: demo_reads_def demo_stream_def)
  have "length ([] @ bytes_in demo_reads) < 32768" using r(2) by (simp add: len)
  from connection_segmentation [OF r(1) this, of "\<lambda>_. demo_surroundings" rpsiod_config_defaults empty_route_table
      demo_client first_state demo_io] d r(2)
  show ?thesis by (auto simp: demo_surroundings_def split: option.splits)
qed

section \<open>Limits of the loop\<close>

text \<open>
  A body that cannot fit into the buffer, announced to a host without a site, makes the worker
  dereference a null site when it looks for the error page of status 413.
\<close>

lemma unrouted_body_crashes:
  assumes "rpsiod_http_parse_request buf = Parsed req"
    and "rpsiod_config_find_site_for_listener cfg tbl (r_host req) (c_local_port cl) (Some (c_server_ip cl)) = None"
    and "length buf \<le> CLIENT_BUFFER" and "CLIENT_BUFFER - r_header_len req < unat (r_content_length req)"
  shows "process_request sr cfg tbl cl buf st w = (Crash, st, w)"
proof -
  have "length buf - r_header_len req < unat (r_content_length req)" using assms(3,4) by linarith
  with assms show ?thesis by (simp add: process_request_def Let_def)
qed

text \<open>A buffer filled to the last byte is refused, whatever complete requests it holds.\<close>

lemma full_buffer_refused:
  assumes "length s = CLIENT_BUFFER"
  shows "\<exists>st' w'. handle_client_event world cfg tbl [Data s] cl [] st w = (Closed, [], st', w')"
  using assms by (simp add: handle_client_event.simps buffered_request_ready_def CLIENT_BUFFER_def)

text \<open>
  A refused body is answered only when its last bytes come in a read of their own: behind a
  request that is answered, the loop goes back to wait although the next request, already in
  the buffer, is one it refuses.
\<close>

theorem refused_body_deferred:
  assumes "process_request (world (unat (c_keep_alive_requests cl))) cfg tbl cl r1 st w = (NextRequest cl1 [], st1, w1)"
    and "\<not> buffered_request_ready r2"
    and "process_request (world (unat (c_keep_alive_requests cl1))) cfg tbl cl1 r2 st1 w1 = (Stop, st2, w2)"
    and "length (r1 @ r2) < CLIENT_BUFFER" and "\<forall>n. sr_nonblocking_ok (world n)" and "r1 \<noteq> []" and "r2 \<noteq> []"
  shows "serve_connection world cfg tbl [Data (r1 @ r2)] cl [] st w = (Waiting cl1 r2, st1, w1)"
    and "serve_connection world cfg tbl [Data r1, Data r2] cl [] st w = (Closed, st2, w2)"
proof -
  have e: "\<not> buffered_request_ready []" by (simp add: buffered_request_ready_def)
  have both: "process_request (world (unat (c_keep_alive_requests cl))) cfg tbl cl (r1 @ r2) st w = (NextRequest cl1 r2, st1, w1)"
    using process_extend [OF assms(1), of r2] assms(4) by (simp add: extend_step_def)
  have f: "fetch [Data (r1 @ r2)] [] = Got [] (r1 @ r2)" "fetch [Data r1, Data r2] [] = Got [Data r2] r1"
    "fetch [Data r2] [] = Got [] r2"
    using assms(4,6,7) by (simp_all add: Let_def)
  have "handle_client_event world cfg tbl [Data (r1 @ r2)] cl [] st w = (Waiting cl1 r2, [], st1, w1)"
    using both f(1) e assms(2,5) by (simp add: handle_client_event.simps Let_def)
  then show "serve_connection world cfg tbl [Data (r1 @ r2)] cl [] st w = (Waiting cl1 r2, st1, w1)"
    by (simp add: serve_connection.simps)
  have "handle_client_event world cfg tbl [Data r1, Data r2] cl [] st w = (Waiting cl1 [], [Data r2], st1, w1)"
    using assms(1,5) f(2) e by (simp add: handle_client_event.simps Let_def)
  moreover have "handle_client_event world cfg tbl [Data r2] cl1 [] st1 w1 = (Closed, [], st2, w2)"
    using assms(3) f(3) e by (simp add: handle_client_event.simps Let_def)
  ultimately show "serve_connection world cfg tbl [Data r1, Data r2] cl [] st w = (Closed, st2, w2)"
    by (simp add: serve_connection.simps)
qed

end
