(* ===== verification/Clients.thy ===== *)
theory Clients
  imports Connection
begin

text \<open>
  The connections of a worker: the doubly linked list of \<open>client_object\<close>s as a heap
  (\<open>client_list_add\<close>, \<open>client_list_remove\<close>, \<open>close_client\<close>), accepting (\<open>accept_clients\<close>), the sweep of
  idle connections and the dispatch of one epoll event.  Pointers are numbers, \<open>NULL\<close> is
  \<open>None\<close>, freed objects are not in the heap.
\<close>

section \<open>The list\<close>

record node =
  nd_client :: client
  nd_buf :: string
  nd_prev :: "nat option"
  nd_next :: "nat option"

type_synonym heap = "nat \<Rightarrow> node option"

definition upd :: "nat \<Rightarrow> (node \<Rightarrow> node) \<Rightarrow> heap \<Rightarrow> heap" where
  "upd p f h = (case h p of None \<Rightarrow> h | Some n \<Rightarrow> h(p \<mapsto> f n))"

definition client_list_add :: "nat option \<Rightarrow> nat \<Rightarrow> heap \<Rightarrow> nat option \<times> heap" where
  "client_list_add head p h =
     (let h1 = upd p (\<lambda>n. n\<lparr>nd_prev := None, nd_next := head\<rparr>) h in
      (Some p, case head of None \<Rightarrow> h1 | Some q \<Rightarrow> upd q (\<lambda>n. n\<lparr>nd_prev := Some p\<rparr>) h1))"

definition client_list_remove :: "nat option \<Rightarrow> nat \<Rightarrow> heap \<Rightarrow> nat option \<times> heap" where
  "client_list_remove head p h =
     (case h p of
        None \<Rightarrow> (head, h)
      | Some n \<Rightarrow>
          (let (head1, h1) =
             (case nd_prev n of
                Some q \<Rightarrow> (head, upd q (\<lambda>m. m\<lparr>nd_next := nd_next n\<rparr>) h)
              | None \<Rightarrow> (if head = Some p then nd_next n else head, h));
               h2 = (case nd_next n of None \<Rightarrow> h1 | Some q \<Rightarrow> upd q (\<lambda>m. m\<lparr>nd_prev := nd_prev n\<rparr>) h1) in
           (head1, upd p (\<lambda>m. m\<lparr>nd_prev := None, nd_next := None\<rparr>) h2)))"

definition close_client :: "nat option \<Rightarrow> nat \<Rightarrow> heap \<Rightarrow> nat option \<times> heap" where
  "close_client head p h = (case client_list_remove head p h of (head1, h1) \<Rightarrow> (head1, h1(p := None)))"

section \<open>The sweep\<close>

definition timespec_elapsed_sec :: "timespec \<Rightarrow> timespec \<Rightarrow> int \<Rightarrow> bool" where
  "timespec_elapsed_sec start now seconds =
     (if seconds \<le> 0 \<or> tv_sec start = 0 then False
      else let sec = tv_sec now - tv_sec start; nsec = tv_nsec now - tv_nsec start;
               sec = (if nsec < 0 then sec - 1 else sec) in
           seconds \<le> sec)"

definition idle_expired :: "config \<Rightarrow> timespec \<Rightarrow> node \<Rightarrow> bool" where
  "idle_expired cfg now n \<longleftrightarrow>
     c_idle_keep_alive (nd_client n) \<and> nd_buf n = [] \<and>
     timespec_elapsed_sec (c_last_active_mono (nd_client n)) now (cfg_keep_alive_timeout_sec cfg)"

text \<open>\<open>None\<close>: the walk does not end, or follows a pointer into freed memory.\<close>

partial_function (option) sweep_loop ::
  "config \<Rightarrow> timespec \<Rightarrow> nat option \<Rightarrow> heap \<Rightarrow> nat option \<Rightarrow> (nat option \<times> heap) option" where
  "sweep_loop cfg now head h cur =
     (case cur of
        None \<Rightarrow> Some (head, h)
      | Some p \<Rightarrow>
          (case h p of
             None \<Rightarrow> None
           | Some n \<Rightarrow>
               if idle_expired cfg now n
               then (case close_client head p h of (head1, h1) \<Rightarrow> sweep_loop cfg now head1 h1 (nd_next n))
               else sweep_loop cfg now head h (nd_next n)))"

text \<open>\<open>now\<close> is \<open>None\<close> when \<open>clock_gettime\<close> fails.\<close>

definition sweep_idle_keep_alive_clients ::
  "config \<Rightarrow> timespec option \<Rightarrow> nat option \<Rightarrow> heap \<Rightarrow> (nat option \<times> heap) option" where
  "sweep_idle_keep_alive_clients cfg now head h =
     (if \<not> cfg_keep_alive_enabled cfg \<or> cfg_keep_alive_timeout_sec cfg \<le> 0 then Some (head, h)
      else case now of None \<Rightarrow> Some (head, h) | Some t \<Rightarrow> sweep_loop cfg t head h head)"

section \<open>Accepting\<close>

datatype handshake = TlsFailed | TlsHttp1 | TlsHttp2

text \<open>
  What \<open>accept4\<close> answers.  \<open>Accepted\<close> holds the new object, the peer's and the local IPv4
  address, the outcome of the TLS handshake and whether \<open>epoll_ctl\<close> succeeds; \<open>NoMemory\<close> is an
  accepted connection for which \<open>calloc\<close> fails.
\<close>

datatype accept_result = Accepted nat "string option" "string option" handshake bool
  | AcceptEintr | AcceptBlocked | AcceptError | NoMemory

record listener =
  ls_ip :: string
  ls_port :: u16
  ls_tls :: bool

definition accepted_client ::
  "surroundings \<Rightarrow> listener \<Rightarrow> config \<Rightarrow> string option \<Rightarrow> string option \<Rightarrow> server_state \<Rightarrow> client \<times> server_state" where
  "accepted_client sr l cfg peer own st =
     mark_request_start sr
       \<lparr>c_local_port = ls_port l, c_tls = ls_tls l, c_request_started_mono = sr_start_mono sr,
        c_request_started_real = sr_start_real sr, c_request_id = 0, c_keep_alive_requests = 0,
        c_sendfile_enabled = cfg_sendfile_enabled cfg, c_idle_keep_alive = False,
        c_client_ip = (case peer of Some ip \<Rightarrow> ip | None \<Rightarrow> ''-''),
        c_server_ip = (case own of Some ip \<Rightarrow> ip | None \<Rightarrow> ''0.0.0.0''),
        c_last_active_mono = sr_start_mono sr\<rparr> st"

text \<open>The connections handed to the HTTP/2 server are collected in the last component.\<close>

fun accept_clients ::
  "surroundings \<Rightarrow> listener \<Rightarrow> config \<Rightarrow> accept_result list \<Rightarrow> nat option \<Rightarrow> heap \<Rightarrow> server_state \<Rightarrow>
     nat option \<times> heap \<times> server_state \<times> client list" where
  "accept_clients sr l cfg [] head h st = (head, h, st, [])"
| "accept_clients sr l cfg (AcceptEintr # rs) head h st = accept_clients sr l cfg rs head h st"
| "accept_clients sr l cfg (Accepted p peer own hs epoll_ok # rs) head h st =
     (let (cl, st1) = accepted_client sr l cfg peer own st in
      if ls_tls l \<and> hs = TlsFailed then accept_clients sr l cfg rs head h st1
      else if ls_tls l \<and> hs = TlsHttp2 then
        (case accept_clients sr l cfg rs head h st1 of (head1, h1, st2, h2s) \<Rightarrow> (head1, h1, st2, cl # h2s))
      else if \<not> epoll_ok then accept_clients sr l cfg rs head h st1
      else case client_list_add head p (h(p \<mapsto> \<lparr>nd_client = cl, nd_buf = [], nd_prev = None, nd_next = None\<rparr>)) of
        (head1, h1) \<Rightarrow> accept_clients sr l cfg rs head1 h1 st1)"
| "accept_clients sr l cfg (_ # rs) head h st = (head, h, st, [])"

section \<open>One event of a client\<close>

definition client_event ::
  "(nat \<Rightarrow> surroundings) \<Rightarrow> config \<Rightarrow> route_table \<Rightarrow> bool \<Rightarrow> read_event list \<Rightarrow> nat \<Rightarrow> nat option \<Rightarrow> heap \<Rightarrow>
     server_state \<Rightarrow> io \<Rightarrow> (nat option \<times> heap) option \<times> server_state \<times> io" where
  "client_event world cfg tbl hangup reads p head h st w =
     (case h p of
        None \<Rightarrow> (None, st, w)
      | Some n \<Rightarrow>
          if hangup then (Some (close_client head p h), st, w)
          else case handle_client_event world cfg tbl reads (nd_client n) (nd_buf n) st w of
            (Waiting cl buf, _, st1, w1) \<Rightarrow> (Some (head, h(p \<mapsto> n\<lparr>nd_client := cl, nd_buf := buf\<rparr>)), st1, w1)
          | (Closed, _, st1, w1) \<Rightarrow> (Some (close_client head p h), st1, w1)
          | (Crashed, _, st1, w1) \<Rightarrow> (None, st1, w1))"

section \<open>The heap holds a list\<close>

text \<open>A doubly linked segment: from \<open>cur\<close>, whose predecessor is \<open>prev\<close>, over the objects \<open>xs\<close>.\<close>

fun dseg :: "heap \<Rightarrow> nat option \<Rightarrow> nat option \<Rightarrow> nat list \<Rightarrow> nat option \<Rightarrow> nat option \<Rightarrow> bool" where
  "dseg h prev cur [] prev' cur' \<longleftrightarrow> prev = prev' \<and> cur = cur'"
| "dseg h prev cur (p # ps) prev' cur' \<longleftrightarrow> cur = Some p \<and>
     (case h p of None \<Rightarrow> False
      | Some n \<Rightarrow> nd_prev n = prev \<and> dseg h (Some p) (nd_next n) ps prev' cur')"

definition clients :: "heap \<Rightarrow> nat option \<Rightarrow> nat list \<Rightarrow> bool" where
  "clients h head ps \<longleftrightarrow> distinct ps \<and> (\<exists>tail. dseg h None head ps tail None)"

lemma dseg_append:
  "dseg h a b (xs @ ys) c d \<longleftrightarrow> (\<exists>m k. dseg h a b xs m k \<and> dseg h m k ys c d)"
  by (induction xs arbitrary: a b) (auto split: option.splits)

lemma dseg_cong: "\<forall>q \<in> set ps. h' q = h q \<Longrightarrow> dseg h' a b ps c d = dseg h a b ps c d"
  by (induction ps arbitrary: a b) (auto split: option.splits)

lemma upd_other [simp]: "q \<noteq> p \<Longrightarrow> upd p f h q = h q"
  by (simp add: upd_def split: option.split)

lemma upd_same [simp]: "upd p f h p = map_option f (h p)"
  by (simp add: upd_def split: option.split)

lemma dseg_upd: "p \<notin> set ps \<Longrightarrow> dseg (upd p f h) a b ps c d = dseg h a b ps c d"
  by (rule dseg_cong) (metis upd_other)

lemma dseg_set_first:
  assumes "dseg h a b ps c d" and "distinct ps"
  shows "dseg (case b of None \<Rightarrow> h | Some q \<Rightarrow> if ps = [] then h else upd q (\<lambda>n. n\<lparr>nd_prev := a'\<rparr>) h) a' b ps
           (if ps = [] then a' else c) d"
proof (cases ps)
  case (Cons q qs)
  with assms obtain n where n: "b = Some q" "h q = Some n" "dseg h (Some q) (nd_next n) qs c d" "q \<notin> set qs"
    by (auto split: option.splits)
  have "dseg (upd q (\<lambda>n. n\<lparr>nd_prev := a'\<rparr>) h) (Some q) (nd_next n) qs c d"
    using n(3,4) by (simp add: dseg_upd)
  with Cons n show ?thesis by simp
qed (use assms in \<open>auto split: option.split\<close>)

lemma dseg_set_last:
  assumes "dseg h a b (qs @ [q]) c d" and "distinct (qs @ [q])"
  shows "dseg (upd q (\<lambda>n. n\<lparr>nd_next := d'\<rparr>) h) a b (qs @ [q]) (Some q) d'" and "c = Some q"
proof -
  obtain m k where s: "dseg h a b qs m k" "dseg h m k [q] c d" using assms(1) unfolding dseg_append by blast
  have "dseg (upd q (\<lambda>n. n\<lparr>nd_next := d'\<rparr>) h) a b qs m k"
    using s(1) assms(2) by (simp add: dseg_upd)
  moreover have "dseg (upd q (\<lambda>n. n\<lparr>nd_next := d'\<rparr>) h) m k [q] (Some q) d'"
    using s(2) by (auto split: option.splits)
  ultimately show "dseg (upd q (\<lambda>n. n\<lparr>nd_next := d'\<rparr>) h) a b (qs @ [q]) (Some q) d'"
    unfolding dseg_append by blast
  show "c = Some q" using s(2) by (auto split: option.splits)
qed

text \<open>The links apart, what an object holds.\<close>

definition holds :: "heap \<Rightarrow> nat \<Rightarrow> (client \<times> string) option" where
  "holds h p = map_option (\<lambda>n. (nd_client n, nd_buf n)) (h p)"

lemma holds_upd:
  "(\<And>n. nd_client (f n) = nd_client n \<and> nd_buf (f n) = nd_buf n) \<Longrightarrow> holds (upd p f h) q = holds h q"
  by (cases "q = p") (auto simp: holds_def option.map_comp o_def)

lemma add_list:
  assumes "clients h head ps" and "h p \<noteq> None" and "p \<notin> set ps"
    and "client_list_add head p h = (head', h')"
  shows "clients h' head' (p # ps) \<and> holds h' = holds h"
proof -
  obtain n where n: "h p = Some n" using assms(2) by blast
  obtain l where l: "dseg h None head ps l None" "distinct ps" using assms(1) by (auto simp: clients_def)
  let ?h1 = "upd p (\<lambda>n. n\<lparr>nd_prev := None, nd_next := head\<rparr>) h"
  have h': "head' = Some p" "h' = (case head of None \<Rightarrow> ?h1 | Some q \<Rightarrow> upd q (\<lambda>n. n\<lparr>nd_prev := Some p\<rparr>) ?h1)"
    using assms(4) by (auto simp: client_list_add_def Let_def)
  have h1: "dseg ?h1 None head ps l None" using l(1) assms(3) by (simp add: dseg_upd)
  have "dseg h' (Some p) head ps (if ps = [] then Some p else l) None"
    using dseg_set_first [OF h1 l(2), of "Some p"] l(1) h' by (cases ps) (auto split: option.splits)
  moreover have "h' p = Some (n\<lparr>nd_prev := None, nd_next := head\<rparr>)"
    using h' n l(1) assms(3) by (cases ps) (auto split: option.splits)
  moreover have "holds h' = holds h"
    unfolding h' by (rule ext) (simp add: holds_upd split: option.split)
  ultimately show ?thesis using l(2) assms(3) h'(1) by (auto simp: clients_def)
qed

lemma remove_list:
  assumes "clients h head (qs @ p # ps)" and "client_list_remove head p h = (head', h')"
  shows "clients h' head' (qs @ ps) \<and> holds h' = holds h"
proof -
  obtain tail where "dseg h None head (qs @ p # ps) tail None" and d: "distinct (qs @ p # ps)"
    using assms(1) by (auto simp: clients_def)
  then obtain m n where n: "dseg h None head qs m (Some p)" "h p = Some n" "nd_prev n = m"
      "dseg h (Some p) (nd_next n) ps tail None"
    by (auto simp: dseg_append split: option.splits)
  define h1 where "h1 = (case m of Some q \<Rightarrow> upd q (\<lambda>k. k\<lparr>nd_next := nd_next n\<rparr>) h | None \<Rightarrow> h)"
  have pre: "dseg h1 None head' qs m (nd_next n)" and head: "head' = (case m of None \<Rightarrow> nd_next n | Some _ \<Rightarrow> head)"
  proof -
    have "m = None \<longleftrightarrow> qs = []" "qs = [] \<Longrightarrow> head = Some p"
      using n(1) dseg_set_last(2) d by (cases qs rule: rev_cases; fastforce)+
    then show head: "head' = (case m of None \<Rightarrow> nd_next n | Some _ \<Rightarrow> head)"
      using assms(2) n(2,3) by (auto simp: client_list_remove_def Let_def split: option.splits)
    show "dseg h1 None head' qs m (nd_next n)"
    proof (cases qs rule: rev_cases)
      case Nil
      with n(1) head show ?thesis by simp
    next
      case (snoc rs r)
      then have "m = Some r" using dseg_set_last(2) n(1) d by fastforce
      with snoc head show ?thesis
        unfolding h1_def using dseg_set_last(1) [of h None head rs r m "Some p" "nd_next n"] n(1) d by simp
    qed
  qed
  have m: "m = None \<or> (\<exists>r \<in> set qs. m = Some r)"
    using dseg_set_last(2) [of h None head _ _ m "Some p"] n(1) d by (cases qs rule: rev_cases) auto
  have "r \<notin> set ps" if "r \<in> set qs" for r using d that by auto
  with m have suf: "dseg h1 (Some p) (nd_next n) ps tail None"
    using n(4) unfolding h1_def by (auto simp: dseg_upd)
  define h2 where "h2 = (case nd_next n of None \<Rightarrow> h1 | Some q \<Rightarrow> upd q (\<lambda>k. k\<lparr>nd_prev := m\<rparr>) h1)"
  have hd_ps: "nd_next n = (case ps of [] \<Rightarrow> None | q # _ \<Rightarrow> Some q)"
    using n(4) by (cases ps) auto
  have "dseg h2 m (nd_next n) ps (if ps = [] then m else tail) None"
    using dseg_set_first [OF suf, of m] d hd_ps unfolding h2_def by (cases ps) auto
  moreover have "dseg h2 None head' qs m (nd_next n)"
    using pre hd_ps d unfolding h2_def by (cases ps) (auto simp: dseg_upd)
  moreover have h': "h' = upd p (\<lambda>k. k\<lparr>nd_prev := None, nd_next := None\<rparr>) h2"
    using assms(2) n(2,3) unfolding h2_def h1_def
    by (auto simp: client_list_remove_def Let_def split: option.splits if_splits)
  ultimately have "dseg h' None head' (qs @ ps) (if ps = [] then m else tail) None"
    using d by (auto simp: dseg_append dseg_upd)
  moreover have "holds h' = holds h"
    unfolding h' h2_def h1_def by (rule ext) (simp add: holds_upd split: option.split)
  ultimately show ?thesis using d by (auto simp: clients_def)
qed

lemma close_list:
  assumes "clients h head (qs @ p # ps)" and "close_client head p h = (head', h')"
  shows "clients h' head' (qs @ ps) \<and> holds h' = (holds h)(p := None)"
proof -
  obtain h1 where r: "client_list_remove head p h = (head', h1)" "h' = h1(p := None)"
    using assms(2) by (auto simp: close_client_def split: prod.splits)
  note l = remove_list [OF assms(1) r(1)]
  have "p \<notin> set (qs @ ps)" using assms(1) by (simp add: clients_def)
  then have "clients h' head' (qs @ ps)"
    using l dseg_cong [of "qs @ ps" h' h1] r(2) by (auto simp: clients_def)
  moreover have "holds h' = (holds h)(p := None)" using l r(2) by (auto simp: holds_def fun_eq_iff)
  ultimately show ?thesis by blast
qed

section \<open>The sweep closes exactly the idle connections\<close>

definition time_ns :: "timespec \<Rightarrow> int" where
  "time_ns t = tv_sec t * 1000000000 + tv_nsec t"

definition timespec_ok :: "timespec \<Rightarrow> bool" where
  "timespec_ok t \<longleftrightarrow> 0 \<le> tv_nsec t \<and> tv_nsec t < 1000000000"

lemma timespec_elapsed_sec_iff:
  assumes "timespec_ok start" and "timespec_ok now" and "0 < seconds" and "tv_sec start \<noteq> 0"
  shows "timespec_elapsed_sec start now seconds \<longleftrightarrow> time_ns start + seconds * 1000000000 \<le> time_ns now"
  using assms by (auto simp: timespec_elapsed_sec_def timespec_ok_def time_ns_def Let_def)

lemma idle_expired_holds:
  "h p = Some n \<Longrightarrow> h' p = Some n' \<Longrightarrow> holds h' p = holds h p \<Longrightarrow> idle_expired cfg now n' = idle_expired cfg now n"
  by (simp add: holds_def idle_expired_def)

definition expired_at :: "config \<Rightarrow> timespec \<Rightarrow> heap \<Rightarrow> nat \<Rightarrow> bool" where
  "expired_at cfg now h p \<longleftrightarrow> (case h p of None \<Rightarrow> False | Some n \<Rightarrow> idle_expired cfg now n)"

lemma expired_at_holds: "holds h' p = holds h p \<Longrightarrow> expired_at cfg now h' p = expired_at cfg now h p"
  by (auto simp: holds_def idle_expired_def expired_at_def split: option.splits)

lemma sweep_loop_list:
  assumes "clients h head (qs @ ps)" and "cur = (case ps of [] \<Rightarrow> None | p # _ \<Rightarrow> Some p)"
  shows "\<exists>head' h'. sweep_loop cfg now head h cur = Some (head', h') \<and>
    clients h' head' (qs @ filter (\<lambda>p. \<not> expired_at cfg now h p) ps) \<and>
    (\<forall>q. holds h' q = (if q \<in> set ps \<and> expired_at cfg now h q then None else holds h q))"
  using assms
proof (induction ps arbitrary: qs head h cur)
  case Nil
  then show ?case by (subst sweep_loop.simps) simp
next
  case (Cons p ps)
  from Cons.prems(1) obtain n where n: "h p = Some n" "nd_next n = (case ps of [] \<Rightarrow> None | q # _ \<Rightarrow> Some q)"
    and d: "p \<notin> set ps"
    by (cases ps) (auto simp: clients_def dseg_append split: option.splits)
  show ?case
  proof (cases "idle_expired cfg now n")
    case True
    obtain head1 h1 where c: "close_client head p h = (head1, h1)" by fastforce
    note l = close_list [OF Cons.prems(1) c]
    have same: "expired_at cfg now h1 q = expired_at cfg now h q" if "q \<noteq> p" for q
      using l that by (intro expired_at_holds) simp
    then have f: "filter (\<lambda>p. \<not> expired_at cfg now h1 p) ps = filter (\<lambda>p. \<not> expired_at cfg now h p) ps"
      using d by (intro filter_cong refl) metis
    obtain head' h' where r: "sweep_loop cfg now head1 h1 (nd_next n) = Some (head', h')"
      "clients h' head' (qs @ filter (\<lambda>p. \<not> expired_at cfg now h1 p) ps)"
      "\<forall>q. holds h' q = (if q \<in> set ps \<and> expired_at cfg now h1 q then None else holds h1 q)"
      using Cons.IH [OF conjunct1 [OF l] n(2)] by blast
    have "sweep_loop cfg now head h cur = Some (head', h')"
      using Cons.prems(2) n(1) True c r(1) by (subst sweep_loop.simps) simp
    moreover have e: "expired_at cfg now h p" using n(1) True by (simp add: expired_at_def)
    moreover have "holds h' q = (if q \<in> set (p # ps) \<and> expired_at cfg now h q then None else holds h q)" for q
      using r(3) l same e d by (cases "q = p") auto
    ultimately show ?thesis using r(2) f by auto
  next
    case False
    then have e: "\<not> expired_at cfg now h p" using n(1) by (simp add: expired_at_def)
    have "clients h head ((qs @ [p]) @ ps)" using Cons.prems(1) by simp
    from Cons.IH [OF this n(2)] obtain head' h' where r: "sweep_loop cfg now head h (nd_next n) = Some (head', h')"
      "clients h' head' ((qs @ [p]) @ filter (\<lambda>p. \<not> expired_at cfg now h p) ps)"
      "\<forall>q. holds h' q = (if q \<in> set ps \<and> expired_at cfg now h q then None else holds h q)"
      by blast
    have "sweep_loop cfg now head h cur = Some (head', h')"
      using Cons.prems(2) n(1) False r(1) by (subst sweep_loop.simps) simp
    with r(2,3) e show ?thesis by auto
  qed
qed

text \<open>What the timeout promises: idle, nothing buffered, and inactive for the whole timeout.\<close>

definition idle_too_long :: "config \<Rightarrow> timespec \<Rightarrow> heap \<Rightarrow> nat \<Rightarrow> bool" where
  "idle_too_long cfg now h p \<longleftrightarrow>
     (case holds h p of
        None \<Rightarrow> False
      | Some (cl, buf) \<Rightarrow> c_idle_keep_alive cl \<and> buf = [] \<and>
          time_ns (c_last_active_mono cl) + cfg_keep_alive_timeout_sec cfg * 1000000000 \<le> time_ns now)"

definition clocks_ok :: "heap \<Rightarrow> bool" where
  "clocks_ok h \<longleftrightarrow> (\<forall>p cl buf. holds h p = Some (cl, buf) \<longrightarrow>
     timespec_ok (c_last_active_mono cl) \<and> tv_sec (c_last_active_mono cl) \<noteq> 0)"

lemma expired_at_iff:
  assumes "clocks_ok h" and "timespec_ok now" and "0 < cfg_keep_alive_timeout_sec cfg"
  shows "expired_at cfg now h p = idle_too_long cfg now h p"
proof (cases "h p")
  case (Some n)
  then have "holds h p = Some (nd_client n, nd_buf n)" by (simp add: holds_def)
  with assms Some timespec_elapsed_sec_iff [of "c_last_active_mono (nd_client n)" now "cfg_keep_alive_timeout_sec cfg"]
  show ?thesis by (auto simp: expired_at_def idle_expired_def idle_too_long_def clocks_ok_def)
qed (simp add: expired_at_def idle_too_long_def holds_def)

text \<open>
  C5: the sweep ends, follows no freed pointer, and closes exactly the connections that are
  idle with an empty buffer for the configured time, to the nanosecond; the list stays a
  well-formed doubly linked list of the others in their order, and they keep their state.
\<close>

theorem sweep_closes_idle:
  assumes "clients h head ps" and "clocks_ok h" and "timespec_ok now"
    and "cfg_keep_alive_enabled cfg" and "0 < cfg_keep_alive_timeout_sec cfg"
  shows "\<exists>head' h'. sweep_idle_keep_alive_clients cfg (Some now) head h = Some (head', h') \<and>
    clients h' head' (filter (\<lambda>p. \<not> idle_too_long cfg now h p) ps) \<and>
    (\<forall>q. holds h' q = (if q \<in> set ps \<and> idle_too_long cfg now h q then None else holds h q))"
proof -
  have "head = (case ps of [] \<Rightarrow> None | p # _ \<Rightarrow> Some p)"
    using assms(1) by (cases ps) (auto simp: clients_def)
  moreover have "clients h head ([] @ ps)" using assms(1) by simp
  ultimately show ?thesis
    using sweep_loop_list [of h head "[]" ps head cfg now] assms(4,5) expired_at_iff [OF assms(2,3,5)]
    by (simp add: sweep_idle_keep_alive_clients_def)
qed

definition demo_heap :: heap where
  "demo_heap = [1 \<mapsto> \<lparr>nd_client = demo_client\<lparr>c_idle_keep_alive := True\<rparr>, nd_buf = [], nd_prev = None, nd_next = Some 2\<rparr>,
                2 \<mapsto> \<lparr>nd_client = demo_client, nd_buf = [], nd_prev = Some 1, nd_next = None\<rparr>]"

theorem sweep_closes_idle_witness:
  "\<exists>head' h'. sweep_idle_keep_alive_clients rpsiod_config_defaults (Some \<lparr>tv_sec = 31, tv_nsec = 5\<rparr>) (Some 1) demo_heap =
       Some (head', h') \<and> clients h' head' [2]"
proof -
  let ?now = "\<lparr>tv_sec = 31, tv_nsec = 5\<rparr>"
  have "clients demo_heap (Some 1) [1, 2]" by (simp add: clients_def demo_heap_def)
  moreover have "clocks_ok demo_heap" "timespec_ok ?now"
    by (auto simp: clocks_ok_def demo_heap_def holds_def demo_client_def timespec_ok_def split: if_splits)
  moreover have "cfg_keep_alive_enabled rpsiod_config_defaults" "cfg_keep_alive_timeout_sec rpsiod_config_defaults = 30"
    by (simp_all add: rpsiod_config_defaults_def)
  moreover have "filter (\<lambda>p. \<not> idle_too_long rpsiod_config_defaults ?now demo_heap p) [1, 2] = [2]"
    by (simp add: idle_too_long_def holds_def demo_heap_def demo_client_def time_ns_def rpsiod_config_defaults_def)
  ultimately show ?thesis
    using sweep_closes_idle [of demo_heap "Some 1" "[1, 2]" ?now rpsiod_config_defaults] by auto
qed

text \<open>
  A peer that shuts its sending side down right after a request gets no answer: the hang-up
  flag of the event closes the connection before the bytes are read.
\<close>

lemma half_close_drops_request:
  "h p = Some n \<Longrightarrow> client_event world cfg tbl True reads p head h st w = (Some (close_client head p h), st, w)"
  by (simp add: client_event_def)

text \<open>Accepting keeps the list well-formed and puts the new connections in front.\<close>

definition new_objects :: "accept_result list \<Rightarrow> nat list" where
  "new_objects rs = concat (map (\<lambda>r. case r of Accepted p _ _ _ _ \<Rightarrow> [p] | _ \<Rightarrow> []) rs)"

lemma new_objects_simps [simp]:
  "new_objects [] = []" "new_objects (r # rs) = (case r of Accepted p _ _ _ _ \<Rightarrow> [p] | _ \<Rightarrow> []) @ new_objects rs"
  by (simp_all add: new_objects_def)

lemma accept_clients_list:
  assumes "accept_clients sr l cfg rs head h st = (head', h', st', h2s)" and "clients h head ps"
    and "distinct (ps @ new_objects rs)"
  shows "\<exists>new. clients h' head' (new @ ps) \<and> set new \<subseteq> set (new_objects rs)"
  using assms
proof (induction rs arbitrary: head h st ps h2s)
  case Nil
  then show ?case by (auto intro: exI [of _ "[]"])
next
  case (Cons r rs)
  show ?case
  proof (cases r)
    case (Accepted p peer own hs epoll_ok)
    obtain cl st1 where a: "accepted_client sr l cfg peer own st = (cl, st1)" by (rule prod.exhaust)
    have d: "distinct (ps @ new_objects rs)" "p \<notin> set ps" "p \<notin> set (new_objects rs)"
      using Cons.prems(3) Accepted by simp_all
    let ?added = "\<not> (ls_tls l \<and> hs = TlsFailed) \<and> \<not> (ls_tls l \<and> hs = TlsHttp2) \<and> epoll_ok"
    show ?thesis
    proof (cases ?added)
      case True
      let ?h = "h(p \<mapsto> \<lparr>nd_client = cl, nd_buf = [], nd_prev = None, nd_next = None\<rparr>)"
      obtain head1 h1 where add: "client_list_add head p ?h = (head1, h1)" by (rule prod.exhaust)
      have "clients ?h head ps" using Cons.prems(2) d(2) dseg_cong [of ps ?h h] by (auto simp: clients_def)
      then have c: "clients h1 head1 (p # ps)" using add_list [OF _ _ d(2) add] by simp
      have "accept_clients sr l cfg rs head1 h1 st1 = (head', h', st', h2s)"
        using Cons.prems(1) Accepted a add True by (auto simp: Let_def)
      from Cons.IH [OF this c] d
      obtain new where "clients h' head' (new @ p # ps)" "set new \<subseteq> set (new_objects rs)" by auto
      then show ?thesis using Accepted by (intro exI [of _ "new @ [p]"]) auto
    next
      case False
      obtain h2s1 where "accept_clients sr l cfg rs head h st1 = (head', h', st', h2s1)"
        using Cons.prems(1) Accepted a False by (fastforce simp: Let_def split: prod.splits if_splits)
      from Cons.IH [OF this Cons.prems(2) d(1)] show ?thesis using Accepted by auto
    qed
  next
    case AcceptEintr
    with Cons.prems Cons.IH [of head h st h2s ps] show ?thesis by simp
  qed (use Cons.prems in \<open>auto intro: exI [of _ "[]"]\<close>)
qed

end
