(* ===== verification/Workers.thy ===== *)
theory Workers
  imports Clients
begin

text \<open>
  The processes of the server: the listening sockets of a worker (\<open>add_listeners\<close>), the number
  of workers, and the parent process that starts, replaces and reloads workers
  (\<open>rpsiod_server_run\<close>, \<open>reload_workers\<close> of \<open>src/server.c\<close>) as a step relation.
\<close>

section \<open>Listeners\<close>

definition MAX_LISTENERS :: nat where "MAX_LISTENERS = 128"

definition listener_exists :: "listener list \<Rightarrow> string \<Rightarrow> u16 \<Rightarrow> bool" where
  "listener_exists ls ip port = list_ex (\<lambda>l. ls_port l = port \<and> ls_ip l = ip) ls"

text \<open>\<open>bind\<close> stands for the system calls of \<open>create_listener\<close>: \<open>None\<close> or an error message.\<close>

definition add_one_listener ::
  "(string \<Rightarrow> u16 \<Rightarrow> string option) \<Rightarrow> string \<Rightarrow> u16 \<Rightarrow> bool \<Rightarrow> listener list \<Rightarrow> string + listener list" where
  "add_one_listener bind ip port tls ls =
     (if listener_exists ls ip port then Inr ls
      else if MAX_LISTENERS \<le> length ls then Inl ''too many listeners''
      else case bind ip port of
        Some err \<Rightarrow> Inl err
      | None \<Rightarrow> Inr (ls @ [\<lparr>ls_ip = safe_copy 64 ip, ls_port = port, ls_tls = tls\<rparr>]))"

definition add_site_listeners ::
  "(string \<Rightarrow> u16 \<Rightarrow> string option) \<Rightarrow> bool \<Rightarrow> site_config \<Rightarrow> listener list \<Rightarrow> string + listener list" where
  "add_site_listeners bind tls_ctx site ls =
     (if \<not> site_enabled site then Inr ls
      else case (if site_http_port site \<noteq> 0
                 then add_one_listener bind (site_listen_ip site) (site_http_port site) False ls else Inr ls) of
        Inl e \<Rightarrow> Inl e
      | Inr ls1 \<Rightarrow>
          if site_ssl_enabled site \<and> site_https_port site \<noteq> 0 then
            (if \<not> tls_ctx then Inl ''TLS is enabled but no valid TLS context is available''
             else add_one_listener bind (site_listen_ip site) (site_https_port site) True ls1)
          else Inr ls1)"

fun add_listeners ::
  "(string \<Rightarrow> u16 \<Rightarrow> string option) \<Rightarrow> bool \<Rightarrow> site_config list \<Rightarrow> listener list \<Rightarrow> string + listener list" where
  "add_listeners bind tls_ctx [] ls = Inr ls"
| "add_listeners bind tls_ctx (s # ss) ls =
     (case add_site_listeners bind tls_ctx s ls of Inl e \<Rightarrow> Inl e | Inr ls1 \<Rightarrow> add_listeners bind tls_ctx ss ls1)"

section \<open>The number of workers\<close>

definition resolved_worker_count :: "int \<Rightarrow> config \<Rightarrow> int" where
  "resolved_worker_count cpus cfg =
     (let workers = (if cfg_workers_auto cfg then (if cpus > 0 then cpus else 1) else cfg_workers cfg);
          workers = (if workers < 1 then 1 else workers);
          workers = (if workers > 64 then 64 else workers) in
      if workers > 1 \<and> \<not> cfg_reuse_port cfg then 1 else workers)"

lemma resolved_worker_count_range: "1 \<le> resolved_worker_count cpus cfg \<and> resolved_worker_count cpus cfg \<le> 64"
  by (simp add: resolved_worker_count_def Let_def)

section \<open>The parent\<close>

text \<open>
  The parent's variables and, for the running worker processes, the configuration each was
  started with.  A process id is an integer; \<open>fork\<close> answers a positive one or -1, and unused
  slots of a fresh array hold 0.
\<close>

record parent =
  pa_cfg :: config
  pa_pids :: "int list"
  pa_running :: "int \<Rightarrow> config option"

definition start_worker :: "config \<Rightarrow> int \<Rightarrow> (int \<Rightarrow> config option) \<Rightarrow> (int \<Rightarrow> config option)" where
  "start_worker cfg pid running = (if 0 < pid then running(pid \<mapsto> cfg) else running)"

text \<open>Starting the workers: the array, what runs afterwards, and whether every fork succeeded.\<close>

fun spawn_workers :: "config \<Rightarrow> int list \<Rightarrow> (int \<Rightarrow> config option) \<Rightarrow> int list \<times> (int \<Rightarrow> config option) \<times> bool" where
  "spawn_workers cfg [] running = ([], running, True)"
| "spawn_workers cfg (pid # forks) running =
     (if pid < 0 then (pid # map (\<lambda>_. 0) forks, running, False)
      else case spawn_workers cfg forks (start_worker cfg pid running) of
        (pids, running1, ok) \<Rightarrow> (pid # pids, running1, ok))"

definition stop_workers :: "int list \<Rightarrow> (int \<Rightarrow> config option) \<Rightarrow> (int \<Rightarrow> config option)" where
  "stop_workers pids running = (\<lambda>p. if p \<in> set pids \<and> 0 < p then None else running p)"

text \<open>\<open>loaded\<close> is what reading the configuration gives, \<open>forks\<close> what \<open>fork\<close> answers.\<close>

definition reload_workers :: "config_error + config \<Rightarrow> int list \<Rightarrow> parent \<Rightarrow> parent" where
  "reload_workers loaded forks pa =
     (case loaded of
        Inl _ \<Rightarrow> pa
      | Inr cfg \<Rightarrow>
          (case spawn_workers cfg forks (pa_running pa) of
             (pids, running, ok) \<Rightarrow>
               if \<not> ok then pa\<lparr>pa_cfg := cfg, pa_running := stop_workers pids running\<rparr>
               else \<lparr>pa_cfg = cfg, pa_pids = pids, pa_running = stop_workers (pa_pids pa) running\<rparr>))"

text \<open>A worker that ended is started again in its slot.\<close>

fun replace_pid :: "int \<Rightarrow> int \<Rightarrow> int list \<Rightarrow> int list" where
  "replace_pid dead new [] = []"
| "replace_pid dead new (p # ps) = (if p = dead then new # ps else p # replace_pid dead new ps)"

definition worker_exited :: "int \<Rightarrow> int \<Rightarrow> parent \<Rightarrow> parent" where
  "worker_exited dead new pa =
     (let pa1 = pa\<lparr>pa_running := (pa_running pa)(dead := None)\<rparr> in
      if dead \<in> set (pa_pids pa)
      then pa1\<lparr>pa_pids := replace_pid dead new (pa_pids pa), pa_running := start_worker (pa_cfg pa) new (pa_running pa1)\<rparr>
      else pa1)"

text \<open>\<open>fork\<close> answers -1 or the number of a process that does not run yet.\<close>

definition fork_answers :: "(int \<Rightarrow> config option) \<Rightarrow> int list \<Rightarrow> bool" where
  "fork_answers running forks \<longleftrightarrow>
     (\<forall>p \<in> set forks. p = -1 \<or> (0 < p \<and> running p = None)) \<and> distinct (filter (\<lambda>p. 0 < p) forks)"

inductive parent_step :: "parent \<Rightarrow> parent \<Rightarrow> bool" where
  exited: "pa_running pa dead \<noteq> None \<Longrightarrow> fork_answers ((pa_running pa)(dead := None)) [new] \<Longrightarrow>
     parent_step pa (worker_exited dead new pa)"
| reloaded: "fork_answers (pa_running pa) forks \<Longrightarrow>
     (\<And>cfg. loaded = Inr cfg \<Longrightarrow> int (length forks) = resolved_worker_count cpus cfg) \<Longrightarrow>
     parent_step pa (reload_workers loaded forks pa)"

definition parent_start :: "config \<Rightarrow> int list \<Rightarrow> parent" where
  "parent_start cfg forks =
     (case spawn_workers cfg forks (\<lambda>_. None) of (pids, running, _) \<Rightarrow>
        \<lparr>pa_cfg = cfg, pa_pids = pids, pa_running = running\<rparr>)"

section \<open>No worker is lost\<close>

inductive_cases parent_stepE: "parent_step pa pa'"

definition live :: "int list \<Rightarrow> int list" where
  "live pids = filter (\<lambda>p. 0 < p) pids"

definition supervised :: "parent \<Rightarrow> bool" where
  "supervised pa \<longleftrightarrow> distinct (live (pa_pids pa)) \<and> dom (pa_running pa) = set (live (pa_pids pa))"

lemma spawn_workers_spec:
  "spawn_workers cfg forks running = (pids, running1, ok) \<Longrightarrow> fork_answers running forks \<Longrightarrow>
     distinct (live pids) \<and> set (live pids) \<subseteq> set forks \<and> length pids = length forks \<and>
     running1 = (\<lambda>p. if p \<in> set (live pids) then Some cfg else running p) \<and> (ok \<longrightarrow> pids = forks) \<and>
     (ok \<longleftrightarrow> -1 \<notin> set forks)"
proof (induction cfg forks running arbitrary: pids running1 ok rule: spawn_workers.induct)
  case (2 cfg pid forks running)
  show ?case
  proof (cases "pid < 0")
    case True
    with 2(2,3) show ?thesis by (auto simp: live_def fun_eq_iff fork_answers_def)
  next
    case False
    with 2(3) have pid: "0 < pid" "running pid = None" "pid \<notin> set forks" "fork_answers (running(pid \<mapsto> cfg)) forks"
      by (auto simp: fork_answers_def)
    obtain ps where ps: "spawn_workers cfg forks (running(pid \<mapsto> cfg)) = (ps, running1, ok)" "pids = pid # ps"
      using 2(2) False pid(1) by (auto simp: start_worker_def split: prod.splits)
    have "distinct (live ps) \<and> set (live ps) \<subseteq> set forks \<and> length ps = length forks \<and>
        running1 = (\<lambda>p. if p \<in> set (live ps) then Some cfg else (running(pid \<mapsto> cfg)) p) \<and> (ok \<longrightarrow> ps = forks) \<and>
        (ok \<longleftrightarrow> -1 \<notin> set forks)"
      using 2(1) [OF False, unfolded start_worker_def if_P [OF pid(1)], OF ps(1) pid(4)] .
    with ps(2) pid show ?thesis by (auto simp: live_def fun_eq_iff)
  qed
qed (simp add: live_def)

lemma live_simps [simp]: "live [] = []" "live (p # ps) = (if 0 < p then p # live ps else live ps)"
  by (simp_all add: live_def)

lemma set_live: "set (live ps) = {p \<in> set ps. 0 < p}"
  by (auto simp: live_def)

lemma supervised_running: "supervised pa \<Longrightarrow> pa_running pa p \<noteq> None \<longleftrightarrow> p \<in> set (pa_pids pa) \<and> 0 < p"
  unfolding supervised_def set_live by (metis (mono_tags, lifting) domIff mem_Collect_eq)

lemma replace_pid_live:
  assumes "distinct (live ps)" and "dead \<in> set ps" and "0 < dead" and "new = -1 \<or> 0 < new \<and> (new = dead \<or> new \<notin> set ps)"
  shows "distinct (live (replace_pid dead new ps)) \<and>
    set (live (replace_pid dead new ps)) = set (live ps) - {dead} \<union> (if 0 < new then {new} else {})"
  using assms
proof (induction ps)
  case (Cons p ps)
  show ?case
  proof (cases "p = dead")
    case True
    with Cons.prems show ?thesis by (auto simp: set_live)
  next
    case False
    with Cons show ?thesis by (auto simp: set_live)
  qed
qed simp

lemma exited_supervised:
  assumes "supervised pa" and "pa_running pa dead \<noteq> None" and "fork_answers ((pa_running pa)(dead := None)) [new]"
  shows "supervised (worker_exited dead new pa)"
proof -
  have dead: "dead \<in> set (pa_pids pa)" "0 < dead" "distinct (live (pa_pids pa))"
    using assms(1,2) by (auto simp: supervised_def set_live)
  have new: "new = -1 \<or> 0 < new \<and> (new = dead \<or> new \<notin> set (pa_pids pa))"
    using supervised_running [OF assms(1), of new] assms(3) by (auto simp: fork_answers_def)
  have "dom (pa_running (worker_exited dead new pa)) = dom (pa_running pa) - {dead} \<union> (if 0 < new then {new} else {})"
    using dead(1) by (auto simp: worker_exited_def Let_def start_worker_def)
  moreover have "pa_pids (worker_exited dead new pa) = replace_pid dead new (pa_pids pa)"
    using dead(1) by (simp add: worker_exited_def Let_def)
  ultimately show ?thesis
    using replace_pid_live [OF dead(3,1,2) new] assms(1) unfolding supervised_def by simp
qed

lemma stop_workers_dom: "dom (stop_workers pids running) = dom running - set (live pids)"
  by (auto simp: stop_workers_def set_live dom_def)

lemma reload_cases:
  assumes "fork_answers (pa_running pa) forks"
  shows "(pa_pids (reload_workers loaded forks pa) = pa_pids pa \<and> pa_running (reload_workers loaded forks pa) = pa_running pa \<and>
      ((\<exists>e. loaded = Inl e) \<or> -1 \<in> set forks)) \<or>
    (\<exists>cfg. loaded = Inr cfg \<and> -1 \<notin> set forks \<and> reload_workers loaded forks pa =
       \<lparr>pa_cfg = cfg, pa_pids = forks,
        pa_running = stop_workers (pa_pids pa) (\<lambda>p. if p \<in> set (live forks) then Some cfg else pa_running pa p)\<rparr>)"
proof (cases loaded)
  case (Inr cfg)
  obtain pids running ok where s: "spawn_workers cfg forks (pa_running pa) = (pids, running, ok)" by (metis prod.collapse)
  note spec = spawn_workers_spec [OF s assms]
  show ?thesis
  proof (cases ok)
    case True
    with Inr s spec show ?thesis by (simp add: reload_workers_def)
  next
    case False
    have "pa_running pa p = None" if "p \<in> set (live pids)" for p
    proof -
      have "p \<in> set forks" "0 < p" using spec that by (auto simp: set_live)
      with assms show ?thesis by (auto simp: fork_answers_def)
    qed
    then have "stop_workers pids running = pa_running pa"
      using spec by (auto simp: stop_workers_def set_live fun_eq_iff)
    moreover have "-1 \<in> set forks" using spec False by blast
    ultimately show ?thesis using Inr s False by (simp add: reload_workers_def)
  qed
qed (simp add: reload_workers_def)

lemma reloaded_supervised:
  assumes "supervised pa" and "fork_answers (pa_running pa) forks"
  shows "supervised (reload_workers loaded forks pa)"
  using reload_cases [OF assms(2), of loaded]
proof (elim disjE exE conjE)
  fix cfg
  assume r: "reload_workers loaded forks pa =
       \<lparr>pa_cfg = cfg, pa_pids = forks,
        pa_running = stop_workers (pa_pids pa) (\<lambda>p. if p \<in> set (live forks) then Some cfg else pa_running pa p)\<rparr>"
  have fresh: "set (live forks) \<inter> set (live (pa_pids pa)) = {}"
  proof -
    have "p \<notin> set (pa_pids pa)" if "p \<in> set forks" "0 < p" for p
      using supervised_running [OF assms(1), of p] assms(2) that by (auto simp: fork_answers_def)
    then show ?thesis by (auto simp: set_live)
  qed
  have "dom (\<lambda>p. if p \<in> set (live forks) then Some cfg else pa_running pa p) = set (live forks) \<union> dom (pa_running pa)"
    by (auto split: if_splits)
  then show ?thesis
    using assms fresh unfolding supervised_def r by (auto simp: stop_workers_dom fork_answers_def live_def)
qed (use assms(1) in \<open>simp_all add: supervised_def\<close>)

lemma parent_reachable:
  assumes "parent_step\<^sup>*\<^sup>* pa0 pa" and "supervised pa0"
  shows "supervised pa"
  using assms
proof (induction rule: rtranclp_induct)
  case (step pa pa')
  from step(2) step(3) [OF step(4)] show ?case
    by (elim parent_stepE) (simp_all add: exited_supervised reloaded_supervised)
qed simp

lemma start_supervised: "fork_answers (\<lambda>_. None) forks \<Longrightarrow> supervised (parent_start cfg forks)"
  using spawn_workers_spec [of cfg forks "\<lambda>_. None"]
  by (auto simp: parent_start_def supervised_def split: prod.splits if_splits)

text \<open>
  C7: the parent never loses a worker: in every state it reaches by starting, restarting and
  reloading workers, whatever \<open>fork\<close> answers, the running worker processes are exactly those in
  its array, each in one slot; so the final \<open>stop_workers\<close> reaches all of them.
\<close>

theorem workers_supervised:
  assumes "parent_step\<^sup>*\<^sup>* (parent_start cfg forks) pa" and "fork_answers (\<lambda>_. None) forks"
  shows "supervised pa \<and> stop_workers (pa_pids pa) (pa_running pa) = (\<lambda>_. None)"
proof -
  have s: "supervised pa" by (rule parent_reachable [OF assms(1) start_supervised [OF assms(2)]])
  then have "stop_workers (pa_pids pa) (pa_running pa) = (\<lambda>_. None)"
    using stop_workers_dom [of "pa_pids pa" "pa_running pa"] by (auto simp: supervised_def)
  with s show ?thesis by blast
qed

theorem workers_supervised_witness:
  "supervised (worker_exited 5 (-1) (parent_start rpsiod_config_defaults [5, 6])) \<and>
   pa_pids (worker_exited 5 (-1) (parent_start rpsiod_config_defaults [5, 6])) = [-1, 6]"
proof -
  have f: "fork_answers (\<lambda>_. None) [5, 6]" by (simp add: fork_answers_def)
  have e: "parent_start rpsiod_config_defaults [5, 6] =
      \<lparr>pa_cfg = rpsiod_config_defaults, pa_pids = [5, 6],
       pa_running = [5 \<mapsto> rpsiod_config_defaults, 6 \<mapsto> rpsiod_config_defaults]\<rparr>"
    by (simp add: parent_start_def start_worker_def)
  have "parent_step (parent_start rpsiod_config_defaults [5, 6])
      (worker_exited 5 (-1) (parent_start rpsiod_config_defaults [5, 6]))"
    by (rule exited) (simp_all add: e fork_answers_def)
  from workers_supervised [OF r_into_rtranclp [where r = parent_step, OF this] f] show ?thesis
    by (simp add: worker_exited_def e Let_def)
qed

lemma new_set_runs:
  assumes "supervised pa" and "fork_answers (pa_running pa) forks" and "-1 \<notin> set forks"
  shows "stop_workers (pa_pids pa) (\<lambda>p. if p \<in> set (live forks) then Some cfg else pa_running pa p) =
    (\<lambda>p. if p \<in> set forks then Some cfg else None)" and "distinct forks" and "\<forall>p \<in> set forks. 0 < p"
proof -
  show pos: "\<forall>p \<in> set forks. 0 < p" using assms(2,3) by (auto simp: fork_answers_def)
  then have "filter (\<lambda>p. 0 < p) forks = forks" by simp
  then show "distinct forks" using assms(2) by (simp add: fork_answers_def)
  have new: "p \<notin> set (pa_pids pa)" if "p \<in> set forks" for p
  proof -
    have "0 < p" "p \<noteq> -1" using pos that assms(3) by auto
    then have "pa_running pa p = None" using assms(2) that by (auto simp: fork_answers_def)
    with supervised_running [OF assms(1), of p] \<open>0 < p\<close> show ?thesis by simp
  qed
  have old: "pa_running pa p = None" if "\<not> (p \<in> set (pa_pids pa) \<and> 0 < p)" for p
    using supervised_running [OF assms(1), of p] that by simp
  show "stop_workers (pa_pids pa) (\<lambda>p. if p \<in> set (live forks) then Some cfg else pa_running pa p) =
      (\<lambda>p. if p \<in> set forks then Some cfg else None)"
  proof
    fix p
    show "stop_workers (pa_pids pa) (\<lambda>p. if p \<in> set (live forks) then Some cfg else pa_running pa p) p =
        (if p \<in> set forks then Some cfg else None)"
      using pos new [of p] old [of p] by (auto simp: stop_workers_def set_live)
  qed
qed

text \<open>
  C15: a reload takes effect completely or not at all.  When the configuration does not load or
  one \<open>fork\<close> fails, exactly the old processes keep running, in the same slots; otherwise the
  running processes are exactly the new ones, all started with the new configuration, each in
  one slot of the array, and as many as that configuration asks for.
\<close>

theorem reload_all_or_nothing:
  assumes "supervised pa" and "fork_answers (pa_running pa) forks"
    and "\<And>cfg. loaded = Inr cfg \<Longrightarrow> int (length forks) = resolved_worker_count cpus cfg"
  shows "if (\<exists>e. loaded = Inl e) \<or> -1 \<in> set forks
    then pa_running (reload_workers loaded forks pa) = pa_running pa \<and>
      pa_pids (reload_workers loaded forks pa) = pa_pids pa
    else (\<exists>cfg. loaded = Inr cfg \<and> pa_cfg (reload_workers loaded forks pa) = cfg \<and>
       pa_running (reload_workers loaded forks pa) = (\<lambda>p. if p \<in> set forks then Some cfg else None) \<and>
       pa_pids (reload_workers loaded forks pa) = forks \<and> distinct forks \<and> (\<forall>p \<in> set forks. 0 < p) \<and>
       int (length forks) = resolved_worker_count cpus cfg)"
  using reload_cases [OF assms(2), of loaded]
proof (elim disjE exE conjE)
  fix cfg
  assume l: "loaded = Inr cfg" and ok: "-1 \<notin> set forks" and r: "reload_workers loaded forks pa =
       \<lparr>pa_cfg = cfg, pa_pids = forks,
        pa_running = stop_workers (pa_pids pa) (\<lambda>p. if p \<in> set (live forks) then Some cfg else pa_running pa p)\<rparr>"
  from new_set_runs [OF assms(1,2) ok] assms(3) [OF l] l ok show ?thesis unfolding r by simp
qed auto

theorem reload_all_or_nothing_witness:
  "let pa = parent_start rpsiod_config_defaults [5, 6]; new = rpsiod_config_defaults\<lparr>cfg_workers_auto := True\<rparr>;
       loaded = reload_workers (Inr new) [7, 8] pa; failed = reload_workers (Inr new) [7, -1] pa in
   pa_running loaded = [7 \<mapsto> new, 8 \<mapsto> new] \<and> pa_pids loaded = [7, 8] \<and>
   pa_running failed = pa_running pa \<and> pa_pids failed = [5, 6]"
proof -
  let ?pa = "parent_start rpsiod_config_defaults [5, 6]" and ?new = "rpsiod_config_defaults\<lparr>cfg_workers_auto := True\<rparr>"
  have "supervised ?pa"
    by (rule start_supervised) (simp add: fork_answers_def)
  moreover have "fork_answers (pa_running ?pa) [7, 8]" "fork_answers (pa_running ?pa) [7, -1]"
    by (simp_all add: fork_answers_def parent_start_def start_worker_def)
  moreover have "resolved_worker_count 2 ?new = 2" by code_simp
  ultimately have "pa_running (reload_workers (Inr ?new) [7, 8] ?pa) = (\<lambda>p. if p \<in> set [7, 8] then Some ?new else None)"
    "pa_pids (reload_workers (Inr ?new) [7, 8] ?pa) = [7, 8]"
    "pa_running (reload_workers (Inr ?new) [7, -1] ?pa) = pa_running ?pa"
    "pa_pids (reload_workers (Inr ?new) [7, -1] ?pa) = pa_pids ?pa"
    using reload_all_or_nothing [of ?pa "[7, 8]" "Inr ?new" 2] reload_all_or_nothing [of ?pa "[7, -1]" "Inr ?new" 2]
    by simp_all
  moreover have "(\<lambda>p. if p \<in> set [7, 8] then Some ?new else None) = [7 \<mapsto> ?new, 8 \<mapsto> ?new]" by auto
  moreover have "pa_pids ?pa = [5, 6]" by (simp add: parent_start_def start_worker_def)
  ultimately show ?thesis unfolding Let_def by simp
qed

text \<open>
  A reload that fails while forking leaves the old processes alone but has already replaced
  the parent's configuration: a worker restarted later runs the new one next to the old ones.
\<close>

lemma failed_reload_keeps_new_config:
  "pa_cfg (reload_workers (Inr cfg) [-1] pa) = cfg \<and> pa_pids (reload_workers (Inr cfg) [-1] pa) = pa_pids pa"
  by (simp add: reload_workers_def)

section \<open>Listeners cover the sites\<close>

definition listener_address :: "listener \<Rightarrow> string \<times> u16" where
  "listener_address l = (ls_ip l, ls_port l)"

text \<open>The sockets a site asks for.\<close>

definition site_listeners :: "site_config \<Rightarrow> (string \<times> u16 \<times> bool) set" where
  "site_listeners site =
     (if site_enabled site
      then {(site_listen_ip site, p, tls) | p tls. p \<noteq> 0 \<and>
              (p = site_http_port site \<and> \<not> tls \<or> site_ssl_enabled site \<and> p = site_https_port site \<and> tls)}
      else {})"

definition listeners_ok :: "(string \<times> u16 \<times> bool) set \<Rightarrow> listener list \<Rightarrow> bool" where
  "listeners_ok want ls \<longleftrightarrow> distinct (map listener_address ls) \<and> length ls \<le> MAX_LISTENERS \<and>
     listener_address ` set ls = {(ip, p) | ip p. \<exists>tls. (ip, p, tls) \<in> want} \<and>
     (\<forall>l \<in> set ls. (ls_ip l, ls_port l, ls_tls l) \<in> want)"

lemma listener_exists_iff: "listener_exists ls ip port \<longleftrightarrow> (ip, port) \<in> listener_address ` set ls"
  by (auto simp: listener_exists_def list_ex_iff listener_address_def)

lemma add_one_listener_ok:
  assumes "add_one_listener bind ip port tls ls = Inr ls'" and "listeners_ok want ls" and "length ip < 64"
  shows "listeners_ok (insert (ip, port, tls) want) ls'"
  using assms
  by (auto simp: add_one_listener_def listener_exists_iff listeners_ok_def listener_address_def
      split: if_splits option.splits)

lemma add_site_listeners_ok:
  assumes "add_site_listeners bind tls_ctx site ls = Inr ls'" and "listeners_ok want ls"
    and "length (site_listen_ip site) < 64"
  shows "listeners_ok (site_listeners site \<union> want) ls'"
proof (cases "site_enabled site")
  case True
  let ?ip = "site_listen_ip site" and ?h = "site_http_port site" and ?s = "site_https_port site"
  define ssl where "ssl \<longleftrightarrow> site_ssl_enabled site \<and> ?s \<noteq> 0"
  obtain ls1 where ls1: "(if ?h \<noteq> 0 then add_one_listener bind ?ip ?h False ls else Inr ls) = Inr ls1"
    "(if ssl then add_one_listener bind ?ip ?s True ls1 else Inr ls1) = Inr ls'"
    using assms(1) True by (auto simp: add_site_listeners_def ssl_def split: sum.splits if_splits)
  have "listeners_ok ((if ?h \<noteq> 0 then {(?ip, ?h, False)} else {}) \<union> want) ls1"
    using ls1(1) add_one_listener_ok [OF _ assms(2,3)] assms(2) by (auto split: if_splits)
  then have "listeners_ok ((if ssl then {(?ip, ?s, True)} else {}) \<union> ((if ?h \<noteq> 0 then {(?ip, ?h, False)} else {}) \<union> want)) ls'"
    using ls1(2) add_one_listener_ok [OF _ _ assms(3)] by (auto split: if_splits)
  moreover have "site_listeners site = (if ssl then {(?ip, ?s, True)} else {}) \<union> (if ?h \<noteq> 0 then {(?ip, ?h, False)} else {})"
    using True by (auto simp: site_listeners_def ssl_def)
  ultimately show ?thesis by (simp add: Un_assoc)
qed (use assms in \<open>simp add: add_site_listeners_def site_listeners_def\<close>)

lemma add_listeners_ok:
  assumes "add_listeners bind tls_ctx sites ls = Inr ls'" and "listeners_ok want ls"
    and "\<forall>site \<in> set sites. length (site_listen_ip site) < 64"
  shows "listeners_ok ((\<Union>site \<in> set sites. site_listeners site) \<union> want) ls'"
  using assms
proof (induction sites arbitrary: ls want)
  case (Cons site sites)
  then obtain ls1 where s: "add_site_listeners bind tls_ctx site ls = Inr ls1" "add_listeners bind tls_ctx sites ls1 = Inr ls'"
    by (auto split: sum.splits)
  have "listeners_ok (site_listeners site \<union> want) ls1"
    using add_site_listeners_ok [OF s(1) Cons.prems(2)] Cons.prems(3) by simp
  from Cons.IH [OF s(2) this] Cons.prems(3) show ?case by (simp add: Un_ac)
qed simp

text \<open>
  C33: a started worker listens where the enabled sites ask it to and nowhere else: every
  address and port of a site has exactly one socket, within the fixed array.
\<close>

theorem listeners_cover:
  assumes "add_listeners bind tls_ctx (cfg_sites cfg) [] = Inr ls"
    and "\<forall>site \<in> set (cfg_sites cfg). length (site_listen_ip site) < 64"
  shows "listeners_ok (\<Union>site \<in> set (cfg_sites cfg). site_listeners site) ls"
  using add_listeners_ok [OF assms(1) _ assms(2), of "{}"] by (simp add: listeners_ok_def)

definition demo_sites :: "site_config list" where
  "demo_sites = [site_defaults\<lparr>site_http_port := 8443\<rparr>,
     site_defaults\<lparr>site_http_port := 0, site_https_port := 8443, site_ssl_enabled := True\<rparr>]"

lemma demo_site_fields:
  "site_enabled site_defaults" "site_listen_ip site_defaults = ''0.0.0.0''" "\<not> site_ssl_enabled site_defaults"
  by (simp_all add: site_defaults_def)

lemma demo_listeners:
  "add_listeners (\<lambda>_ _. None) True demo_sites [] =
     Inr [\<lparr>ls_ip = ''0.0.0.0'', ls_port = 8443, ls_tls = False\<rparr>]"
  by (simp add: demo_sites_def add_site_listeners_def add_one_listener_def listener_exists_def demo_site_fields
      MAX_LISTENERS_def)

theorem listeners_cover_witness:
  "listeners_ok (\<Union>site \<in> set demo_sites. site_listeners site) [\<lparr>ls_ip = ''0.0.0.0'', ls_port = 8443, ls_tls = False\<rparr>]"
  using listeners_cover [of "\<lambda>_ _. None" True "rpsiod_config_defaults\<lparr>cfg_sites := demo_sites\<rparr>"] demo_listeners
  by (simp add: demo_sites_def demo_site_fields)

text \<open>
  The socket that is there first decides about TLS: a site whose HTTPS port is the HTTP port of
  an earlier site gets no TLS socket, and start-up does not fail.
\<close>

lemma tls_listener_shadowed:
  "\<exists>ls. add_listeners (\<lambda>_ _. None) True demo_sites [] = Inr ls \<and>
     (''0.0.0.0'', 8443, True) \<in> site_listeners (demo_sites ! 1) \<and> \<not> list_ex ls_tls ls"
  unfolding demo_listeners by (auto simp: demo_sites_def site_listeners_def demo_site_fields)

end
