(* ===== verification/Http2Text.thy ===== *)
theory Http2Text
  imports Response
begin

text \<open>
  What the HTTP/2 front end (\<open>src/http2.c\<close>) makes of the HTTP/1.1 response it reads back over
  the loopback connection: the growing buffer, the chunked decoder, the header filter.  Failing
  allocations are left out.
\<close>

section \<open>The growing buffer\<close>

definition H2_MAX_RESPONSE :: nat where "H2_MAX_RESPONSE = 64 * 1024 * 1024"

text \<open>The capacity asked from \<open>realloc\<close>; the doubling starts at a positive capacity.\<close>

function grow_capacity :: "nat \<Rightarrow> nat \<Rightarrow> nat" where
  "grow_capacity cap needed =
     (if needed \<le> cap \<or> cap = 0 then cap
      else if H2_MAX_RESPONSE div 2 < cap then H2_MAX_RESPONSE
      else grow_capacity (cap * 2) needed)"
  by pat_completeness auto
termination
  by (relation "measure (\<lambda>(cap, needed). needed - cap)") auto

declare grow_capacity.simps [simp del]

definition next_capacity :: "nat \<Rightarrow> nat \<Rightarrow> nat" where
  "next_capacity cap needed = (if needed \<le> cap then cap else grow_capacity (if cap = 0 then 8192 else cap) needed)"

text \<open>The buffer is its contents and its capacity.\<close>

definition append_bytes :: "string \<times> nat \<Rightarrow> string \<Rightarrow> (string \<times> nat) option" where
  "append_bytes buf data =
     (case buf of (s, cap) \<Rightarrow>
        if H2_MAX_RESPONSE < length data \<or> H2_MAX_RESPONSE - length data < length s then None
        else Some (s @ data, next_capacity cap (length s + length data)))"

lemma grow_capacity_enough:
  "0 < cap \<Longrightarrow> needed \<le> H2_MAX_RESPONSE \<Longrightarrow> needed \<le> grow_capacity cap needed \<and>
     (cap \<le> H2_MAX_RESPONSE \<longrightarrow> grow_capacity cap needed \<le> H2_MAX_RESPONSE)"
proof (induction cap needed rule: grow_capacity.induct)
  case (1 cap needed)
  show ?case
  proof (cases "needed \<le> cap")
    case False
    show ?thesis
    proof (cases "H2_MAX_RESPONSE div 2 < cap")
      case True
      with False 1(2,3) show ?thesis by (simp add: grow_capacity.simps [of cap needed])
    next
      case le: False
      then have "cap * 2 \<le> H2_MAX_RESPONSE" by linarith
      with 1(1) [OF _ le] False 1(2,3) le show ?thesis by (simp add: grow_capacity.simps [of cap needed])
    qed
  qed (simp add: grow_capacity.simps [of cap needed])
qed

definition buffer_ok :: "string \<times> nat \<Rightarrow> bool" where
  "buffer_ok buf \<longleftrightarrow> length (fst buf) \<le> snd buf \<and> snd buf \<le> H2_MAX_RESPONSE"

lemma append_bytes_ok:
  assumes "buffer_ok buf" and "append_bytes buf data = Some buf'"
  shows "buffer_ok buf' \<and> fst buf' = fst buf @ data"
proof -
  obtain s cap where b: "buf = (s, cap)" by (rule prod.exhaust)
  have le: "length s + length data \<le> H2_MAX_RESPONSE"
    using assms(2) by (auto simp: append_bytes_def b split: if_splits)
  have "8192 \<le> H2_MAX_RESPONSE" by (simp add: H2_MAX_RESPONSE_def)
  with assms le grow_capacity_enough [OF _ le, of "if cap = 0 then 8192 else cap"] show ?thesis
    by (auto simp: append_bytes_def b buffer_ok_def next_capacity_def split: if_splits)
qed

section \<open>Chunked bodies\<close>

definition hex_digit_value :: "char \<Rightarrow> nat option" where
  "hex_digit_value c =
     (let ch = uchar c in
      if 48 \<le> ch \<and> ch \<le> 57 then Some (ch - 48)
      else if 97 \<le> ch \<and> ch \<le> 102 then Some (10 + (ch - 97))
      else if 65 \<le> ch \<and> ch \<le> 70 then Some (10 + (ch - 65))
      else None)"

text \<open>The number of the leading digits, and what follows; \<open>None\<close> when it exceeds the limit.\<close>

fun chunk_number :: "nat \<Rightarrow> string \<Rightarrow> (nat \<times> string) option" where
  "chunk_number n [] = Some (n, [])"
| "chunk_number n (c # cs) =
     (case hex_digit_value c of
        None \<Rightarrow> Some (n, c # cs)
      | Some d \<Rightarrow> if (H2_MAX_RESPONSE - d) div 16 < n then None else chunk_number (n * 16 + d) cs)"

definition chunk_size :: "string \<Rightarrow> nat option" where
  "chunk_size line =
     (let p = dropWhile is_ows line in
      if p = [] then None
      else case chunk_number 0 p of
        None \<Rightarrow> None
      | Some (n, rest) \<Rightarrow>
          (let r = dropWhile is_ows rest in
           if hex_digit_value (hd p) = None \<or> (r \<noteq> [] \<and> hd r \<noteq> CHR '';'') then None else Some n))"

text \<open>The trailer ends with an empty line.\<close>

function trailer_ends :: "string \<Rightarrow> bool" where
  "trailer_ends s =
     (case memmem CRLF s of
        None \<Rightarrow> False
      | Some (line, rest) \<Rightarrow> if line = [] then True else trailer_ends (drop 2 rest))"
  by pat_completeness auto
termination
  by (relation "measure length") (auto dest!: memmem_Some simp: starts_with_iff)

declare trailer_ends.simps [simp del]

function decode_chunks :: "string \<Rightarrow> string \<Rightarrow> string option" where
  "decode_chunks decoded s =
     (case memmem CRLF s of
        None \<Rightarrow> None
      | Some (line, rest) \<Rightarrow>
          (let body = drop 2 rest in
           case chunk_size line of
             None \<Rightarrow> None
           | Some n \<Rightarrow>
               if n = 0 then (if trailer_ends body then Some decoded else None)
               else if length body < n \<or> H2_MAX_RESPONSE < n \<or> H2_MAX_RESPONSE - n < length decoded then None
               else if \<not> starts_with (drop n body) CRLF then None
               else decode_chunks (decoded @ take n body) (drop 2 (drop n body))))"
  by pat_completeness auto
termination
  by (relation "measure (\<lambda>(d, s). length s)") (auto dest!: memmem_Some simp: starts_with_iff)

declare decode_chunks.simps [simp del]

definition decode_chunked_body :: "string \<Rightarrow> string option" where
  "decode_chunked_body body = decode_chunks [] body"

section \<open>The response\<close>

definition blocked_h2_names :: "string list" where
  "blocked_h2_names = [''connection'', ''transfer-encoding'', ''upgrade'', ''keep-alive'', ''proxy-connection'']"

definition blocked_h2_header :: "string \<Rightarrow> bool" where
  "blocked_h2_header name = list_ex (rpsiod_streq_ci name) blocked_h2_names"

text \<open>A comma separated list, each item cut at its first semicolon.\<close>

function header_value_has_token :: "string \<Rightarrow> string \<Rightarrow> bool" where
  "header_value_has_token v token =
     (if v = [] then False
      else let p = dropWhile (\<lambda>c. is_ows c \<or> c = CHR '','') v;
               item = takeWhile (\<lambda>c. c \<noteq> CHR '','' \<and> c \<noteq> CHR '';'') p in
        if rpsiod_streq_ci (rtrim is_ows item) token then True
        else header_value_has_token (dropWhile (\<lambda>c. c \<noteq> CHR '','') p) token)"
  by pat_completeness auto
termination
proof (relation "measure (length o fst)", simp, goal_cases)
  case (1 v token p item)
  then obtain c cs where v: "v = c # cs" by (meson neq_Nil_conv)
  have p: "length (dropWhile (\<lambda>c. c \<noteq> CHR '','') p) \<le> length p" by (rule length_dropWhile_le)
  show ?case
  proof (cases "is_ows c \<or> c = CHR '',''")
    case True
    then have "length p \<le> length cs" using 1(2) by (simp add: v length_dropWhile_le)
    with p show ?thesis by (simp add: v)
  next
    case False
    then have "p = v" using 1(2) by (simp add: v)
    moreover have "length (dropWhile (\<lambda>c. c \<noteq> CHR '','') v) \<le> length cs"
      using False by (simp add: v length_dropWhile_le)
    ultimately show ?thesis by (simp add: v)
  qed
qed

declare header_value_has_token.simps [simp del]

record h2_response =
  h2_status :: int
  h2_headers :: "(string \<times> string) list"
  h2_body :: string

text \<open>
  \<open>sscanf\<close> with \<open>HTTP/%*s %d\<close>: the literal, a word, a number.
\<close>

definition scan_status :: "string \<Rightarrow> int option" where
  "scan_status line =
     (if \<not> starts_with line ''HTTP/'' then None
      else let w = dropWhile c_isspace (drop 5 line);
               rest = dropWhile (\<lambda>c. \<not> c_isspace c) w in
        if w = [] then None else map_option (\<lambda>(n, _). to_int32 n) (strtol rest))"

definition h2_field :: "string \<Rightarrow> (string \<times> string) option" where
  "h2_field line = (case strchr (CHR '':'') line of
      None \<Rightarrow> None
    | Some (nm, rest) \<Rightarrow> Some (rpsiod_trim nm, rpsiod_trim (tl rest)))"

definition h2_header_kept :: "string \<times> string \<Rightarrow> bool" where
  "h2_header_kept f \<longleftrightarrow> \<not> blocked_h2_header (fst f) \<and> fst f \<noteq> []"

definition parse_loopback_response :: "string \<Rightarrow> h2_response option" where
  "parse_loopback_response raw =
     (case memmem (CRLF @ CRLF) raw of
        None \<Rightarrow> None
      | Some (head, rest) \<Rightarrow>
          (case strtok_lines (cstr head) of
             [] \<Rightarrow> None
           | line # ls \<Rightarrow>
               (case scan_status line of
                  None \<Rightarrow> None
                | Some status \<Rightarrow>
                    (let fs = List.map_filter h2_field ls;
                         chunked = list_ex (\<lambda>(n, v). rpsiod_streq_ci n ''Transfer-Encoding'' \<and>
                                              header_value_has_token v ''chunked'') fs;
                         hs = map (\<lambda>(n, v). (safe_copy 128 n, safe_copy 4096 v)) (take 96 (filter h2_header_kept fs));
                         body = drop 4 rest in
                     case (if chunked then decode_chunked_body body else Some body) of
                       None \<Rightarrow> None
                     | Some b \<Rightarrow> Some \<lparr>h2_status = status, h2_headers = hs, h2_body = b\<rparr>))))"

definition response_has_header :: "h2_response \<Rightarrow> string \<Rightarrow> bool" where
  "response_has_header resp name = list_ex (\<lambda>h. rpsiod_streq_ci (fst h) name) (h2_headers resp)"

text \<open>The header list handed to the HTTP/2 library.\<close>

definition h2_reply_headers :: "h2_response \<Rightarrow> (string \<times> string) list" where
  "h2_reply_headers resp =
     ('':status'', safe_copy 4 (dec_int (h2_status resp))) # h2_headers resp @
     (if response_has_header resp ''Strict-Transport-Security'' then []
      else [(''strict-transport-security'', ''max-age=31536000; includeSubDomains'')])"

section \<open>The decoder reads what the writer wrote\<close>

lemma hex_digit_value_digit: "d < 16 \<Longrightarrow> hex_digit_value (hex_digit d) = Some d"
  by (auto simp: hex_digit_value_def hex_digit_def uchar_def Let_def)

lemma chunk_number_hex:
  "n \<le> H2_MAX_RESPONSE \<Longrightarrow> chunk_number 0 (hex n @ t) = chunk_number n t"
proof (induction n arbitrary: t rule: hex.induct)
  case (1 n)
  show ?case
  proof (cases "n < 16")
    case True
    then show ?thesis
      by (subst hex.simps) (simp add: hex_digit_value_digit)
  next
    case False
    have "n div 16 \<le> (H2_MAX_RESPONSE - n mod 16) div 16"
      using 1(2) by (metis div_le_mono minus_mod_eq_mult_div diff_le_mono nonzero_mult_div_cancel_left zero_neq_numeral)
    moreover have "chunk_number 0 (hex (n div 16) @ hex_digit (n mod 16) # t) = chunk_number (n div 16) (hex_digit (n mod 16) # t)"
      using 1 False by simp
    ultimately show ?thesis
      using False by (subst hex.simps) (simp add: hex_digit_value_digit not_less)
  qed
qed

lemma set_hex: "c \<in> set (hex n) \<Longrightarrow> \<exists>d < 16. c = hex_digit d"
proof (induction n rule: hex.induct)
  case (1 n)
  have m: "\<exists>d < 16. hex_digit (n mod 16) = hex_digit d" by (rule exI [of _ "n mod 16"]) simp
  with 1 show ?case by (cases "n < 16") (auto simp: hex.simps [of n])
qed

lemma hex_digit_facts: "d < 16 \<Longrightarrow> \<not> is_ows (hex_digit d) \<and> hex_digit d \<noteq> CR \<and> hex_digit_value (hex_digit d) = Some d"
  using hex_digit_value_digit [of d] by (auto simp: hex_digit_value_def uchar_def)

lemma chunk_size_hex: "n \<le> H2_MAX_RESPONSE \<Longrightarrow> chunk_size (hex n) = Some n"
proof -
  assume le: "n \<le> H2_MAX_RESPONSE"
  obtain c cs where h: "hex n = c # cs" using hex_not_Nil by (meson neq_Nil_conv)
  then obtain d where "d < 16" "c = hex_digit d" using set_hex [of c n] by auto
  with hex_digit_facts [of d] h have "dropWhile is_ows (hex n) = hex n" "hex_digit_value (hd (hex n)) \<noteq> None" by auto
  then show ?thesis
    using chunk_number_hex [OF le, of "[]"] by (simp add: chunk_size_def Let_def)
qed

definition chunk :: "string \<Rightarrow> string" where
  "chunk b = (if b = [] then [] else hex (length b) @ CRLF @ b @ CRLF)"

lemma memmem_hex: "memmem CRLF (hex n @ CRLF @ t) = Some (hex n, CRLF @ t)"
proof -
  have "CR \<notin> set (hex n)"
  proof
    assume "CR \<in> set (hex n)"
    then obtain d where "d < 16" "CR = hex_digit d" using set_hex by blast
    with hex_digit_facts [of d] show False by simp
  qed
  from memmem_CRLF_append [OF this, of t] show ?thesis by simp
qed

lemma decode_chunk:
  assumes "b \<noteq> []" and "length decoded + length b \<le> H2_MAX_RESPONSE"
  shows "decode_chunks decoded (chunk b @ t) = decode_chunks (decoded @ b) t"
proof -
  have "memmem CRLF (chunk b @ t) = Some (hex (length b), CRLF @ b @ CRLF @ t)"
    using assms(1) memmem_hex [of "length b" "b @ CRLF @ t"] by (simp add: chunk_def)
  moreover have "chunk_size (hex (length b)) = Some (length b)"
    using assms(2) by (intro chunk_size_hex) simp
  moreover have "\<not> H2_MAX_RESPONSE - length b < length decoded" using assms(2) by linarith
  ultimately show ?thesis
    using assms by (subst decode_chunks.simps) (simp add: starts_with_iff Let_def)
qed

lemma decode_end: "decode_chunks decoded (''0'' @ CRLF @ CRLF) = Some decoded"
proof -
  have h: "hex 0 = ''0''" by code_simp
  have "trailer_ends CRLF" by code_simp
  moreover have "chunk_size ''0'' = Some 0" using chunk_size_hex [of 0] h by simp
  moreover have "memmem CRLF (''0'' @ CRLF @ CRLF) = Some (''0'', CRLF @ CRLF)" using memmem_hex [of 0 CRLF] h by simp
  ultimately show ?thesis by (subst decode_chunks.simps) simp
qed

lemma decode_chunks_list:
  "length decoded + length (concat bs) \<le> H2_MAX_RESPONSE \<Longrightarrow>
     decode_chunks decoded (concat (map chunk bs) @ t) = decode_chunks (decoded @ concat bs) t"
proof (induction bs arbitrary: decoded)
  case (Cons b bs)
  show ?case
  proof (cases "b = []")
    case True
    with Cons show ?thesis by (simp add: chunk_def)
  next
    case False
    have "decode_chunks decoded (chunk b @ concat (map chunk bs) @ t) = decode_chunks (decoded @ b) (concat (map chunk bs) @ t)"
      using False Cons.prems by (intro decode_chunk) simp_all
    with Cons show ?thesis by simp
  qed
qed simp

text \<open>The writer of \<open>src/server.c\<close> sends its chunk.\<close>

lemma write_chunk_sends:
  "client_write_chunked_body tls b w = (True, w') \<Longrightarrow> io_sent w' = io_sent w @ chunk b"
  using client_writev.write_ok [where tls = tls and x = "[hex (length b) @ CRLF, b, CRLF]" and w = w and w' = w']
  by (auto simp: client_write_chunked_body_def chunk_def split: if_splits)

lemma write_chunks_send:
  "write_seq (client_write_chunked_body tls) bs w = (True, w') \<Longrightarrow> io_sent w' = io_sent w @ concat (map chunk bs)"
  by (induction bs arbitrary: w) (auto split: prod.splits if_splits dest!: write_chunk_sends)

text \<open>
  C19: the two ends of the loopback connection agree: a body that the server writes in chunks
  (any pieces, empty ones included) is decoded by the HTTP/2 front end to the same bytes, up
  to the limit of 64 MiB.
\<close>

theorem chunked_roundtrip:
  assumes "write_seq (client_write_chunked_body tls) bs w = (True, w1)"
    and "client_write_chunked_end tls w1 = (True, w2)" and "length (concat bs) \<le> H2_MAX_RESPONSE"
  shows "\<exists>sent. io_sent w2 = io_sent w @ sent \<and> decode_chunked_body sent = Some (concat bs)"
proof -
  have "io_sent w2 = io_sent w1 @ ''0'' @ CRLF @ CRLF"
    using assms(2) client_write.write_ok [where tls = tls and x = "''0'' @ CRLF @ CRLF" and w = w1 and w' = w2]
    by (simp add: client_write_chunked_end_def)
  then have "io_sent w2 = io_sent w @ (concat (map chunk bs) @ ''0'' @ CRLF @ CRLF)"
    using write_chunks_send [OF assms(1)] by simp
  moreover have "decode_chunked_body (concat (map chunk bs) @ ''0'' @ CRLF @ CRLF) = Some (concat bs)"
    unfolding decode_chunked_body_def using decode_chunks_list [of "[]" bs] assms(3) decode_end by simp
  ultimately show ?thesis by blast
qed

theorem chunked_roundtrip_witness:
  "\<exists>w1 w2 sent. write_seq (client_write_chunked_body False) [''ab'', [], ''c'']
        \<lparr>io_sent = [], io_in = [], io_events = [Short 1, Intr]\<rparr> = (True, w1) \<and>
     client_write_chunked_end False w1 = (True, w2) \<and> io_sent w2 = sent \<and> decode_chunked_body sent = Some ''abc''"
proof -
  let ?w = "\<lparr>io_sent = [], io_in = [], io_events = [Short 1, Intr]\<rparr>"
  have "fst (write_seq (client_write_chunked_body False) [''ab'', [], ''c''] ?w)" by code_simp
  then obtain w1 where w1: "write_seq (client_write_chunked_body False) [''ab'', [], ''c''] ?w = (True, w1)"
    by (metis prod.collapse)
  have "fst (client_write_chunked_end False (snd (write_seq (client_write_chunked_body False) [''ab'', [], ''c''] ?w)))"
    by code_simp
  then obtain w2 where w2: "client_write_chunked_end False w1 = (True, w2)"
    unfolding w1 snd_conv by (metis prod.collapse)
  from chunked_roundtrip [OF w1 w2] w1 w2 show ?thesis by (simp add: H2_MAX_RESPONSE_def)
qed

section \<open>What the client receives\<close>

lemma blocked_short: "blocked_h2_header n \<Longrightarrow> length n \<le> 17"
  using streq_ci_length by (fastforce simp: blocked_h2_header_def blocked_h2_names_def)

lemma blocked_safe_copy: "blocked_h2_header (safe_copy 128 n) \<Longrightarrow> blocked_h2_header n"
  using blocked_short [of "safe_copy 128 n"] by (auto simp: safe_copy_def min_def split: if_splits)

lemma strtok_lines_chars: "l \<in> set (strtok_lines s) \<Longrightarrow> c \<in> set l \<Longrightarrow> \<not> is_crlf c \<and> c \<in> set s"
proof (induction s rule: strtok_lines.induct)
  case (1 s)
  let ?t = "dropWhile is_crlf s"
  have t: "set ?t \<subseteq> set s" using set_dropWhileD [of _ is_crlf s] by blast
  show ?case
  proof (cases "?t = []")
    case True
    then show ?thesis using 1(2) by (simp add: strtok_lines.simps [of s])
  next
    case False
    then have "l = takeWhile (\<lambda>c. \<not> is_crlf c) ?t \<or> l \<in> set (strtok_lines (dropWhile (\<lambda>c. \<not> is_crlf c) ?t))"
      using 1(2) by (auto simp: strtok_lines.simps [of s] Let_def split: if_splits)
    then show ?thesis
    proof
      assume "l = takeWhile (\<lambda>c. \<not> is_crlf c) ?t"
      then show ?thesis using 1(3) t set_takeWhileD [of c "\<lambda>c. \<not> is_crlf c" ?t] by auto
    next
      assume "l \<in> set (strtok_lines (dropWhile (\<lambda>c. \<not> is_crlf c) ?t))"
      from 1(1) [OF refl False this 1(3)] t show ?thesis
        using set_dropWhileD [of c "\<lambda>c. \<not> is_crlf c" ?t] by auto
    qed
  qed
qed

text \<open>Text that can stand in a header block: no CR, LF or NUL.\<close>

definition header_text :: "string \<Rightarrow> bool" where
  "header_text s \<longleftrightarrow> CR \<notin> set s \<and> LF \<notin> set s \<and> NUL \<notin> set s"

lemma header_text_subset: "set a \<subseteq> set b \<Longrightarrow> header_text b \<Longrightarrow> header_text a"
  by (auto simp: header_text_def)

lemma h2_field_parts:
  assumes "h2_field line = Some (n, v)"
  shows "set n \<subseteq> set line \<and> set v \<subseteq> set line \<and> CHR '':'' \<notin> set n"
proof -
  obtain a r where c: "strchr (CHR '':'') line = Some (a, r)" "n = rpsiod_trim a" "v = rpsiod_trim (tl r)"
    using assms by (auto simp: h2_field_def split: option.splits)
  have l: "line = a @ r" "CHR '':'' \<notin> set a" using c(1) by (auto simp: strchr_Some)
  moreover have "set (tl r) \<subseteq> set r" by (cases r) auto
  ultimately show ?thesis using c(2,3) set_rpsiod_trim [of a] set_rpsiod_trim [of "tl r"] by auto
qed

definition h2_field_ok :: "string \<times> string \<Rightarrow> bool" where
  "h2_field_ok h \<longleftrightarrow> fst h \<noteq> [] \<and> CHR '':'' \<notin> set (fst h) \<and> \<not> blocked_h2_header (fst h) \<and>
     header_text (fst h) \<and> header_text (snd h) \<and> length (fst h) < 128 \<and> length (snd h) < 4096"

lemma line_header_text:
  assumes "l \<in> set (strtok_lines (cstr s))"
  shows "header_text l"
proof -
  have "is_crlf CR" "is_crlf LF" by code_simp+
  moreover have "NUL \<notin> set l" using strtok_lines_chars [OF assms, of NUL] NUL_notin_cstr [of s] by blast
  ultimately show ?thesis using strtok_lines_chars [OF assms] by (auto simp: header_text_def)
qed

lemma kept_field_ok:
  assumes "header_text l" and "h2_field l = Some (n, v)" and "h2_header_kept (n, v)"
  shows "h2_field_ok (safe_copy 128 n, safe_copy 4096 v)"
proof -
  note p = h2_field_parts [OF assms(2)]
  have "header_text n" "header_text v"
    using header_text_subset [OF _ assms(1)] p by simp_all
  then have "header_text (safe_copy 128 n)" "header_text (safe_copy 4096 v)"
    by (simp_all add: header_text_subset [OF set_safe_copy])
  moreover have "CHR '':'' \<notin> set (safe_copy 128 n)" using p set_safe_copy [of 128 n] by blast
  moreover have "safe_copy 128 n \<noteq> []" using assms(3) by (simp add: safe_copy_def h2_header_kept_def)
  moreover have "\<not> blocked_h2_header (safe_copy 128 n)"
    using assms(3) blocked_safe_copy [of n] by (auto simp: h2_header_kept_def)
  moreover have "length (safe_copy 128 n) < 128" "length (safe_copy 4096 v) < 4096"
    by (rule length_safe_copy, simp)+
  ultimately show ?thesis unfolding h2_field_ok_def fst_conv snd_conv by blast
qed

lemma parse_loopback_headers:
  assumes "parse_loopback_response raw = Some resp" and "h \<in> set (h2_headers resp)"
  shows "h2_field_ok h" and "length (h2_headers resp) \<le> 96"
proof -
  obtain head rest line ls where r: "memmem (CRLF @ CRLF) raw = Some (head, rest)" "strtok_lines (cstr head) = line # ls"
    and hs: "h2_headers resp = map (\<lambda>(n, v). (safe_copy 128 n, safe_copy 4096 v))
        (take 96 (filter h2_header_kept (List.map_filter h2_field ls)))"
    using assms(1) by (auto simp: parse_loopback_response_def Let_def split: option.splits list.splits)
  obtain n v where h: "h = (safe_copy 128 n, safe_copy 4096 v)" "h2_header_kept (n, v)"
      "(n, v) \<in> set (List.map_filter h2_field ls)"
    using assms(2) hs by (auto dest!: in_set_takeD)
  then obtain l where l: "l \<in> set ls" "h2_field l = Some (n, v)" by (auto simp: map_filter_def)
  then have "header_text l" using line_header_text [of l head] r(2) by simp
  with kept_field_ok [OF _ l(2) h(2)] h(1) show "h2_field_ok h" by simp
  show "length (h2_headers resp) \<le> 96" by (simp add: hs)
qed

text \<open>
  a response never carries HTTP/1.1 connection management into HTTP/2: behind the one
  status field every header has a plain name, is none of \<open>Connection\<close>, \<open>Transfer-Encoding\<close>,
  \<open>Upgrade\<close>, \<open>Keep-Alive\<close>, \<open>Proxy-Connection\<close>, and holds no line break; one of them is
  \<open>Strict-Transport-Security\<close>.
\<close>

theorem h2_headers_clean:
  assumes "parse_loopback_response raw = Some resp"
  shows "fst (hd (h2_reply_headers resp)) = '':status'' \<and> list_all h2_field_ok (tl (h2_reply_headers resp)) \<and>
    length (h2_reply_headers resp) \<le> 98 \<and>
    list_ex (\<lambda>h. rpsiod_streq_ci (fst h) ''Strict-Transport-Security'') (h2_reply_headers resp)"
proof -
  let ?hsts = "(''strict-transport-security'', ''max-age=31536000; includeSubDomains'')"
  have "h2_field_ok ?hsts" "rpsiod_streq_ci (fst ?hsts) ''Strict-Transport-Security''" by code_simp+
  moreover have "list_all h2_field_ok (h2_headers resp)"
    using parse_loopback_headers(1) [OF assms] by (simp add: list_all_iff)
  moreover have "length (h2_headers resp) \<le> 96"
    using parse_loopback_headers(2) [OF assms] by (cases "h2_headers resp") auto
  ultimately show ?thesis
    by (auto simp: h2_reply_headers_def response_has_header_def list_ex_iff)
qed

theorem h2_headers_clean_witness:
  "\<exists>resp. parse_loopback_response (''HTTP/1.1 200 OK'' @ CRLF @ ''Connection: close'' @ CRLF @ ''A: b'' @ CRLF @ CRLF @ ''x'') =
      Some resp \<and> list_all h2_field_ok (tl (h2_reply_headers resp))"
proof -
  have "parse_loopback_response (''HTTP/1.1 200 OK'' @ CRLF @ ''Connection: close'' @ CRLF @ ''A: b'' @ CRLF @ CRLF @ ''x'') \<noteq> None"
    by code_simp
  then obtain resp where r: "parse_loopback_response
      (''HTTP/1.1 200 OK'' @ CRLF @ ''Connection: close'' @ CRLF @ ''A: b'' @ CRLF @ CRLF @ ''x'') = Some resp" by blast
  with h2_headers_clean [OF r] show ?thesis by blast
qed

end
