(* ===== verification/Http2.thy ===== *)
theory Http2
  imports Http2Text Proxy ConfigLoadProps
begin

text \<open>
  The HTTP/2 connection of \<open>src/http2.c\<close>: its streams, the loopback request of each, and the
  callbacks and steps of \<open>rpsiod_http2_serve_connection\<close>.  The HTTP/2 library is outside: what it
  reports are the events of the step relation, what is submitted to it is the list
  \<open>hc_replies\<close>.  A stream is known by the address \<open>calloc\<close> gave it; the backend socket is an
  \<open>io\<close> state, \<open>None\<close> when closed.
\<close>

section \<open>State\<close>

datatype h2_backend_state = H2_NONE | H2_CONNECTING | H2_WRITING | H2_READING | H2_DONE | H2_FAILED

record h2_stream =
  hs_addr :: nat
  hs_id :: int
  hs_method :: string
  hs_path :: string
  hs_authority :: string
  hs_request_seen :: bool
  hs_body :: string
  hs_body_off :: nat
  hs_fd :: "io option"
  hs_state :: h2_backend_state
  hs_request :: string
  hs_request_off :: nat
  hs_raw :: "string \<times> nat"
  hs_attempts :: nat
  hs_submitted :: bool
  hs_backend_started :: timespec

record h2_conn =
  hc_streams :: "h2_stream list"
  hc_active :: nat
  hc_max_seen :: nat
  hc_client_ip :: string
  hc_server_ip :: string
  hc_local_port :: u16
  hc_replies :: "(int \<times> (string \<times> string) list \<times> string) list"

definition no_time :: timespec where "no_time = \<lparr>tv_sec = 0, tv_nsec = 0\<rparr>"

definition new_stream :: "nat \<Rightarrow> int \<Rightarrow> h2_stream" where
  "new_stream addr sid =
     \<lparr>hs_addr = addr, hs_id = sid, hs_method = ''GET'', hs_path = ''/'', hs_authority = [],
      hs_request_seen = False, hs_body = [], hs_body_off = 0, hs_fd = None, hs_state = H2_NONE,
      hs_request = [], hs_request_off = 0, hs_raw = ([], 0), hs_attempts = 0, hs_submitted = False,
      hs_backend_started = no_time\<rparr>"

definition find_stream :: "h2_conn \<Rightarrow> int \<Rightarrow> h2_stream option" where
  "find_stream conn sid = List.find (\<lambda>s. hs_id s = sid) (hc_streams conn)"

text \<open>\<open>addr\<close> is the address \<open>calloc\<close> returns if the stream is new.\<close>

definition get_or_create_stream :: "nat \<Rightarrow> h2_conn \<Rightarrow> int \<Rightarrow> h2_conn" where
  "get_or_create_stream addr conn sid =
     (if find_stream conn sid \<noteq> None then conn
      else conn\<lparr>hc_streams := new_stream addr sid # hc_streams conn,
                hc_max_seen := max (hc_max_seen conn) (Suc (length (hc_streams conn)))\<rparr>)"

fun remove_loop :: "int \<Rightarrow> h2_stream list \<Rightarrow> nat \<Rightarrow> h2_stream list \<times> nat" where
  "remove_loop sid [] active = ([], active)"
| "remove_loop sid (s # ss) active =
     (if hs_id s = sid then (ss, if hs_fd s \<noteq> None then active - 1 else active)
      else case remove_loop sid ss active of (ss', active') \<Rightarrow> (s # ss', active'))"

definition remove_stream :: "h2_conn \<Rightarrow> int \<Rightarrow> h2_conn" where
  "remove_stream conn sid =
     (case remove_loop sid (hc_streams conn) (hc_active conn) of
        (ss, active) \<Rightarrow> conn\<lparr>hc_streams := ss, hc_active := active\<rparr>)"

section \<open>The loopback request\<close>

text \<open>What \<open>socket\<close> and \<open>connect\<close> answer.\<close>

datatype connect_result = NoSocket | ConnectFailed | ConnectPending io | ConnectNow io

definition close_backend_stream :: "h2_stream \<Rightarrow> nat \<Rightarrow> h2_stream \<times> nat" where
  "close_backend_stream s active =
     (if hs_fd s = None then (s, active) else (s\<lparr>hs_fd := None\<rparr>, active - 1))"

definition fail_stream :: "h2_stream \<Rightarrow> nat \<Rightarrow> h2_stream \<times> nat" where
  "fail_stream s active =
     (case close_backend_stream s active of (s', active') \<Rightarrow> (s'\<lparr>hs_state := H2_FAILED\<rparr>, active'))"

definition loopback_request :: "h2_conn \<Rightarrow> h2_stream \<Rightarrow> string \<Rightarrow> string" where
  "loopback_request conn s authority =
     hs_method s @ '' '' @ hs_path s @ '' HTTP/1.1'' @ CRLF @
     ''Host: '' @ (if hs_authority s \<noteq> [] then hs_authority s else authority) @ CRLF @
     ''Connection: close'' @ CRLF @ ''X-Forwarded-Proto: https'' @ CRLF @
     ''X-Forwarded-For: '' @ hc_client_ip conn @ CRLF @ ''X-Rpsiod-Internal-Scheme: https'' @ CRLF @ CRLF"

definition start_loopback_request_async ::
  "config \<Rightarrow> route_table \<Rightarrow> h2_conn \<Rightarrow> timespec \<Rightarrow> connect_result \<Rightarrow> h2_stream \<Rightarrow> nat \<Rightarrow> h2_stream \<times> nat" where
  "start_loopback_request_async cfg tbl conn now cr s active =
     (let authority = rpsiod_strip_port (safe_copy 256 (if hs_authority s \<noteq> [] then hs_authority s else ''localhost''));
          failed = (s\<lparr>hs_state := H2_FAILED\<rparr>, active);
          text = loopback_request conn s authority in
      case rpsiod_config_find_site_for_listener cfg tbl authority (hc_local_port conn) (Some (hc_server_ip conn)) of
        None \<Rightarrow> failed
      | Some i \<Rightarrow>
          if site_http_port (cfg_sites cfg ! i) = 0 then failed
          else if cr = NoSocket \<or> 8192 \<le> length text then failed
          else
            let s1 = s\<lparr>hs_request := text, hs_request_off := 0, hs_attempts := hs_attempts s + 1,
                       hs_backend_started := now\<rparr> in
            (case cr of
               ConnectNow up \<Rightarrow> (s1\<lparr>hs_fd := Some up, hs_state := H2_WRITING\<rparr>, active + 1)
             | ConnectPending up \<Rightarrow> (s1\<lparr>hs_fd := Some up, hs_state := H2_CONNECTING\<rparr>, active + 1)
             | _ \<Rightarrow> (s1\<lparr>hs_fd := None, hs_state := H2_FAILED\<rparr>, active)))"

definition H2_BACKEND_MAX_ATTEMPTS :: nat where "H2_BACKEND_MAX_ATTEMPTS = 8"

text \<open>\<open>h2_elapsed_ms\<close> compared with 50 ms, in nanoseconds.\<close>

definition retry_due :: "timespec \<Rightarrow> timespec \<Rightarrow> bool" where
  "retry_due start now \<longleftrightarrow> tv_sec start \<noteq> 0 \<and> tv_sec now \<noteq> 0 \<and>
     50000000 \<le> (tv_sec now - tv_sec start) * 1000000000 + (tv_nsec now - tv_nsec start)"

definition retry_delayed_loopback ::
  "config \<Rightarrow> route_table \<Rightarrow> h2_conn \<Rightarrow> timespec \<Rightarrow> connect_result \<Rightarrow> h2_stream \<Rightarrow> nat \<Rightarrow> h2_stream \<times> nat" where
  "retry_delayed_loopback cfg tbl conn now cr s active =
     (if H2_BACKEND_MAX_ATTEMPTS \<le> hs_attempts s \<or> fst (hs_raw s) \<noteq> [] \<or>
         hs_state s \<notin> {H2_CONNECTING, H2_WRITING, H2_READING} \<or> \<not> retry_due (hs_backend_started s) now
      then (s, active)
      else case close_backend_stream s active of
        (s1, active1) \<Rightarrow>
          start_loopback_request_async cfg tbl conn now cr
            (s1\<lparr>hs_raw := ([], 0), hs_request := [], hs_request_off := 0, hs_state := H2_NONE\<rparr>) active1)"

section \<open>Progress\<close>

datatype progress = Pending | Finished | Broken_off

function h2_write_loop :: "string \<Rightarrow> nat \<Rightarrow> io \<Rightarrow> progress \<times> nat \<times> io" where
  "h2_write_loop req off up =
     (if length req \<le> off then (Finished, off, up)
      else case sys_write (drop off req) up of
        (EINTR, up') \<Rightarrow> h2_write_loop req off up'
      | (EAGAIN _, up') \<Rightarrow> (Pending, off, up')
      | (EIO, up') \<Rightarrow> (Broken_off, off, up')
      | (Count n, up') \<Rightarrow> if n = 0 then (Pending, off, up') else h2_write_loop req (off + n) up')"
  by pat_completeness auto
termination
  by (relation "measure (\<lambda>(req, off, up). (length req - off) + length (io_events up))")
     (auto dest: sys_write_error [OF sym] dest!: sys_write_count [OF sym])

declare h2_write_loop.simps [simp del]

function h2_read_loop :: "string \<times> nat \<Rightarrow> io \<Rightarrow> progress \<times> (string \<times> nat) \<times> io" where
  "h2_read_loop raw up =
     (case sys_read 8192 up of
        ((EINTR, _), up') \<Rightarrow> h2_read_loop raw up'
      | ((EAGAIN _, _), up') \<Rightarrow> (Pending, raw, up')
      | ((EIO, _), up') \<Rightarrow> (Broken_off, raw, up')
      | ((Count _, s), up') \<Rightarrow>
          if s = [] then (Finished, raw, up')
          else (case append_bytes raw s of
            None \<Rightarrow> (Broken_off, raw, up')
          | Some raw' \<Rightarrow> h2_read_loop raw' up'))"
  by pat_completeness auto
termination
  by (relation "measure (\<lambda>(raw, up). length (io_in up) + length (io_events up))")
     (auto dest: sys_read_progress [OF sym])

declare h2_read_loop.simps [simp del]

text \<open>
  One call for a stream whose socket \<open>poll\<close> reported; \<open>out\<close>: writable, error or hang-up.  The
  last component is the return value 1 (the backend is finished).
\<close>

definition h2_read_phase :: "h2_stream \<Rightarrow> nat \<Rightarrow> io \<Rightarrow> h2_stream \<times> nat \<times> bool" where
  "h2_read_phase s active up =
     (case h2_read_loop (hs_raw s) up of
        (Pending, raw, up') \<Rightarrow> (s\<lparr>hs_raw := raw, hs_fd := Some up'\<rparr>, active, False)
      | (Broken_off, raw, up') \<Rightarrow>
          (case fail_stream (s\<lparr>hs_raw := raw, hs_fd := Some up'\<rparr>) active of (s', a) \<Rightarrow> (s', a, True))
      | (Finished, raw, up') \<Rightarrow>
          (case close_backend_stream (s\<lparr>hs_raw := raw, hs_fd := Some up'\<rparr>) active of
             (s', a) \<Rightarrow> (s'\<lparr>hs_state := H2_DONE\<rparr>, a, True)))"

definition h2_write_phase :: "h2_stream \<Rightarrow> nat \<Rightarrow> io \<Rightarrow> h2_stream \<times> nat \<times> bool" where
  "h2_write_phase s active up =
     (case h2_write_loop (hs_request s) (hs_request_off s) up of
        (Pending, off, up') \<Rightarrow> (s\<lparr>hs_request_off := off, hs_fd := Some up'\<rparr>, active, False)
      | (Broken_off, off, up') \<Rightarrow>
          (case fail_stream (s\<lparr>hs_request_off := off, hs_fd := Some up'\<rparr>) active of (s', a) \<Rightarrow> (s', a, True))
      | (Finished, off, up') \<Rightarrow>
          h2_read_phase (s\<lparr>hs_request_off := off, hs_fd := Some up', hs_state := H2_READING\<rparr>) active up')"

definition h2_progress_backend_stream :: "bool \<Rightarrow> bool \<Rightarrow> h2_stream \<Rightarrow> nat \<Rightarrow> h2_stream \<times> nat \<times> bool" where
  "h2_progress_backend_stream out socket_error s active =
     (case hs_fd s of
        None \<Rightarrow> (s, active, False)
      | Some up \<Rightarrow>
          (case hs_state s of
             H2_CONNECTING \<Rightarrow>
               if \<not> out then (s, active, False)
               else if socket_error then (case fail_stream s active of (s', a) \<Rightarrow> (s', a, True))
               else h2_write_phase (s\<lparr>hs_state := H2_WRITING\<rparr>) active up
           | H2_WRITING \<Rightarrow> h2_write_phase s active up
           | H2_READING \<Rightarrow> h2_read_phase s active up
           | _ \<Rightarrow> (s, active, False)))"

section \<open>Replies\<close>

definition simple_reply :: "int \<Rightarrow> string \<Rightarrow> (string \<times> string) list \<times> string" where
  "simple_reply status body =
     ([('':status'', safe_copy 4 (dec_int status)), (''content-type'', ''text/plain; charset=utf-8'')], body)"

definition loopback_reply :: "h2_stream \<Rightarrow> (string \<times> string) list \<times> string" where
  "loopback_reply s =
     (case parse_loopback_response (fst (hs_raw s)) of
        None \<Rightarrow> simple_reply 502 (''502 Bad Gateway'' @ [LF])
      | Some resp \<Rightarrow> (h2_reply_headers resp, if rpsiod_streq_ci (hs_method s) ''HEAD'' then [] else h2_body resp))"

definition submit_reply :: "(string \<times> string) list \<times> string \<Rightarrow> h2_stream \<Rightarrow> h2_stream" where
  "submit_reply r s = s\<lparr>hs_submitted := True, hs_body := snd r, hs_body_off := 0, hs_raw := ([], 0)\<rparr>"

definition ready_reply :: "h2_stream \<Rightarrow> ((string \<times> string) list \<times> string) option" where
  "ready_reply s =
     (if hs_submitted s then None
      else if hs_state s = H2_DONE then Some (loopback_reply s)
      else if hs_state s = H2_FAILED then Some (simple_reply 502 (''502 Bad Gateway'' @ [LF]))
      else None)"

text \<open>The data callback: up to \<open>n\<close> bytes of the body, and whether it ends with them.\<close>

definition response_data_callback :: "nat \<Rightarrow> h2_stream \<Rightarrow> string \<times> bool \<times> h2_stream" where
  "response_data_callback n s =
     (let left = length (hs_body s) - hs_body_off s in
      if left = 0 then ([], True, s)
      else let k = min left n; off = hs_body_off s + k in
        (take k (drop (hs_body_off s) (hs_body s)), off = length (hs_body s), s\<lparr>hs_body_off := off\<rparr>))"

section \<open>Events\<close>

definition set_field :: "string \<Rightarrow> string \<Rightarrow> h2_stream \<Rightarrow> h2_stream" where
  "set_field name v s =
     (if name = '':method'' then s\<lparr>hs_method := cstr (safe_copy 16 v)\<rparr>
      else if name = '':path'' then s\<lparr>hs_path := cstr (safe_copy 2048 v)\<rparr>
      else if name = '':authority'' then s\<lparr>hs_authority := cstr (safe_copy 256 v)\<rparr>
      else s)"

definition update_stream :: "(h2_stream \<Rightarrow> bool) \<Rightarrow> (h2_stream \<Rightarrow> h2_stream) \<Rightarrow> h2_stream list \<Rightarrow> h2_stream list" where
  "update_stream P f ss = map (\<lambda>s. if P s then f s else s) ss"

definition on_begin_headers_callback :: "nat \<Rightarrow> int \<Rightarrow> h2_conn \<Rightarrow> h2_conn" where
  "on_begin_headers_callback addr sid conn =
     (let conn1 = get_or_create_stream addr conn sid in
      conn1\<lparr>hc_streams := update_stream (\<lambda>s. hs_id s = sid) (\<lambda>s. s\<lparr>hs_request_seen := True\<rparr>) (hc_streams conn1)\<rparr>)"

definition on_header_callback :: "nat \<Rightarrow> int \<Rightarrow> string \<Rightarrow> string \<Rightarrow> h2_conn \<Rightarrow> h2_conn" where
  "on_header_callback addr sid name v conn =
     (let conn1 = get_or_create_stream addr conn sid in
      conn1\<lparr>hc_streams := update_stream (\<lambda>s. hs_id s = sid) (set_field name v) (hc_streams conn1)\<rparr>)"

text \<open>The end of a request without a body; \<open>None\<close> is the error return for an unknown stream.\<close>

definition on_frame_recv_callback ::
  "config \<Rightarrow> route_table \<Rightarrow> timespec \<Rightarrow> connect_result \<Rightarrow> int \<Rightarrow> h2_conn \<Rightarrow> h2_conn option" where
  "on_frame_recv_callback cfg tbl now cr sid conn =
     (case find_stream conn sid of
        None \<Rightarrow> None
      | Some s0 \<Rightarrow>
          (let s = (if hs_authority s0 = [] then s0\<lparr>hs_authority := ''localhost''\<rparr> else s0) in
           if \<not> rpsiod_streq_ci (hs_method s) ''GET'' \<and> \<not> rpsiod_streq_ci (hs_method s) ''HEAD'' then
             (let r = simple_reply 405 (''405 Method Not Allowed'' @ [LF]) in
              Some (conn\<lparr>hc_streams := update_stream (\<lambda>t. hs_id t = sid)
                             (\<lambda>_. s\<lparr>hs_submitted := True, hs_body := snd r, hs_body_off := 0\<rparr>) (hc_streams conn),
                         hc_replies := hc_replies conn @ [(sid, r)]\<rparr>))
           else case start_loopback_request_async cfg tbl conn now cr s (hc_active conn) of
             (s', active) \<Rightarrow>
               Some (conn\<lparr>hc_streams := update_stream (\<lambda>t. hs_id t = sid) (\<lambda>_. s') (hc_streams conn),
                          hc_active := active\<rparr>)))"

text \<open>
  \<open>nghttp2_submit_response\<close> takes every response: its error return, which ends the connection,
  is left out.
\<close>

definition submit_ready_streams :: "h2_conn \<Rightarrow> h2_conn" where
  "submit_ready_streams conn =
     conn\<lparr>hc_streams := map (\<lambda>s. case ready_reply s of None \<Rightarrow> s | Some r \<Rightarrow> submit_reply r s) (hc_streams conn),
          hc_replies := hc_replies conn @
            List.map_filter (\<lambda>s. map_option (\<lambda>r. (hs_id s, r)) (ready_reply s)) (hc_streams conn)\<rparr>"

fun retry_loop ::
  "config \<Rightarrow> route_table \<Rightarrow> h2_conn \<Rightarrow> timespec \<Rightarrow> (int \<Rightarrow> connect_result) \<Rightarrow> h2_stream list \<Rightarrow> nat \<Rightarrow>
     h2_stream list \<times> nat" where
  "retry_loop cfg tbl conn now crs [] active = ([], active)"
| "retry_loop cfg tbl conn now crs (s # ss) active =
     (case retry_delayed_loopback cfg tbl conn now (crs (hs_id s)) s active of
        (s', a) \<Rightarrow> (case retry_loop cfg tbl conn now crs ss a of (ss', a') \<Rightarrow> (s' # ss', a')))"

definition retry_delayed_loopbacks ::
  "config \<Rightarrow> route_table \<Rightarrow> timespec \<Rightarrow> (int \<Rightarrow> connect_result) \<Rightarrow> h2_conn \<Rightarrow> h2_conn" where
  "retry_delayed_loopbacks cfg tbl now crs conn =
     (case retry_loop cfg tbl conn now crs (hc_streams conn) (hc_active conn) of
        (ss, a) \<Rightarrow> conn\<lparr>hc_streams := ss, hc_active := a\<rparr>)"

text \<open>
  A readable or writable backend: the poll loop holds the address of the stream; \<open>None\<close> means
  that no stream lives there any more.
\<close>

definition progress_at :: "bool \<Rightarrow> bool \<Rightarrow> nat \<Rightarrow> h2_conn \<Rightarrow> h2_conn option" where
  "progress_at out socket_error addr conn =
     (case List.find (\<lambda>s. hs_addr s = addr) (hc_streams conn) of
        None \<Rightarrow> None
      | Some s \<Rightarrow>
          (case h2_progress_backend_stream out socket_error s (hc_active conn) of
             (s', a, _) \<Rightarrow>
               Some (conn\<lparr>hc_streams := update_stream (\<lambda>t. hs_addr t = addr) (\<lambda>_. s') (hc_streams conn),
                          hc_active := a\<rparr>)))"

definition has_backend_work :: "h2_conn \<Rightarrow> bool" where
  "has_backend_work conn = list_ex (\<lambda>s. hs_state s \<in> {H2_CONNECTING, H2_WRITING, H2_READING}) (hc_streams conn)"

definition count_backend_fds :: "h2_conn \<Rightarrow> nat" where
  "count_backend_fds conn = length (filter (\<lambda>s. hs_fd s \<noteq> None) (hc_streams conn))"

function free_all_streams :: "h2_conn \<Rightarrow> h2_conn" where
  "free_all_streams conn =
     (case hc_streams conn of [] \<Rightarrow> conn | s # _ \<Rightarrow> free_all_streams (remove_stream conn (hs_id s)))"
  by pat_completeness auto
termination
  by (relation "measure (\<lambda>conn. length (hc_streams conn))") (auto simp: remove_stream_def)

declare free_all_streams.simps [simp del]

section \<open>Steps\<close>

text \<open>
  One event of the connection.  The guards state what the library documents: a request starts
  on a stream that was not used before, its header fields and its one request end follow, data
  is asked for after a reply was submitted; \<open>calloc\<close> returns an address not in use.
\<close>

inductive h2_step :: "config \<Rightarrow> route_table \<Rightarrow> h2_conn \<Rightarrow> h2_conn \<Rightarrow> bool" for cfg tbl where
  begin_headers: "find_stream conn sid = None \<Longrightarrow> sid \<notin> fst ` set (hc_replies conn) \<Longrightarrow>
     addr \<notin> hs_addr ` set (hc_streams conn) \<Longrightarrow> h2_step cfg tbl conn (on_begin_headers_callback addr sid conn)"
| header: "find_stream conn sid \<noteq> None \<Longrightarrow> h2_step cfg tbl conn (on_header_callback addr sid name v conn)"
| request_end: "find_stream conn sid = Some s \<Longrightarrow> hs_state s = H2_NONE \<Longrightarrow> \<not> hs_submitted s \<Longrightarrow>
     on_frame_recv_callback cfg tbl now cr sid conn = Some conn' \<Longrightarrow> h2_step cfg tbl conn conn'"
| closed: "h2_step cfg tbl conn (remove_stream conn sid)"
| progress: "progress_at out socket_error addr conn = Some conn' \<Longrightarrow> h2_step cfg tbl conn conn'"
| submit: "h2_step cfg tbl conn (submit_ready_streams conn)"
| retry: "h2_step cfg tbl conn (retry_delayed_loopbacks cfg tbl now crs conn)"
| data: "find_stream conn sid = Some s \<Longrightarrow> hs_submitted s \<Longrightarrow> response_data_callback n s = (bytes, eof, s') \<Longrightarrow>
     h2_step cfg tbl conn (conn\<lparr>hc_streams := update_stream (\<lambda>t. hs_id t = sid) (\<lambda>_. s') (hc_streams conn)\<rparr>)"

inductive_cases h2_stepE: "h2_step cfg tbl conn conn'"

definition h2_start :: "string \<Rightarrow> string \<Rightarrow> u16 \<Rightarrow> h2_conn" where
  "h2_start client_ip server_ip port =
     \<lparr>hc_streams = [], hc_active = 0, hc_max_seen = 0, hc_client_ip = safe_copy 46 client_ip,
      hc_server_ip = safe_copy 46 server_ip, hc_local_port = port, hc_replies = []\<rparr>"

section \<open>One stream\<close>

definition backend_open :: "h2_stream \<Rightarrow> bool" where
  "backend_open s \<longleftrightarrow> hs_state s \<in> {H2_CONNECTING, H2_WRITING, H2_READING}"

definition stream_ok :: "h2_stream \<Rightarrow> bool" where
  "stream_ok s \<longleftrightarrow> (hs_fd s \<noteq> None \<longleftrightarrow> backend_open s) \<and> hs_attempts s \<le> H2_BACKEND_MAX_ATTEMPTS \<and>
     (hs_state s = H2_NONE \<longrightarrow> hs_attempts s = 0) \<and> (hs_submitted s \<longrightarrow> \<not> backend_open s) \<and>
     length (hs_request s) < 8192 \<and> hs_request_off s \<le> length (hs_request s) \<and> buffer_ok (hs_raw s) \<and>
     length (hs_method s) < 16 \<and> length (hs_path s) < 2048 \<and> length (hs_authority s) < 256 \<and>
     hs_body_off s \<le> length (hs_body s)"

definition fd_count :: "h2_stream \<Rightarrow> nat" where
  "fd_count s = (if hs_fd s \<noteq> None then 1 else 0)"

text \<open>What every operation on one stream keeps: its identity and the count of open sockets.\<close>

definition keeps :: "h2_stream \<Rightarrow> nat \<Rightarrow> h2_stream \<Rightarrow> nat \<Rightarrow> bool" where
  "keeps s a s' a' \<longleftrightarrow> a' + fd_count s = a + fd_count s' \<and> hs_id s' = hs_id s \<and> hs_addr s' = hs_addr s \<and>
     hs_submitted s' = hs_submitted s"

lemma keeps_trans: "keeps s a s1 a1 \<Longrightarrow> keeps s1 a1 s2 a2 \<Longrightarrow> keeps s a s2 a2"
  by (auto simp: keeps_def)

lemma empty_buffer_ok [simp]: "buffer_ok ([], 0)"
  by (simp add: buffer_ok_def)

lemma close_backend_keeps:
  assumes "close_backend_stream s a = (s', a')" and "fd_count s \<le> a"
  shows "keeps s a s' a' \<and> hs_fd s' = None \<and> s' = s\<lparr>hs_fd := None\<rparr>"
  using assms by (auto simp: close_backend_stream_def keeps_def fd_count_def split: if_splits)

lemma fail_keeps:
  assumes "fail_stream s a = (s', a')" and "fd_count s \<le> a"
  shows "keeps s a s' a' \<and> s' = s\<lparr>hs_fd := None, hs_state := H2_FAILED\<rparr>"
proof -
  obtain s1 where c: "close_backend_stream s a = (s1, a')" "s' = s1\<lparr>hs_state := H2_FAILED\<rparr>"
    using assms(1) by (auto simp: fail_stream_def split: prod.splits)
  with close_backend_keeps [OF c(1) assms(2)] show ?thesis by (simp add: keeps_def fd_count_def)
qed

lemma start_cases:
  assumes "start_loopback_request_async cfg tbl conn now cr s a = (s', a')"
  shows "s' = s\<lparr>hs_state := H2_FAILED\<rparr> \<and> a' = a \<or>
    (\<exists>msg fd state. length msg < 8192 \<and>
       s' = s\<lparr>hs_request := msg, hs_request_off := 0, hs_attempts := hs_attempts s + 1,
              hs_backend_started := now, hs_fd := fd, hs_state := state\<rparr> \<and>
       (fd = None \<and> state = H2_FAILED \<and> a' = a \<or>
        fd \<noteq> None \<and> state \<in> {H2_CONNECTING, H2_WRITING} \<and> a' = a + 1))"
proof (cases "rpsiod_config_find_site_for_listener cfg tbl
     (rpsiod_strip_port (safe_copy 256 (if hs_authority s \<noteq> [] then hs_authority s else ''localhost'')))
     (hc_local_port conn) (Some (hc_server_ip conn))")
  case None
  with assms show ?thesis unfolding start_loopback_request_async_def Let_def None by simp
next
  case (Some i)
  define msg where "msg = loopback_request conn s
    (rpsiod_strip_port (safe_copy 256 (if hs_authority s \<noteq> [] then hs_authority s else ''localhost'')))"
  note unf = assms [unfolded start_loopback_request_async_def Let_def Some, folded msg_def]
  show ?thesis
  proof (cases "site_http_port (cfg_sites cfg ! i) = 0 \<or> cr = NoSocket \<or> 8192 \<le> length msg")
    case True
    with unf show ?thesis by (auto split: if_splits)
  next
    case False
    then have "length msg < 8192" by simp
    have h: "site_http_port (cfg_sites cfg ! i) \<noteq> 0" "\<not> (cr = NoSocket \<or> 8192 \<le> length msg)"
      using False by blast+
    note u = unf [unfolded option.case if_not_P [OF h(1)] if_not_P [OF h(2)]]
    show ?thesis
    proof (rule disjI2, rule exI [of _ msg], rule exI [of _ "hs_fd s'"], rule exI [of _ "hs_state s'"])
      show "length msg < 8192 \<and>
         s' = s\<lparr>hs_request := msg, hs_request_off := 0, hs_attempts := hs_attempts s + 1,
              hs_backend_started := now, hs_fd := hs_fd s', hs_state := hs_state s'\<rparr> \<and>
         (hs_fd s' = None \<and> hs_state s' = H2_FAILED \<and> a' = a \<or>
          hs_fd s' \<noteq> None \<and> hs_state s' \<in> {H2_CONNECTING, H2_WRITING} \<and> a' = a + 1)"
        using u \<open>length msg < 8192\<close> False by (cases cr) auto
    qed
  qed
qed

lemma start_keeps:
  assumes "start_loopback_request_async cfg tbl conn now cr s a = (s', a')" and "hs_fd s = None"
    and "hs_attempts s < H2_BACKEND_MAX_ATTEMPTS" and "\<not> hs_submitted s"
    and "stream_ok (s\<lparr>hs_state := H2_FAILED\<rparr>)"
  shows "keeps s a s' a' \<and> stream_ok s'"
  using start_cases [OF assms(1)]
proof (elim disjE exE conjE)
  assume "s' = s\<lparr>hs_state := H2_FAILED\<rparr>" "a' = a"
  with assms(5) show ?thesis by (simp add: keeps_def fd_count_def)
next
  fix msg fd state
  assume "length msg < 8192" "fd = None" "state = H2_FAILED" "a' = a"
    "s' = s\<lparr>hs_request := msg, hs_request_off := 0, hs_attempts := hs_attempts s + 1,
              hs_backend_started := now, hs_fd := fd, hs_state := state\<rparr>"
  with assms(2-5) show ?thesis by (simp add: keeps_def fd_count_def stream_ok_def backend_open_def)
next
  fix msg fd state
  assume "length msg < 8192" "fd \<noteq> None" "state \<in> {H2_CONNECTING, H2_WRITING}" "a' = a + 1"
    "s' = s\<lparr>hs_request := msg, hs_request_off := 0, hs_attempts := hs_attempts s + 1,
              hs_backend_started := now, hs_fd := fd, hs_state := state\<rparr>"
  with assms(2-5) show ?thesis by (auto simp: keeps_def fd_count_def stream_ok_def backend_open_def)
qed

lemma retry_keeps:
  assumes "retry_delayed_loopback cfg tbl conn now cr s a = (s', a')" and "fd_count s \<le> a" and "stream_ok s"
  shows "keeps s a s' a' \<and> stream_ok s'"
proof (cases "H2_BACKEND_MAX_ATTEMPTS \<le> hs_attempts s \<or> fst (hs_raw s) \<noteq> [] \<or>
         hs_state s \<notin> {H2_CONNECTING, H2_WRITING, H2_READING} \<or> \<not> retry_due (hs_backend_started s) now")
  case True
  with assms show ?thesis by (auto simp: retry_delayed_loopback_def keeps_def)
next
  case False
  obtain s1 a1 where c: "close_backend_stream s a = (s1, a1)" by (rule prod.exhaust)
  note k = close_backend_keeps [OF c assms(2)]
  let ?s = "s1\<lparr>hs_raw := ([], 0), hs_request := [], hs_request_off := 0, hs_state := H2_NONE\<rparr>"
  have "start_loopback_request_async cfg tbl conn now cr ?s a1 = (s', a')"
    using assms(1) unfolding retry_delayed_loopback_def if_not_P [OF False] c by simp
  moreover have "\<not> hs_submitted ?s" using assms(3) False k by (auto simp: stream_ok_def backend_open_def)
  moreover have "stream_ok (?s\<lparr>hs_state := H2_FAILED\<rparr>)"
    using assms(3) k by (auto simp: stream_ok_def backend_open_def)
  ultimately have "keeps ?s a1 s' a' \<and> stream_ok s'"
    using False k by (intro start_keeps) simp_all
  moreover have "keeps s a ?s a1" using k by (simp add: keeps_def fd_count_def)
  ultimately show ?thesis using keeps_trans by blast
qed

lemma h2_write_loop_bounds:
  "h2_write_loop req off up = (r, off', up') \<Longrightarrow> off \<le> length req \<Longrightarrow> off' \<le> length req"
proof (induction req off up rule: h2_write_loop.induct)
  case (1 req off up)
  show ?case
  proof (cases "length req \<le> off")
    case True
    then show ?thesis using 1(3,4) by (simp add: h2_write_loop.simps [of req off up])
  next
    case False
    obtain x up1 where w: "sys_write (drop off req) up = (x, up1)" by (rule prod.exhaust)
    show ?thesis
    proof (cases x)
      case (Count n)
      then have "n \<le> length req - off" using sys_write_count w by fastforce
      then show ?thesis
        using 1(1) [OF False w [symmetric] Count] 1(3,4) False w Count
        by (simp add: h2_write_loop.simps [of req off up] split: if_splits)
    next
      case EINTR
      then show ?thesis using 1(2) [OF False w [symmetric]] 1(3,4) False w
        by (simp add: h2_write_loop.simps [of req off up])
    qed (use 1(3,4) False w in \<open>simp_all add: h2_write_loop.simps [of req off up]\<close>)
  qed
qed

lemma h2_read_loop_ok:
  "h2_read_loop raw up = (r, raw', up') \<Longrightarrow> buffer_ok raw \<Longrightarrow> buffer_ok raw'"
proof (induction raw up rule: h2_read_loop.induct)
  case (1 raw up)
  obtain x b up1 where w: "sys_read 8192 up = ((x, b), up1)" by (metis prod.collapse)
  note unf = 1(3) [unfolded h2_read_loop.simps [of raw up] w]
  show ?case
  proof (cases x)
    case (Count n)
    show ?thesis
    proof (cases "b = []")
      case False
      show ?thesis
      proof (cases "append_bytes raw b")
        case (Some raw1)
        with append_bytes_ok [OF 1(4) Some] 1(1) [OF w [symmetric] refl Count False Some] unf Count False
        show ?thesis by simp
      qed (use unf Count False 1(4) in simp)
    qed (use unf Count 1(4) in simp)
  next
    case EINTR
    with 1(2) [OF w [symmetric] refl] unf 1(4) show ?thesis by simp
  qed (use unf 1(4) in simp_all)
qed

lemma read_phase_keeps:
  assumes "h2_read_phase s a up = (s', a', rc)" and "stream_ok s" and "hs_state s = H2_READING" and "0 < a"
  shows "keeps s a s' a' \<and> stream_ok s'"
proof -
  obtain r raw up' where l: "h2_read_loop (hs_raw s) up = (r, raw, up')" by (metis prod.collapse)
  note b = h2_read_loop_ok [OF l]
  let ?t = "s\<lparr>hs_raw := raw, hs_fd := Some up'\<rparr>"
  have fd: "hs_fd s \<noteq> None" using assms(2,3) by (simp add: stream_ok_def backend_open_def)
  have t: "keeps s a ?t a" "fd_count ?t \<le> a" "stream_ok ?t"
    using assms(2,4) fd b by (simp_all add: keeps_def fd_count_def stream_ok_def backend_open_def)
  show ?thesis
  proof (cases r)
    case Pending
    with assms(1) l t show ?thesis by (simp add: h2_read_phase_def)
  next
    case Finished
    obtain s1 a1 where c: "close_backend_stream ?t a = (s1, a1)" by (rule prod.exhaust)
    note k = close_backend_keeps [OF c t(2)]
    have "s' = s1\<lparr>hs_state := H2_DONE\<rparr> \<and> a' = a1" using assms(1) l Finished c by (simp add: h2_read_phase_def)
    with k t assms(3) show ?thesis by (auto simp: keeps_def fd_count_def stream_ok_def backend_open_def)
  next
    case Broken_off
    obtain s1 a1 where c: "fail_stream ?t a = (s1, a1)" by (rule prod.exhaust)
    note k = fail_keeps [OF c t(2)]
    have "s' = s1 \<and> a' = a1" using assms(1) l Broken_off c by (simp add: h2_read_phase_def)
    with k t assms(3) show ?thesis by (auto simp: keeps_def fd_count_def stream_ok_def backend_open_def)
  qed
qed

lemma write_phase_keeps:
  assumes "h2_write_phase s a up = (s', a', rc)" and "stream_ok s" and "hs_state s = H2_WRITING" and "0 < a"
  shows "keeps s a s' a' \<and> stream_ok s'"
proof -
  obtain r off up' where l: "h2_write_loop (hs_request s) (hs_request_off s) up = (r, off, up')" by (metis prod.collapse)
  have off: "off \<le> length (hs_request s)"
    using h2_write_loop_bounds [OF l] assms(2) by (simp add: stream_ok_def)
  let ?t = "s\<lparr>hs_request_off := off, hs_fd := Some up'\<rparr>"
  have fd: "hs_fd s \<noteq> None" using assms(2,3) by (simp add: stream_ok_def backend_open_def)
  have t: "keeps s a ?t a" "fd_count ?t \<le> a" "stream_ok ?t"
    using assms(2,4) fd off by (simp_all add: keeps_def fd_count_def stream_ok_def backend_open_def)
  show ?thesis
  proof (cases r)
    case Pending
    with assms(1) l t show ?thesis by (simp add: h2_write_phase_def)
  next
    case Finished
    let ?u = "?t\<lparr>hs_state := H2_READING\<rparr>"
    have "h2_read_phase ?u a up' = (s', a', rc)" using assms(1) l Finished by (simp add: h2_write_phase_def)
    moreover have "stream_ok ?u" using t(3) assms(3) by (auto simp: stream_ok_def backend_open_def)
    ultimately have "keeps ?u a s' a' \<and> stream_ok s'" using assms(4) by (intro read_phase_keeps) simp_all
    moreover have "keeps s a ?u a" using t(1) by (simp add: keeps_def fd_count_def)
    ultimately show ?thesis using keeps_trans by blast
  next
    case Broken_off
    obtain s1 a1 where c: "fail_stream ?t a = (s1, a1)" by (rule prod.exhaust)
    note k = fail_keeps [OF c t(2)]
    have "s' = s1 \<and> a' = a1" using assms(1) l Broken_off c by (simp add: h2_write_phase_def)
    with k t assms(3) show ?thesis by (auto simp: keeps_def fd_count_def stream_ok_def backend_open_def)
  qed
qed

lemma progress_keeps:
  assumes "h2_progress_backend_stream out err s a = (s', a', rc)" and "stream_ok s" and "fd_count s \<le> a"
  shows "keeps s a s' a' \<and> stream_ok s'"
proof (cases "hs_fd s")
  case None
  with assms show ?thesis by (simp add: h2_progress_backend_stream_def keeps_def)
next
  case (Some up)
  then have a: "0 < a" using assms(3) by (simp add: fd_count_def)
  note unf = assms(1) [unfolded h2_progress_backend_stream_def Some option.case]
  consider (connecting) "hs_state s = H2_CONNECTING" | (writing) "hs_state s = H2_WRITING" | (reading) "hs_state s = H2_READING"
    using assms(2) Some by (auto simp: stream_ok_def backend_open_def)
  then show ?thesis
  proof cases
    case connecting
    consider (idle) "\<not> out" | (failed) "out" "err" | (connected) "out" "\<not> err" by blast
    then show ?thesis
    proof cases
      case idle
      with unf connecting assms(2) show ?thesis by (simp add: keeps_def)
    next
      case failed
      obtain s1 a1 where c: "fail_stream s a = (s1, a1)" by (rule prod.exhaust)
      with unf connecting failed have "s' = s1 \<and> a' = a1" by simp
      with fail_keeps [OF c assms(3)] assms(2) connecting show ?thesis
        by (auto simp: keeps_def fd_count_def stream_ok_def backend_open_def)
    next
      case connected
      let ?u = "s\<lparr>hs_state := H2_WRITING\<rparr>"
      have "h2_write_phase ?u a up = (s', a', rc)" using unf connecting connected by simp
      moreover have "stream_ok ?u" using assms(2) connecting by (auto simp: stream_ok_def backend_open_def)
      ultimately have "keeps ?u a s' a' \<and> stream_ok s'" using a by (intro write_phase_keeps) simp_all
      moreover have "keeps s a ?u a" by (simp add: keeps_def fd_count_def)
      ultimately show ?thesis using keeps_trans by blast
    qed
  next
    case writing
    with unf write_phase_keeps [OF _ assms(2) writing a] show ?thesis by simp
  next
    case reading
    with unf read_phase_keeps [OF _ assms(2) reading a] show ?thesis by simp
  qed
qed

section \<open>The connection\<close>

text \<open>Replacing the one stream with a key.\<close>

lemma find_split:
  assumes "List.find (\<lambda>s. key s = k) ss = Some s" and "distinct (map key ss)"
  shows "\<exists>pre post. ss = pre @ s # post \<and> key s = k \<and>
    (\<forall>f. update_stream (\<lambda>t. key t = k) f ss = pre @ f s # post)"
  using assms
proof (induction ss)
  case (Cons t ss)
  show ?case
  proof (cases "key t = k")
    case True
    then have "k \<notin> key ` set ss" using Cons.prems(2) by auto
    then have "map (\<lambda>u. if key u = k then f u else u) ss = ss" for f
      by (intro map_idI) (metis imageI)
    with True Cons.prems show ?thesis by (intro exI [of _ "[]"] exI [of _ ss]) (simp add: update_stream_def)
  next
    case False
    with Cons obtain pre post where "ss = pre @ s # post" "key s = k"
      "\<forall>f. update_stream (\<lambda>t. key t = k) f ss = pre @ f s # post" by auto
    with False show ?thesis by (intro exI [of _ "t # pre"] exI [of _ post]) (simp add: update_stream_def)
  qed
qed simp

definition open_count :: "h2_stream list \<Rightarrow> nat" where
  "open_count ss = sum_list (map fd_count ss)"

lemma count_backend_fds_open: "count_backend_fds conn = open_count (hc_streams conn)"
proof -
  have "length (filter (\<lambda>s. hs_fd s \<noteq> None) ss) = open_count ss" for ss
    by (induction ss) (auto simp: open_count_def fd_count_def)
  then show ?thesis by (simp add: count_backend_fds_def)
qed

definition streams_ok :: "h2_stream list \<Rightarrow> nat \<Rightarrow> int set \<Rightarrow> bool" where
  "streams_ok ss active replied \<longleftrightarrow> distinct (map hs_id ss) \<and> distinct (map hs_addr ss) \<and>
     (\<forall>s \<in> set ss. stream_ok s \<and> (hs_submitted s \<longleftrightarrow> hs_id s \<in> replied)) \<and> active = open_count ss"

definition h2_ok :: "h2_conn \<Rightarrow> bool" where
  "h2_ok conn \<longleftrightarrow> streams_ok (hc_streams conn) (hc_active conn) (fst ` set (hc_replies conn)) \<and>
     distinct (map fst (hc_replies conn))"

lemma open_count_le: "s \<in> set ss \<Longrightarrow> fd_count s \<le> open_count ss"
  by (induction ss) (auto simp: open_count_def)

lemma replace_ok:
  assumes "streams_ok (pre @ s # post) a replied" and "keeps s a s' a'" and "stream_ok s'"
  shows "streams_ok (pre @ s' # post) a' replied"
  using assms by (auto simp: streams_ok_def keeps_def open_count_def)

lemma reply_ok:
  assumes "streams_ok (pre @ s # post) a replied" and "keeps s a (s'\<lparr>hs_submitted := hs_submitted s\<rparr>) a"
    and "stream_ok s'" and "hs_submitted s'"
  shows "streams_ok (pre @ s' # post) a (insert (hs_id s) replied)"
proof -
  have k: "hs_id s' = hs_id s" "hs_addr s' = hs_addr s" "fd_count s' = fd_count s"
    using assms(2) by (simp_all add: keeps_def fd_count_def)
  have "hs_id s \<notin> hs_id ` (set pre \<union> set post)" using assms(1) by (simp add: streams_ok_def image_Un)
  then have "\<forall>t \<in> set pre \<union> set post. hs_id t \<noteq> hs_id s" by (metis imageI)
  with assms k show ?thesis by (auto simp: streams_ok_def open_count_def)
qed

text \<open>Changes of the request fields and the body offset.\<close>

lemma update_ok:
  assumes "streams_ok ss a replied" and "\<And>s. s \<in> set ss \<Longrightarrow> P s \<Longrightarrow> keeps s a (f s) a \<and> stream_ok (f s)"
  shows "streams_ok (update_stream P f ss) a replied"
proof -
  have "map hs_id (update_stream P f ss) = map hs_id ss" "map hs_addr (update_stream P f ss) = map hs_addr ss"
    "map fd_count (update_stream P f ss) = map fd_count ss"
    using assms(2) by (auto simp: update_stream_def keeps_def)
  moreover have "\<forall>s \<in> set (update_stream P f ss). stream_ok s \<and> (hs_submitted s \<longleftrightarrow> hs_id s \<in> replied)"
    using assms by (auto simp: update_stream_def streams_ok_def keeps_def)
  ultimately show ?thesis using assms(1) unfolding streams_ok_def open_count_def by simp
qed

lemma new_stream_ok: "stream_ok (new_stream addr sid)"
  by (simp add: stream_ok_def new_stream_def backend_open_def H2_BACKEND_MAX_ATTEMPTS_def)

text \<open>Fields that the backend state does not depend on.\<close>

lemma same_backend:
  assumes "hs_fd s' = hs_fd s" "hs_state s' = hs_state s" "hs_attempts s' = hs_attempts s"
    "hs_submitted s' = hs_submitted s" "hs_request s' = hs_request s" "hs_request_off s' = hs_request_off s"
    "hs_raw s' = hs_raw s" "hs_id s' = hs_id s" "hs_addr s' = hs_addr s"
    and "length (hs_method s') < 16" "length (hs_path s') < 2048" "length (hs_authority s') < 256"
    "hs_body_off s' \<le> length (hs_body s')" and "stream_ok s"
  shows "keeps s a s' a \<and> stream_ok s'"
  using assms by (simp add: keeps_def fd_count_def stream_ok_def backend_open_def)

lemma set_field_ok: "stream_ok s \<Longrightarrow> keeps s a (set_field name v s) a \<and> stream_ok (set_field name v s)"
proof -
  assume ok: "stream_ok s"
  have "length (cstr (safe_copy n v)) < n" if "0 < n" for n
    using length_cstr [of "safe_copy n v"] length_safe_copy [OF that, of v] by linarith
  then have "length (cstr (safe_copy 16 v)) < 16" "length (cstr (safe_copy 2048 v)) < 2048"
    "length (cstr (safe_copy 256 v)) < 256" by simp_all
  with ok show ?thesis
    by (intro same_backend [OF _ _ _ _ _ _ _ _ _ _ _ _ _ ok]) (simp_all add: set_field_def stream_ok_def)
qed

lemma seen_ok: "stream_ok s \<Longrightarrow> keeps s a (s\<lparr>hs_request_seen := True\<rparr>) a \<and> stream_ok (s\<lparr>hs_request_seen := True\<rparr>)"
  by (rule same_backend [of _ s]) (simp_all add: stream_ok_def)

lemma begin_ok:
  assumes "h2_ok conn" and "find_stream conn sid = None" and "sid \<notin> fst ` set (hc_replies conn)"
    and "addr \<notin> hs_addr ` set (hc_streams conn)"
  shows "h2_ok (on_begin_headers_callback addr sid conn)"
proof -
  have new: "sid \<notin> hs_id ` set (hc_streams conn)" using assms(2) by (auto simp: find_stream_def find_None_iff)
  let ?ss = "new_stream addr sid # hc_streams conn"
  have "streams_ok ?ss (hc_active conn) (fst ` set (hc_replies conn))"
    using assms new new_stream_ok [of addr sid]
    by (auto simp: h2_ok_def streams_ok_def open_count_def fd_count_def new_stream_def)
  then have "streams_ok (update_stream (\<lambda>s. hs_id s = sid) (\<lambda>s. s\<lparr>hs_request_seen := True\<rparr>) ?ss) (hc_active conn)
      (fst ` set (hc_replies conn))"
    by (rule update_ok) (rule seen_ok, use \<open>streams_ok ?ss _ _\<close> in \<open>auto simp: streams_ok_def\<close>)
  with assms show ?thesis
    by (simp add: h2_ok_def on_begin_headers_callback_def get_or_create_stream_def)
qed

lemma header_ok:
  assumes "h2_ok conn" and "find_stream conn sid \<noteq> None"
  shows "h2_ok (on_header_callback addr sid name v conn)"
proof -
  have "streams_ok (update_stream (\<lambda>s. hs_id s = sid) (set_field name v) (hc_streams conn)) (hc_active conn)
      (fst ` set (hc_replies conn))"
    using assms(1) set_field_ok by (intro update_ok) (auto simp: h2_ok_def streams_ok_def)
  with assms show ?thesis by (auto simp: h2_ok_def on_header_callback_def get_or_create_stream_def)
qed

lemma remove_loop_split:
  "remove_loop sid ss a = (ss', a') \<Longrightarrow> (ss' = ss \<and> a' = a) \<or>
     (\<exists>pre s post. ss = pre @ s # post \<and> ss' = pre @ post \<and> hs_id s = sid \<and> a' = a - fd_count s)"
proof (induction ss arbitrary: ss' a')
  case (Cons s ss)
  show ?case
  proof (cases "hs_id s = sid")
    case True
    with Cons.prems have "ss' = ss" "a' = a - fd_count s" by (auto simp: fd_count_def)
    with True show ?thesis by (intro disjI2 exI [of _ "[]"] exI [of _ s] exI [of _ ss]) simp
  next
    case False
    then obtain tt where t: "remove_loop sid ss a = (tt, a')" "ss' = s # tt"
      using Cons.prems(1) by (auto split: prod.splits)
    from Cons.IH [OF t(1)] show ?thesis
    proof (elim disjE exE conjE)
      fix pre u post
      assume "ss = pre @ u # post" "tt = pre @ post" "hs_id u = sid" "a' = a - fd_count u"
      with t(2) show ?thesis by (intro disjI2 exI [of _ "s # pre"] exI [of _ u] exI [of _ post]) simp
    qed (use t in simp)
  qed
qed simp

lemma remove_ok:
  assumes "h2_ok conn"
  shows "h2_ok (remove_stream conn sid)"
proof -
  obtain ss a where r: "remove_loop sid (hc_streams conn) (hc_active conn) = (ss, a)" by (rule prod.exhaust)
  have "streams_ok ss a (fst ` set (hc_replies conn))"
    using remove_loop_split [OF r] assms by (auto simp: h2_ok_def streams_ok_def open_count_def)
  with assms r show ?thesis by (simp add: h2_ok_def remove_stream_def)
qed

lemma progress_ok:
  assumes "h2_ok conn" and "progress_at out err addr conn = Some conn'"
  shows "h2_ok conn'"
proof -
  obtain s where s: "List.find (\<lambda>s. hs_addr s = addr) (hc_streams conn) = Some s"
    using assms(2) by (auto simp: progress_at_def split: option.splits)
  have ok: "streams_ok (hc_streams conn) (hc_active conn) (fst ` set (hc_replies conn))"
    using assms(1) by (simp add: h2_ok_def)
  then obtain pre post where p: "hc_streams conn = pre @ s # post"
    "\<And>f. update_stream (\<lambda>t. hs_addr t = addr) f (hc_streams conn) = pre @ f s # post"
    using find_split [OF s] by (auto simp: streams_ok_def)
  obtain s' a rc where g: "h2_progress_backend_stream out err s (hc_active conn) = (s', a, rc)" by (metis prod.collapse)
  have "s \<in> set (hc_streams conn)" using p(1) by simp
  then have "stream_ok s" "fd_count s \<le> hc_active conn"
    using ok open_count_le [of s "hc_streams conn"] by (simp_all add: streams_ok_def)
  note k = progress_keeps [OF g this]
  have "streams_ok (pre @ s' # post) a (fst ` set (hc_replies conn))"
    by (rule replace_ok [OF ok [unfolded p(1)] conjunct1 [OF k] conjunct2 [OF k]])
  moreover have "conn' = conn\<lparr>hc_streams := pre @ s' # post, hc_active := a\<rparr>"
    using assms(2) s g p(2) by (simp add: progress_at_def)
  ultimately show ?thesis using assms(1) by (simp add: h2_ok_def)
qed

lemma request_end_ok:
  assumes "h2_ok conn" and f: "find_stream conn sid = Some s0" and "hs_state s0 = H2_NONE" and "\<not> hs_submitted s0"
    and e: "on_frame_recv_callback cfg tbl now cr sid conn = Some conn'"
  shows "h2_ok conn'"
proof -
  have ok: "streams_ok (hc_streams conn) (hc_active conn) (fst ` set (hc_replies conn))"
    using assms(1) by (simp add: h2_ok_def)
  then obtain pre post where p: "hc_streams conn = pre @ s0 # post" "hs_id s0 = sid"
    "\<And>f. update_stream (\<lambda>t. hs_id t = sid) f (hc_streams conn) = pre @ f s0 # post"
    using find_split [OF f [unfolded find_stream_def]] by (auto simp: streams_ok_def)
  have s0: "stream_ok s0" "sid \<notin> fst ` set (hc_replies conn)" using ok p assms(4) by (auto simp: streams_ok_def)
  define s where "s = (if hs_authority s0 = [] then s0\<lparr>hs_authority := ''localhost''\<rparr> else s0)"
  have s: "keeps s0 a s a" "stream_ok s" "hs_state s = H2_NONE" "\<not> hs_submitted s" for a
    using s0(1) assms(3,4) by (simp_all add: s_def keeps_def fd_count_def stream_ok_def backend_open_def)
  note unf = e [unfolded on_frame_recv_callback_def f option.case, folded s_def, unfolded Let_def, folded s_def]
  show ?thesis
  proof (cases "\<not> rpsiod_streq_ci (hs_method s) ''GET'' \<and> \<not> rpsiod_streq_ci (hs_method s) ''HEAD''")
    case True
    let ?r = "simple_reply 405 (''405 Method Not Allowed'' @ [LF])"
    let ?s = "s\<lparr>hs_submitted := True, hs_body := snd ?r, hs_body_off := 0\<rparr>"
    have "conn' = conn\<lparr>hc_streams := pre @ ?s # post, hc_replies := hc_replies conn @ [(sid, ?r)]\<rparr>"
      using unf True p(3) by simp
    moreover have "streams_ok (pre @ ?s # post) (hc_active conn) (insert (hs_id s0) (fst ` set (hc_replies conn)))"
    proof (rule reply_ok)
      show "keeps s0 (hc_active conn) (?s\<lparr>hs_submitted := hs_submitted s0\<rparr>) (hc_active conn)"
        using s(1) by (simp add: keeps_def fd_count_def)
      show "stream_ok ?s" using s(2,3) by (auto simp: stream_ok_def backend_open_def)
    qed (use ok p(1) in simp_all)
    ultimately show ?thesis
      using s0(2) p(2) assms(1) by (simp add: h2_ok_def)
  next
    case False
    obtain s' a where st: "start_loopback_request_async cfg tbl conn now cr s (hc_active conn) = (s', a)" by (rule prod.exhaust)
    have k: "keeps s (hc_active conn) s' a \<and> stream_ok s'"
      using s(2,3,4) by (intro start_keeps [OF st]) (auto simp: stream_ok_def backend_open_def H2_BACKEND_MAX_ATTEMPTS_def)
    have "streams_ok (pre @ s' # post) a (fst ` set (hc_replies conn))"
      by (rule replace_ok [OF ok [unfolded p(1)] keeps_trans [OF s(1) conjunct1 [OF k]] conjunct2 [OF k]])
    moreover have "conn' = conn\<lparr>hc_streams := pre @ s' # post, hc_active := a\<rparr>"
      using unf False st p(3) by auto
    ultimately show ?thesis using assms(1) by (simp add: h2_ok_def)
  qed
qed

lemma ready_not_submitted: "ready_reply s = Some r \<Longrightarrow> \<not> hs_submitted s \<and> \<not> backend_open s"
  by (auto simp: ready_reply_def backend_open_def split: if_splits)

lemma submit_reply_keeps:
  "stream_ok s \<Longrightarrow> ready_reply s = Some r \<Longrightarrow> stream_ok (submit_reply r s) \<and> hs_submitted (submit_reply r s) \<and>
     hs_id (submit_reply r s) = hs_id s \<and> hs_addr (submit_reply r s) = hs_addr s \<and> fd_count (submit_reply r s) = fd_count s"
  using ready_not_submitted [of s r]
  by (simp add: submit_reply_def stream_ok_def backend_open_def fd_count_def)

definition submitted_now :: "h2_stream \<Rightarrow> h2_stream" where
  "submitted_now s = (case ready_reply s of None \<Rightarrow> s | Some r \<Rightarrow> submit_reply r s)"

lemma submitted_now_keeps:
  "stream_ok s \<Longrightarrow> stream_ok (submitted_now s) \<and> hs_id (submitted_now s) = hs_id s \<and>
     hs_addr (submitted_now s) = hs_addr s \<and> fd_count (submitted_now s) = fd_count s \<and>
     (hs_submitted (submitted_now s) \<longleftrightarrow> hs_submitted s \<or> ready_reply s \<noteq> None)"
  using submit_reply_keeps [of s] by (auto simp: submitted_now_def split: option.splits)

lemma submit_ok:
  assumes "h2_ok conn"
  shows "h2_ok (submit_ready_streams conn)"
proof -
  let ?ss = "hc_streams conn"
  let ?new = "List.map_filter (\<lambda>s. map_option (\<lambda>r. (hs_id s, r)) (ready_reply s)) ?ss"
  have ids: "map fst ?new = map hs_id (filter (\<lambda>s. ready_reply s \<noteq> None) ?ss)"
    by (induction "?ss") (auto simp: map_filter_def)
  have ok: "distinct (map hs_id ?ss)" "distinct (map hs_addr ?ss)" "hc_active conn = open_count ?ss"
    "\<forall>s \<in> set ?ss. stream_ok s \<and> (hs_submitted s \<longleftrightarrow> hs_id s \<in> fst ` set (hc_replies conn))"
    and d: "distinct (map fst (hc_replies conn))"
    using assms by (simp_all add: h2_ok_def streams_ok_def)
  have new_ids: "hs_id s \<in> fst ` set ?new \<longleftrightarrow> ready_reply s \<noteq> None" if "s \<in> set ?ss" for s
  proof -
    have "fst ` set ?new = hs_id ` {t \<in> set ?ss. ready_reply t \<noteq> None}"
      using arg_cong [OF ids, of set] by simp
    moreover have "t = s" if "t \<in> set ?ss" "hs_id t = hs_id s" for t
      using ok(1) that \<open>s \<in> set ?ss\<close> by (auto simp: distinct_map dest: inj_onD)
    ultimately show ?thesis using that by auto
  qed
  have k: "\<forall>s \<in> set ?ss. stream_ok (submitted_now s) \<and> hs_id (submitted_now s) = hs_id s \<and>
     hs_addr (submitted_now s) = hs_addr s \<and> fd_count (submitted_now s) = fd_count s \<and>
     (hs_submitted (submitted_now s) \<longleftrightarrow> hs_id s \<in> fst ` set (hc_replies conn @ ?new))"
  proof
    fix s assume "s \<in> set ?ss"
    then show "stream_ok (submitted_now s) \<and> hs_id (submitted_now s) = hs_id s \<and>
       hs_addr (submitted_now s) = hs_addr s \<and> fd_count (submitted_now s) = fd_count s \<and>
       (hs_submitted (submitted_now s) \<longleftrightarrow> hs_id s \<in> fst ` set (hc_replies conn @ ?new))"
      using submitted_now_keeps [of s] ok(4) new_ids [of s] by (simp add: image_Un)
  qed
  then have maps: "map hs_id (map submitted_now ?ss) = map hs_id ?ss" "map hs_addr (map submitted_now ?ss) = map hs_addr ?ss"
    "map fd_count (map submitted_now ?ss) = map fd_count ?ss" by auto
  have "streams_ok (map submitted_now ?ss) (hc_active conn) (fst ` set (hc_replies conn @ ?new))"
    unfolding streams_ok_def open_count_def maps using ok(1-3) k by (auto simp: open_count_def)
  moreover have "distinct (map fst (hc_replies conn @ ?new))"
  proof -
    have "fst ` set (hc_replies conn) \<inter> fst ` set ?new = {}"
    proof (rule equals0I)
      fix i assume i: "i \<in> fst ` set (hc_replies conn) \<inter> fst ` set ?new"
      have e: "fst ` set ?new = hs_id ` {t \<in> set ?ss. ready_reply t \<noteq> None}"
        using arg_cong [OF ids, of set] by simp
      have "i \<in> hs_id ` {t \<in> set ?ss. ready_reply t \<noteq> None}"
        using IntD2 [OF i] unfolding e .
      then obtain t where "t \<in> set ?ss" "ready_reply t \<noteq> None" "hs_id t = i" by blast
      with i ok(4) ready_not_submitted show False by blast
    qed
    moreover have "distinct (map fst ?new)" unfolding ids by (rule distinct_map_filter [OF ok(1)])
    ultimately show ?thesis using d by simp
  qed
  ultimately show ?thesis
    by (simp add: h2_ok_def submit_ready_streams_def submitted_now_def [abs_def])
qed

lemma retry_loop_ok:
  assumes "retry_loop cfg tbl conn now crs ss (b + open_count ss) = (ss', a')" and "\<forall>s \<in> set ss. stream_ok s"
  shows "list_all2 (\<lambda>s s'. hs_id s' = hs_id s \<and> hs_addr s' = hs_addr s \<and> hs_submitted s' = hs_submitted s \<and> stream_ok s') ss ss' \<and>
    a' = b + open_count ss'"
  using assms
proof (induction ss arbitrary: b ss' a')
  case (Cons s ss)
  obtain s1 a1 where r: "retry_delayed_loopback cfg tbl conn now (crs (hs_id s)) s (b + open_count (s # ss)) = (s1, a1)"
    by (rule prod.exhaust)
  have k: "keeps s (b + open_count (s # ss)) s1 a1 \<and> stream_ok s1"
    using Cons.prems(2) by (intro retry_keeps [OF r]) (simp_all add: open_count_def)
  then have "a1 = (b + fd_count s1) + open_count ss" by (simp add: keeps_def open_count_def)
  then obtain ss1 where l: "retry_loop cfg tbl conn now crs ss ((b + fd_count s1) + open_count ss) = (ss1, a')" "ss' = s1 # ss1"
    using Cons.prems(1) r by (auto split: prod.splits)
  from Cons.IH [OF l(1)] Cons.prems(2) k l(2) show ?case by (simp add: keeps_def open_count_def)
qed (simp add: open_count_def)

lemma retry_ok:
  assumes "h2_ok conn"
  shows "h2_ok (retry_delayed_loopbacks cfg tbl now crs conn)"
proof -
  obtain ss a where l: "retry_loop cfg tbl conn now crs (hc_streams conn) (hc_active conn) = (ss, a)" by (rule prod.exhaust)
  have "hc_active conn = 0 + open_count (hc_streams conn)" "\<forall>s \<in> set (hc_streams conn). stream_ok s"
    using assms by (simp_all add: h2_ok_def streams_ok_def)
  with retry_loop_ok [of cfg tbl conn now crs "hc_streams conn" 0 ss a] l
  have k: "list_all2 (\<lambda>s s'. hs_id s' = hs_id s \<and> hs_addr s' = hs_addr s \<and> hs_submitted s' = hs_submitted s \<and> stream_ok s')
      (hc_streams conn) ss" "a = open_count ss" by simp_all
  then have "map hs_id ss = map hs_id (hc_streams conn)" "map hs_addr ss = map hs_addr (hc_streams conn)"
    by (auto simp: list_all2_conv_all_nth intro!: nth_equalityI)
  moreover have "stream_ok s' \<and> (\<exists>s \<in> set (hc_streams conn). hs_id s' = hs_id s \<and> hs_submitted s' = hs_submitted s)" if "s' \<in> set ss" for s'
  proof -
    from that obtain i where "i < length ss" "s' = ss ! i" by (auto simp: in_set_conv_nth)
    with k(1) show ?thesis by (intro conjI bexI [of _ "hc_streams conn ! i"]) (auto simp: list_all2_conv_all_nth)
  qed
  then have "\<forall>s' \<in> set ss. stream_ok s' \<and> (hs_submitted s' \<longleftrightarrow> hs_id s' \<in> fst ` set (hc_replies conn))"
    using assms unfolding h2_ok_def streams_ok_def by metis
  ultimately show ?thesis
    using assms k(2) l by (simp add: h2_ok_def streams_ok_def retry_delayed_loopbacks_def)
qed

text \<open>The data callback hands out the body piece by piece and reports the end with the last byte.\<close>

lemma data_callback_exact:
  assumes "response_data_callback n s = (bytes, eof, s')" and "hs_body_off s \<le> length (hs_body s)"
  shows "s' = s\<lparr>hs_body_off := hs_body_off s + length bytes\<rparr> \<and> length bytes \<le> n \<and>
    drop (hs_body_off s) (hs_body s) = bytes @ drop (hs_body_off s') (hs_body s') \<and>
    (eof \<longleftrightarrow> hs_body_off s' = length (hs_body s'))"
proof (cases "hs_body_off s = length (hs_body s)")
  case True
  with assms(1) show ?thesis by (auto simp: response_data_callback_def)
next
  case False
  let ?k = "min (length (hs_body s) - hs_body_off s) n"
  have r: "bytes = take ?k (drop (hs_body_off s) (hs_body s))" "eof \<longleftrightarrow> hs_body_off s + ?k = length (hs_body s)"
    "s' = s\<lparr>hs_body_off := hs_body_off s + ?k\<rparr>"
    using assms False by (auto simp: response_data_callback_def Let_def)
  have l: "length bytes = ?k" using r(1) by simp
  have "bytes @ drop ?k (drop (hs_body_off s) (hs_body s)) = drop (hs_body_off s) (hs_body s)"
    unfolding r(1) by (rule append_take_drop_id)
  moreover have "drop ?k (drop (hs_body_off s) (hs_body s)) = drop (hs_body_off s') (hs_body s')"
    by (simp add: r(3) add.commute)
  ultimately show ?thesis using r(2,3) l by simp
qed

lemma data_keeps:
  assumes "response_data_callback n s = (bytes, eof, s')" and "stream_ok s"
  shows "keeps s a s' a \<and> stream_ok s'"
proof -
  have "hs_body_off s \<le> length (hs_body s)" using assms(2) by (simp add: stream_ok_def)
  note e = data_callback_exact [OF assms(1) this]
  then have "length (drop (hs_body_off s) (hs_body s)) = length (bytes @ drop (hs_body_off s') (hs_body s'))" by simp
  then have "hs_body_off s + length bytes \<le> length (hs_body s)"
    using \<open>hs_body_off s \<le> length (hs_body s)\<close> by simp
  with assms(2) e show ?thesis
    by (intro same_backend [of s' s]) (simp_all add: stream_ok_def)
qed

lemma data_ok:
  assumes "h2_ok conn" and f: "find_stream conn sid = Some s" and r: "response_data_callback n s = (bytes, eof, s')"
  shows "h2_ok (conn\<lparr>hc_streams := update_stream (\<lambda>t. hs_id t = sid) (\<lambda>_. s') (hc_streams conn)\<rparr>)"
proof -
  have ok: "streams_ok (hc_streams conn) (hc_active conn) (fst ` set (hc_replies conn))"
    using assms(1) by (simp add: h2_ok_def)
  then obtain pre post where p: "hc_streams conn = pre @ s # post"
    "\<And>f. update_stream (\<lambda>t. hs_id t = sid) f (hc_streams conn) = pre @ f s # post"
    using find_split [OF f [unfolded find_stream_def]] by (auto simp: streams_ok_def)
  have "stream_ok s" using ok p(1) by (simp add: streams_ok_def)
  then have k: "keeps s (hc_active conn) s' (hc_active conn) \<and> stream_ok s'" by (rule data_keeps [OF r])
  have "streams_ok (pre @ s' # post) (hc_active conn) (fst ` set (hc_replies conn))"
    by (rule replace_ok [OF ok [unfolded p(1)] conjunct1 [OF k] conjunct2 [OF k]])
  with assms(1) p(2) show ?thesis by (simp add: h2_ok_def)
qed

lemma h2_step_ok: "h2_step cfg tbl conn conn' \<Longrightarrow> h2_ok conn \<Longrightarrow> h2_ok conn'"
  by (induction rule: h2_step.induct)
    (auto intro: begin_ok header_ok request_end_ok remove_ok progress_ok submit_ok retry_ok data_ok)

lemma h2_reachable_ok:
  "(h2_step cfg tbl)\<^sup>*\<^sup>* (h2_start client_ip server_ip port) conn \<Longrightarrow> h2_ok conn"
proof (induction rule: rtranclp_induct)
  case base
  show ?case by (simp add: h2_ok_def h2_start_def streams_ok_def open_count_def)
qed (blast intro: h2_step_ok)


text \<open>When the connection ends, every socket is closed.\<close>

lemma free_all_ok: "h2_ok conn \<Longrightarrow> hc_streams (free_all_streams conn) = [] \<and> h2_ok (free_all_streams conn)"
proof (induction conn rule: free_all_streams.induct)
  case (1 conn)
  show ?case
  proof (cases "hc_streams conn")
    case Nil
    with 1(2) show ?thesis by (simp add: free_all_streams.simps)
  next
    case (Cons s ss)
    with 1(1) [OF Cons remove_ok [OF 1(2)]] show ?thesis by (simp add: free_all_streams.simps [of conn])
  qed
qed

section \<open>The resources of a connection\<close>

text \<open>
  C17: an HTTP/2 connection never loses a socket or a request: in every state it can reach, the
  counter of open loopback sockets is their number, a socket is open exactly while its stream
  is connecting, writing or reading, no stream is tried more than eight times or overruns its buffers, no request is
  answered twice, and the clean-up at the end closes every socket.
\<close>

theorem h2_resources:
  assumes "(h2_step cfg tbl)\<^sup>*\<^sup>* (h2_start client_ip server_ip port) conn"
  shows "hc_active conn = count_backend_fds conn \<and> list_all stream_ok (hc_streams conn) \<and>
    distinct (map fst (hc_replies conn)) \<and>
    (\<forall>s \<in> set (hc_streams conn). hs_submitted s \<longleftrightarrow> hs_id s \<in> fst ` set (hc_replies conn)) \<and>
    hc_streams (free_all_streams conn) = [] \<and> hc_active (free_all_streams conn) = 0"
proof -
  have ok: "h2_ok conn" by (rule h2_reachable_ok [OF assms])
  with free_all_ok [OF ok] show ?thesis
    unfolding count_backend_fds_open by (auto simp: h2_ok_def streams_ok_def list_all_iff open_count_def)
qed

definition demo_h2 :: h2_conn where
  "demo_h2 = on_header_callback 100 1 '':authority'' ''EX.org''
     (on_begin_headers_callback 100 1 (h2_start ''192.0.2.1'' ''0.0.0.0'' 80))"

definition demo_stream :: h2_stream where
  "demo_stream = (new_stream 100 1)\<lparr>hs_request_seen := True, hs_authority := ''EX.org''\<rparr>"

lemma demo_h2_facts: "hc_streams demo_h2 = [demo_stream]" "hc_active demo_h2 = 0" "hc_server_ip demo_h2 = ''0.0.0.0''"
  "hc_local_port demo_h2 = 80" "find_stream demo_h2 1 = Some demo_stream"
  "length (loopback_request demo_h2 demo_stream ''EX.org'') < 8192"
  "rpsiod_strip_port (safe_copy 256 ''EX.org'') = ''EX.org''"
  by code_simp+

theorem h2_resources_witness:
  "\<exists>tbl conn. (h2_step demo_cfg tbl)\<^sup>*\<^sup>* (h2_start ''192.0.2.1'' ''0.0.0.0'' 80) conn \<and>
     hc_active conn = 1 \<and> count_backend_fds conn = 1 \<and> hc_active (free_all_streams conn) = 0"
proof -
  let ?c0 = "h2_start ''192.0.2.1'' ''0.0.0.0'' 80"
  obtain tbl where f: "rpsiod_config_find_site_for_listener demo_cfg tbl ''EX.org'' 80 (Some ''0.0.0.0'') = Some 0"
    using demo_find by blast
  define up where "up = \<lparr>io_sent = [], io_in = [], io_events = []\<rparr>"
  obtain s' where st: "start_loopback_request_async demo_cfg tbl demo_h2 no_time (ConnectPending up) demo_stream 0 = (s', 1)"
    using demo_h2_facts(6) demo_h2_facts(7)
    by (simp add: start_loopback_request_async_def Let_def demo_h2_facts(3,4) f demo_nth demo_site_simps demo_stream_def)
  define conn where "conn = demo_h2\<lparr>hc_streams := [s'], hc_active := 1\<rparr>"
  have "on_frame_recv_callback demo_cfg tbl no_time (ConnectPending up) 1 demo_h2 = Some conn"
  proof -
    have "rpsiod_streq_ci ''GET'' ''GET''" by code_simp
    moreover have "hs_method demo_stream = ''GET''" "hs_authority demo_stream = ''EX.org''" "hs_id demo_stream = 1"
      by (simp_all add: demo_stream_def new_stream_def)
    ultimately show ?thesis
      by (simp add: on_frame_recv_callback_def demo_h2_facts(1,2,5) st conn_def update_stream_def)
  qed
  then have "h2_step demo_cfg tbl demo_h2 conn"
    by (rule request_end [OF demo_h2_facts(5), rotated 2]) (simp_all add: demo_stream_def new_stream_def)
  moreover have "h2_step demo_cfg tbl ?c0 (on_begin_headers_callback 100 1 ?c0)"
    by (rule begin_headers) (simp_all add: h2_start_def find_stream_def)
  moreover have "h2_step demo_cfg tbl (on_begin_headers_callback 100 1 ?c0) demo_h2"
    unfolding demo_h2_def by (rule header) code_simp
  ultimately have r: "(h2_step demo_cfg tbl)\<^sup>*\<^sup>* ?c0 conn"
    by (intro rtranclp.rtrancl_into_rtrancl [OF rtranclp.rtrancl_into_rtrancl [OF r_into_rtranclp]])
  have "hc_active conn = 1" by (simp add: conn_def)
  with r h2_resources [OF r] show ?thesis by auto
qed

section \<open>Limits of the loop\<close>

text \<open>
  The poll loop keeps the addresses of the streams it polls while \<open>nghttp2_session_mem_recv\<close>
  runs; when that closes a stream, the loop goes on with the address of freed memory.
\<close>

lemma closed_stream_polled:
  assumes "distinct (map hs_addr (hc_streams conn))" and "distinct (map hs_id (hc_streams conn))"
    and "s \<in> set (hc_streams conn)"
  shows "progress_at out err (hs_addr s) (remove_stream conn (hs_id s)) = None"
proof -
  obtain ss a where r: "remove_loop (hs_id s) (hc_streams conn) (hc_active conn) = (ss, a)" by (rule prod.exhaust)
  have "hs_addr s \<notin> hs_addr ` set ss" using assms r
  proof (induction "hc_streams conn" arbitrary: conn ss)
    case (Cons t ts)
    note c = Cons(2) [symmetric]
    show ?case
    proof (cases "hs_id t = hs_id s")
      case True
      then have "t = s" using Cons.prems(2,3) c by auto
      then show ?thesis using Cons.prems c by (auto simp: True)
    next
      case False
      then obtain ss1 where l: "remove_loop (hs_id s) ts (hc_active conn) = (ss1, a)" "ss = t # ss1"
        using Cons.prems(4) c by (auto split: prod.splits)
      have m: "s \<in> set ts" using False Cons.prems(3) c by auto
      have "hs_addr s \<notin> hs_addr ` set ss1"
        using Cons(1) [of "conn\<lparr>hc_streams := ts\<rparr>" ss1] Cons.prems(1,2) c m l(1) by simp
      moreover have "hs_addr t \<noteq> hs_addr s" using Cons.prems(1) c m by auto
      ultimately show ?thesis using l(2) by auto
    qed
  qed simp
  then have "List.find (\<lambda>t. hs_addr t = hs_addr s) ss = None" by (auto simp: find_None_iff image_iff)
  with r show ?thesis by (simp add: progress_at_def remove_stream_def)
qed

text \<open>
  A backend that has not answered within 50 ms is abandoned and asked again: the request is
  written a second time, although the first may still be running.
\<close>

lemma slow_backend_asked_again:
  assumes "hs_state s = H2_READING" and "hs_fd s = Some up" and "fst (hs_raw s) = []" and "hs_attempts s < H2_BACKEND_MAX_ATTEMPTS"
    and "retry_due (hs_backend_started s) now"
    and "start_loopback_request_async cfg tbl conn now cr
           (s\<lparr>hs_fd := None, hs_raw := ([], 0), hs_request := [], hs_request_off := 0, hs_state := H2_NONE\<rparr>)
           (active - 1) = (s', a')"
  shows "retry_delayed_loopback cfg tbl conn now cr s active = (s', a')"
  using assms by (simp add: retry_delayed_loopback_def close_backend_stream_def)

end
