(* ===== verification/Http2Loop.thy ===== *)
theory Http2Loop
  imports Http2
begin

text \<open>
  The loop of \<open>rpsiod_http2_serve_connection\<close> (\<open>src/http2.c\<close>), one turn at a time: submit,
  retry, send, poll, receive, progress of the polled backends, submit and send again.  The
  HTTP/2 library is a parameter: the functions of the record \<open>h2_turn\<close> say which callbacks it
  makes in the state of the connection it is called in, and whether it reports an error.
\<close>

section \<open>Callbacks\<close>

datatype session_event =
    BeginHeaders nat int
  | HeaderField nat int string string
  | RequestEnd timespec connect_result int
  | StreamClosed int
  | DataWanted nat int

text \<open>\<open>None\<close>: the callback returns an error, or reads a stream that is gone.\<close>

definition data_step :: "nat \<Rightarrow> int \<Rightarrow> h2_conn \<Rightarrow> h2_conn option" where
  "data_step n sid conn =
     (case find_stream conn sid of
        None \<Rightarrow> None
      | Some s \<Rightarrow>
          (case response_data_callback n s of (bytes, eof, s') \<Rightarrow>
             Some (conn\<lparr>hc_streams := update_stream (\<lambda>t. hs_id t = sid) (\<lambda>_. s') (hc_streams conn)\<rparr>)))"

fun session_callback :: "config \<Rightarrow> route_table \<Rightarrow> session_event \<Rightarrow> h2_conn \<Rightarrow> h2_conn option" where
  "session_callback cfg tbl (BeginHeaders addr sid) conn = Some (on_begin_headers_callback addr sid conn)"
| "session_callback cfg tbl (HeaderField addr sid name v) conn = Some (on_header_callback addr sid name v conn)"
| "session_callback cfg tbl (RequestEnd now cr sid) conn = on_frame_recv_callback cfg tbl now cr sid conn"
| "session_callback cfg tbl (StreamClosed sid) conn = Some (remove_stream conn sid)"
| "session_callback cfg tbl (DataWanted n sid) conn = data_step n sid conn"

fun session_run :: "config \<Rightarrow> route_table \<Rightarrow> session_event list \<Rightarrow> h2_conn \<Rightarrow> h2_conn \<times> bool" where
  "session_run cfg tbl [] conn = (conn, True)"
| "session_run cfg tbl (e # es) conn =
     (case session_callback cfg tbl e conn of None \<Rightarrow> (conn, False) | Some conn1 \<Rightarrow> session_run cfg tbl es conn1)"

section \<open>One turn\<close>

type_synonym session_call = "h2_conn \<Rightarrow> session_event list \<times> bool"

datatype poll_result =
    PollError
  | PollTimeout timespec "int \<Rightarrow> connect_result"
  | PollReady session_call session_call "nat \<Rightarrow> (bool \<times> bool) option" session_call

text \<open>
  \<open>tn_wants\<close>: \<open>want_read\<close> or \<open>want_write\<close>; a call that is not made because nothing is to be
  written is one without callbacks.  The components of \<open>PollReady\<close>: sending, receiving (with
  an error for a closed or failed TLS connection), the events of each polled backend (writable
  or failed, socket error), sending.
\<close>

record h2_turn =
  tn_wants :: bool
  tn_now :: timespec
  tn_connects :: "int \<Rightarrow> connect_result"
  tn_send :: session_call
  tn_poll :: poll_result

definition h2_drive_session_send :: "config \<Rightarrow> route_table \<Rightarrow> session_call \<Rightarrow> h2_conn \<Rightarrow> h2_conn \<times> bool" where
  "h2_drive_session_send cfg tbl call conn =
     (case call conn of (es, lib_ok) \<Rightarrow>
        (case session_run cfg tbl es conn of (conn1, ok) \<Rightarrow> (conn1, ok \<and> lib_ok)))"

definition has_active_streams :: "h2_conn \<Rightarrow> bool" where
  "has_active_streams conn \<longleftrightarrow> hc_streams conn \<noteq> []"

definition poll_streams :: "h2_conn \<Rightarrow> nat list" where
  "poll_streams conn = map hs_addr (filter (\<lambda>s. hs_fd s \<noteq> None) (hc_streams conn))"

fun progress_all :: "(nat \<Rightarrow> (bool \<times> bool) option) \<Rightarrow> nat list \<Rightarrow> h2_conn \<Rightarrow> h2_conn option" where
  "progress_all revents [] conn = Some conn"
| "progress_all revents (addr # addrs) conn =
     (case revents addr of
        None \<Rightarrow> progress_all revents addrs conn
      | Some (out, socket_error) \<Rightarrow>
          (case progress_at out socket_error addr conn of
             None \<Rightarrow> None
           | Some conn1 \<Rightarrow> progress_all revents addrs conn1))"

definition H2_IDLE_TIMEOUT_MS :: nat where "H2_IDLE_TIMEOUT_MS = 2000"

definition poll_timeout :: "h2_conn \<Rightarrow> nat" where
  "poll_timeout conn = (if has_active_streams conn \<or> has_backend_work conn then 10 else 100)"

text \<open>\<open>Running\<close> holds the connection and \<open>idle_ms\<close>; \<open>FreedStream\<close>: the address of a freed stream was used.\<close>

datatype turn_result = Running h2_conn nat | Ended h2_conn | FreedStream

definition turn_timeout ::
  "config \<Rightarrow> route_table \<Rightarrow> timespec \<Rightarrow> (int \<Rightarrow> connect_result) \<Rightarrow> h2_conn \<Rightarrow> nat \<Rightarrow> turn_result" where
  "turn_timeout cfg tbl now crs conn idle =
     (let conn1 = retry_delayed_loopbacks cfg tbl now crs conn in
      if has_active_streams conn1 \<or> has_backend_work conn1 then Running conn1 idle
      else let idle1 = idle + poll_timeout conn in
        if H2_IDLE_TIMEOUT_MS \<le> idle1 then Ended conn1 else Running conn1 idle1)"

definition turn_ready ::
  "config \<Rightarrow> route_table \<Rightarrow> session_call \<Rightarrow> session_call \<Rightarrow> (nat \<Rightarrow> (bool \<times> bool) option) \<Rightarrow> session_call \<Rightarrow>
     h2_conn \<Rightarrow> turn_result" where
  "turn_ready cfg tbl send recv revents send' conn =
     (case h2_drive_session_send cfg tbl send conn of (conn1, ok1) \<Rightarrow>
        if \<not> ok1 then Ended conn1
        else case h2_drive_session_send cfg tbl recv conn1 of (conn2, ok2) \<Rightarrow>
          (case progress_all revents (poll_streams conn) conn2 of
             None \<Rightarrow> FreedStream
           | Some conn3 \<Rightarrow>
               (case h2_drive_session_send cfg tbl send' (submit_ready_streams conn3) of (conn4, ok4) \<Rightarrow>
                  if \<not> ok4 \<or> \<not> ok2 then Ended conn4 else Running conn4 0)))"

definition serve_turn :: "config \<Rightarrow> route_table \<Rightarrow> h2_turn \<Rightarrow> h2_conn \<Rightarrow> nat \<Rightarrow> turn_result" where
  "serve_turn cfg tbl tn conn idle =
     (if \<not> (tn_wants tn \<or> has_backend_work conn) then Ended conn
      else
        let conn1 = retry_delayed_loopbacks cfg tbl (tn_now tn) (tn_connects tn) (submit_ready_streams conn) in
        (case h2_drive_session_send cfg tbl (tn_send tn) conn1 of (conn2, ok) \<Rightarrow>
           if \<not> ok then Ended conn2
           else case tn_poll tn of
             PollError \<Rightarrow> Ended conn2
           | PollTimeout now crs \<Rightarrow> turn_timeout cfg tbl now crs conn2 idle
           | PollReady send recv revents send' \<Rightarrow> turn_ready cfg tbl send recv revents send' conn2))"

fun serve_turns :: "config \<Rightarrow> route_table \<Rightarrow> h2_turn list \<Rightarrow> h2_conn \<Rightarrow> nat \<Rightarrow> turn_result" where
  "serve_turns cfg tbl [] conn idle = Running conn idle"
| "serve_turns cfg tbl (tn # tns) conn idle =
     (case serve_turn cfg tbl tn conn idle of
        Running conn1 idle1 \<Rightarrow> serve_turns cfg tbl tns conn1 idle1
      | r \<Rightarrow> r)"

text \<open>The whole call: the clean-up follows the loop.\<close>

definition rpsiod_http2_serve_connection ::
  "config \<Rightarrow> route_table \<Rightarrow> h2_turn list \<Rightarrow> string \<Rightarrow> string \<Rightarrow> u16 \<Rightarrow> turn_result" where
  "rpsiod_http2_serve_connection cfg tbl tns client_ip server_ip port =
     (case serve_turns cfg tbl tns (h2_start client_ip server_ip port) 0 of
        Ended conn \<Rightarrow> Ended (free_all_streams conn)
      | r \<Rightarrow> r)"

section \<open>What the library documents\<close>

text \<open>
  A request starts on a stream that was not used before, at an address \<open>calloc\<close> does not hand
  out twice; its header fields and its one end follow; data is asked for after a reply.
\<close>

fun expected :: "session_event \<Rightarrow> h2_conn \<Rightarrow> bool" where
  "expected (BeginHeaders addr sid) conn \<longleftrightarrow>
     find_stream conn sid = None \<and> sid \<notin> fst ` set (hc_replies conn) \<and> addr \<notin> hs_addr ` set (hc_streams conn)"
| "expected (HeaderField addr sid name v) conn \<longleftrightarrow> find_stream conn sid \<noteq> None"
| "expected (RequestEnd now cr sid) conn \<longleftrightarrow>
     (case find_stream conn sid of None \<Rightarrow> False | Some s \<Rightarrow> hs_state s = H2_NONE \<and> \<not> hs_submitted s)"
| "expected (StreamClosed sid) conn \<longleftrightarrow> True"
| "expected (DataWanted n sid) conn \<longleftrightarrow> (case find_stream conn sid of None \<Rightarrow> False | Some s \<Rightarrow> hs_submitted s)"

fun expected_run :: "config \<Rightarrow> route_table \<Rightarrow> session_event list \<Rightarrow> h2_conn \<Rightarrow> bool" where
  "expected_run cfg tbl [] conn \<longleftrightarrow> True"
| "expected_run cfg tbl (e # es) conn \<longleftrightarrow> expected e conn \<and>
     (case session_callback cfg tbl e conn of None \<Rightarrow> True | Some conn1 \<Rightarrow> expected_run cfg tbl es conn1)"

definition call_ok :: "config \<Rightarrow> route_table \<Rightarrow> session_call \<Rightarrow> bool" where
  "call_ok cfg tbl call \<longleftrightarrow> (\<forall>conn. expected_run cfg tbl (fst (call conn)) conn)"

definition turn_ok :: "config \<Rightarrow> route_table \<Rightarrow> h2_turn \<Rightarrow> bool" where
  "turn_ok cfg tbl tn \<longleftrightarrow> call_ok cfg tbl (tn_send tn) \<and>
     (case tn_poll tn of
        PollReady send recv _ send' \<Rightarrow> call_ok cfg tbl send \<and> call_ok cfg tbl recv \<and> call_ok cfg tbl send'
      | _ \<Rightarrow> True)"

section \<open>The loop refines the steps\<close>

lemma callback_step:
  assumes "expected e conn" and "session_callback cfg tbl e conn = Some conn1"
  shows "h2_step cfg tbl conn conn1"
proof (cases e)
  case (BeginHeaders addr sid)
  with assms show ?thesis by (auto intro: begin_headers)
next
  case (HeaderField addr sid name v)
  with assms show ?thesis by (auto intro: header)
next
  case (RequestEnd now cr sid)
  with assms show ?thesis by (auto intro: request_end split: option.splits)
next
  case (StreamClosed sid)
  with assms show ?thesis by (auto intro: closed)
next
  case (DataWanted n sid)
  with assms obtain s where f: "find_stream conn sid = Some s" "hs_submitted s" by (auto split: option.splits)
  obtain bytes eof s' where r: "response_data_callback n s = (bytes, eof, s')" by (metis prod.collapse)
  have "conn1 = conn\<lparr>hc_streams := update_stream (\<lambda>t. hs_id t = sid) (\<lambda>_. s') (hc_streams conn)\<rparr>"
    using assms(2) DataWanted f(1) r by (simp add: data_step_def)
  with data [OF f r] show ?thesis by simp
qed

lemma session_run_steps:
  "expected_run cfg tbl es conn \<Longrightarrow> session_run cfg tbl es conn = (conn', ok) \<Longrightarrow> (h2_step cfg tbl)\<^sup>*\<^sup>* conn conn'"
proof (induction es arbitrary: conn)
  case (Cons e es)
  show ?case
  proof (cases "session_callback cfg tbl e conn")
    case (Some conn1)
    with Cons.prems have "(h2_step cfg tbl)\<^sup>*\<^sup>* conn1 conn'" by (intro Cons.IH) simp_all
    with callback_step [OF _ Some] Cons.prems(1) show ?thesis
      by (simp add: converse_rtranclp_into_rtranclp)
  qed (use Cons.prems in simp)
qed simp

lemma drive_steps:
  assumes "call_ok cfg tbl call" and "h2_drive_session_send cfg tbl call conn = (conn', ok)"
  shows "(h2_step cfg tbl)\<^sup>*\<^sup>* conn conn'"
proof -
  obtain es lib_ok where c: "call conn = (es, lib_ok)" by (rule prod.exhaust)
  obtain conn1 ok1 where r: "session_run cfg tbl es conn = (conn1, ok1)" by (rule prod.exhaust)
  have "expected_run cfg tbl es conn" using assms(1) c by (metis call_ok_def fst_conv)
  from session_run_steps [OF this r] assms(2) c r show ?thesis by (simp add: h2_drive_session_send_def)
qed

lemma progress_all_steps:
  "progress_all revents addrs conn = Some conn' \<Longrightarrow> (h2_step cfg tbl)\<^sup>*\<^sup>* conn conn'"
proof (induction addrs arbitrary: conn)
  case (Cons addr addrs)
  show ?case
  proof (cases "revents addr")
    case None
    with Cons show ?thesis by simp
  next
    case (Some r)
    obtain out err where r: "r = (out, err)" by (rule prod.exhaust)
    with Some Cons.prems obtain conn1 where p: "progress_at out err addr conn = Some conn1"
      "progress_all revents addrs conn1 = Some conn'" by (auto split: option.splits)
    from converse_rtranclp_into_rtranclp [OF progress [OF p(1)] Cons.IH [OF p(2)]] show ?thesis .
  qed
qed simp

definition result_conn :: "turn_result \<Rightarrow> h2_conn option" where
  "result_conn r = (case r of Running conn _ \<Rightarrow> Some conn | Ended conn \<Rightarrow> Some conn | FreedStream \<Rightarrow> None)"

lemma turn_timeout_steps:
  "result_conn (turn_timeout cfg tbl now crs conn idle) = Some conn' \<Longrightarrow> (h2_step cfg tbl)\<^sup>*\<^sup>* conn conn'"
  using retry [of cfg tbl conn now crs]
  by (auto simp: turn_timeout_def Let_def result_conn_def split: if_splits)

lemma turn_ready_steps:
  assumes "call_ok cfg tbl send" "call_ok cfg tbl recv" "call_ok cfg tbl send'"
    and "result_conn (turn_ready cfg tbl send recv revents send' conn) = Some conn'"
  shows "(h2_step cfg tbl)\<^sup>*\<^sup>* conn conn'"
proof -
  obtain conn1 ok1 where d1: "h2_drive_session_send cfg tbl send conn = (conn1, ok1)" by (rule prod.exhaust)
  note s1 = drive_steps [OF assms(1) d1]
  show ?thesis
  proof (cases ok1)
    case False
    with assms(4) d1 s1 show ?thesis by (simp add: turn_ready_def result_conn_def)
  next
    case True
    obtain conn2 ok2 where d2: "h2_drive_session_send cfg tbl recv conn1 = (conn2, ok2)" by (rule prod.exhaust)
    obtain conn3 where p: "progress_all revents (poll_streams conn) conn2 = Some conn3"
      using assms(4) d1 d2 True by (auto simp: turn_ready_def result_conn_def split: option.splits)
    obtain conn4 ok4 where d4: "h2_drive_session_send cfg tbl send' (submit_ready_streams conn3) = (conn4, ok4)"
      by (rule prod.exhaust)
    have "conn' = conn4" using assms(4) d1 d2 d4 p True by (auto simp: turn_ready_def result_conn_def split: if_splits)
    with s1 drive_steps [OF assms(2) d2] progress_all_steps [OF p, of cfg tbl] submit [of cfg tbl conn3]
      drive_steps [OF assms(3) d4] show ?thesis by auto
  qed
qed

lemma serve_turn_steps:
  assumes "turn_ok cfg tbl tn" and "result_conn (serve_turn cfg tbl tn conn idle) = Some conn'"
  shows "(h2_step cfg tbl)\<^sup>*\<^sup>* conn conn'"
proof (cases "tn_wants tn \<or> has_backend_work conn")
  case False
  with assms(2) show ?thesis by (simp add: serve_turn_def result_conn_def)
next
  case True
  let ?c = "submit_ready_streams conn"
  let ?c1 = "retry_delayed_loopbacks cfg tbl (tn_now tn) (tn_connects tn) ?c"
  obtain conn2 ok where d: "h2_drive_session_send cfg tbl (tn_send tn) ?c1 = (conn2, ok)" by (rule prod.exhaust)
  have "call_ok cfg tbl (tn_send tn)" using assms(1) by (simp add: turn_ok_def)
  note drive_steps [OF this d]
  with submit [of cfg tbl conn] retry [of cfg tbl ?c "tn_now tn" "tn_connects tn"]
  have s: "(h2_step cfg tbl)\<^sup>*\<^sup>* conn conn2" by (meson converse_rtranclp_into_rtranclp)
  note unf = assms(2) [unfolded serve_turn_def Let_def d]
  show ?thesis
  proof (cases "\<not> ok")
    case True
    with unf s \<open>tn_wants tn \<or> has_backend_work conn\<close> show ?thesis by (simp add: result_conn_def)
  next
    case False
    show ?thesis
    proof (cases "tn_poll tn")
      case PollError
      with unf s False \<open>tn_wants tn \<or> has_backend_work conn\<close> show ?thesis by (simp add: result_conn_def)
    next
      case (PollTimeout now crs)
      with unf False \<open>tn_wants tn \<or> has_backend_work conn\<close>
      have "result_conn (turn_timeout cfg tbl now crs conn2 idle) = Some conn'" by simp
      from turn_timeout_steps [OF this] s show ?thesis by simp
    next
      case (PollReady send recv revents send')
      with unf False \<open>tn_wants tn \<or> has_backend_work conn\<close>
      have "result_conn (turn_ready cfg tbl send recv revents send' conn2) = Some conn'" by simp
      from turn_ready_steps [OF _ _ _ this] assms(1) PollReady s show ?thesis by (simp add: turn_ok_def)
    qed
  qed
qed

lemma serve_turns_steps:
  "\<forall>tn \<in> set tns. turn_ok cfg tbl tn \<Longrightarrow> result_conn (serve_turns cfg tbl tns conn idle) = Some conn' \<Longrightarrow>
     (h2_step cfg tbl)\<^sup>*\<^sup>* conn conn'"
proof (induction tns arbitrary: conn idle)
  case Nil
  then show ?case by (simp add: result_conn_def)
next
  case (Cons tn tns)
  have ok: "turn_ok cfg tbl tn" using Cons.prems(1) by simp
  show ?case
  proof (cases "serve_turn cfg tbl tn conn idle")
    case (Running conn1 idle1)
    then have "(h2_step cfg tbl)\<^sup>*\<^sup>* conn conn1"
      by (intro serve_turn_steps [OF ok, of conn idle]) (simp add: result_conn_def)
    with Cons.IH [of conn1 idle1] Cons.prems Running show ?thesis by simp
  next
    case (Ended conn1)
    with Cons.prems(2) serve_turn_steps [OF ok, of conn idle conn'] show ?thesis by simp
  next
    case FreedStream
    with Cons.prems(2) show ?thesis by (simp add: result_conn_def)
  qed
qed

section \<open>The addresses that are polled\<close>

definition addresses :: "h2_conn \<Rightarrow> nat set" where
  "addresses conn = hs_addr ` set (hc_streams conn)"

lemma start_address:
  "start_loopback_request_async cfg tbl conn now cr s a = (s', a') \<Longrightarrow> hs_addr s' = hs_addr s"
  by (drule start_cases) auto

lemma close_address: "close_backend_stream s a = (s', a') \<Longrightarrow> hs_addr s' = hs_addr s"
  by (auto simp: close_backend_stream_def split: if_splits)

lemma fail_address: "fail_stream s a = (s', a') \<Longrightarrow> hs_addr s' = hs_addr s"
  by (auto simp: fail_stream_def dest!: close_address split: prod.splits)

lemma read_phase_address: "h2_read_phase s a up = (s', a', rc) \<Longrightarrow> hs_addr s' = hs_addr s"
  by (auto simp: h2_read_phase_def dest!: close_address fail_address split: prod.splits progress.splits)

lemma write_phase_address: "h2_write_phase s a up = (s', a', rc) \<Longrightarrow> hs_addr s' = hs_addr s"
  by (auto simp: h2_write_phase_def dest!: fail_address read_phase_address split: prod.splits progress.splits)

lemma progress_address:
  "h2_progress_backend_stream out err s a = (s', a', rc) \<Longrightarrow> hs_addr s' = hs_addr s"
  by (auto simp: h2_progress_backend_stream_def dest!: fail_address read_phase_address write_phase_address
      split: option.splits h2_backend_state.splits prod.splits if_splits)

lemma progress_at_addresses:
  assumes "h2_ok conn" and "progress_at out err addr conn = Some conn'"
  shows "addresses conn' = addresses conn"
proof -
  obtain s where s: "List.find (\<lambda>s. hs_addr s = addr) (hc_streams conn) = Some s"
    using assms(2) by (auto simp: progress_at_def split: option.splits)
  obtain pre post where p: "hc_streams conn = pre @ s # post"
    "\<And>f. update_stream (\<lambda>t. hs_addr t = addr) f (hc_streams conn) = pre @ f s # post"
    using find_split [OF s] assms(1) by (auto simp: h2_ok_def streams_ok_def)
  obtain s' a rc where g: "h2_progress_backend_stream out err s (hc_active conn) = (s', a, rc)" by (metis prod.collapse)
  have "hc_streams conn' = pre @ s' # post" using assms(2) s g p(2) by (auto simp: progress_at_def)
  with p(1) progress_address [OF g] show ?thesis by (simp add: addresses_def)
qed

lemma progress_all_defined:
  "h2_ok conn \<Longrightarrow> set addrs \<subseteq> addresses conn \<Longrightarrow> progress_all revents addrs conn \<noteq> None"
proof (induction addrs arbitrary: conn)
  case (Cons addr addrs)
  show ?case
  proof (cases "revents addr")
    case None
    with Cons show ?thesis by simp
  next
    case (Some r)
    obtain out err where r: "r = (out, err)" by (rule prod.exhaust)
    have "\<exists>s. List.find (\<lambda>s. hs_addr s = addr) (hc_streams conn) = Some s"
    proof (rule ccontr)
      assume "\<not> ?thesis"
      then have "List.find (\<lambda>s. hs_addr s = addr) (hc_streams conn) = None" by simp
      with Cons.prems(2) show False by (auto simp: addresses_def find_None_iff)
    qed
    then obtain s where s: "List.find (\<lambda>s. hs_addr s = addr) (hc_streams conn) = Some s" by blast
    obtain s' a rc where "h2_progress_backend_stream out err s (hc_active conn) = (s', a, rc)" by (metis prod.collapse)
    with s obtain conn1 where p: "progress_at out err addr conn = Some conn1" by (simp add: progress_at_def)
    with Cons.IH [of conn1] Cons.prems progress_ok [OF Cons.prems(1) p] progress_at_addresses [OF Cons.prems(1) p] Some r
    show ?thesis by simp
  qed
qed simp

definition closing :: "session_event \<Rightarrow> bool" where
  "closing e = (case e of StreamClosed _ \<Rightarrow> True | _ \<Rightarrow> False)"

lemma replace_addresses:
  assumes "h2_ok conn" and "find_stream conn sid = Some s" and "hs_addr s' = hs_addr s"
  shows "addresses (conn\<lparr>hc_streams := update_stream (\<lambda>t. hs_id t = sid) (\<lambda>_. s') (hc_streams conn)\<rparr>) = addresses conn"
proof -
  obtain pre post where "hc_streams conn = pre @ s # post"
    "\<And>f. update_stream (\<lambda>t. hs_id t = sid) f (hc_streams conn) = pre @ f s # post"
    using find_split [OF assms(2) [unfolded find_stream_def]] assms(1) by (auto simp: h2_ok_def streams_ok_def)
  with assms(3) show ?thesis by (simp add: addresses_def)
qed

lemma update_addresses:
  "(\<And>s. hs_addr (f s) = hs_addr s) \<Longrightarrow> hs_addr ` set (update_stream P f ss) = hs_addr ` set ss"
  unfolding update_stream_def set_map image_image by (rule image_cong) auto

lemma callback_addresses:
  assumes "h2_ok conn" and "session_callback cfg tbl e conn = Some conn1" and "\<not> closing e"
  shows "addresses conn \<subseteq> addresses conn1"
proof (cases e)
  case (BeginHeaders addr sid)
  then have c: "conn1 = on_begin_headers_callback addr sid conn" using assms(2) by simp
  show ?thesis unfolding c
    by (auto simp: addresses_def on_begin_headers_callback_def get_or_create_stream_def update_addresses)
next
  case (HeaderField addr sid name v)
  then have c: "conn1 = on_header_callback addr sid name v conn" using assms(2) by simp
  show ?thesis unfolding c
    by (auto simp: addresses_def on_header_callback_def get_or_create_stream_def update_addresses set_field_def)
next
  case (RequestEnd now cr sid)
  then obtain s0 where f: "find_stream conn sid = Some s0"
    using assms(2) by (auto simp: on_frame_recv_callback_def split: option.splits)
  define s where "s = (if hs_authority s0 = [] then s0\<lparr>hs_authority := ''localhost''\<rparr> else s0)"
  have a: "hs_addr s = hs_addr s0" by (simp add: s_def)
  obtain s' b where st: "start_loopback_request_async cfg tbl conn now cr s (hc_active conn) = (s', b)" by (rule prod.exhaust)
  have "on_frame_recv_callback cfg tbl now cr sid conn = Some conn1" using assms(2) RequestEnd by simp
  note unf = this [unfolded on_frame_recv_callback_def f option.case, folded s_def, unfolded Let_def, folded s_def,
      unfolded st prod.case]
  have "\<exists>t. hs_addr t = hs_addr s0 \<and>
     hc_streams conn1 = update_stream (\<lambda>u. hs_id u = sid) (\<lambda>_. t) (hc_streams conn)"
  proof (cases "\<not> rpsiod_streq_ci (hs_method s) ''GET'' \<and> \<not> rpsiod_streq_ci (hs_method s) ''HEAD''")
    case True
    let ?t = "s\<lparr>hs_submitted := True, hs_body := snd (simple_reply 405 (''405 Method Not Allowed'' @ [LF])), hs_body_off := 0\<rparr>"
    have "hc_streams conn1 = update_stream (\<lambda>u. hs_id u = sid) (\<lambda>_. ?t) (hc_streams conn)" using unf True by auto
    with a show ?thesis by (intro exI [of _ ?t]) simp
  next
    case False
    with unf a start_address [OF st] show ?thesis by auto
  qed
  then obtain t where "hs_addr t = hs_addr s0"
    "hc_streams conn1 = update_stream (\<lambda>u. hs_id u = sid) (\<lambda>_. t) (hc_streams conn)" by blast
  with replace_addresses [OF assms(1) f, of t] show ?thesis by (simp add: addresses_def)
next
  case (StreamClosed sid)
  with assms(3) show ?thesis by (simp add: closing_def)
next
  case (DataWanted n sid)
  then obtain s where f: "find_stream conn sid = Some s" using assms(2) by (auto simp: data_step_def split: option.splits)
  obtain bytes eof s' where r: "response_data_callback n s = (bytes, eof, s')" by (metis prod.collapse)
  have "hs_addr s' = hs_addr s" using r by (auto simp: response_data_callback_def Let_def split: if_splits)
  note a = replace_addresses [OF assms(1) f this]
  have c: "conn1 = conn\<lparr>hc_streams := update_stream (\<lambda>t. hs_id t = sid) (\<lambda>_. s') (hc_streams conn)\<rparr>"
    using assms(2) DataWanted f r by (simp add: data_step_def)
  show ?thesis unfolding c a by simp
qed

lemma session_run_addresses:
  "h2_ok conn \<Longrightarrow> expected_run cfg tbl es conn \<Longrightarrow> session_run cfg tbl es conn = (conn', ok) \<Longrightarrow>
     list_all (\<lambda>e. \<not> closing e) es \<Longrightarrow> addresses conn \<subseteq> addresses conn'"
proof (induction es arbitrary: conn)
  case (Cons e es)
  show ?case
  proof (cases "session_callback cfg tbl e conn")
    case (Some conn1)
    have "expected e conn" "expected_run cfg tbl es conn1" "session_run cfg tbl es conn1 = (conn', ok)"
      "\<not> closing e" "list_all (\<lambda>e. \<not> closing e) es" using Cons.prems Some by simp_all
    moreover from this(1) have "h2_ok conn1" using h2_step_ok [OF callback_step [OF _ Some]] Cons.prems(1) by blast
    ultimately show ?thesis
      using Cons.IH [of conn1] callback_addresses [OF Cons.prems(1) Some] by blast
  qed (use Cons.prems in simp)
qed simp

text \<open>A call that closes no stream.\<close>

definition call_keeps :: "session_call \<Rightarrow> bool" where
  "call_keeps call \<longleftrightarrow> (\<forall>conn. list_all (\<lambda>e. \<not> closing e) (fst (call conn)))"

definition turn_keeps :: "h2_turn \<Rightarrow> bool" where
  "turn_keeps tn \<longleftrightarrow>
     (case tn_poll tn of PollReady send recv _ _ \<Rightarrow> call_keeps send \<and> call_keeps recv | _ \<Rightarrow> True)"

lemma drive_addresses:
  assumes "call_ok cfg tbl call" and "call_keeps call" and "h2_ok conn"
    and "h2_drive_session_send cfg tbl call conn = (conn', ok)"
  shows "addresses conn \<subseteq> addresses conn'"
proof -
  obtain es lib_ok where c: "call conn = (es, lib_ok)" by (rule prod.exhaust)
  obtain conn1 ok1 where r: "session_run cfg tbl es conn = (conn1, ok1)" by (rule prod.exhaust)
  have "expected_run cfg tbl es conn" using assms(1) c by (metis call_ok_def fst_conv)
  moreover have "list_all (\<lambda>e. \<not> closing e) es" using assms(2) c by (metis call_keeps_def fst_conv)
  ultimately have "addresses conn \<subseteq> addresses conn1" using session_run_addresses [OF assms(3) _ r] by blast
  with assms(4) c r show ?thesis by (simp add: h2_drive_session_send_def)
qed

lemma steps_ok: "(h2_step cfg tbl)\<^sup>*\<^sup>* conn conn' \<Longrightarrow> h2_ok conn \<Longrightarrow> h2_ok conn'"
  by (induction rule: rtranclp_induct) (blast intro: h2_step_ok)+

lemma turn_ready_not_freed:
  assumes "call_ok cfg tbl send" "call_ok cfg tbl recv" "call_keeps send" "call_keeps recv" and "h2_ok conn"
  shows "turn_ready cfg tbl send recv revents send' conn \<noteq> FreedStream"
proof -
  obtain conn1 ok1 where d1: "h2_drive_session_send cfg tbl send conn = (conn1, ok1)" by (rule prod.exhaust)
  obtain conn2 ok2 where d2: "h2_drive_session_send cfg tbl recv conn1 = (conn2, ok2)" by (rule prod.exhaust)
  have ok: "h2_ok conn1" using steps_ok [OF drive_steps [OF assms(1) d1] assms(5)] .
  have "set (poll_streams conn) \<subseteq> addresses conn" by (auto simp: poll_streams_def addresses_def)
  also have "\<dots> \<subseteq> addresses conn1" by (rule drive_addresses [OF assms(1,3,5) d1])
  also have "\<dots> \<subseteq> addresses conn2" by (rule drive_addresses [OF assms(2,4) ok d2])
  finally obtain conn3 where "progress_all revents (poll_streams conn) conn2 = Some conn3"
    using progress_all_defined [OF steps_ok [OF drive_steps [OF assms(2) d2] ok]] by blast
  with d1 d2 show ?thesis by (simp add: turn_ready_def split: prod.split)
qed

lemma serve_turn_not_freed:
  assumes "turn_ok cfg tbl tn" "turn_keeps tn" and "h2_ok conn"
  shows "serve_turn cfg tbl tn conn idle \<noteq> FreedStream"
proof -
  let ?c1 = "retry_delayed_loopbacks cfg tbl (tn_now tn) (tn_connects tn) (submit_ready_streams conn)"
  obtain conn2 ok where d: "h2_drive_session_send cfg tbl (tn_send tn) ?c1 = (conn2, ok)" by (rule prod.exhaust)
  have "h2_ok ?c1" by (intro retry_ok submit_ok assms(3))
  moreover have "call_ok cfg tbl (tn_send tn)" using assms(1) by (simp add: turn_ok_def)
  ultimately have ok2: "h2_ok conn2" using steps_ok [OF drive_steps [OF _ d]] by blast
  show ?thesis
  proof (cases "tn_poll tn")
    case (PollReady send recv revents send')
    have "turn_ready cfg tbl send recv revents send' conn2 \<noteq> FreedStream"
      using assms(1,2) PollReady ok2 by (intro turn_ready_not_freed) (simp_all add: turn_ok_def turn_keeps_def)
    with d PollReady show ?thesis by (simp add: serve_turn_def Let_def)
  qed (use d in \<open>simp_all add: serve_turn_def turn_timeout_def Let_def\<close>)
qed

lemma serve_turns_freed:
  "\<forall>tn \<in> set tns. turn_ok cfg tbl tn \<Longrightarrow> h2_ok conn \<Longrightarrow> serve_turns cfg tbl tns conn idle = FreedStream \<Longrightarrow>
     \<exists>tn \<in> set tns. \<not> turn_keeps tn"
proof (induction tns arbitrary: conn idle)
  case (Cons tn tns)
  have ok: "turn_ok cfg tbl tn" using Cons.prems(1) by simp
  show ?case
  proof (cases "serve_turn cfg tbl tn conn idle")
    case (Running conn1 idle1)
    then have "h2_ok conn1"
      by (intro steps_ok [OF serve_turn_steps [OF ok, of conn idle] Cons.prems(2)]) (simp add: result_conn_def)
    with Cons.IH [of conn1 idle1] Cons.prems Running show ?thesis by auto
  next
    case (Ended conn1)
    with Cons.prems(3) show ?thesis by simp
  next
    case FreedStream
    with serve_turn_not_freed [OF ok _ Cons.prems(2)] show ?thesis by auto
  qed
qed simp

lemma serve_turn_idle:
  "serve_turn cfg tbl tn conn idle = Running conn' idle' \<Longrightarrow> idle < H2_IDLE_TIMEOUT_MS \<Longrightarrow> idle' < H2_IDLE_TIMEOUT_MS"
  by (auto simp: serve_turn_def turn_timeout_def turn_ready_def Let_def H2_IDLE_TIMEOUT_MS_def
      split: if_splits prod.splits poll_result.splits option.splits)

lemma serve_turns_idle:
  "serve_turns cfg tbl tns conn idle = Running conn' idle' \<Longrightarrow> idle < H2_IDLE_TIMEOUT_MS \<Longrightarrow> idle' < H2_IDLE_TIMEOUT_MS"
  by (induction tns arbitrary: conn idle) (auto dest: serve_turn_idle split: turn_result.splits)

section \<open>Correctness of the loop\<close>

text \<open>
  C16: the loop refines the step relation: whatever callbacks the HTTP/2 library makes within its documented
  order, a running connection is in a reachable state (and has been idle for less than two
  seconds), an ended one has been cleaned up from a reachable state and holds no stream and
  no socket; the address of a freed stream is used only if the library closes a stream between
  the poll and the progress of the polled backends.
\<close>

theorem h2_loop_refines:
  assumes "\<forall>tn \<in> set tns. turn_ok cfg tbl tn"
  shows "case rpsiod_http2_serve_connection cfg tbl tns client_ip server_ip port of
      Running conn idle \<Rightarrow>
        (h2_step cfg tbl)\<^sup>*\<^sup>* (h2_start client_ip server_ip port) conn \<and> idle < H2_IDLE_TIMEOUT_MS
    | Ended conn \<Rightarrow> hc_streams conn = [] \<and> hc_active conn = 0 \<and>
        (\<exists>conn0. (h2_step cfg tbl)\<^sup>*\<^sup>* (h2_start client_ip server_ip port) conn0 \<and> conn = free_all_streams conn0)
    | FreedStream \<Rightarrow> \<exists>tn \<in> set tns. \<not> turn_keeps tn"
proof -
  let ?c = "h2_start client_ip server_ip port"
  have start: "h2_ok ?c" by (rule h2_reachable_ok [OF rtranclp.rtrancl_refl])
  show ?thesis
  proof (cases "serve_turns cfg tbl tns ?c 0")
    case (Running conn idle)
    with serve_turns_steps [OF assms, of ?c 0 conn] serve_turns_idle [OF Running] show ?thesis
      by (simp add: rpsiod_http2_serve_connection_def result_conn_def H2_IDLE_TIMEOUT_MS_def)
  next
    case (Ended conn)
    with serve_turns_steps [OF assms, of ?c 0 conn] have r: "(h2_step cfg tbl)\<^sup>*\<^sup>* ?c conn"
      by (simp add: result_conn_def)
    with free_all_ok [OF steps_ok [OF r start]] Ended show ?thesis
      by (auto simp: rpsiod_http2_serve_connection_def h2_ok_def streams_ok_def open_count_def)
  next
    case FreedStream
    with serve_turns_freed [OF assms start] show ?thesis by (simp add: rpsiod_http2_serve_connection_def)
  qed
qed

text \<open>A turn in which nothing happens.\<close>

definition quiet_turn :: "h2_turn \<Rightarrow> bool" where
  "quiet_turn tn \<longleftrightarrow> tn_wants tn \<and> (\<forall>conn. tn_send tn conn = ([], True)) \<and>
     (case tn_poll tn of PollTimeout _ _ \<Rightarrow> True | _ \<Rightarrow> False)"

lemma no_streams_idle:
  assumes "hc_streams conn = []"
  shows "submit_ready_streams conn = conn" "retry_delayed_loopbacks cfg tbl now crs conn = conn"
    "\<not> has_backend_work conn" "\<not> has_active_streams conn"
  using assms by (simp_all add: submit_ready_streams_def retry_delayed_loopbacks_def has_backend_work_def
      has_active_streams_def)

lemma quiet_serve_turn:
  assumes "quiet_turn tn" and "hc_streams conn = []"
  shows "serve_turn cfg tbl tn conn idle =
    (if H2_IDLE_TIMEOUT_MS \<le> idle + 100 then Ended conn else Running conn (idle + 100))"
  using assms by (auto simp: quiet_turn_def serve_turn_def turn_timeout_def h2_drive_session_send_def
      no_streams_idle poll_timeout_def split: poll_result.splits)

lemma quiet_serve_turns:
  "list_all quiet_turn tns \<Longrightarrow> hc_streams conn = [] \<Longrightarrow> k < 20 \<Longrightarrow>
     serve_turns cfg tbl tns conn (100 * k) =
       (if k + length tns < 20 then Running conn (100 * (k + length tns)) else Ended conn)"
proof (induction tns arbitrary: k)
  case (Cons tn tns)
  have t: "serve_turn cfg tbl tn conn (100 * k) = (if 19 \<le> k then Ended conn else Running conn (100 * Suc k))"
    using quiet_serve_turn [of tn conn cfg tbl "100 * k"] Cons.prems(1,2) by (simp add: H2_IDLE_TIMEOUT_MS_def)
  show ?case
  proof (cases "19 \<le> k")
    case True
    with t show ?thesis by simp
  next
    case False
    with t Cons.IH [of "Suc k"] Cons.prems show ?thesis by simp
  qed
qed simp

text \<open>
  C34: an idle connection is closed: without open streams and without traffic the loop keeps
  waiting for exactly twenty polls of 100 ms and then ends.
\<close>

theorem h2_idle_closes:
  assumes "list_all quiet_turn tns" and "hc_streams conn = []"
  shows "serve_turns cfg tbl tns conn 0 =
    (if length tns < 20 then Running conn (100 * length tns) else Ended conn)"
  using quiet_serve_turns [OF assms, of 0] by simp

definition demo_quiet :: h2_turn where
  "demo_quiet = \<lparr>tn_wants = True, tn_now = no_time, tn_connects = (\<lambda>_. NoSocket), tn_send = (\<lambda>_. ([], True)),
     tn_poll = PollTimeout no_time (\<lambda>_. NoSocket)\<rparr>"

theorem h2_idle_closes_witness:
  "serve_turns rpsiod_config_defaults empty_route_table (replicate 20 demo_quiet) (h2_start ''192.0.2.1'' ''0.0.0.0'' 443) 0 =
     Ended (h2_start ''192.0.2.1'' ''0.0.0.0'' 443)"
proof -
  have "list_all quiet_turn (replicate 20 demo_quiet)"
    by (simp add: list_all_iff quiet_turn_def demo_quiet_def)
  from h2_idle_closes [OF this] show ?thesis by (simp add: h2_start_def)
qed

text \<open>A request for an unknown site arrives, is refused by the loopback, answered, and the peer goes.\<close>

definition demo_receive :: session_call where
  "demo_receive conn =
     (if hc_streams conn = [] \<and> hc_replies conn = []
      then ([BeginHeaders 100 1, HeaderField 100 1 '':method'' ''HEAD'', RequestEnd no_time NoSocket 1], False)
      else ([], False))"

definition demo_turn :: h2_turn where
  "demo_turn = demo_quiet\<lparr>tn_poll := PollReady (\<lambda>_. ([], True)) demo_receive (\<lambda>_. None) (\<lambda>_. ([], True))\<rparr>"

lemma demo_turn_ok: "turn_ok cfg tbl demo_turn"
proof -
  have "call_ok cfg tbl demo_receive"
    unfolding call_ok_def
  proof
    fix conn :: h2_conn
    show "expected_run cfg tbl (fst (demo_receive conn)) conn"
    proof (cases "hc_streams conn = [] \<and> hc_replies conn = []")
      case True
      then show ?thesis
        by (auto simp: demo_receive_def find_stream_def on_begin_headers_callback_def on_header_callback_def
            get_or_create_stream_def update_stream_def set_field_def new_stream_def split: option.split)
    next
      case False
      then have "demo_receive conn = ([], False)" unfolding demo_receive_def by (rule if_not_P)
      then show ?thesis by simp
    qed
  qed
  then show ?thesis by (simp add: turn_ok_def demo_turn_def demo_quiet_def call_ok_def)
qed

lemma progress_none: "progress_all (\<lambda>_. None) addrs conn = Some conn"
  by (induction addrs) simp_all

theorem h2_loop_refines_witness:
  "\<exists>conn. rpsiod_http2_serve_connection demo_cfg empty_route_table [demo_turn] ''192.0.2.1'' ''0.0.0.0'' 443 = Ended conn \<and>
     hc_streams conn = [] \<and> hc_active conn = 0"
proof -
  let ?c = "h2_start ''192.0.2.1'' ''0.0.0.0'' 443"
  have none: "submit_ready_streams ?c = ?c" "retry_delayed_loopbacks demo_cfg empty_route_table no_time (\<lambda>_. NoSocket) ?c = ?c"
    by (rule no_streams_idle, simp add: h2_start_def)+
  have d: "h2_drive_session_send demo_cfg empty_route_table (\<lambda>_. ([], True)) c = (c, True)" for c
    by (simp add: h2_drive_session_send_def)
  obtain c2 where r: "h2_drive_session_send demo_cfg empty_route_table demo_receive ?c = (c2, False)"
  proof -
    have "\<not> snd (h2_drive_session_send demo_cfg empty_route_table demo_receive ?c)"
      by (simp add: h2_drive_session_send_def demo_receive_def split: prod.split)
    then show thesis using that by (metis (full_types) prod.collapse)
  qed
  have "serve_turn demo_cfg empty_route_table demo_turn ?c 0 = Ended (submit_ready_streams c2)"
    by (simp add: serve_turn_def turn_ready_def demo_turn_def demo_quiet_def Let_def none d r progress_none)
  then obtain conn where c: "rpsiod_http2_serve_connection demo_cfg empty_route_table [demo_turn] ''192.0.2.1'' ''0.0.0.0'' 443 = Ended conn"
    by (simp add: rpsiod_http2_serve_connection_def)
  from h2_loop_refines [of "[demo_turn]" demo_cfg empty_route_table "''192.0.2.1''" "''0.0.0.0''" 443] demo_turn_ok c show ?thesis by simp
qed

end
