(* ===== verification/Tls.thy ===== *)
theory Tls
  imports Config CString Util Php
begin

text \<open>
  \<open>src/tls.c\<close>: the choice of the protocol (ALPN), the certificate files of a site, their
  validation, the generation of a local certificate, and the one TLS context of a worker.  The
  file system is a map from paths to files; OpenSSL (key generation, signing, matching a
  certificate with a key) and the results of \<open>mkdir\<close>, \<open>open\<close>, \<open>fchmod\<close> and of writing are the fields
  of the record \<open>tls_env\<close>.  The map holds regular files: the \<open>chmod\<close> of the storage directory,
  whose result the code ignores, is left out.
\<close>

section \<open>Protocol selection\<close>

text \<open>The client's list: each protocol name follows a byte with its length.\<close>

function alpn_offers :: "string \<Rightarrow> string \<Rightarrow> bool" where
  "alpn_offers want [] = False"
| "alpn_offers want (c # p) =
     (if length p < uchar c then False
      else if take (uchar c) p = want then True
      else alpn_offers want (drop (uchar c) p))"
  by pat_completeness auto
termination
  by (relation "measure (\<lambda>(want, p). length p)") auto

definition alpn_select_cb :: "string \<Rightarrow> string option" where
  "alpn_select_cb offer =
     (if alpn_offers ''h2'' offer then Some ''h2''
      else if alpn_offers ''http/1.1'' offer then Some ''http/1.1''
      else None)"

definition rpsiod_tls_selected_http2 :: "string option \<Rightarrow> bool" where
  "rpsiod_tls_selected_http2 proto \<longleftrightarrow> proto = Some ''h2''"

text \<open>The list as TLS defines it.\<close>

definition alpn_list :: "string list \<Rightarrow> string" where
  "alpn_list ps = concat (map (\<lambda>p. char_of (length p) # p) ps)"

lemma alpn_offers_list:
  "list_all (\<lambda>p. length p < 256) ps \<Longrightarrow> alpn_offers want (alpn_list ps) \<longleftrightarrow> want \<in> set ps"
  by (induction ps) (auto simp: alpn_list_def uchar_def)

section \<open>Directories\<close>

definition dir_prefixes :: "string \<Rightarrow> string list" where
  "dir_prefixes path =
     map (\<lambda>i. take i path) (filter (\<lambda>i. path ! i = CHR ''/'') [1..<length path]) @ [path]"

text \<open>\<open>mk p\<close>: the directory \<open>p\<close> exists or can be made.\<close>

definition mkdir_recursive :: "(string \<Rightarrow> bool) \<Rightarrow> string \<Rightarrow> bool" where
  "mkdir_recursive mk path = list_all mk (dir_prefixes path)"

definition rpsiod_mkdir_parent :: "(string \<Rightarrow> bool) \<Rightarrow> string \<Rightarrow> bool" where
  "rpsiod_mkdir_parent mk path =
     (case strrchr (CHR ''/'') (safe_copy PATH_MAX path) of
        None \<Rightarrow> True
      | Some (dir, _) \<Rightarrow> dir = [] \<or> mkdir_recursive mk dir)"

section \<open>Files\<close>

record tls_file =
  tf_data :: string
  tf_mode :: u32
  tf_readable :: bool

type_synonym tls_files = "string \<Rightarrow> tls_file option"

text \<open>
  Permission bits are in hexadecimal (\<open>0600\<close> is \<open>0x180\<close>, \<open>0644\<close> is \<open>0x1A4\<close>, \<open>0077\<close> is \<open>0x3F\<close>).  \<open>te_keygen cn san\<close>: the key and the self-signed certificate; \<open>te_pem path data\<close>: whether writing
  succeeds, and what the file then holds; \<open>te_pair cert key\<close>: OpenSSL accepts the two and they match.
\<close>

record tls_env =
  te_mkdir :: "string \<Rightarrow> bool"
  te_keygen :: "string \<Rightarrow> string \<Rightarrow> (string \<times> string) option"
  te_open :: "string \<Rightarrow> bool"
  te_fchmod :: "string \<Rightarrow> bool"
  te_fdopen :: "string \<Rightarrow> bool"
  te_pem :: "string \<Rightarrow> string \<Rightarrow> bool \<times> string"
  te_pair :: "string \<Rightarrow> string \<Rightarrow> bool"

definition tls_paths_for_site :: "site_config \<Rightarrow> (string \<times> string) option" where
  "tls_paths_for_site site =
     (let cert = site_ssl_storage site @ ''/cert.pem''; key = site_ssl_storage site @ ''/key.pem'' in
      if PATH_MAX \<le> length cert \<or> PATH_MAX \<le> length key then None else Some (cert, key))"

definition readable :: "tls_files \<Rightarrow> string \<Rightarrow> bool" where
  "readable fs path = (case fs path of None \<Rightarrow> False | Some f \<Rightarrow> tf_readable f)"

section \<open>Generating a certificate\<close>

text \<open>The text of the alternative names in a buffer of 1024 bytes; a name that does not fit is cut.\<close>

fun san_loop :: "bool \<Rightarrow> string \<Rightarrow> string list \<Rightarrow> string" where
  "san_loop is_first used [] = used"
| "san_loop is_first used (d # ds) =
     (let item = (if is_first then [] else '','') @ ''DNS:'' @ d in
      if 1024 - length used \<le> length item then used @ take (1024 - length used - 1) item
      else san_loop False (used @ item) ds)"

definition open_truncated :: "tls_env \<Rightarrow> string \<Rightarrow> u32 \<Rightarrow> tls_files \<Rightarrow> tls_files" where
  "open_truncated env path mode fs =
     fs(path \<mapsto> (case fs path of
        None \<Rightarrow> \<lparr>tf_data = [], tf_mode = mode, tf_readable = True\<rparr>
      | Some f \<Rightarrow> if te_fchmod env path then \<lparr>tf_data = [], tf_mode = mode, tf_readable = True\<rparr>
                  else f\<lparr>tf_data := []\<rparr>))"

text \<open>\<open>None\<close>: the file or its stream cannot be opened; otherwise whether the PEM text was written.\<close>

definition write_pem :: "tls_env \<Rightarrow> string \<Rightarrow> u32 \<Rightarrow> string \<Rightarrow> tls_files \<Rightarrow> bool option \<times> tls_files" where
  "write_pem env path mode pem fs =
     (if \<not> te_open env path then (None, fs)
      else let fs1 = open_truncated env path mode fs in
        if \<not> te_fdopen env path then (None, fs1)
        else case te_pem env path pem of (ok, written) \<Rightarrow>
          (Some ok, fs1(path := map_option (\<lambda>f. f\<lparr>tf_data := written\<rparr>) (fs1 path))))"

definition ensure_auto_certificate :: "tls_env \<Rightarrow> site_config \<Rightarrow> tls_files \<Rightarrow> bool \<times> tls_files" where
  "ensure_auto_certificate env site fs =
     (case tls_paths_for_site site of
        None \<Rightarrow> (False, fs)
      | Some (cert, key) \<Rightarrow>
          if readable fs cert \<and> readable fs key then (True, fs)
          else if \<not> rpsiod_streq_ci (site_ssl_mode site) ''auto'' then (False, fs)
          else if \<not> rpsiod_mkdir_parent (te_mkdir env) cert \<or> \<not> rpsiod_mkdir_parent (te_mkdir env) key then (False, fs)
          else case te_keygen env (hd (site_domains site)) (san_loop True [] (site_domains site)) of
            None \<Rightarrow> (False, fs)
          | Some (pkey, x509) \<Rightarrow>
              (case write_pem env key 0x180 pkey fs of
                 (None, fs1) \<Rightarrow> (False, fs1)
               | (Some key_ok, fs1) \<Rightarrow>
                   (case write_pem env cert 0x1A4 x509 fs1 of
                      (None, fs2) \<Rightarrow> (False, fs2)
                    | (Some cert_ok, fs2) \<Rightarrow> (key_ok \<and> cert_ok, fs2))))"

section \<open>Validation and the context\<close>

text \<open>The messages, by the site they name.\<close>

datatype tls_error = PathsTooLong string | OnePresent string | PairMissing string | PairInvalid string | KeyExposed string

definition pair_accepted :: "tls_env \<Rightarrow> tls_files \<Rightarrow> string \<Rightarrow> string \<Rightarrow> bool" where
  "pair_accepted env fs cert key =
     (case (fs cert, fs key) of
        (Some c, Some k) \<Rightarrow> tf_readable c \<and> tf_readable k \<and> te_pair env (tf_data c) (tf_data k)
      | _ \<Rightarrow> False)"

definition validate_tls_pair :: "tls_env \<Rightarrow> tls_files \<Rightarrow> site_config \<Rightarrow> string \<Rightarrow> string \<Rightarrow> tls_error option" where
  "validate_tls_pair env fs site cert key =
     (if \<not> pair_accepted env fs cert key then Some (PairInvalid (site_name site))
      else case fs key of
        None \<Rightarrow> None
      | Some k \<Rightarrow> if tf_mode k AND 0x3F \<noteq> 0 then Some (KeyExposed (site_name site)) else None)"

definition serves_tls :: "site_config \<Rightarrow> bool" where
  "serves_tls site \<longleftrightarrow> site_enabled site \<and> site_ssl_enabled site"

definition validate_site_material :: "tls_env \<Rightarrow> tls_files \<Rightarrow> site_config \<Rightarrow> tls_error option" where
  "validate_site_material env fs site =
     (if \<not> serves_tls site then None
      else case tls_paths_for_site site of
        None \<Rightarrow> Some (PathsTooLong (site_name site))
      | Some (cert, key) \<Rightarrow>
          if (fs cert \<noteq> None) \<noteq> (fs key \<noteq> None) then Some (OnePresent (site_name site))
          else if fs cert = None then
            (if rpsiod_streq_ci (site_ssl_mode site) ''auto'' then None else Some (PairMissing (site_name site)))
          else validate_tls_pair env fs site cert key)"

fun rpsiod_tls_validate_material :: "tls_env \<Rightarrow> tls_files \<Rightarrow> site_config list \<Rightarrow> tls_error option" where
  "rpsiod_tls_validate_material env fs [] = None"
| "rpsiod_tls_validate_material env fs (s # ss) =
     (case validate_site_material env fs s of
        Some e \<Rightarrow> Some e
      | None \<Rightarrow> rpsiod_tls_validate_material env fs ss)"

text \<open>The context holds the certificate and the key that were loaded.\<close>

fun context_loop :: "tls_env \<Rightarrow> site_config list \<Rightarrow> tls_files \<Rightarrow> (string \<times> string) option \<times> tls_files" where
  "context_loop env [] fs = (None, fs)"
| "context_loop env (s # ss) fs =
     (if \<not> serves_tls s then context_loop env ss fs
      else case ensure_auto_certificate env s fs of
        (False, fs1) \<Rightarrow> (None, fs1)
      | (True, fs1) \<Rightarrow>
          (case tls_paths_for_site s of
             None \<Rightarrow> (None, fs1)
           | Some (cert, key) \<Rightarrow>
               if validate_tls_pair env fs1 s cert key \<noteq> None then (None, fs1)
               else (map_option (\<lambda>c. (tf_data c, case fs1 key of None \<Rightarrow> [] | Some k \<Rightarrow> tf_data k)) (fs1 cert), fs1)))"

definition rpsiod_tls_create_context :: "tls_env \<Rightarrow> config \<Rightarrow> tls_files \<Rightarrow> (string \<times> string) option \<times> tls_files" where
  "rpsiod_tls_create_context env cfg fs =
     (if rpsiod_tls_validate_material env fs (cfg_sites cfg) \<noteq> None then (None, fs)
      else context_loop env (cfg_sites cfg) fs)"

section \<open>What the context guarantees\<close>

definition material_ok :: "tls_env \<Rightarrow> tls_files \<Rightarrow> site_config \<Rightarrow> bool" where
  "material_ok env fs site \<longleftrightarrow>
     (\<exists>cert key. tls_paths_for_site site = Some (cert, key) \<and>
        (fs cert = None \<and> fs key = None \<and> rpsiod_streq_ci (site_ssl_mode site) ''auto'' \<or>
         (\<exists>c k. fs cert = Some c \<and> fs key = Some k \<and> te_pair env (tf_data c) (tf_data k) \<and> tf_mode k AND 0x3F = 0)))"

lemma validate_pair_None:
  assumes "validate_tls_pair env fs site cert key = None"
  shows "\<exists>c k. fs cert = Some c \<and> fs key = Some k \<and> te_pair env (tf_data c) (tf_data k) \<and> tf_mode k AND 0x3F = 0"
  using assms by (auto simp: validate_tls_pair_def pair_accepted_def split: if_splits option.splits)

lemma validate_site_None:
  assumes "validate_site_material env fs site = None" and "serves_tls site"
  shows "material_ok env fs site"
proof -
  obtain cert key where p: "tls_paths_for_site site = Some (cert, key)"
    using assms by (auto simp: validate_site_material_def split: option.splits)
  note v = assms [unfolded validate_site_material_def p]
  show ?thesis
  proof (cases "fs cert")
    case None
    with v p show ?thesis by (auto simp: material_ok_def split: if_splits)
  next
    case (Some c)
    with v have "validate_tls_pair env fs site cert key = None" by (auto split: if_splits)
    from validate_pair_None [OF this] p show ?thesis by (auto simp: material_ok_def)
  qed
qed

lemma validate_material_None:
  "rpsiod_tls_validate_material env fs sites = None \<Longrightarrow> s \<in> set sites \<Longrightarrow> serves_tls s \<Longrightarrow> material_ok env fs s"
  by (induction sites) (auto intro: validate_site_None split: option.splits)

lemma write_pem_other: "p \<noteq> path \<Longrightarrow> snd (write_pem env path mode pem fs) p = fs p"
  by (simp add: write_pem_def open_truncated_def Let_def split: prod.split)

lemma ensure_other:
  assumes "tls_paths_for_site site = Some (cert, key)" and "p \<notin> {cert, key}"
  shows "snd (ensure_auto_certificate env site fs) p = fs p"
proof -
  have "p \<noteq> cert" "p \<noteq> key" using assms(2) by simp_all
  then have w: "snd (write_pem env cert mode pem fs1) p = fs1 p" "snd (write_pem env key mode pem fs1) p = fs1 p"
    for mode pem fs1 using write_pem_other by blast+
  show ?thesis
  proof (cases "te_keygen env (hd (site_domains site)) (san_loop True [] (site_domains site))")
    case None
    with assms(1) show ?thesis by (simp add: ensure_auto_certificate_def)
  next
    case (Some kc)
    obtain pkey x509 where kc: "kc = (pkey, x509)" by (rule prod.exhaust)
    obtain k1 fs1 where w1: "write_pem env key 0x180 pkey fs = (k1, fs1)" by (rule prod.exhaust)
    obtain k2 fs2 where w2: "write_pem env cert 0x1A4 x509 fs1 = (k2, fs2)" by (rule prod.exhaust)
    have "fs1 p = fs p" "fs2 p = fs p" using w(2) [of "0x180" pkey fs] w(1) [of "0x1A4" x509 fs1] w1 w2 by simp_all
    with assms(1) Some kc w1 w2 show ?thesis
      by (simp add: ensure_auto_certificate_def split: option.split)
  qed
qed

lemma context_loop_first:
  assumes "context_loop env sites fs = (Some (c, k), fs')"
  shows "\<exists>site cert key kf. List.find serves_tls sites = Some site \<and> tls_paths_for_site site = Some (cert, key) \<and>
     fs' key = Some kf \<and> tf_data kf = k \<and> tf_mode kf AND 0x3F = 0 \<and> te_pair env c k \<and>
     (\<forall>p. p \<notin> {cert, key} \<longrightarrow> fs' p = fs p)"
  using assms
proof (induction sites)
  case (Cons s ss)
  show ?case
  proof (cases "serves_tls s")
    case False
    with Cons show ?thesis by simp
  next
    case True
    then obtain fs1 cert key where e: "ensure_auto_certificate env s fs = (True, fs1)"
      and p: "tls_paths_for_site s = Some (cert, key)" and v: "validate_tls_pair env fs1 s cert key = None"
      using Cons.prems by (auto split: prod.splits bool.splits option.splits if_splits)
    obtain cf kf where f: "fs1 cert = Some cf" "fs1 key = Some kf" "te_pair env (tf_data cf) (tf_data kf)"
      "tf_mode kf AND 0x3F = 0" using validate_pair_None [OF v] by blast
    have "c = tf_data cf" "k = tf_data kf" "fs' = fs1" using Cons.prems True e p v f by simp_all
    with True p f ensure_other [OF p, of _ env fs] e show ?thesis by auto
  qed
qed simp

text \<open>
  C20: a worker serves TLS only with sound material: if a context is made, every site that
  serves TLS has either a matching certificate and key, the key closed to group and others,
  or none of the two in automatic mode; the context holds the pair of the first such site,
  whose key file is private, and no file beside that site's two is touched.
\<close>

theorem tls_context_private:
  assumes "rpsiod_tls_create_context env cfg fs = (Some (c, k), fs')"
  shows "(\<forall>s \<in> set (cfg_sites cfg). serves_tls s \<longrightarrow> material_ok env fs s) \<and>
    (\<exists>site cert key kf. List.find serves_tls (cfg_sites cfg) = Some site \<and> tls_paths_for_site site = Some (cert, key) \<and>
       fs' key = Some kf \<and> tf_data kf = k \<and> tf_mode kf AND 0x3F = 0 \<and> te_pair env c k \<and>
       (\<forall>p. p \<notin> {cert, key} \<longrightarrow> fs' p = fs p))"
proof -
  have "rpsiod_tls_validate_material env fs (cfg_sites cfg) = None"
    and "context_loop env (cfg_sites cfg) fs = (Some (c, k), fs')"
    using assms by (auto simp: rpsiod_tls_create_context_def split: if_splits)
  with context_loop_first validate_material_None show ?thesis by blast
qed

text \<open>An empty storage directory: a certificate is generated.\<close>

definition demo_tls_env :: tls_env where
  "demo_tls_env = \<lparr>te_mkdir = (\<lambda>_. True), te_keygen = (\<lambda>cn san. Some (''K'' @ cn, ''C'' @ san)), te_open = (\<lambda>_. True),
     te_fchmod = (\<lambda>_. True), te_fdopen = (\<lambda>_. True), te_pem = (\<lambda>_ pem. (True, pem)), te_pair = (\<lambda>_ _. True)\<rparr>"

definition demo_tls_cfg :: config where
  "demo_tls_cfg = rpsiod_config_defaults\<lparr>cfg_sites := [site_defaults, site_defaults\<lparr>site_ssl_enabled := True,
     site_domains := [''a.b'', ''c.d''], site_ssl_storage := ''/tls''\<rparr>]\<rparr>"

theorem tls_context_private_witness:
  "\<exists>fs'. rpsiod_tls_create_context demo_tls_env demo_tls_cfg (\<lambda>_. None) = (Some (''CDNS:a.b,DNS:c.d'', ''Ka.b''), fs') \<and>
     (\<exists>kf. fs' ''/tls/key.pem'' = Some kf \<and> tf_mode kf AND 0x3F = 0)"
proof -
  let ?r = "rpsiod_tls_create_context demo_tls_env demo_tls_cfg (\<lambda>_. None)"
  have "fst ?r = Some (''CDNS:a.b,DNS:c.d'', ''Ka.b'')" by code_simp
  then obtain fs' where r: "?r = (Some (''CDNS:a.b,DNS:c.d'', ''Ka.b''), fs')" by (metis prod.collapse)
  have "map_option tls_paths_for_site (List.find serves_tls (cfg_sites demo_tls_cfg)) =
      Some (Some (''/tls/cert.pem'', ''/tls/key.pem''))" by code_simp
  with tls_context_private [OF r] r show ?thesis by auto
qed

text \<open>
  the protocol is the client's best one: for every well-formed list of protocol names, HTTP/2
  is chosen exactly when it is offered, HTTP/1.1 exactly when only it is, and nothing
  otherwise.
\<close>

theorem alpn_select_best:
  assumes "list_all (\<lambda>p. length p < 256) ps"
  shows "alpn_select_cb (alpn_list ps) =
    (if ''h2'' \<in> set ps then Some ''h2'' else if ''http/1.1'' \<in> set ps then Some ''http/1.1'' else None)"
  unfolding alpn_select_cb_def alpn_offers_list [OF assms] ..

theorem alpn_select_best_witness:
  "alpn_select_cb (alpn_list [''http/1.1'', ''h2'']) = Some ''h2''"
  using alpn_select_best [of "[''http/1.1'', ''h2'']"] by simp

section \<open>Limits\<close>

definition san_item :: "string \<Rightarrow> string" where
  "san_item d = '',DNS:'' @ d"

definition san_text :: "string list \<Rightarrow> string" where
  "san_text ds = (case ds of [] \<Rightarrow> [] | d # ds' \<Rightarrow> ''DNS:'' @ d @ concat (map san_item ds'))"

lemma san_loop_next: "san_loop False used (d # ds) =
    (if 1024 - length used \<le> length (san_item d) then used @ take (1023 - length used) (san_item d)
     else san_loop False (used @ san_item d) ds)"
  by (simp add: san_item_def Let_def)

lemma san_loop_first: "san_loop True [] (d # ds) =
    (if 1024 \<le> length (''DNS:'' @ d) then take 1023 (''DNS:'' @ d) else san_loop False (''DNS:'' @ d) ds)"
  by (simp add: Let_def)

lemma san_loop_rest:
  "length used < 1024 \<Longrightarrow> san_loop False used ds = take 1023 (used @ concat (map san_item ds))"
proof (induction ds arbitrary: used)
  case (Cons d ds)
  show ?case
  proof (cases "1024 - length used \<le> length (san_item d)")
    case True
    with Cons.prems have "1023 - length used \<le> length (san_item d)" by simp
    with True Cons.prems show ?thesis unfolding san_loop_next by simp
  next
    case False
    with Cons.prems have "length (used @ san_item d) < 1024" by simp
    from Cons.IH [OF this] False show ?thesis unfolding san_loop_next by simp
  qed
qed simp

text \<open>
  The alternative names are cut at 1023 bytes, in the middle of a name if need be: the
  certificate then covers a name that is none of the site's.
\<close>

lemma san_cut: "san_loop True [] ds = take 1023 (san_text ds)"
proof (cases ds)
  case (Cons d ds')
  let ?i = "''DNS:'' @ d"
  have t: "san_text ds = ?i @ concat (map san_item ds')" by (simp add: san_text_def Cons)
  show ?thesis
  proof (cases "1024 \<le> length ?i")
    case True
    then have "take 1023 (?i @ concat (map san_item ds')) = take 1023 ?i" by (simp del: append_assoc)
    with True show ?thesis unfolding t unfolding Cons san_loop_first by simp
  next
    case False
    with san_loop_rest [of ?i ds'] show ?thesis unfolding t unfolding Cons san_loop_first by simp
  qed
qed (simp add: san_text_def)

text \<open>
  One context serves all sites: whatever the other sites' files hold, the certificate is that
  of the first one.
\<close>

lemma context_of_first_site:
  "serves_tls s \<Longrightarrow> context_loop env (s # ss) fs = context_loop env [s] fs"
  by simp

text \<open>
  When writing the certificate fails behind the key, both files remain: they are readable, so
  they are never generated again, and they do not match.
\<close>

lemma failed_generation_sticks:
  assumes "tls_paths_for_site site = Some (cert, key)" and "readable fs cert" and "readable fs key"
    and "\<not> pair_accepted env fs cert key" and "serves_tls site" and "site \<in> set (cfg_sites cfg)"
  shows "rpsiod_tls_create_context env cfg fs = (None, fs)"
proof -
  have "\<not> material_ok env fs site"
    using assms(1-4) by (auto simp: material_ok_def readable_def pair_accepted_def split: option.splits)
  with validate_material_None [OF _ assms(6,5)] show ?thesis
    by (auto simp: rpsiod_tls_create_context_def)
qed

end
