(* ===== verification/BenchPage.thy ===== *)
theory BenchPage
  imports Http2Text Proxy "HOL-Library.Multiset"
begin

text \<open>
  The page benchmark of \<open>src/bench.c\<close>: the target URL, one HTTP/1.1 exchange, the assets found in
  the page, and the worker threads that fetch them.  Times are left out; a connection that is
  already open is an \<open>io\<close> state.  The threads are a step relation, so a theorem about its runs
  holds for every interleaving.
\<close>

section \<open>The target\<close>

record page_target =
  pt_connect_host :: string
  pt_host_header :: string
  pt_path :: string
  pt_port :: u16

definition split_port :: "string \<Rightarrow> string \<times> u16" where
  "split_port host_port =
     (case strrchr (CHR '':'') host_port of
        None \<Rightarrow> (host_port, 80)
      | Some (host, rest) \<Rightarrow>
          if CHR '']'' \<in> set (tl rest) then (host_port, 80)
          else (host, case strtol (tl rest) of
                  None \<Rightarrow> 80
                | Some (n, _) \<Rightarrow> if 0 < n \<and> n \<le> 65535 then word_of_int n else 80))"

definition parse_http_url :: "string \<Rightarrow> string option \<Rightarrow> page_target option" where
  "parse_http_url url host_override =
     (if \<not> starts_with url ''http://'' then None
      else
        let host_port = takeWhile (\<lambda>c. c \<noteq> CHR ''/'') (drop 7 url);
            path = dropWhile (\<lambda>c. c \<noteq> CHR ''/'') (drop 7 url) in
        if host_port = [] \<or> 256 \<le> length host_port then None
        else case split_port host_port of (host, port) \<Rightarrow>
          Some \<lparr>pt_connect_host = safe_copy 256 host,
                pt_host_header = safe_copy 256 (case host_override of None \<Rightarrow> host | Some h \<Rightarrow> h),
                pt_path = safe_copy 2048 (if path = [] then ''/'' else path), pt_port = port\<rparr>)"

section \<open>One exchange\<close>

record page_asset =
  pa_path :: string
  pa_kind :: string
  pa_status :: int
  pa_bytes :: u64
  pa_connection_id :: nat
  pa_reused :: bool
  pa_failed :: bool
  pa_cacheable :: bool
  pa_cache_control :: string
  pa_etag :: string
  pa_last_modified :: string
  pa_content_encoding :: string

definition new_asset :: "string \<Rightarrow> string \<Rightarrow> page_asset" where
  "new_asset path kind =
     \<lparr>pa_path = safe_copy 2048 path, pa_kind = safe_copy 16 kind, pa_status = 0, pa_bytes = 0, pa_connection_id = 0,
      pa_reused = False, pa_failed = False, pa_cacheable = False, pa_cache_control = [], pa_etag = [],
      pa_last_modified = [], pa_content_encoding = []\<rparr>"

text \<open>\<open>header_value_dup\<close>; \<open>None\<close> leaves an empty string in the buffer.\<close>

function header_value_dup :: "string \<Rightarrow> string \<Rightarrow> nat \<Rightarrow> string option" where
  "header_value_dup headers name out_len =
     (case memmem CRLF headers of
        None \<Rightarrow> None
      | Some (line, rest) \<Rightarrow>
          if CHR '':'' \<in> set line \<and> rpsiod_streq_ci (takeWhile (\<lambda>c. c \<noteq> CHR '':'') line) name
          then Some (take (out_len - 1) (trim is_ows (tl (dropWhile (\<lambda>c. c \<noteq> CHR '':'') line))))
          else header_value_dup (drop 2 rest) name out_len)"
  by pat_completeness auto
termination
  by (relation "measure (\<lambda>(headers, name, out_len). length headers)")
     (auto dest!: memmem_Some simp: starts_with_iff)

declare header_value_dup.simps [simp del]

definition header_or_empty :: "string \<Rightarrow> string \<Rightarrow> nat \<Rightarrow> string" where
  "header_or_empty headers name out_len =
     (case header_value_dup headers name out_len of None \<Rightarrow> [] | Some v \<Rightarrow> v)"

fun strcasestr_found :: "string \<Rightarrow> string \<Rightarrow> bool" where
  "strcasestr_found [] p \<longleftrightarrow> p = []"
| "strcasestr_found (c # s) p \<longleftrightarrow> starts_with_ci (c # s) p \<or> strcasestr_found s p"

definition response_wants_close :: "string \<Rightarrow> bool" where
  "response_wants_close headers =
     (case header_value_dup headers ''Connection'' 64 of None \<Rightarrow> False | Some v \<Rightarrow> strcasestr_found v ''close'')"

definition response_content_length :: "string \<Rightarrow> u64 option" where
  "response_content_length headers =
     map_option (\<lambda>v. case strtoull v of None \<Rightarrow> 0 | Some (n, _) \<Rightarrow> n) (header_value_dup headers ''Content-Length'' 64)"

definition PAGE_HTML_MAX :: nat where "PAGE_HTML_MAX = 8388608"

text \<open>
  The state of the read loop: the header buffer of 32768 bytes, whether the header is complete,
  the announced length, \<open>close_after\<close>, the body collected for the caller (\<open>None\<close>: \<open>NULL\<close>).
\<close>

record fetch_state =
  fe_header :: string
  fe_saw :: bool
  fe_length :: "u64 option"
  fe_close :: bool
  fe_body :: "string option"
  fe_asset :: page_asset

definition asset_headers :: "string \<Rightarrow> page_asset \<Rightarrow> page_asset" where
  "asset_headers header a =
     (let cc = header_or_empty header ''Cache-Control'' 256; et = header_or_empty header ''ETag'' 128;
          lm = header_or_empty header ''Last-Modified'' 128 in
      a\<lparr>pa_status := (case scan_status header of None \<Rightarrow> pa_status a | Some n \<Rightarrow> n),
        pa_cache_control := cc, pa_etag := et, pa_last_modified := lm,
        pa_content_encoding := header_or_empty header ''Content-Encoding'' 64,
        pa_cacheable := (et \<noteq> [] \<or> lm \<noteq> [] \<or> cc \<noteq> [] \<and> \<not> strcasestr_found cc ''no-store'')\<rparr>)"

definition add_chunk :: "bool \<Rightarrow> string \<Rightarrow> fetch_state \<Rightarrow> fetch_state" where
  "add_chunk want_body piece s =
     (if piece = [] then s
      else
        let have = (case fe_body s of None \<Rightarrow> [] | Some b \<Rightarrow> b) in
        s\<lparr>fe_asset := (fe_asset s)\<lparr>pa_bytes := pa_bytes (fe_asset s) + word_of_nat (length piece)\<rparr>,
          fe_body := (if want_body \<and> length have + length piece \<le> PAGE_HTML_MAX then Some (have @ piece)
                      else fe_body s)\<rparr>)"

text \<open>\<open>None\<close>: the header does not fit its buffer.\<close>

definition fetch_chunk :: "bool \<Rightarrow> string \<Rightarrow> fetch_state \<Rightarrow> fetch_state option" where
  "fetch_chunk want_body buf s =
     (if fe_saw s then Some (add_chunk want_body buf s)
      else
        let before = length (fe_header s); copy = min (length buf) (32767 - before);
            header = fe_header s @ take copy buf in
        case memmem (CRLF @ CRLF) (cstr header) of
          None \<Rightarrow> if length header = 32767 then None else Some (s\<lparr>fe_header := header\<rparr>)
        | Some (head, _) \<Rightarrow>
            (let bytes = length head + 4; text = cstr header in
             Some (add_chunk want_body (drop (min (bytes - before) copy) buf)
               (s\<lparr>fe_header := header, fe_saw := True, fe_length := response_content_length text,
                  fe_close := response_wants_close text, fe_asset := asset_headers text (fe_asset s)\<rparr>))))"

definition fetch_done :: "fetch_state \<Rightarrow> bool" where
  "fetch_done s \<longleftrightarrow> fe_saw s \<and> (case fe_length s of None \<Rightarrow> False | Some n \<Rightarrow> n \<le> pa_bytes (fe_asset s))"

text \<open>The return value is -1, 0, or 1 when the connection is to be closed.\<close>

function fetch_loop :: "bool \<Rightarrow> fetch_state \<Rightarrow> io \<Rightarrow> int \<times> fetch_state \<times> io" where
  "fetch_loop want_body s up =
     (case sys_read 32768 up of
        ((EINTR, _), up') \<Rightarrow> fetch_loop want_body s up'
      | ((Count _, buf), up') \<Rightarrow>
          if buf = [] then (1, s\<lparr>fe_close := True\<rparr>, up')
          else (case fetch_chunk want_body buf s of
             None \<Rightarrow> (- 1, s, up')
           | Some s' \<Rightarrow> if fetch_done s' then (if fe_close s' then 1 else 0, s', up') else fetch_loop want_body s' up')
      | (_, up') \<Rightarrow> (- 1, s, up'))"
  by pat_completeness auto
termination
  by (relation "measure (\<lambda>(want_body, s, up). length (io_in up) + length (io_events up))")
     (auto dest: sys_read_progress [OF sym])

declare fetch_loop.simps [simp del]

definition page_request :: "page_target \<Rightarrow> string \<Rightarrow> bool \<Rightarrow> string" where
  "page_request target path accept_compressed =
     ''GET '' @ path @ '' HTTP/1.1'' @ CRLF @ ''Host: '' @ pt_host_header target @ CRLF @
     ''User-Agent: rpsiod-bench-page/1.0'' @ CRLF @ ''Accept: */*'' @ CRLF @
     (if accept_compressed then ''Accept-Encoding: br, gzip'' @ CRLF else []) @
     ''Connection: keep-alive'' @ CRLF @ CRLF"

definition fetch_asset_on_fd ::
  "page_target \<Rightarrow> page_asset \<Rightarrow> bool \<Rightarrow> bool \<Rightarrow> io \<Rightarrow> int \<times> page_asset \<times> string option \<times> io" where
  "fetch_asset_on_fd target asset accept_compressed want_body up =
     (let req = page_request target (pa_path asset) accept_compressed in
      if 4096 \<le> length req then (- 1, asset, None, up)
      else case rpsiod_write_all req up of (ok, up1) \<Rightarrow>
        if \<not> ok then (- 1, asset, None, up1)
        else case fetch_loop want_body
            \<lparr>fe_header = [], fe_saw = False, fe_length = None, fe_close = False, fe_body = None, fe_asset = asset\<rparr> up1 of
          (rc, s, up2) \<Rightarrow> (rc, fe_asset s, if rc < 0 then None else fe_body s, up2))"

section \<open>Assets of the page\<close>

definition path_extension :: "string \<Rightarrow> string" where
  "path_extension path =
     (case strrchr (CHR ''.'') (takeWhile (\<lambda>c. c \<noteq> CHR ''?'') path) of
        None \<Rightarrow> []
      | Some (before, _) \<Rightarrow> drop (length before) path)"

definition image_extensions :: "string list" where
  "image_extensions = [''.png'', ''.jpg'', ''.jpeg'', ''.gif'', ''.svg'', ''.webp'']"

definition classify_asset :: "string \<Rightarrow> string option" where
  "classify_asset path =
     (let ext = path_extension path in
      if rpsiod_streq_ci ext ''.css'' then Some ''css''
      else if rpsiod_streq_ci ext ''.js'' then Some ''js''
      else if list_ex (rpsiod_streq_ci ext) image_extensions then Some ''image''
      else if rpsiod_streq_ci ext ''.ico'' \<or> strcasestr_found path ''favicon'' then Some ''favicon''
      else None)"

definition foreign_url :: "string \<Rightarrow> bool" where
  "foreign_url url \<longleftrightarrow> url = [] \<or> hd url = CHR ''#'' \<or>
     list_ex (starts_with url) [''data:'', ''mailto:'', ''javascript:'', ''//'']"

text \<open>The path of a URL on the target's host; relative ones are kept.\<close>

definition same_host_path :: "page_target \<Rightarrow> string \<Rightarrow> string option" where
  "same_host_path target url =
     (if starts_with url ''http://'' then
        (let host = takeWhile (\<lambda>c. c \<noteq> CHR ''/'') (drop 7 url); path = dropWhile (\<lambda>c. c \<noteq> CHR ''/'') (drop 7 url) in
         if \<not> rpsiod_streq_ci host (pt_host_header target) then None
         else Some (if path = [] then ''/'' else path))
      else if starts_with url ''https://'' then None
      else Some url)"

definition base_dir :: "string \<Rightarrow> string" where
  "base_dir base_path =
     (case strrchr (CHR ''/'') (takeWhile (\<lambda>c. c \<noteq> CHR ''?'') (safe_copy 2048 base_path)) of
        None \<Rightarrow> ''/''
      | Some (before, _) \<Rightarrow> before @ ''/'')"

definition resolve_asset_url :: "page_target \<Rightarrow> string \<Rightarrow> string \<Rightarrow> string option" where
  "resolve_asset_url target base_path url =
     (if foreign_url url then None
      else case same_host_path target url of
        None \<Rightarrow> None
      | Some path \<Rightarrow>
          (case (if path \<noteq> [] \<and> hd path = CHR ''/'' then Some (safe_copy 2048 path)
                 else let t = base_dir base_path @ path in if 2048 \<le> length t then None else Some t) of
             None \<Rightarrow> None
           | Some t \<Rightarrow>
               (let t1 = takeWhile (\<lambda>c. c \<noteq> CHR ''#'') t in
                if t1 = [] \<or> hd t1 \<noteq> CHR ''/'' then None else Some (safe_copy 2048 t1))))"

definition PAGE_MAX_ASSETS :: nat where "PAGE_MAX_ASSETS = 2048"

definition add_page_asset :: "string \<Rightarrow> string \<Rightarrow> page_asset list \<Rightarrow> page_asset list" where
  "add_page_asset path kind assets =
     (if PAGE_MAX_ASSETS \<le> length assets \<or> list_ex (\<lambda>a. pa_path a = path) assets then assets
      else assets @ [new_asset path kind])"

definition html_space :: "char \<Rightarrow> bool" where
  "html_space c \<longleftrightarrow> is_ows c \<or> c = CR \<or> c = LF"

definition asset_value :: "page_target \<Rightarrow> string \<Rightarrow> page_asset list \<Rightarrow> page_asset list" where
  "asset_value target v assets =
     (if v = [] \<or> 2048 \<le> length v then assets
      else case resolve_asset_url target (pt_path target) v of
        None \<Rightarrow> assets
      | Some path \<Rightarrow> (case classify_asset path of None \<Rightarrow> assets | Some kind \<Rightarrow> add_page_asset path kind assets))"

text \<open>The text behind \<open>href\<close> or \<open>src\<close> and its equals sign: the attribute value and what follows it.\<close>

definition attr_value :: "string \<Rightarrow> (string \<times> string) option" where
  "attr_value attr =
     (let a = dropWhile html_space attr in
      if a = [] \<or> hd a \<noteq> CHR ''='' then None
      else
        let b = dropWhile html_space (tl a) in
        if b \<noteq> [] \<and> hd b \<in> {CHR 0x22, CHR 0x27}
        then Some (takeWhile (\<lambda>c. c \<noteq> hd b) (tl b), dropWhile (\<lambda>c. c \<noteq> hd b) (tl b))
        else Some (takeWhile (\<lambda>c. \<not> html_space c \<and> c \<noteq> CHR ''>'') b,
                   dropWhile (\<lambda>c. \<not> html_space c \<and> c \<noteq> CHR ''>'') b))"

definition attr_at :: "string \<Rightarrow> (string \<times> string) option" where
  "attr_at p =
     (if starts_with_ci p ''href'' then attr_value (drop 4 p)
      else if starts_with_ci p ''src'' then attr_value (drop 3 p)
      else None)"

lemma attr_value_shorter: "attr_value attr = Some (v, rest) \<Longrightarrow> length rest < length attr"
proof -
  assume a: "attr_value attr = Some (v, rest)"
  let ?a = "dropWhile html_space attr" and ?b = "dropWhile html_space (tl (dropWhile html_space attr))"
  have n: "?a \<noteq> []" using a by (auto simp: attr_value_def Let_def split: if_splits)
  note u = a [unfolded attr_value_def Let_def]
  have "length rest \<le> length ?b"
  proof (cases "?b \<noteq> [] \<and> hd ?b \<in> {CHR 0x22, CHR 0x27}")
    case True
    then have "rest = dropWhile (\<lambda>c. c \<noteq> hd ?b) (tl ?b)" using u n by (simp split: if_splits)
    moreover have "length (dropWhile (\<lambda>c. c \<noteq> hd ?b) (tl ?b)) \<le> length (tl ?b)" by (rule length_dropWhile_le)
    ultimately show ?thesis by simp
  next
    case False
    then have "rest = dropWhile (\<lambda>c. \<not> html_space c \<and> c \<noteq> CHR ''>'') ?b" using u n by (auto split: if_splits)
    then show ?thesis using length_dropWhile_le by blast
  qed
  also have "\<dots> \<le> length (tl ?a)" by (rule length_dropWhile_le)
  also have "\<dots> < length ?a" using n by simp
  also have "\<dots> \<le> length attr" by (rule length_dropWhile_le)
  finally show ?thesis .
qed

text \<open>\<open>strpbrk (p, "hsHS")\<close>\<close>

definition attr_start :: "char \<Rightarrow> bool" where
  "attr_start c \<longleftrightarrow> c \<in> set ''hsHS''"

function parse_html_assets :: "page_target \<Rightarrow> page_asset list \<Rightarrow> string \<Rightarrow> page_asset list" where
  "parse_html_assets target assets html =
     (case dropWhile (\<lambda>c. \<not> attr_start c) html of
        [] \<Rightarrow> assets
      | c # p \<Rightarrow>
          (case attr_at (c # p) of
             None \<Rightarrow> parse_html_assets target assets p
           | Some (v, rest) \<Rightarrow> parse_html_assets target (asset_value target v assets) rest))"
  by pat_completeness auto
termination
proof (relation "measure (\<lambda>(target, assets, html). length html)", goal_cases)
  case (2 target assets html c p)
  have "length (c # p) \<le> length html" using length_dropWhile_le [of _ html] 2 by metis
  then show ?case by simp
next
  case (3 target assets html c p x v rest)
  have "length (c # p) \<le> length html" using length_dropWhile_le [of _ html] 3(1) by metis
  moreover have "length rest < length (c # p)"
    using 3(2) [symmetric] 3(3) attr_value_shorter [of "drop 4 (c # p)" v rest] attr_value_shorter [of "drop 3 (c # p)" v rest]
    by (auto simp: attr_at_def split: if_splits)
  ultimately show ?case by simp
qed simp

declare parse_html_assets.simps [simp del]

section \<open>The assets are well-formed\<close>

definition assets_ok :: "page_asset list \<Rightarrow> bool" where
  "assets_ok assets \<longleftrightarrow> length assets \<le> PAGE_MAX_ASSETS \<and> distinct (map pa_path assets) \<and>
     list_all (\<lambda>a. starts_with (pa_path a) ''/'' \<and> length (pa_path a) < 2048) assets"

lemma resolved_path:
  assumes "resolve_asset_url target base url = Some path"
  shows "starts_with path ''/'' \<and> length path < 2048"
proof -
  obtain t where "t \<noteq> []" "hd t = CHR ''/''" "path = safe_copy 2048 t"
    using assms by (auto simp: resolve_asset_url_def Let_def split: if_splits option.splits)
  then show ?thesis using length_safe_copy [of 2048 t] by (cases t) (auto simp: safe_copy_def starts_with_def)
qed

lemma asset_value_ok: "assets_ok assets \<Longrightarrow> assets_ok (asset_value target v assets)"
proof -
  assume ok: "assets_ok assets"
  show ?thesis
  proof (cases "resolve_asset_url target (pt_path target) v")
    case (Some path)
    note r = resolved_path [OF Some]
    then have "pa_path (new_asset path kind) = path" for kind by (simp add: new_asset_def safe_copy_id)
    with ok Some r show ?thesis
      by (auto simp: asset_value_def add_page_asset_def assets_ok_def list_ex_iff split: option.split)
  qed (simp add: ok asset_value_def)
qed

lemma parse_html_assets_ok: "assets_ok assets \<Longrightarrow> assets_ok (parse_html_assets target assets html)"
proof (induction target assets html rule: parse_html_assets.induct)
  case (1 target assets html)
  show ?case
  proof (cases "dropWhile (\<lambda>c. \<not> attr_start c) html")
    case Nil
    show ?thesis unfolding parse_html_assets.simps [of target assets html] Nil using 1(3) by simp
  next
    case (Cons c p)
    show ?thesis
    proof (cases "attr_at (c # p)")
      case None
      with 1(1) [OF Cons None 1(3)] Cons show ?thesis by (simp add: parse_html_assets.simps [of target assets html])
    next
      case (Some vr)
      obtain v rest where vr: "vr = (v, rest)" by (rule prod.exhaust)
      from 1(2) [OF Cons Some vr [symmetric] asset_value_ok [OF 1(3)]] Cons Some vr
      show ?thesis by (simp add: parse_html_assets.simps [of target assets html])
    qed
  qed
qed

section \<open>The worker threads\<close>

text \<open>
  A worker is at the top of its loop, has taken an index, has seen that none is left, or has
  returned.  Taking an index happens under the lock.  What it does with the asset concerns that
  asset and its own connection; the counters it increments under the lock are only read when
  all workers have been joined.  So one step does all of it.
\<close>

datatype page_phase = Fetching | Holding nat | Stopping | Returned

record page_worker =
  pw_connection_id :: nat
  pw_connected :: bool
  pw_requests :: nat
  pw_phase :: page_phase

text \<open>\<open>pc_fetched\<close> is a history of the indices in the order they were handled; the program has none.\<close>

record page_context =
  pc_assets :: "page_asset list"
  pc_next :: nat
  pc_accepted :: nat
  pc_closed :: nat
  pc_reused :: nat
  pc_failed :: nat
  pc_workers :: "page_worker list"
  pc_fetched :: "nat list"

text \<open>
  \<open>connected\<close>: the worker has a connection, or makes one; \<open>rc\<close> and \<open>a\<close> are what
  \<open>fetch_asset_on_fd\<close> returns.
\<close>

definition handle_asset :: "bool \<Rightarrow> int \<Rightarrow> page_asset \<Rightarrow> nat \<Rightarrow> page_worker \<Rightarrow> nat \<Rightarrow> page_context \<Rightarrow> page_context" where
  "handle_asset connects fetch_rc a i w idx ctx =
     (let fresh = \<not> pw_connected w \<and> connects;
          connected = pw_connected w \<or> connects;
          requests = (if fresh then 0 else pw_requests w);
          reused = 0 < requests;
          rc = (if connected then fetch_rc else - 1);
          closes = connected \<and> rc \<noteq> 0;
          fetched = (if connected then a else pc_assets ctx ! idx) in
      ctx\<lparr>pc_assets := (pc_assets ctx)[idx := fetched\<lparr>pa_path := pa_path (pc_assets ctx ! idx), pa_kind := pa_kind (pc_assets ctx ! idx),
              pa_connection_id := pw_connection_id w, pa_reused := reused, pa_failed := rc < 0\<rparr>],
          pc_accepted := pc_accepted ctx + (if fresh then 1 else 0),
          pc_closed := pc_closed ctx + (if closes then 1 else 0),
          pc_reused := pc_reused ctx + (if reused then 1 else 0),
          pc_failed := pc_failed ctx + (if rc < 0 then 1 else 0),
          pc_workers := (pc_workers ctx)[i := w\<lparr>pw_connected := connected \<and> \<not> closes, pw_requests := requests + 1,
              pw_phase := Fetching\<rparr>],
          pc_fetched := pc_fetched ctx @ [idx]\<rparr>)"

definition take_index :: "nat \<Rightarrow> page_context \<Rightarrow> page_context" where
  "take_index i ctx =
     ctx\<lparr>pc_next := pc_next ctx + 1,
         pc_workers := (pc_workers ctx)[i := (pc_workers ctx ! i)\<lparr>pw_phase :=
           if pc_next ctx < length (pc_assets ctx) then Holding (pc_next ctx) else Stopping\<rparr>]\<rparr>"

definition stop_worker :: "nat \<Rightarrow> page_context \<Rightarrow> page_context" where
  "stop_worker i ctx =
     ctx\<lparr>pc_closed := pc_closed ctx + (if pw_connected (pc_workers ctx ! i) then 1 else 0),
         pc_workers := (pc_workers ctx)[i := (pc_workers ctx ! i)\<lparr>pw_connected := False, pw_phase := Returned\<rparr>]\<rparr>"

inductive page_step :: "page_context \<Rightarrow> page_context \<Rightarrow> bool" where
  take: "i < length (pc_workers ctx) \<Longrightarrow> pw_phase (pc_workers ctx ! i) = Fetching \<Longrightarrow> page_step ctx (take_index i ctx)"
| handle: "i < length (pc_workers ctx) \<Longrightarrow> pw_phase (pc_workers ctx ! i) = Holding idx \<Longrightarrow>
     page_step ctx (handle_asset connects rc a i (pc_workers ctx ! i) idx ctx)"
| stop: "i < length (pc_workers ctx) \<Longrightarrow> pw_phase (pc_workers ctx ! i) = Stopping \<Longrightarrow> page_step ctx (stop_worker i ctx)"

inductive_simps page_step_iff: "page_step ctx ctx'"

text \<open>
  The workers are started behind the fetch of the page itself: asset 0 is done, one connection
  was made and possibly closed again.
\<close>

definition start_workers :: "page_asset list \<Rightarrow> nat \<Rightarrow> nat \<Rightarrow> page_context" where
  "start_workers assets closed concurrency =
     (let most = (if 1 < length assets then length assets - 1 else 1); workers = min concurrency most in
      \<lparr>pc_assets = assets, pc_next = 1, pc_accepted = 1, pc_closed = closed, pc_reused = 0, pc_failed = 0,
       pc_workers = map (\<lambda>i. \<lparr>pw_connection_id = i + 2, pw_connected = False, pw_requests = 0, pw_phase = Fetching\<rparr>) [0..<workers],
       pc_fetched = []\<rparr>)"

definition page_done :: "page_context \<Rightarrow> bool" where
  "page_done ctx \<longleftrightarrow> list_all (\<lambda>w. pw_phase w = Returned) (pc_workers ctx)"

text \<open>The number of failures that the report prints.\<close>

definition page_failures :: "page_context \<Rightarrow> nat" where
  "page_failures ctx = pc_failed ctx + length (filter pa_failed (pc_assets ctx))"

subsection \<open>Every asset is fetched once\<close>

definition held :: "page_worker \<Rightarrow> nat list" where
  "held w = (case pw_phase w of Holding i \<Rightarrow> [i] | _ \<Rightarrow> [])"

definition open_connections :: "page_context \<Rightarrow> nat" where
  "open_connections ctx = length (filter pw_connected (pc_workers ctx))"

definition indices :: "nat \<Rightarrow> nat \<Rightarrow> nat multiset" where
  "indices k n = mset [1..<min k n]"

definition page_inv :: "page_asset list \<Rightarrow> nat \<Rightarrow> page_context \<Rightarrow> bool" where
  "page_inv assets closed ctx \<longleftrightarrow>
     mset (pc_fetched ctx) + mset (concat (map held (pc_workers ctx))) =
       indices (pc_next ctx) (length assets) \<and>
     1 \<le> pc_next ctx \<and> length (pc_assets ctx) = length assets \<and>
     map pa_path (pc_assets ctx) = map pa_path assets \<and>
     pc_accepted ctx + closed = pc_closed ctx + 1 + open_connections ctx \<and>
     list_all (\<lambda>w. pw_phase w = Returned \<longrightarrow> \<not> pw_connected w) (pc_workers ctx)"

lemma concat_held_update:
  assumes "i < length ws"
  shows "mset (concat (map held (ws[i := w]))) + mset (held (ws ! i)) = mset (concat (map held ws)) + mset (held w)"
  using assms
proof (induction ws arbitrary: i)
  case (Cons u ws)
  then show ?case
  proof (cases i)
    case (Suc j)
    with Cons show ?thesis by simp
  qed simp
qed simp

lemma open_update:
  assumes "i < length ws"
  shows "length (filter pw_connected (ws[i := w])) + (if pw_connected (ws ! i) then 1 else 0) =
    length (filter pw_connected ws) + (if pw_connected w then 1 else 0)"
  using assms
proof (induction ws arbitrary: i)
  case (Cons u ws)
  then show ?case by (cases i) auto
qed simp

lemma list_all_update_at:
  "list_all P xs \<Longrightarrow> P x \<Longrightarrow> list_all P (xs[i := x])"
  by (auto simp: list_all_iff dest!: set_update_subset_insert [THEN subsetD])

lemma next_indices: "1 \<le> k \<Longrightarrow> indices (Suc k) n = indices k n + (if k < n then {#k#} else {#})"
  by (cases "k < n") (simp_all add: indices_def min_def del: mset_upt)

text \<open>What handling an asset changes.\<close>

lemma handle_asset_fields:
  fixes ctx w idx connects rc a i
  defines "ctx' \<equiv> handle_asset connects rc a i w idx ctx"
  obtains x w' where "pc_assets ctx' = (pc_assets ctx)[idx := x]" and "pa_path x = pa_path (pc_assets ctx ! idx)"
    and "pc_workers ctx' = (pc_workers ctx)[i := w']" and "pw_phase w' = Fetching"
    and "pc_next ctx' = pc_next ctx" and "pc_fetched ctx' = pc_fetched ctx @ [idx]"
    and "pc_accepted ctx' + pc_closed ctx + (if pw_connected w then 1 else 0) =
      pc_accepted ctx + pc_closed ctx' + (if pw_connected w' then 1 else 0)"
    and "pc_failed ctx' = pc_failed ctx + (if pa_failed x then 1 else 0)"
proof -
  let ?fresh = "\<not> pw_connected w \<and> connects" and ?conn = "pw_connected w \<or> connects"
  let ?req = "if ?fresh then 0 else pw_requests w" and ?rc = "if ?conn then rc else - 1"
  let ?x = "(if ?conn then a else pc_assets ctx ! idx)\<lparr>pa_path := pa_path (pc_assets ctx ! idx),
    pa_kind := pa_kind (pc_assets ctx ! idx), pa_connection_id := pw_connection_id w, pa_reused := 0 < ?req, pa_failed := ?rc < 0\<rparr>"
  let ?w = "w\<lparr>pw_connected := ?conn \<and> \<not> (?conn \<and> ?rc \<noteq> 0), pw_requests := ?req + 1, pw_phase := Fetching\<rparr>"
  show thesis
  proof (rule that [of ?x ?w])
    show "pc_assets ctx' = (pc_assets ctx)[idx := ?x]" unfolding ctx'_def handle_asset_def Let_def by simp
    show "pc_workers ctx' = (pc_workers ctx)[i := ?w]" unfolding ctx'_def handle_asset_def Let_def by simp
  qed (simp_all add: ctx'_def handle_asset_def Let_def)
qed

lemma page_inv_step:
  assumes "page_step ctx ctx'" and "page_inv assets closed ctx"
  shows "page_inv assets closed ctx'"
  using assms(1)
proof cases
  case (take i)
  let ?w = "pc_workers ctx ! i"
  let ?w' = "?w\<lparr>pw_phase := if pc_next ctx < length (pc_assets ctx) then Holding (pc_next ctx) else Stopping\<rparr>"
  have h: "held ?w = []" "held ?w' = (if pc_next ctx < length (pc_assets ctx) then [pc_next ctx] else [])"
    using take(3) by (simp_all add: held_def)
  note u = concat_held_update [OF take(2), of ?w'] and o = open_update [OF take(2), of ?w']
  have "indices (Suc (pc_next ctx)) (length assets) = indices (pc_next ctx) (length assets) + mset (held ?w')"
    using next_indices [of "pc_next ctx" "length assets"] assms(2) h(2) by (simp add: page_inv_def)
  with u o h(1) assms(2) show ?thesis
    by (auto simp: take(1) take_index_def page_inv_def open_connections_def intro!: list_all_update_at)
next
  case (handle i idx connects rc a)
  let ?w = "pc_workers ctx ! i"
  obtain x w' where
    e: "pc_assets ctx' = (pc_assets ctx)[idx := x]" "pc_workers ctx' = (pc_workers ctx)[i := w']"
      "pc_next ctx' = pc_next ctx" "pc_fetched ctx' = pc_fetched ctx @ [idx]"
    and w: "pw_phase w' = Fetching" "pa_path x = pa_path (pc_assets ctx ! idx)"
    and n: "pc_accepted ctx' + pc_closed ctx + (if pw_connected ?w then 1 else 0) =
      pc_accepted ctx + pc_closed ctx' + (if pw_connected w' then 1 else 0)"
    using handle_asset_fields [of connects rc a i ?w idx ctx] handle(1) by metis
  have h: "held ?w = [idx]" "held w' = []" using handle(3) w(1) by (simp_all add: held_def)
  note u = concat_held_update [OF handle(2), of w'] and o = open_update [OF handle(2), of w']
  have p: "map pa_path ((pc_assets ctx)[idx := x]) = map pa_path (pc_assets ctx)"
    by (cases "idx < length (pc_assets ctx)") (simp_all add: map_update w(2) list_update_same_conv list_update_beyond)
  have "list_all (\<lambda>w. pw_phase w = Returned \<longrightarrow> \<not> pw_connected w) (pc_workers ctx')"
    unfolding e(2) using assms(2) w(1) by (intro list_all_update_at) (simp_all add: page_inv_def)
  moreover have "mset (concat (map held (pc_workers ctx))) = add_mset idx (mset (concat (map held ((pc_workers ctx)[i := w']))))"
    using u h by simp
  then have "mset (pc_fetched ctx @ [idx]) + mset (concat (map held ((pc_workers ctx)[i := w']))) =
      indices (pc_next ctx) (length assets)"
    using assms(2) by (simp add: page_inv_def)
  moreover have "pc_accepted ctx' + closed = pc_closed ctx' + 1 + open_connections ctx'"
    using o n assms(2) by (simp add: e(2) page_inv_def open_connections_def)
  ultimately show ?thesis
    using p assms(2) by (simp only: e page_inv_def length_list_update simp_thms)
next
  case (stop i)
  let ?w' = "(pc_workers ctx ! i)\<lparr>pw_connected := False, pw_phase := Returned\<rparr>"
  have h: "held (pc_workers ctx ! i) = []" "held ?w' = []" using stop(3) by (simp_all add: held_def)
  note u = concat_held_update [OF stop(2), of ?w'] and o = open_update [OF stop(2), of ?w']
  from u o h assms(2) show ?thesis
    by (auto simp: stop(1) stop_worker_def page_inv_def open_connections_def intro!: list_all_update_at)
qed

text \<open>Workers stop only when no index is left, and a failure is counted once in each of the two places.\<close>

definition failed_count :: "page_asset list \<Rightarrow> nat" where
  "failed_count assets = length (filter pa_failed assets)"

definition stop_inv :: "page_asset list \<Rightarrow> page_context \<Rightarrow> bool" where
  "stop_inv assets ctx \<longleftrightarrow>
     list_all (\<lambda>w. pw_phase w \<in> {Stopping, Returned} \<longrightarrow> length assets \<le> pc_next ctx) (pc_workers ctx) \<and>
     pc_failed ctx = failed_count (pc_assets ctx) \<and>
     (\<forall>j < length assets. pa_failed (pc_assets ctx ! j) \<longrightarrow> j \<in> set (pc_fetched ctx))"

lemma failed_update:
  assumes "i < length xs"
  shows "failed_count (xs[i := x]) + (if pa_failed (xs ! i) then 1 else 0) = failed_count xs + (if pa_failed x then 1 else 0)"
  using assms
proof (induction xs arbitrary: i)
  case (Cons u xs)
  then show ?case by (cases i) (auto simp: failed_count_def)
qed simp

text \<open>A held index is in range and not handled yet.\<close>

lemma held_index:
  assumes "page_inv assets closed ctx" and "i < length (pc_workers ctx)" and "pw_phase (pc_workers ctx ! i) = Holding idx"
  shows "idx < length assets \<and> idx \<notin> set (pc_fetched ctx)"
proof -
  have "idx \<in> set (held (pc_workers ctx ! i))" using assms(3) by (simp add: held_def)
  then have c: "idx \<in># mset (concat (map held (pc_workers ctx)))" using nth_mem [OF assms(2)] by auto
  have m: "mset (pc_fetched ctx) + mset (concat (map held (pc_workers ctx))) =
      mset [1..<min (pc_next ctx) (length assets)]"
    using assms(1) unfolding page_inv_def indices_def by blast
  have "idx \<in># mset [1..<min (pc_next ctx) (length assets)]" unfolding m [symmetric] using c by simp
  moreover have "distinct (pc_fetched ctx @ concat (map held (pc_workers ctx)))"
  proof -
    have "mset (pc_fetched ctx @ concat (map held (pc_workers ctx))) = mset [1..<min (pc_next ctx) (length assets)]"
      using m by (simp del: mset_upt)
    then show ?thesis by (metis distinct_upt mset_eq_imp_distinct_iff)
  qed
  ultimately show ?thesis using c by auto
qed

lemma stop_inv_step:
  assumes "page_step ctx ctx'" and "page_inv assets closed ctx" and "stop_inv assets ctx"
  shows "stop_inv assets ctx'"
  using assms(1)
proof cases
  case (take i)
  have "list_all (\<lambda>w. pw_phase w \<in> {Stopping, Returned} \<longrightarrow> length assets \<le> Suc (pc_next ctx)) (pc_workers ctx)"
    using assms(3) by (auto simp: stop_inv_def list_all_iff)
  with assms(2,3) show ?thesis
    by (auto simp: take(1) take_index_def stop_inv_def page_inv_def intro!: list_all_update_at)
next
  case (handle i idx connects rc a)
  obtain x w' where
    e: "pc_assets ctx' = (pc_assets ctx)[idx := x]" "pc_workers ctx' = (pc_workers ctx)[i := w']"
      "pc_next ctx' = pc_next ctx" "pc_fetched ctx' = pc_fetched ctx @ [idx]"
      "pc_failed ctx' = pc_failed ctx + (if pa_failed x then 1 else 0)" and w: "pw_phase w' = Fetching"
    using handle_asset_fields [of connects rc a i "pc_workers ctx ! i" idx ctx] handle(1) by metis
  have idx: "idx < length assets" "idx \<notin> set (pc_fetched ctx)" using held_index [OF assms(2) handle(2,3)] by blast+
  have l: "length (pc_assets ctx) = length assets" using assms(2) by (simp add: page_inv_def)
  have "\<not> pa_failed (pc_assets ctx ! idx)" using idx assms(3) by (auto simp: stop_inv_def)
  with failed_update [of idx "pc_assets ctx" x] idx(1) l
  have "failed_count (pc_assets ctx') = failed_count (pc_assets ctx) + (if pa_failed x then 1 else 0)" by (simp add: e(1))
  moreover have "list_all (\<lambda>w. pw_phase w \<in> {Stopping, Returned} \<longrightarrow> length assets \<le> pc_next ctx) (pc_workers ctx')"
    unfolding e(2) using assms(3) w by (intro list_all_update_at) (simp_all add: stop_inv_def)
  moreover have "j \<in> set (pc_fetched ctx @ [idx])" if "j < length assets" "pa_failed ((pc_assets ctx)[idx := x] ! j)" for j
    using that assms(3) l by (cases "j = idx") (auto simp: stop_inv_def)
  ultimately show ?thesis using assms(3) by (simp add: stop_inv_def e)
next
  case (stop i)
  then have "length assets \<le> pc_next ctx"
    using assms(3) by (auto simp: stop_inv_def list_all_iff dest!: nth_mem)
  with assms(3) show ?thesis by (auto simp: stop(1) stop_worker_def stop_inv_def intro!: list_all_update_at)
qed

lemma page_reachable:
  assumes "page_step\<^sup>*\<^sup>* (start_workers assets closed k) ctx" and "list_all (\<lambda>a. \<not> pa_failed a) assets"
  shows "page_inv assets closed ctx \<and> stop_inv assets ctx \<and>
    length (pc_workers ctx) = length (pc_workers (start_workers assets closed k))"
  using assms(1)
proof (induction rule: rtranclp_induct)
  case base
  have "concat (map held (pc_workers (start_workers assets closed k))) = []"
    by (simp add: start_workers_def Let_def held_def)
  then show ?case
    using assms(2) by (auto simp: page_inv_def stop_inv_def start_workers_def Let_def indices_def open_connections_def
        failed_count_def list_all_iff filter_empty_conv)
next
  case (step c c')
  have "length (pc_workers c') = length (pc_workers c)"
    using step.hyps(2) by cases (simp_all add: handle_asset_def take_index_def stop_worker_def Let_def)
  with step page_inv_step stop_inv_step show ?case by metis
qed

text \<open>
  C40: every asset of a page is fetched exactly once, however the worker threads interleave:
  when all of them have returned, the indices behind the page itself were handled in some
  order without repetition, every connection that was made has been closed (the page's own is
  the caller's), no path was changed, and the failures are those of the assets.
\<close>

theorem page_fetched_once:
  assumes "page_step\<^sup>*\<^sup>* (start_workers assets closed k) ctx" and "page_done ctx" and "0 < k"
    and "list_all (\<lambda>a. \<not> pa_failed a) assets"
  shows "distinct (pc_fetched ctx) \<and> set (pc_fetched ctx) = {1..<length assets} \<and>
    map pa_path (pc_assets ctx) = map pa_path assets \<and> pc_accepted ctx + closed = pc_closed ctx + 1 \<and>
    pc_failed ctx = failed_count (pc_assets ctx)"
proof -
  have inv: "page_inv assets closed ctx" "stop_inv assets ctx"
    "length (pc_workers ctx) = length (pc_workers (start_workers assets closed k))"
    using page_reachable [OF assms(1,4)] by blast+
  have n: "pc_workers ctx \<noteq> []"
    using inv(3) assms(3) by (auto simp: start_workers_def Let_def min_def split: if_splits)
  have r: "\<forall>w \<in> set (pc_workers ctx). pw_phase w = Returned" using assms(2) by (simp add: page_done_def list_all_iff)
  then have "length assets \<le> pc_next ctx"
    using inv(2) n by (cases "pc_workers ctx") (auto simp: stop_inv_def)
  then have i: "indices (pc_next ctx) (length assets) = mset [1..<length assets]"
    by (simp only: indices_def min_absorb2)
  have c: "mset (concat (map held (pc_workers ctx))) = {#}" using r by (simp add: held_def)
  have m: "mset (pc_fetched ctx) = mset [1..<length assets]"
    using inv(1) c unfolding page_inv_def i by (simp del: mset_upt mset_concat)
  have "open_connections ctx = 0"
    using r inv(1) by (auto simp: open_connections_def page_inv_def list_all_iff filter_empty_conv)
  with inv mset_eq_imp_distinct_iff [OF m] mset_eq_setD [OF m] show ?thesis
    by (auto simp: page_inv_def stop_inv_def)
qed

text \<open>The report counts every failure twice.\<close>

lemma failures_counted_twice:
  assumes "page_step\<^sup>*\<^sup>* (start_workers assets closed k) ctx" and "list_all (\<lambda>a. \<not> pa_failed a) assets"
  shows "page_failures ctx = 2 * failed_count (pc_assets ctx)"
  using page_reachable [OF assms] by (simp add: page_failures_def stop_inv_def failed_count_def)

subsection \<open>The workers return\<close>

text \<open>The work that is left; every step does some of it.\<close>

definition worker_weight :: "page_worker \<Rightarrow> nat" where
  "worker_weight w = (case pw_phase w of Fetching \<Rightarrow> 2 | Holding _ \<Rightarrow> 3 | Stopping \<Rightarrow> 1 | Returned \<Rightarrow> 0)"

definition page_weight :: "page_context \<Rightarrow> nat" where
  "page_weight ctx = 2 * (length (pc_assets ctx) - pc_next ctx) + sum_list (map worker_weight (pc_workers ctx))"

lemma weight_update:
  assumes "i < length ws"
  shows "sum_list (map worker_weight (ws[i := w])) + worker_weight (ws ! i) = sum_list (map worker_weight ws) + worker_weight w"
  using assms
proof (induction ws arbitrary: i)
  case (Cons u ws)
  then show ?case by (cases i) auto
qed simp

lemma page_step_weight:
  assumes "page_step ctx ctx'"
  shows "page_weight ctx' < page_weight ctx"
  using assms
proof cases
  case (take i)
  let ?w = "(pc_workers ctx ! i)\<lparr>pw_phase :=
    if pc_next ctx < length (pc_assets ctx) then Holding (pc_next ctx) else Stopping\<rparr>"
  have "worker_weight (pc_workers ctx ! i) = 2" "worker_weight ?w = (if pc_next ctx < length (pc_assets ctx) then 3 else 1)"
    using take(3) by (simp_all add: worker_weight_def)
  with weight_update [OF take(2), of ?w] show ?thesis
    by (simp add: take(1) take_index_def page_weight_def split: if_splits)
next
  case (handle i idx connects rc a)
  obtain x w' where e: "pc_assets ctx' = (pc_assets ctx)[idx := x]" "pc_workers ctx' = (pc_workers ctx)[i := w']"
      "pc_next ctx' = pc_next ctx" and w: "pw_phase w' = Fetching"
    using handle_asset_fields [of connects rc a i "pc_workers ctx ! i" idx ctx] handle(1) by metis
  have "worker_weight (pc_workers ctx ! i) = 3" "worker_weight w' = 2"
    using handle(3) w by (simp_all add: worker_weight_def)
  with weight_update [OF handle(2), of w'] show ?thesis by (simp add: e page_weight_def)
next
  case (stop i)
  let ?w = "(pc_workers ctx ! i)\<lparr>pw_connected := False, pw_phase := Returned\<rparr>"
  have "worker_weight (pc_workers ctx ! i) = 1" "worker_weight ?w = 0" using stop(3) by (simp_all add: worker_weight_def)
  with weight_update [OF stop(2), of ?w] show ?thesis by (simp add: stop(1) stop_worker_def page_weight_def)
qed

lemma page_progress: "\<not> page_done ctx \<Longrightarrow> \<exists>ctx'. page_step ctx ctx'"
proof -
  assume "\<not> page_done ctx"
  then obtain i where i: "i < length (pc_workers ctx)" "pw_phase (pc_workers ctx ! i) \<noteq> Returned"
    by (auto simp: page_done_def list_all_iff in_set_conv_nth)
  then show ?thesis by (cases "pw_phase (pc_workers ctx ! i)") (blast intro: page_step.intros)+
qed

text \<open>From every state the workers can all return, and no schedule keeps them running for ever.\<close>

theorem page_workers_return:
  "wfP page_step\<inverse>\<inverse> \<and> (\<exists>ctx'. page_step\<^sup>*\<^sup>* ctx ctx' \<and> page_done ctx')"
proof
  show "wfP page_step\<inverse>\<inverse>"
    by (rule wfp_if_convertible_to_nat [of _ page_weight]) (simp add: page_step_weight)
  show "\<exists>ctx'. page_step\<^sup>*\<^sup>* ctx ctx' \<and> page_done ctx'"
  proof (induction "page_weight ctx" arbitrary: ctx rule: less_induct)
    case less
    show ?case
    proof (cases "page_done ctx")
      case False
      then obtain c where c: "page_step ctx c" using page_progress by blast
      from less [OF page_step_weight [OF c]] c show ?thesis by (meson converse_rtranclp_into_rtranclp)
    qed auto
  qed
qed

definition demo_assets :: "page_asset list" where
  "demo_assets = [new_asset ''/'' ''html'', new_asset ''/a.js'' ''js'']"

definition demo_page :: page_context where
  "demo_page = stop_worker 0 (take_index 0 (handle_asset True 0 (new_asset [] []) 0
     (pc_workers (take_index 0 (start_workers demo_assets 0 6)) ! 0) 1 (take_index 0 (start_workers demo_assets 0 6))))"

theorem page_fetched_once_witness:
  "set (pc_fetched demo_page) = {1} \<and> pc_accepted demo_page = pc_closed demo_page + 1 \<and>
     map pa_path (pc_assets demo_page) = [''/'', ''/a.js'']"
proof -
  let ?c0 = "start_workers demo_assets 0 6"
  let ?c1 = "take_index 0 ?c0"
  let ?c2 = "handle_asset True 0 (new_asset [] []) 0 (pc_workers ?c1 ! 0) 1 ?c1"
  let ?c3 = "take_index 0 ?c2"
  have "0 < length (pc_workers ?c0)" "pw_phase (pc_workers ?c0 ! 0) = Fetching" by code_simp+
  then have s1: "page_step ?c0 ?c1" by (rule take)
  have "0 < length (pc_workers ?c1)" "pw_phase (pc_workers ?c1 ! 0) = Holding 1" by code_simp+
  then have s2: "page_step ?c1 ?c2" by (rule handle)
  have "0 < length (pc_workers ?c2)" "pw_phase (pc_workers ?c2 ! 0) = Fetching" by code_simp+
  then have s3: "page_step ?c2 ?c3" by (rule take)
  have "0 < length (pc_workers ?c3)" "pw_phase (pc_workers ?c3 ! 0) = Stopping" by code_simp+
  then have s4: "page_step ?c3 demo_page" unfolding demo_page_def by (rule stop)
  have r: "page_step\<^sup>*\<^sup>* ?c0 demo_page"
    using s1 s2 s3 s4 by (meson r_into_rtranclp rtranclp_trans)
  have "page_done demo_page" "list_all (\<lambda>a. \<not> pa_failed a) demo_assets" by code_simp+
  moreover have "map pa_path demo_assets = [''/'', ''/a.js'']" "length demo_assets = 2" by code_simp+
  ultimately show ?thesis using page_fetched_once [OF r] by (auto simp: atLeastLessThan_nat_numeral)
qed

text \<open>
  An asset with a query is not recognised: the extension runs to the end of the path.
\<close>

lemma query_hides_extension: "classify_asset ''/a.css?v=1'' = None" "classify_asset ''/a.css'' = Some ''css''"
  by code_simp+

end
