(* ===== verification/Loopback.thy ===== *)
theory Loopback
  imports Http2 RequestText
begin

text \<open>
  The two halves of an HTTP/2 request together: what \<open>start_loopback_request_async\<close>
  (\<open>src/http2.c\<close>) writes to the server's own port is read by \<open>rpsiod_http_parse_request\<close>
  (\<open>src/http.c\<close>) as the request of the stream.
\<close>

lemma lower_token: "is_lower (c_tolower c) \<Longrightarrow> valid_token_char c"
  by (auto simp: c_tolower_def valid_token_char_def split: if_splits)

lemma streq_valid_method:
  assumes "rpsiod_streq_ci m p" and "list_all is_lower (map c_tolower p)" and "p \<noteq> []" and "length p < METHOD_LEN"
  shows "valid_method m"
proof -
  have m: "map c_tolower m = map c_tolower p" using assms(1) by (simp add: streq_ci_iff)
  then have "length m = length p" by (rule map_eq_imp_length_eq)
  moreover have "list_all is_lower (map c_tolower m)" using assms(2) m by simp
  then have "list_all valid_token_char m" by (auto simp: list_all_iff lower_token)
  ultimately show ?thesis using assms(3,4) by (auto simp: valid_method_def)
qed

lemma h2_method_valid:
  assumes "rpsiod_streq_ci m ''GET'' \<or> rpsiod_streq_ci m ''HEAD''"
  shows "valid_method m \<and> length m \<le> 4"
proof -
  have l: "list_all is_lower (map c_tolower ''GET'')" "list_all is_lower (map c_tolower ''HEAD'')" by code_simp+
  show ?thesis
    using assms streq_valid_method [OF _ l(1)] streq_valid_method [OF _ l(2)] streq_ci_length [of m] by fastforce
qed

definition loopback_lines :: "h2_conn \<Rightarrow> h2_stream \<Rightarrow> string list" where
  "loopback_lines conn s =
     [''Host: '' @ hs_authority s, ''Connection: close'', ''X-Forwarded-Proto: https'',
      ''X-Forwarded-For: '' @ hc_client_ip conn, ''X-Rpsiod-Internal-Scheme: https'']"

lemma loopback_text:
  "hs_authority s \<noteq> [] \<Longrightarrow> loopback_request conn s a =
     crlf_lines ((hs_method s @ '' '' @ hs_path s @ '' HTTP/1.1'') # loopback_lines conn s) @ CRLF @ CRLF @ []"
  by (simp add: loopback_request_def loopback_lines_def)

definition plain_value :: "string \<Rightarrow> bool" where
  "plain_value v \<longleftrightarrow> list_all (\<lambda>c. 32 < uchar c \<and> uchar c < 127) v"

lemma plain_value_facts:
  assumes "plain_value v"
  shows "valid_header_value v" and "trim is_ows v = v" and "CR \<notin> set v" and "LF \<notin> set v"
proof -
  have c: "c \<in> set v \<Longrightarrow> header_value_char c \<and> c \<noteq> CR \<and> c \<noteq> LF \<and> \<not> is_ows c" for c
    using assms by (auto simp: plain_value_def list_all_iff header_value_char_def uchar_def)
  then show "CR \<notin> set v" "LF \<notin> set v" by blast+
  show "valid_header_value v" unfolding valid_header_value_def list_all_iff using c by blast
  show "trim is_ows v = v" by (rule trim_fixed) (use c hd_in_set last_in_set in blast)
qed

lemma loopback_headers:
  assumes "parse_host_value HOST_LEN (hs_authority s) = Some h" and "length (hs_authority s) < 256"
    and "plain_value (hc_client_ip conn)" and "length (hc_client_ip conn) < 46"
  shows "parse_header_lines (start_state r) (loopback_lines conn s) =
     Inr ((start_state (r\<lparr>r_host := h, r_keep_alive := False, r_internal_https := True\<rparr>))
       \<lparr>ps_have_host := True, ps_header_count := 5\<rparr>)"
proof -
  have n: "valid_header_name ''Connection''" "valid_header_name ''X-Forwarded-Proto''"
    "valid_header_name ''X-Forwarded-For''" "valid_header_name ''X-Rpsiod-Internal-Scheme''"
    "valid_header_value ''close''" "valid_header_value ''https''" by code_simp+
  have t: "trim is_ows ''close'' = ''close''" "trim is_ows ''https'' = ''https''" by code_simp+
  have u: "list_all (\<lambda>k. \<not> rpsiod_streq_ci ''X-Forwarded-Proto'' k) known_headers"
    "list_all (\<lambda>k. \<not> rpsiod_streq_ci ''X-Forwarded-For'' k) known_headers" by code_simp+
  note ip = plain_value_facts [OF assms(3)]
  show ?thesis
    using parse_host_line [OF assms(1), of "start_state r"] assms(2,4)
      parse_field_line [OF n(1) _ n(5)] parse_field_line [OF n(2) _ n(6)]
      parse_field_line [OF n(3) _ ip(1)] parse_field_line [OF n(4) _ n(6)] apply_unknown [OF u(1)] apply_unknown [OF u(2)]
    by (simp add: loopback_lines_def t ip(2) apply_connection_close apply_internal_scheme start_state_def)
qed

text \<open>
  C18: the request an HTTP/2 stream sends over the loopback connection is understood as meant:
  for a GET or HEAD with an origin-form path and a valid authority, the server's own HTTP/1.1
  parser accepts exactly these bytes as one request without a body, with the stream's method and
  path, the host of its authority, the internal HTTPS mark set and keep-alive off; nothing a
  client puts into its HTTP/2 headers adds a header line.
\<close>

theorem h2_loopback_understood:
  assumes "rpsiod_streq_ci (hs_method s) ''GET'' \<or> rpsiod_streq_ci (hs_method s) ''HEAD''"
    and "hs_path s = CHR ''/'' # p" and "valid_request_target_bytes (hs_path s)"
    and "length (hs_method s) + length (hs_path s) + 10 \<le> 2048"
    and "parse_host_value HOST_LEN (hs_authority s) = Some h" and "length (hs_authority s) < 256"
    and "plain_value (hc_client_ip conn)" and "length (hc_client_ip conn) < 46"
  shows "\<exists>r. rpsiod_http_parse_request (loopback_request conn s authority) = Parsed r \<and>
     r_header_len r = length (loopback_request conn s authority) \<and> r_header_len r < 8192 \<and>
     r_method r = hs_method s \<and> r_path r = hs_path s \<and> r_host r = h \<and> r_internal_https r \<and>
     \<not> r_keep_alive r \<and> r_content_length r = 0 \<and> \<not> r_upgrade_websocket r \<and> \<not> r_range_present r \<and>
     \<not> r_trace_request r \<and> r_head_only r = rpsiod_streq_ci (hs_method s) ''HEAD''"
proof -
  let ?line = "hs_method s @ '' '' @ hs_path s @ '' HTTP/1.1''"
  let ?hs = "loopback_lines conn s"
  note m = h2_method_valid [OF assms(1)] and h = host_value_chars [OF assms(5)] and ip = plain_value_facts [OF assms(7)]
  define n where "n = length (crlf_lines (?line # ?hs)) + 4"
  have len: "n < 8192" using assms(4,6,8) by (simp add: loopback_lines_def n_def)
  have n: "length (loopback_request conn s authority) = n"
    by (simp add: loopback_text [OF h(3)] n_def del: crlf_lines.simps)
  have pl: "list_all plain_line ?hs"
    using h(4,5) ip(3,4) by (simp add: plain_line_def loopback_lines_def)
  have "rpsiod_http_parse_request (loopback_request conn s authority) =
      finish_request (origin_line (hs_method s) (hs_path s))
       ((start_state ((start_request n (origin_line (hs_method s) (hs_path s)))
          \<lparr>r_host := h, r_keep_alive := False, r_internal_https := True\<rparr>))
         \<lparr>ps_have_host := True, ps_header_count := 5\<rparr>)"
    unfolding loopback_text [OF h(3)]
    by (subst parse_written_request [OF conjunct1 [OF m] assms(2-4) pl n_def [symmetric]])
       (use len in simp, simp only: loopback_headers [OF assms(5-8)] sum.case)
  then show ?thesis
    unfolding n using len
    by (simp add: finish_request_def start_state_def start_request_def empty_request_def origin_line_def)
qed

theorem h2_loopback_understood_witness:
  "\<exists>r. rpsiod_http_parse_request (loopback_request (h2_start ''10.0.0.9'' ''10.0.0.1'' 443)
         ((new_stream 8 1)\<lparr>hs_path := ''/a?q'', hs_authority := ''ex.org''\<rparr>) ''x'') = Parsed r \<and>
     r_path r = ''/a?q'' \<and> r_host r = ''ex.org'' \<and> r_internal_https r"
proof -
  let ?s = "(new_stream 8 1)\<lparr>hs_path := ''/a?q'', hs_authority := ''ex.org''\<rparr>"
  let ?c = "h2_start ''10.0.0.9'' ''10.0.0.1'' 443"
  have "valid_request_target_bytes ''/a?q''" by code_simp
  moreover have "parse_host_value HOST_LEN ''ex.org'' = Some ''ex.org''" by code_simp
  moreover have "plain_value ''10.0.0.9''" by (simp add: plain_value_def uchar_def)
  moreover have "hc_client_ip ?c = ''10.0.0.9''" by (simp add: h2_start_def safe_copy_def)
  ultimately have "\<exists>r. rpsiod_http_parse_request (loopback_request ?c ?s ''x'') = Parsed r \<and>
     r_header_len r = length (loopback_request ?c ?s ''x'') \<and> r_header_len r < 8192 \<and>
     r_method r = hs_method ?s \<and> r_path r = hs_path ?s \<and> r_host r = ''ex.org'' \<and> r_internal_https r \<and>
     \<not> r_keep_alive r \<and> r_content_length r = 0 \<and> \<not> r_upgrade_websocket r \<and> \<not> r_range_present r \<and>
     \<not> r_trace_request r \<and> r_head_only r = rpsiod_streq_ci (hs_method ?s) ''HEAD''"
    by (intro h2_loopback_understood [where p = "''a?q''"]) (simp_all add: new_stream_def)
  then show ?thesis by auto
qed

end
