(* ===== verification/Log.thy ===== *)
theory Log
  imports Workers RequestText ConfigLoadProps
begin

text \<open>
  The loggers (\<open>src/log.c\<close>): opening the log files, which descriptor a message goes to, and the
  lines written.  The answers of \<open>open\<close> are a list, one per call; a log is the \<open>io\<close> state of its
  descriptor; the timestamp of \<open>gmtime_r\<close> and \<open>strftime\<close> is a parameter.
\<close>

section \<open>Opening and closing\<close>

record logger =
  lg_access_fd :: int
  lg_error_fd :: int

definition STDERR_FILENO :: int where "STDERR_FILENO = 2"

text \<open>\<open>rpsiod_open_append\<close>: no system call is made for an empty path.\<close>

definition rpsiod_open_append :: "string \<Rightarrow> int list \<Rightarrow> int \<times> int list" where
  "rpsiod_open_append path opens =
     (if path = [] then (- 1, opens) else case opens of [] \<Rightarrow> (- 1, []) | fd # rest \<Rightarrow> (fd, rest))"

definition open_log :: "log_path \<Rightarrow> int list \<Rightarrow> log_path \<times> int list" where
  "open_log l opens =
     (if lp_enabled l
      then (case rpsiod_open_append (lp_path l) opens of
              (fd, rest) \<Rightarrow> (if 0 \<le> fd then l\<lparr>lp_fd := fd\<rparr> else l, rest))
      else (l, opens))"

text \<open>The logger's own descriptor: the opened file, standard error when there is none.\<close>

definition open_main_log :: "log_path \<Rightarrow> int list \<Rightarrow> int \<times> log_path \<times> int list" where
  "open_main_log l opens =
     (if lp_enabled l
      then (case rpsiod_open_append (lp_path l) opens of
              (fd, rest) \<Rightarrow> if 0 \<le> fd then (fd, l\<lparr>lp_fd := fd\<rparr>, rest) else (STDERR_FILENO, l, rest))
      else (STDERR_FILENO, l, opens))"

fun open_site_logs :: "site_config list \<Rightarrow> int list \<Rightarrow> site_config list \<times> int list" where
  "open_site_logs [] opens = ([], opens)"
| "open_site_logs (s # ss) opens =
     (case open_log (site_access_log s) opens of
        (a, opens1) \<Rightarrow>
          (case open_log (site_error_log s) opens1 of
             (e, opens2) \<Rightarrow>
               (case open_site_logs ss opens2 of
                  (ss', opens3) \<Rightarrow> (s\<lparr>site_access_log := a, site_error_log := e\<rparr> # ss', opens3))))"

definition rpsiod_log_open :: "config \<Rightarrow> int list \<Rightarrow> logger \<times> config" where
  "rpsiod_log_open cfg opens =
     (case open_main_log (cfg_access_log cfg) opens of
        (afd, a, opens1) \<Rightarrow>
          (case open_main_log (cfg_error_log cfg) opens1 of
             (efd, e, opens2) \<Rightarrow>
               (\<lparr>lg_access_fd = afd, lg_error_fd = efd\<rparr>,
                cfg\<lparr>cfg_access_log := a, cfg_error_log := e,
                    cfg_sites := fst (open_site_logs (cfg_sites cfg) opens2)\<rparr>)))"

text \<open>The descriptors that are closed.\<close>

definition rpsiod_log_close :: "logger \<Rightarrow> int list" where
  "rpsiod_log_close lg =
     (if STDERR_FILENO < lg_access_fd lg then [lg_access_fd lg] else []) @
     (if STDERR_FILENO < lg_error_fd lg \<and> lg_error_fd lg \<noteq> lg_access_fd lg then [lg_error_fd lg] else [])"

section \<open>Lines\<close>

text \<open>
  \<open>snprintf\<close> into a buffer of \<open>cap\<close> bytes returns the length of the whole text, and that many bytes
  of the buffer are then written: the text when it fits, the cut text with its NUL when it is one
  byte longer, and bytes behind the buffer (\<open>None\<close>) when it is longer still.
\<close>

definition buffer_bytes :: "nat \<Rightarrow> string \<Rightarrow> string option" where
  "buffer_bytes cap text =
     (if length text < cap then Some text
      else if length text = cap then Some (take (cap - 1) text @ [NUL])
      else None)"

definition log_write :: "int \<Rightarrow> string \<Rightarrow> (int \<Rightarrow> io) \<Rightarrow> (int \<Rightarrow> io) option" where
  "log_write fd text logs =
     (case buffer_bytes 2300 text of
        None \<Rightarrow> None
      | Some bytes \<Rightarrow> Some (logs(fd := snd (rpsiod_write_all bytes (logs fd)))))"

definition rpsiod_log_vwrite ::
  "string \<Rightarrow> int \<Rightarrow> int \<Rightarrow> string \<Rightarrow> string \<Rightarrow> (int \<Rightarrow> io) \<Rightarrow> (int \<Rightarrow> io) option" where
  "rpsiod_log_vwrite ts pid fd level message =
     log_write fd (ts @ '' rpsiod['' @ dec_int pid @ '']: '' @ level @ '' '' @ take 2047 message @ [LF])"

definition site_log_fd :: "(site_config \<Rightarrow> log_path) \<Rightarrow> int \<Rightarrow> site_config option \<Rightarrow> int" where
  "site_log_fd log fd site =
     (case site of
        None \<Rightarrow> fd
      | Some s \<Rightarrow> if lp_enabled (log s) \<and> 0 \<le> lp_fd (log s) then lp_fd (log s) else fd)"

definition rpsiod_log_error ::
  "string \<Rightarrow> int \<Rightarrow> logger \<Rightarrow> site_config option \<Rightarrow> string \<Rightarrow> (int \<Rightarrow> io) \<Rightarrow> (int \<Rightarrow> io) option" where
  "rpsiod_log_error ts pid lg site message =
     rpsiod_log_vwrite ts pid (site_log_fd site_error_log (lg_error_fd lg) site) ''error'' message"

definition or_dash :: "string option \<Rightarrow> string" where
  "or_dash s = (case s of None \<Rightarrow> ''-'' | Some t \<Rightarrow> t)"

definition access_line :: "string \<Rightarrow> string option \<Rightarrow> string option \<Rightarrow> string option \<Rightarrow> int \<Rightarrow> u64 \<Rightarrow> string" where
  "access_line ts ip m path status bytes =
     ts @ '' '' @ or_dash ip @ '' '' @ [CHR 0x22] @ or_dash m @ '' '' @ or_dash path @ [CHR 0x22] @ '' '' @
     dec_int status @ '' '' @ dec (unat bytes) @ [LF]"

definition rpsiod_log_access ::
  "string \<Rightarrow> logger \<Rightarrow> site_config option \<Rightarrow> string option \<Rightarrow> string option \<Rightarrow> string option \<Rightarrow> int \<Rightarrow> u64 \<Rightarrow>
   (int \<Rightarrow> io) \<Rightarrow> (int \<Rightarrow> io) option" where
  "rpsiod_log_access ts lg site ip m path status bytes =
     log_write (site_log_fd site_access_log (lg_access_fd lg) site) (access_line ts ip m path status bytes)"

section \<open>No line overruns its buffer or breaks\<close>

lemma length_dec: "n < 10 ^ k \<Longrightarrow> 0 < k \<Longrightarrow> length (dec n) \<le> k"
proof (induction n arbitrary: k rule: dec.induct)
  case (1 n)
  show ?case
  proof (cases "n < 10")
    case True
    then show ?thesis using 1(3) by (subst dec.simps) simp
  next
    case False
    then have "k \<noteq> 1" using 1(2) by (intro notI) simp
    then obtain j where k: "k = Suc j" "0 < j" using 1(3) by (cases k) auto
    then have "n div 10 < 10 ^ j" using 1(2) by (simp add: less_mult_imp_div_less)
    from 1(1) [OF False this k(2)] show ?thesis using False k by (subst dec.simps) simp
  qed
qed

lemma length_dec_u64: "length (dec (unat (n :: u64))) \<le> 20"
proof -
  have "unat n < 2 ^ 64" by (rule order_less_le_trans [OF unsigned_less]) simp
  then have "unat n < 10 ^ 20" by simp
  then show ?thesis by (rule length_dec) simp
qed

lemma length_dec_int: "\<bar>i\<bar> < 10 ^ k \<Longrightarrow> 0 < k \<Longrightarrow> length (dec_int i) \<le> Suc k"
  using length_dec [of "nat (- i)" k] length_dec [of "nat i" k]
  by (auto simp: dec_int_def nat_less_iff split: if_splits)

lemma dec_plain: "c \<in> set (dec n) \<Longrightarrow> 47 < uchar c \<and> uchar c < 58"
  using dec_digits [of n] by (auto simp: is_digit_def)

lemma dec_int_plain: "c \<in> set (dec_int i) \<Longrightarrow> 44 < uchar c \<and> uchar c < 58"
  by (auto simp: dec_int_def uchar_def dest: dec_plain split: if_splits)

definition log_word :: "string \<Rightarrow> bool" where
  "log_word s \<longleftrightarrow> CHR '' '' \<notin> set s \<and> LF \<notin> set s"

lemma log_word_range: "\<forall>c \<in> set s. 32 < uchar c \<Longrightarrow> log_word s"
  by (force simp: log_word_def uchar_def)

lemma log_word_dec: "log_word (dec n)" "log_word (dec_int i)"
  by (rule log_word_range; force dest: dec_plain dec_int_plain)+

lemma split_words:
  "log_word a \<Longrightarrow> split_on (CHR '' '') (a @ CHR '' '' # s) = a # split_on (CHR '' '') s"
  by (simp add: log_word_def split_on_append_sep)

lemma split_last_word: "log_word a \<Longrightarrow> split_on (CHR '' '') a = [a]"
  by (simp add: log_word_def split_on_no_sep_single)

lemma log_words_append: "log_word (a @ b) \<longleftrightarrow> log_word a \<and> log_word b"
  by (auto simp: log_word_def)

lemma access_line_words:
  assumes "log_word ts" and "log_word ip" and "log_word m" and "log_word path"
  shows "\<exists>line. access_line ts (Some ip) (Some m) (Some path) status bytes = line @ [LF] \<and> LF \<notin> set line \<and>
    split_on (CHR '' '') line =
      [ts, ip, CHR 0x22 # m, path @ [CHR 0x22], dec_int status, dec (unat bytes)]"
proof -
  have w: "log_word (CHR 0x22 # m)" "log_word (path @ [CHR 0x22])"
    using assms(3,4) by (auto simp: log_word_def)
  note words = assms(1,2) w log_word_dec(1) [of "unat bytes"] log_word_dec(2) [of status]
  let ?line = "ts @ '' '' @ ip @ '' '' @ (CHR 0x22 # m) @ '' '' @ (path @ [CHR 0x22]) @ '' '' @
     dec_int status @ '' '' @ dec (unat bytes)"
  have "split_on (CHR '' '') ?line =
      [ts, ip, CHR 0x22 # m, path @ [CHR 0x22], dec_int status, dec (unat bytes)]"
    using split_words [OF words(1)] split_words [OF words(2)] split_words [OF words(3)] split_words [OF words(4)]
      split_words [OF words(6)] split_last_word [OF words(5)] by simp
  moreover have "LF \<notin> set ?line" using words by (auto simp: log_word_def)
  ultimately show ?thesis by (intro exI [of _ ?line]) (simp add: access_line_def or_dash_def)
qed

lemma request_words:
  assumes "request_fits r"
  shows "log_word (r_method r) \<and> log_word (r_path r)"
proof -
  have "\<forall>c \<in> set (r_method r). 32 < uchar c" "\<forall>c \<in> set (r_path r). 32 < uchar c"
    using assms token_char_range by (auto simp: request_fits_def list_all_iff)
  then show ?thesis by (simp add: log_word_range)
qed

text \<open>
  C29: every access-log record of an accepted request is one line of six fields that reads back
  as written: whatever bytes a client sends in its request line, splitting the line at blanks
  gives the time, the address, the method, the path, the status and the size, the line ends where
  it was meant to, and the text fits its buffer, so no bytes behind the buffer reach the log.
\<close>

theorem access_log_readable:
  assumes "rpsiod_http_parse_request buf = Parsed r"
    and "log_word ts" and "length ts < 64" and "log_word ip" and "length ip < 46" and "\<bar>status\<bar> < 10 ^ 10"
  shows "\<exists>line. rpsiod_log_access ts lg site (Some ip) (Some (r_method r)) (Some (r_path r)) status bytes logs =
      Some (let fd = site_log_fd site_access_log (lg_access_fd lg) site in
            logs(fd := snd (rpsiod_write_all (line @ [LF]) (logs fd)))) \<and>
    LF \<notin> set line \<and>
    split_on (CHR '' '') line =
      [ts, ip, CHR 0x22 # r_method r, r_path r @ [CHR 0x22], dec_int status, dec (unat bytes)]"
proof -
  note fits = parsed_request_fits [OF assms(1)]
  note words = request_words [OF fits]
  obtain line where line: "access_line ts (Some ip) (Some (r_method r)) (Some (r_path r)) status bytes = line @ [LF]"
    "LF \<notin> set line" "split_on (CHR '' '') line =
      [ts, ip, CHR 0x22 # r_method r, r_path r @ [CHR 0x22], dec_int status, dec (unat bytes)]"
    using access_line_words [OF assms(2,4) conjunct1 [OF words] conjunct2 [OF words]] by blast
  have "length (access_line ts (Some ip) (Some (r_method r)) (Some (r_path r)) status bytes) < 2300"
    using fits assms(3,5) length_dec_int [OF assms(6)] length_dec_u64 [of bytes]
    by (simp add: access_line_def or_dash_def request_fits_def)
  then show ?thesis
    using line by (intro exI [of _ line]) (simp add: rpsiod_log_access_def log_write_def buffer_bytes_def Let_def)
qed

theorem access_log_readable_witness:
  "\<exists>line. rpsiod_log_access ''2024-01-01T00:00:00Z'' \<lparr>lg_access_fd = 3, lg_error_fd = 4\<rparr> None (Some ''10.0.0.9'')
      (Some ''GET'') (Some ''/'') 200 5 (\<lambda>_. \<lparr>io_sent = [], io_in = [], io_events = []\<rparr>) =
      Some (\<lambda>fd. if fd = 3 then snd (rpsiod_write_all (line @ [LF]) \<lparr>io_sent = [], io_in = [], io_events = []\<rparr>)
                 else \<lparr>io_sent = [], io_in = [], io_events = []\<rparr>) \<and>
    split_on (CHR '' '') line =
      [''2024-01-01T00:00:00Z'', ''10.0.0.9'', CHR 0x22 # ''GET'', ''/'' @ [CHR 0x22], ''200'', ''5'']"
proof -
  let ?b = "''GET / HTTP/1.1'' @ CRLF @ ''Host: e'' @ CRLF @ CRLF"
  have "case rpsiod_http_parse_request ?b of Parsed r \<Rightarrow> r_method r = ''GET'' \<and> r_path r = ''/'' | _ \<Rightarrow> False"
    by code_simp
  then obtain r where r: "rpsiod_http_parse_request ?b = Parsed r" "r_method r = ''GET''" "r_path r = ''/''"
    by (auto split: parse_result.splits)
  have d: "dec_int 200 = ''200''" "dec (unat (5 :: u64)) = ''5''" by code_simp+
  show ?thesis
    using access_log_readable [OF r(1), of "''2024-01-01T00:00:00Z''" "''10.0.0.9''" 200
        "\<lparr>lg_access_fd = 3, lg_error_fd = 4\<rparr>" None 5 "\<lambda>_. \<lparr>io_sent = [], io_in = [], io_events = []\<rparr>"] r(2,3) d
    by (auto simp: log_word_def site_log_fd_def Let_def fun_upd_def)
qed

lemma error_line_fits:
  assumes "length ts < 64" and "\<bar>pid\<bar> < 10 ^ 19"
  shows "rpsiod_log_error ts pid lg site message logs \<noteq> None"
proof -
  have "length (take 2047 message) \<le> 2047" by simp
  then have "length (ts @ '' rpsiod['' @ dec_int pid @ '']: '' @ ''error'' @ '' '' @ take 2047 message @ [LF]) < 2300"
    using assms(1) length_dec_int [OF assms(2)] unfolding length_append by simp
  then show ?thesis by (simp add: rpsiod_log_error_def rpsiod_log_vwrite_def log_write_def buffer_bytes_def)
qed

section \<open>Which log\<close>

lemma log_close_once: "distinct (rpsiod_log_close lg) \<and> (\<forall>fd \<in> set (rpsiod_log_close lg). 2 < fd)"
  by (simp add: rpsiod_log_close_def STDERR_FILENO_def)

text \<open>
  After \<open>rpsiod_log_open\<close> a site whose access log was opened writes to its own file.  A reload
  replaces the configuration by a fresh one, in which no site log is open, and nothing opens them
  again: from then on every site writes to the global logs.
\<close>

lemma open_log_own: "open_log l (fd # opens) = (l', rest) \<Longrightarrow> lp_enabled l \<Longrightarrow> lp_path l \<noteq> [] \<Longrightarrow> 0 \<le> fd \<Longrightarrow> lp_fd l' = fd"
  by (auto simp: open_log_def rpsiod_open_append_def)

lemma load_fits:
  assumes "rpsiod_config_load files realpath open_dir server_path sites_path = Inr (cfg, tbl)"
    and "\<forall>p r. realpath p = Some r \<longrightarrow> length r < 4096"
  shows "config_fits cfg"
  using assms(1) validate_fits [OF assms(2)]
  by (auto simp: rpsiod_config_load_def rpsiod_config_validate_def Let_def split: sum.splits)

lemma reload_loses_site_logs:
  assumes "rpsiod_config_load files realpath open_dir server_path sites_path = Inr (cfg, tbl)"
    and "\<forall>p r. realpath p = Some r \<longrightarrow> length r < 4096"
    and "s \<in> set (cfg_sites (pa_cfg (reload_workers (Inr cfg) forks pa)))"
  shows "site_log_fd site_access_log fd (Some s) = fd \<and> site_log_fd site_error_log fd (Some s) = fd"
proof -
  have "config_fits cfg" using load_fits [OF assms(1,2)] .
  moreover have "pa_cfg (reload_workers (Inr cfg) forks pa) = cfg"
    by (simp add: reload_workers_def split: prod.splits)
  ultimately have "lp_fd (site_access_log s) = - 1 \<and> lp_fd (site_error_log s) = - 1"
    using assms(3) by (simp add: config_fits_def list_all_iff site_fits_def)
  then show ?thesis by (simp add: site_log_fd_def)
qed

end
