(* ===== verification/Process.thy ===== *)
theory Process
  imports Workers
begin

text \<open>
  The server as a process: signals and the systemd socket (\<open>src/signals.c\<close>), the pid file
  (\<open>rpsiod_write_pid_file\<close> of \<open>src/util.c\<close>), privileges and the start of a worker
  (\<open>drop_privileges_after_bind\<close>, \<open>rpsiod_server_run_worker\<close> of \<open>src/server.c\<close>), and the
  command that asks a running server to reload (\<open>src/reload.c\<close>).
\<close>

section \<open>Signals\<close>

datatype signal = SIGINT | SIGTERM | SIGHUP | SIGPIPE

datatype disposition = Default | Ignore | Handler_stop | Handler_reload

record signal_flags =
  sf_stop :: bool
  sf_reload :: bool

definition rpsiod_signal_stop :: "signal_flags \<Rightarrow> signal_flags" where
  "rpsiod_signal_stop f = f\<lparr>sf_stop := True\<rparr>"

definition rpsiod_signal_reload :: "signal_flags \<Rightarrow> signal_flags" where
  "rpsiod_signal_reload f = f\<lparr>sf_reload := True\<rparr>"

definition rpsiod_signals_install_parent :: "(signal \<Rightarrow> disposition) \<Rightarrow> (signal \<Rightarrow> disposition)" where
  "rpsiod_signals_install_parent d =
     d(SIGINT := Handler_stop, SIGTERM := Handler_stop, SIGHUP := Handler_reload, SIGPIPE := Ignore)"

definition rpsiod_signals_install_worker :: "(signal \<Rightarrow> disposition) \<Rightarrow> (signal \<Rightarrow> disposition)" where
  "rpsiod_signals_install_worker d =
     d(SIGINT := Handler_stop, SIGTERM := Handler_stop, SIGHUP := Ignore, SIGPIPE := Ignore)"

text \<open>The flags after a signal; \<open>None\<close> when its default action ends the process.\<close>

definition deliver :: "(signal \<Rightarrow> disposition) \<Rightarrow> signal \<Rightarrow> signal_flags \<Rightarrow> signal_flags option" where
  "deliver d s f =
     (case d s of
        Default \<Rightarrow> None
      | Ignore \<Rightarrow> Some f
      | Handler_stop \<Rightarrow> Some (rpsiod_signal_stop f)
      | Handler_reload \<Rightarrow> Some (rpsiod_signal_reload f))"

text \<open>
  What \<open>rpsiod_server_run\<close> installs in the process of the pid file: a single worker is served by
  that process itself.
\<close>

definition server_dispositions :: "int \<Rightarrow> config \<Rightarrow> (signal \<Rightarrow> disposition) \<Rightarrow> (signal \<Rightarrow> disposition)" where
  "server_dispositions cpus cfg d =
     (let d1 = rpsiod_signals_install_parent d in
      if resolved_worker_count cpus cfg = 1 then rpsiod_signals_install_worker d1 else d1)"

text \<open>
  The address of the notification socket: an abstract name starts with a NUL and its length does
  not count a terminator.  The outer \<open>None\<close> is the silent return, the inner one the error.
\<close>

definition notify_address :: "string option \<Rightarrow> string option option" where
  "notify_address sock_path =
     (case sock_path of
        None \<Rightarrow> None
      | Some p \<Rightarrow>
          if p = [] then None
          else if hd p = CHR ''@'' then Some (if 108 \<le> length p then None else Some (NUL # tl p))
          else Some (if 108 \<le> length p then None else Some (p @ [NUL])))"

definition rpsiod_systemd_notify :: "string option \<Rightarrow> bool \<Rightarrow> (string \<Rightarrow> string \<Rightarrow> bool) \<Rightarrow> string \<Rightarrow> int" where
  "rpsiod_systemd_notify sock_path socket_ok sendto_ok state =
     (case notify_address sock_path of
        None \<Rightarrow> 0
      | Some addr \<Rightarrow>
          if \<not> socket_ok then - 1
          else case addr of None \<Rightarrow> - 1 | Some a \<Rightarrow> if sendto_ok a state then 0 else - 1)"

lemma notify_address_fits: "notify_address p = Some (Some a) \<Longrightarrow> length a \<le> 108"
  by (cases p) (auto simp: notify_address_def split: if_splits)

section \<open>The pid file\<close>

definition pid_file_text :: "int \<Rightarrow> string" where
  "pid_file_text pid = dec_int pid @ [LF]"

text \<open>
  \<open>rpsiod_write_pid_file\<close>: the file is truncated before the lock is tried.  The answers are those
  of \<open>mkdir\<close>, \<open>open\<close>, \<open>flock\<close> and the write; the result holds the new contents, if any.
\<close>

definition rpsiod_write_pid_file ::
  "string \<Rightarrow> bool \<Rightarrow> bool \<Rightarrow> bool \<Rightarrow> bool \<Rightarrow> int \<Rightarrow> int \<times> string option" where
  "rpsiod_write_pid_file path mkdir_ok open_ok lock_ok write_ok pid =
     (if path = [] then (0, None)
      else if \<not> mkdir_ok then (- 1, None)
      else if \<not> open_ok then (- 1, None)
      else if \<not> lock_ok then (- 1, Some [])
      else if \<not> write_ok then (- 1, Some [])
      else (0, Some (pid_file_text pid)))"

section \<open>Asking for a reload\<close>

text \<open>Option parsing: an option the setter does not know, or one without a value, is an error.\<close>

fun parse_options :: "(string \<Rightarrow> string \<Rightarrow> 'a \<Rightarrow> 'a option) \<Rightarrow> string list \<Rightarrow> 'a \<Rightarrow> 'a option" where
  "parse_options set_opt [] a = Some a"
| "parse_options set_opt [opt] a = None"
| "parse_options set_opt (opt # v # rest) a =
     (case set_opt opt v a of None \<Rightarrow> None | Some a' \<Rightarrow> parse_options set_opt rest a')"

definition parse_pid_file :: "string list \<Rightarrow> string option" where
  "parse_pid_file argv =
     parse_options (\<lambda>opt v a. if opt = ''--pid-file'' then Some v else None) argv ''/run/rpsiod/rpsiod.pid''"

text \<open>
  The exit code and the process the signal was sent to: \<open>kill\<close> takes a \<open>pid_t\<close>, so the number is
  cut to 32 bits.
\<close>

definition rpsiod_reload_main ::
  "string list \<Rightarrow> (string \<Rightarrow> string option) \<Rightarrow> (int \<Rightarrow> bool) \<Rightarrow> int \<times> int option" where
  "rpsiod_reload_main argv files kill_ok =
     (case parse_pid_file argv of
        None \<Rightarrow> (2, None)
      | Some pid_file \<Rightarrow>
          (case files pid_file of
             None \<Rightarrow> (1, None)
           | Some contents \<Rightarrow>
               (case strtol contents of
                  None \<Rightarrow> (1, None)
                | Some (pid, _) \<Rightarrow>
                    if pid \<le> 1 then (1, None)
                    else (if kill_ok (to_int32 pid) then 0 else 1, Some (to_int32 pid)))))"

lemma strtol_pid_file:
  assumes "0 \<le> pid" and "pid \<le> INT_MAX"
  shows "strtol (pid_file_text pid) = Some (pid, [LF], False)"
  using assms strtol_dec [of "[LF]" "nat pid"]
  by (simp add: pid_file_text_def dec_int_def INT_MAX_def LONG_MAX_def is_digit_def uchar_def)

text \<open>
  a reload request reaches the server that wrote the pid file: the command reads the number
  back as it was written, signals that process and no other, reports success exactly when the
  signal could be sent, and the signal sets the reload flag of a server with several workers.
\<close>

theorem reload_request_arrives:
  assumes "rpsiod_write_pid_file path True True True True pid = (0, Some contents)"
    and "1 < pid" and "pid \<le> INT_MAX" and "files path = Some contents"
    and "1 < resolved_worker_count cpus cfg"
  shows "rpsiod_reload_main [''--pid-file'', path] files kill_ok = (if kill_ok pid then 0 else 1, Some pid) \<and>
    deliver (server_dispositions cpus cfg d) SIGHUP f = Some (f\<lparr>sf_reload := True\<rparr>)"
proof -
  have c: "contents = pid_file_text pid"
    using assms(1) by (simp add: rpsiod_write_pid_file_def split: if_splits)
  have "to_int32 pid = pid" using assms(2,3) by (intro to_int32_id) (simp_all add: INT_MAX_def)
  with assms(2-5) show ?thesis
    by (simp add: rpsiod_reload_main_def parse_pid_file_def c strtol_pid_file deliver_def server_dispositions_def
        rpsiod_signals_install_parent_def rpsiod_signal_reload_def Let_def)
qed

theorem reload_request_arrives_witness:
  "rpsiod_reload_main [''--pid-file'', ''p''] [''p'' \<mapsto> ''77'' @ [LF]] (\<lambda>_. True) = (0, Some 77)"
proof -
  have w: "rpsiod_write_pid_file ''p'' True True True True 77 = (0, Some (''77'' @ [LF]))" by code_simp
  have "resolved_worker_count 4 (rpsiod_config_defaults\<lparr>cfg_workers_auto := True, cfg_reuse_port := True\<rparr>) = 4"
    by (simp add: resolved_worker_count_def)
  with reload_request_arrives [OF w _ _ _, of "[''p'' \<mapsto> ''77'' @ [LF]]" 4
      "rpsiod_config_defaults\<lparr>cfg_workers_auto := True, cfg_reuse_port := True\<rparr>" "\<lambda>_. True"]
  show ?thesis by (simp add: INT_MAX_def)
qed

text \<open>
  With one worker the process of the pid file ignores the signal, although the command reports
  success.
\<close>

lemma single_worker_ignores_reload:
  "resolved_worker_count cpus cfg = 1 \<Longrightarrow> deliver (server_dispositions cpus cfg d) SIGHUP f = Some f"
  by (simp add: deliver_def server_dispositions_def rpsiod_signals_install_worker_def)

text \<open>
  The guard against process 1 is made before the number is cut: a pid file that holds
  4294967297 has the command signal process 1, and 4294967295 every process there is (-1).
\<close>

lemma reload_pid_truncated:
  "rpsiod_reload_main [] (\<lambda>_. Some (dec 4294967297)) (\<lambda>_. True) = (0, Some 1)"
  "rpsiod_reload_main [] (\<lambda>_. Some (dec 4294967295)) (\<lambda>_. True) = (0, Some (- 1))"
  using strtol_dec [of "[]" 4294967297] strtol_dec [of "[]" 4294967295]
  by (simp_all add: LONG_MAX_def rpsiod_reload_main_def parse_pid_file_def to_int32_def)

text \<open>
  A second server that finds the file locked has emptied it already: the command can no longer
  reach the running one.
\<close>

lemma second_start_erases_pid_file:
  "path \<noteq> [] \<Longrightarrow> rpsiod_write_pid_file path True True False ok pid = (- 1, Some [])"
  "parse_pid_file argv \<noteq> None \<Longrightarrow> rpsiod_reload_main argv (\<lambda>_. Some []) kill_ok = (1, None)"
  by (auto simp: rpsiod_write_pid_file_def rpsiod_reload_main_def strtol_def sign_split_def)

section \<open>Starting a worker\<close>

record process =
  pr_uid :: nat
  pr_gid :: nat
  pr_groups :: "nat list"
  pr_core_dumps :: bool

text \<open>
  The account database (\<open>getgrnam\<close>, \<open>getpwnam\<close>, what \<open>initgroups\<close> sets) and the answers of the
  three calls that change the credentials.
\<close>

record accounts =
  ac_group :: "string \<Rightarrow> nat option"
  ac_user :: "string \<Rightarrow> (string \<times> nat) option"
  ac_groups :: "string \<Rightarrow> nat \<Rightarrow> nat list"

record credential_answers =
  an_setgid :: bool
  an_initgroups :: bool
  an_setuid :: bool

definition drop_privileges_after_bind ::
  "config \<Rightarrow> accounts \<Rightarrow> credential_answers \<Rightarrow> process \<Rightarrow> bool \<times> process" where
  "drop_privileges_after_bind cfg ac an p =
     (if \<not> cfg_drop_privileges cfg \<or> pr_uid p \<noteq> 0 then (True, p)
      else case (ac_group ac (cfg_linux_group cfg), ac_user ac (cfg_linux_user cfg)) of
        (Some g, Some (nm, u)) \<Rightarrow>
          if \<not> an_setgid an then (False, p)
          else let p1 = p\<lparr>pr_gid := g\<rparr> in
            if \<not> an_initgroups an then (False, p1)
            else let p2 = p1\<lparr>pr_groups := ac_groups ac nm g\<rparr> in
              if \<not> an_setuid an then (False, p2) else (True, p2\<lparr>pr_uid := u\<rparr>)
      | _ \<Rightarrow> (False, p))"

definition rpsiod_drop_core_dumps :: "bool \<Rightarrow> process \<Rightarrow> process" where
  "rpsiod_drop_core_dumps setrlimit_ok p = (if setrlimit_ok then p\<lparr>pr_core_dumps := False\<rparr> else p)"

text \<open>
  \<open>rpsiod_server_run_worker\<close> up to its event loop: the exit code, or the listeners and the process
  that serves them.  A pid file that cannot be written is only logged.
\<close>

definition worker_start ::
  "bool \<Rightarrow> (string \<Rightarrow> u16 \<Rightarrow> string option) \<Rightarrow> bool \<Rightarrow> bool \<Rightarrow> accounts \<Rightarrow> credential_answers \<Rightarrow> config \<Rightarrow>
   process \<Rightarrow> int + listener list \<times> process" where
  "worker_start epoll_ok bind tls_ctx core_ok ac an cfg p =
     (if \<not> epoll_ok then Inl 1
      else case add_listeners bind tls_ctx (cfg_sites cfg) [] of
        Inl _ \<Rightarrow> Inl 1
      | Inr ls \<Rightarrow>
          if ls = [] then Inl 1
          else let p1 = (if cfg_prevent_core_dumps cfg then rpsiod_drop_core_dumps core_ok p else p) in
            (case drop_privileges_after_bind cfg ac an p1 of
               (ok, p2) \<Rightarrow> if \<not> ok then Inl 1 else Inr (ls, p2)))"

text \<open>
  C8: a worker that was started by root with privilege dropping configured serves no connection
  before it has given up every privilege: once it reaches its event loop, its user, its group and
  its supplementary groups are those of the configured account, its sockets are bound, and any
  failing step (unknown account, refused call) ends it instead.
\<close>

theorem worker_privileges_dropped:
  assumes "worker_start epoll_ok bind tls_ctx core_ok ac an cfg p = Inr (ls, p')"
    and "cfg_drop_privileges cfg" and "pr_uid p = 0"
  shows "ls \<noteq> [] \<and> add_listeners bind tls_ctx (cfg_sites cfg) [] = Inr ls \<and>
    (\<exists>g nm u. ac_group ac (cfg_linux_group cfg) = Some g \<and> ac_user ac (cfg_linux_user cfg) = Some (nm, u) \<and>
       pr_uid p' = u \<and> pr_gid p' = g \<and> pr_groups p' = ac_groups ac nm g) \<and>
    an_setgid an \<and> an_initgroups an \<and> an_setuid an"
proof -
  let ?p1 = "if cfg_prevent_core_dumps cfg then rpsiod_drop_core_dumps core_ok p else p"
  have l: "add_listeners bind tls_ctx (cfg_sites cfg) [] = Inr ls" "ls \<noteq> []"
    and d: "drop_privileges_after_bind cfg ac an ?p1 = (True, p')"
    using assms(1) by (auto simp: worker_start_def Let_def split: if_splits sum.splits prod.splits)
  have "pr_uid ?p1 = 0" using assms(3) by (simp add: rpsiod_drop_core_dumps_def)
  with d assms(2) have "(\<exists>g nm u. ac_group ac (cfg_linux_group cfg) = Some g \<and>
      ac_user ac (cfg_linux_user cfg) = Some (nm, u) \<and>
      pr_uid p' = u \<and> pr_gid p' = g \<and> pr_groups p' = ac_groups ac nm g) \<and>
    an_setgid an \<and> an_initgroups an \<and> an_setuid an"
    by (auto simp: drop_privileges_after_bind_def Let_def split: option.splits if_splits)
  with l show ?thesis by blast
qed

definition demo_accounts :: accounts where
  "demo_accounts = \<lparr>ac_group = [''rpsiod'' \<mapsto> 99], ac_user = [''rpsiod'' \<mapsto> (''rpsiod'', 98)], ac_groups = \<lambda>_ g. [g, 5]\<rparr>"

definition demo_worker_cfg :: config where
  "demo_worker_cfg = rpsiod_config_defaults\<lparr>cfg_drop_privileges := True,
     cfg_sites := [site_defaults\<lparr>site_enabled := True\<rparr>]\<rparr>"

theorem worker_privileges_dropped_witness:
  "case worker_start True (\<lambda>_ _. None) False True demo_accounts
     \<lparr>an_setgid = True, an_initgroups = True, an_setuid = True\<rparr> demo_worker_cfg
     \<lparr>pr_uid = 0, pr_gid = 0, pr_groups = [0], pr_core_dumps = True\<rparr> of
     Inl _ \<Rightarrow> False
   | Inr (ls, p') \<Rightarrow> pr_uid p' = 98 \<and> pr_groups p' = [99, 5]"
proof -
  let ?r = "worker_start True (\<lambda>_ _. None) False True demo_accounts
     \<lparr>an_setgid = True, an_initgroups = True, an_setuid = True\<rparr> demo_worker_cfg
     \<lparr>pr_uid = 0, pr_gid = 0, pr_groups = [0], pr_core_dumps = True\<rparr>"
  have "case ?r of Inl _ \<Rightarrow> False | Inr _ \<Rightarrow> True" by code_simp
  then obtain ls p' where r: "?r = Inr (ls, p')" by (auto split: sum.splits)
  show ?thesis
    using worker_privileges_dropped [OF r] unfolding r
    by (simp add: demo_worker_cfg_def demo_accounts_def rpsiod_config_defaults_def)
qed

end
