(* ===== verification/Commands.thy ===== *)
theory Commands
  imports Process Tls Loopback
begin

text \<open>
  The command line: dispatch and self tests (\<open>src/main.c\<close>), the configuration check
  (\<open>src/config_validate.c\<close>), the doctor (\<open>src/doctor.c\<close>) and request tracing
  (\<open>src/trace.c\<close>).  What the file system, the account database and \<open>connect\<close> answer are
  parameters; printing is left out, the exit codes and the checks are not.
\<close>

section \<open>Arguments\<close>

record config_paths =
  pt_server :: string
  pt_sites :: "string option"

definition default_paths :: config_paths where
  "default_paths = \<lparr>pt_server = ''/etc/rpsiod/server.yml'', pt_sites = None\<rparr>"

definition set_path :: "string \<Rightarrow> string \<Rightarrow> config_paths \<Rightarrow> config_paths option" where
  "set_path opt v p =
     (if opt = ''--server'' then Some (p\<lparr>pt_server := v\<rparr>)
      else if opt = ''--sites'' then Some (p\<lparr>pt_sites := Some v\<rparr>)
      else None)"

definition parse_common_args :: "string list \<Rightarrow> config_paths option" where
  "parse_common_args argv = parse_options set_path argv default_paths"

definition parse_check_paths :: "string list \<Rightarrow> config_paths option" where
  "parse_check_paths argv = parse_options set_path argv default_paths"

definition parse_doctor_args :: "string list \<Rightarrow> config_paths option" where
  "parse_doctor_args argv = parse_options set_path argv default_paths"

definition parse_status_args :: "string list \<Rightarrow> (config_paths \<times> string) option" where
  "parse_status_args argv =
     parse_options (\<lambda>opt v (p, pid_file).
         if opt = ''--pid-file'' then Some (p, v) else map_option (\<lambda>p'. (p', pid_file)) (set_path opt v p))
       argv (default_paths, ''/run/rpsiod/rpsiod.pid'')"

text \<open>\<open>load\<close> stands for \<open>rpsiod_config_load\<close> on the machine's files.\<close>

type_synonym loader = "config_paths \<Rightarrow> config_error + config \<times> route_table"

section \<open>The configuration check\<close>

definition rpsiod_configtest_main :: "loader \<Rightarrow> tls_env \<Rightarrow> tls_files \<Rightarrow> string list \<Rightarrow> int" where
  "rpsiod_configtest_main load env fs argv =
     (case parse_check_paths argv of
        None \<Rightarrow> 2
      | Some paths \<Rightarrow>
          (case load paths of
             Inl _ \<Rightarrow> 1
           | Inr (cfg, tbl) \<Rightarrow> if rpsiod_tls_validate_material env fs (cfg_sites cfg) \<noteq> None then 1 else 0))"

section \<open>The self tests\<close>

definition rpsiod_config_find_site :: "config \<Rightarrow> route_table \<Rightarrow> string \<Rightarrow> u16 \<Rightarrow> nat option" where
  "rpsiod_config_find_site cfg tbl host port = rpsiod_config_find_site_for_listener cfg tbl host port None"

definition has_blank :: "string \<Rightarrow> bool" where
  "has_blank s \<longleftrightarrow> CHR '' '' \<in> set s \<or> CHR 0x09 \<in> set s"

definition valid_configured_headers :: "site_config \<Rightarrow> bool" where
  "valid_configured_headers site \<longleftrightarrow>
     \<not> list_ex (\<lambda>h. has_blank (hp_name h)) (site_headers_add site) \<and>
     \<not> list_ex has_blank (site_headers_remove site)"

definition site_matching :: "config \<Rightarrow> route_table \<Rightarrow> nat \<Rightarrow> bool" where
  "site_matching cfg tbl i =
     (let site = cfg_sites cfg ! i in
      site_domains site \<noteq> [] \<and>
      rpsiod_config_find_site cfg tbl (hd (site_domains site))
        (if site_http_port site \<noteq> 0 then site_http_port site else site_https_port site) = Some i)"

definition file_routing :: "site_config \<Rightarrow> bool" where
  "file_routing site \<longleftrightarrow> rpsiod_streq_ci (site_routing_type site) ''static'' \<or> rpsiod_streq_ci (site_routing_type site) ''php''"

definition connect_php_handler :: "(string \<Rightarrow> bool) \<Rightarrow> (string \<Rightarrow> u16 \<Rightarrow> bool) \<Rightarrow> site_config \<Rightarrow> bool" where
  "connect_php_handler unix_ok tcp_ok site =
     (if \<not> site_php_enabled site then True
      else if rpsiod_streq_ci (site_php_handler_type site) ''socket'' then unix_ok (safe_copy 108 (site_php_socket site))
      else tcp_ok (site_php_host site) (site_php_port site))"

definition site_tests ::
  "(string \<Rightarrow> bool) \<Rightarrow> (string \<Rightarrow> u16 \<Rightarrow> bool) \<Rightarrow> config \<Rightarrow> route_table \<Rightarrow> nat \<Rightarrow> (bool \<times> string) list" where
  "site_tests unix_ok tcp_ok cfg tbl i =
     (let site = cfg_sites cfg ! i in
      [(site_matching cfg tbl i, ''site matching'')] @
      (if file_routing site then [(0 \<le> site_static_root_fd site, ''static files'')] else []) @
      [(connect_php_handler unix_ok tcp_ok site, ''PHP-FPM connection''),
       (\<not> site_ssl_enabled site \<or> site_ssl_storage site \<noteq> [], ''SSL config''),
       (length (site_blocked_direct_access site) < MAX_BLOCKED, ''blocked files''),
       (valid_configured_headers site, ''headers''),
       (\<not> site_rate_limit_enabled site \<or> 0 < site_rate_limit_requests site \<and> 0 < site_rate_limit_window_sec site,
        ''rate limits''),
       (\<not> site_compression_enabled site \<or> site_compression_gzip site \<or> site_compression_br site,
        ''compression config'')] @
      (if rpsiod_streq_ci (site_routing_type site) ''proxy''
       then [(tcp_ok (site_proxy_host site) (site_proxy_port site), ''proxy upstream reachability'')] else []))"

definition regression_checks ::
  "(string \<Rightarrow> bool) \<Rightarrow> (string \<Rightarrow> u16 \<Rightarrow> bool) \<Rightarrow> config \<Rightarrow> route_table \<Rightarrow> (bool \<times> string) list" where
  "regression_checks unix_ok tcp_ok cfg tbl =
     (cfg_sites cfg \<noteq> [], ''config validation'') #
     concat (map (site_tests unix_ok tcp_ok cfg tbl) [0..<length (cfg_sites cfg)])"

definition exit_code :: "(bool \<times> string) list \<Rightarrow> int" where
  "exit_code checks = (if filter (\<lambda>c. \<not> fst c) checks = [] then 0 else 1)"

definition run_regression_tests ::
  "(string \<Rightarrow> bool) \<Rightarrow> (string \<Rightarrow> u16 \<Rightarrow> bool) \<Rightarrow> config \<Rightarrow> route_table \<Rightarrow> int" where
  "run_regression_tests unix_ok tcp_ok cfg tbl = exit_code (regression_checks unix_ok tcp_ok cfg tbl)"

section \<open>Dispatch\<close>

datatype serve_step =
    Limit_open_files u64
  | Limit_processes u64
  | Change_root string
  | Serve

definition apply_limits :: "config \<Rightarrow> serve_step list" where
  "apply_limits cfg =
     (if 0 < cfg_open_files cfg then [Limit_open_files (cfg_open_files cfg)] else []) @
     (if 0 < cfg_max_processes cfg then [Limit_processes (cfg_max_processes cfg)] else [])"

definition apply_root_jail :: "(string \<Rightarrow> bool) \<Rightarrow> config \<Rightarrow> bool \<times> serve_step list" where
  "apply_root_jail chroot_ok cfg =
     (if \<not> cfg_chroot_enabled cfg then (True, [])
      else if cfg_chroot_path cfg = [] then (False, [])
      else (chroot_ok (cfg_chroot_path cfg), [Change_root (cfg_chroot_path cfg)]))"

text \<open>The exit code of \<open>serve\<close> and the steps in their order; \<open>run\<close> is \<open>rpsiod_server_run\<close>.\<close>

definition serve_main :: "(string \<Rightarrow> bool) \<Rightarrow> (config \<Rightarrow> int) \<Rightarrow> config \<Rightarrow> int \<times> serve_step list" where
  "serve_main chroot_ok run cfg =
     (case apply_root_jail chroot_ok cfg of
        (ok, jail) \<Rightarrow>
          if \<not> ok then (1, apply_limits cfg @ jail)
          else (run cfg, apply_limits cfg @ jail @ [Serve]))"

datatype command =
    Usage
  | Bench "string list"
  | Config_check "string list"
  | Status "string list"
  | Trace "string list"
  | Reload "string list"
  | Doctor "string list"
  | Load_failed config_error
  | Self_test config route_table
  | Start_server config

definition rpsiod_main :: "loader \<Rightarrow> string list \<Rightarrow> command" where
  "rpsiod_main load argv =
     (case argv of
        p # cmd # args \<Rightarrow>
          if cmd = ''bench'' then Bench args
          else if cmd = ''configtest'' \<or> cmd = ''config-check'' then Config_check args
          else if cmd = ''status'' then Status args
          else if cmd = ''trace'' then Trace args
          else if cmd = ''reload'' then Reload args
          else if cmd = ''doctor'' then Doctor args
          else (case parse_common_args args of
            None \<Rightarrow> Usage
          | Some paths \<Rightarrow>
              (case load paths of
                 Inl e \<Rightarrow> Load_failed e
               | Inr (cfg, tbl) \<Rightarrow>
                   if cmd = ''test'' then Self_test cfg tbl
                   else if cmd \<noteq> ''serve'' then Usage
                   else Start_server cfg))
      | _ \<Rightarrow> Usage)"

text \<open>A configured jail is entered before the server runs, or the server does not run.\<close>

lemma serve_jailed:
  assumes "Serve \<in> set (snd (serve_main chroot_ok run cfg))" and "cfg_chroot_enabled cfg"
  shows "chroot_ok (cfg_chroot_path cfg) \<and> cfg_chroot_path cfg \<noteq> [] \<and>
    (\<exists>before. snd (serve_main chroot_ok run cfg) = before @ [Change_root (cfg_chroot_path cfg), Serve] \<and>
       Serve \<notin> set before)"
  using assms by (auto simp: serve_main_def apply_root_jail_def apply_limits_def split: if_splits)

section \<open>What the self tests say\<close>

text \<open>
  The test of the routing asks without a listen address, so it passes exactly for the enabled
  sites that listen on 0.0.0.0: a site with an address of its own, and a disabled one, fail it
  although the configuration is valid and the server routes to them.
\<close>

lemma site_matching_iff:
  assumes "routed cfg tbl" and "i < length (cfg_sites cfg)" and "site_domains (cfg_sites cfg ! i) \<noteq> []"
    and "\<not> explicit_default_domain (hd (site_domains (cfg_sites cfg ! i)))"
  shows "site_matching cfg tbl i \<longleftrightarrow>
    site_enabled (cfg_sites cfg ! i) \<and> site_listen_ip (cfg_sites cfg ! i) = ''0.0.0.0''"
proof -
  let ?s = "cfg_sites cfg ! i"
  have port: "site_http_port ?s \<noteq> 0"
    using assms(1) config_fits_sites [OF _ nth_mem [OF assms(2)]] by (simp add: routed_def)
  have any: "length ''0.0.0.0'' < 64" by simp
  have m: "site_matching cfg tbl i \<longleftrightarrow>
      rpsiod_config_find_site_for_listener cfg tbl (hd (site_domains ?s)) (site_http_port ?s) (Some ''0.0.0.0'') = Some i"
    using assms(3) port
    by (simp add: site_matching_def rpsiod_config_find_site_def rpsiod_config_find_site_for_listener_def Let_def)
  show ?thesis
  proof
    assume "site_matching cfg tbl i"
    then obtain h df where "lookup_route (length (cfg_sites cfg)) tbl h (site_http_port ?s) ''0.0.0.0'' df = Some i"
      unfolding m by (auto simp: rpsiod_config_find_site_for_listener_def Let_def split: if_splits)
    from lookup_route_sound [OF assms(1) any this]
    show "site_enabled ?s \<and> site_listen_ip ?s = ''0.0.0.0''" by simp
  next
    assume e: "site_enabled ?s \<and> site_listen_ip ?s = ''0.0.0.0''"
    then show "site_matching cfg tbl i"
      using find_site_complete [OF assms(1,2), of "site_http_port ?s" "hd (site_domains ?s)"] assms(3,4)
      unfolding m by simp
  qed
qed

lemma tests_report_failure:
  "(False, t) \<in> set (regression_checks unix_ok tcp_ok cfg tbl) \<Longrightarrow> run_regression_tests unix_ok tcp_ok cfg tbl = 1"
  by (force simp: run_regression_tests_def exit_code_def filter_empty_conv)

text \<open>The reader accepts 64 blocked names, the test asks for fewer.\<close>

lemma full_block_list_fails:
  assumes "i < length (cfg_sites cfg)" and "length (site_blocked_direct_access (cfg_sites cfg ! i)) = MAX_BLOCKED"
  shows "run_regression_tests unix_ok tcp_ok cfg tbl = 1"
proof (rule tests_report_failure [of "''blocked files''"])
  have "(False, ''blocked files'') \<in> set (site_tests unix_ok tcp_ok cfg tbl i)"
    using assms(2) by (simp add: site_tests_def Let_def)
  with assms(1) show "(False, ''blocked files'') \<in> set (regression_checks unix_ok tcp_ok cfg tbl)"
    by (auto simp: regression_checks_def)
qed

section \<open>The doctor\<close>

record doctor_env =
  de_user :: "string \<Rightarrow> bool"
  de_group :: "string \<Rightarrow> bool"
  de_writable :: "string \<Rightarrow> bool"
  de_readable :: "string \<Rightarrow> bool"
  de_exists :: "string \<Rightarrow> bool"
  de_nofile :: "nat option"
  de_nproc :: "nat option"
  de_bind :: "u16 \<Rightarrow> bool"
  de_unix :: "string \<Rightarrow> bool"
  de_tcp :: "string \<Rightarrow> u16 \<Rightarrow> bool"
  de_proxy :: "site_config \<Rightarrow> bool"

definition path_writable_parent :: "doctor_env \<Rightarrow> string \<Rightarrow> bool" where
  "path_writable_parent de path =
     (case strrchr (CHR ''/'') (safe_copy 512 path) of
        None \<Rightarrow> False
      | Some (parent, _) \<Rightarrow> if parent = [] then False else de_writable de parent)"

definition connect_php :: "doctor_env \<Rightarrow> site_config \<Rightarrow> bool" where
  "connect_php de site =
     (if \<not> site_php_enabled site then True
      else if rpsiod_streq_ci (site_php_handler_type site) ''socket''
      then de_exists de (site_php_socket site) \<and> de_unix de (safe_copy 108 (site_php_socket site))
      else de_tcp de (site_php_host site) (site_php_port site))"

definition log_check :: "doctor_env \<Rightarrow> log_path \<Rightarrow> string \<Rightarrow> (bool \<times> string) list" where
  "log_check de l name = (if lp_enabled l then [(path_writable_parent de (lp_path l), name)] else [])"

definition doctor_site :: "doctor_env \<Rightarrow> site_config \<Rightarrow> (bool \<times> string) list" where
  "doctor_site de site =
     (if file_routing site
      then [(0 \<le> site_static_root_fd site \<and> de_readable de (site_static_root_real site), ''web root''),
            (\<not> site_allow_symlinks site, ''symlinks disabled'')] else []) @
     (if site_http_port site \<noteq> 0 then [(de_bind de (site_http_port site), ''http port'')] else []) @
     (if site_ssl_enabled site then [(path_writable_parent de (site_ssl_storage site), ''ssl storage'')] else []) @
     log_check de (site_access_log site) ''site access log'' @
     log_check de (site_error_log site) ''site error log'' @
     [(connect_php de site, ''PHP-FPM'')] @
     (if rpsiod_streq_ci (site_routing_type site) ''proxy'' then [(de_proxy de site, ''proxy upstream'')] else []) @
     [(list_ex (\<lambda>b. b = ''.env'' \<or> b = ''.git'') (site_blocked_direct_access site), ''blocked files'')]"

definition doctor_checks :: "doctor_env \<Rightarrow> config \<Rightarrow> (bool \<times> string) list" where
  "doctor_checks de cfg =
     [(de_user de (cfg_linux_user cfg), ''linux user''),
      (de_group de (cfg_linux_group cfg), ''linux group''),
      (path_writable_parent de (cfg_pid_file cfg), ''pid path'')] @
     log_check de (cfg_access_log cfg) ''access log path'' @
     log_check de (cfg_error_log cfg) ''error log path'' @
     [(path_writable_parent de (cfg_benchmarks_storage_path cfg), ''benchmark storage''),
      (\<not> cfg_chroot_enabled cfg \<or> de_readable de (cfg_chroot_path cfg), ''root jail'')] @
     (case de_nofile de of None \<Rightarrow> [] | Some n \<Rightarrow> [(1024 \<le> n, ''open file limit'')]) @
     (case de_nproc de of None \<Rightarrow> [] | Some n \<Rightarrow> [(128 \<le> n, ''process limit'')]) @
     concat (map (doctor_site de) (cfg_sites cfg))"

definition rpsiod_doctor_main :: "loader \<Rightarrow> doctor_env \<Rightarrow> string list \<Rightarrow> int" where
  "rpsiod_doctor_main load de argv =
     (case parse_doctor_args argv of
        None \<Rightarrow> 2
      | Some paths \<Rightarrow>
          (case load paths of Inl _ \<Rightarrow> 1 | Inr (cfg, tbl) \<Rightarrow> exit_code (doctor_checks de cfg)))"

text \<open>
  A clean bill means that every site blocks dot files and every file site serves an open,
  readable root without symbolic links.
\<close>

lemma doctor_ok:
  assumes "rpsiod_doctor_main load de argv = 0"
  shows "\<exists>paths cfg tbl. parse_doctor_args argv = Some paths \<and> load paths = Inr (cfg, tbl) \<and>
    (\<forall>s \<in> set (cfg_sites cfg). (''.env'' \<in> set (site_blocked_direct_access s) \<or> ''.git'' \<in> set (site_blocked_direct_access s)) \<and>
       (file_routing s \<longrightarrow> 0 \<le> site_static_root_fd s \<and> de_readable de (site_static_root_real s) \<and> \<not> site_allow_symlinks s))"
proof -
  obtain paths cfg tbl where p: "parse_doctor_args argv = Some paths" "load paths = Inr (cfg, tbl)"
    "exit_code (doctor_checks de cfg) = 0"
    using assms by (auto simp: rpsiod_doctor_main_def split: option.splits sum.splits)
  then have "\<forall>c \<in> set (doctor_checks de cfg). fst c"
    by (auto simp: exit_code_def filter_empty_conv split: if_splits)
  then have "\<forall>s \<in> set (cfg_sites cfg). list_all fst (doctor_site de s)"
    by (auto simp: doctor_checks_def list_all_iff)
  then have "\<forall>s \<in> set (cfg_sites cfg). (''.env'' \<in> set (site_blocked_direct_access s) \<or> ''.git'' \<in> set (site_blocked_direct_access s)) \<and>
       (file_routing s \<longrightarrow> 0 \<le> site_static_root_fd s \<and> de_readable de (site_static_root_real s) \<and> \<not> site_allow_symlinks s)"
    by (auto simp: doctor_site_def list_ex_iff split: if_splits)
  with p show ?thesis by blast
qed

section \<open>Tracing a request\<close>

record trace_args =
  tr_host :: "string option"
  tr_path :: string
  tr_server :: string
  tr_sites :: "string option"
  tr_port :: u16

definition set_trace :: "string \<Rightarrow> string \<Rightarrow> trace_args \<Rightarrow> trace_args option" where
  "set_trace opt v a =
     (if opt = ''--host'' then Some (a\<lparr>tr_host := Some v\<rparr>)
      else if opt = ''--path'' then Some (a\<lparr>tr_path := v\<rparr>)
      else if opt = ''--port'' then
        (let port = (case strtol v of None \<Rightarrow> 0 | Some (n, _) \<Rightarrow> n) in
         Some (if 0 < port \<and> port \<le> 65535 then a\<lparr>tr_port := word_of_int port\<rparr> else a))
      else if opt = ''--server'' then Some (a\<lparr>tr_server := v\<rparr>)
      else if opt = ''--sites'' then Some (a\<lparr>tr_sites := Some v\<rparr>)
      else None)"

definition parse_trace_args :: "string list \<Rightarrow> trace_args option" where
  "parse_trace_args argv =
     (case argv of
        [] \<Rightarrow> None
      | cmd # opts \<Rightarrow>
          if cmd \<noteq> ''request'' then None
          else case parse_options set_trace opts
              \<lparr>tr_host = None, tr_path = ''/'', tr_server = ''/etc/rpsiod/server.yml'', tr_sites = None, tr_port = 0\<rparr> of
            None \<Rightarrow> None
          | Some a \<Rightarrow>
              if tr_host a = None \<or> tr_host a = Some [] then None
              else if tr_path a = [] \<or> hd (tr_path a) \<noteq> CHR ''/'' then None
              else Some a)"

definition trace_host :: "trace_args \<Rightarrow> string" where
  "trace_host a = (case tr_host a of None \<Rightarrow> [] | Some h \<Rightarrow> h)"

definition find_trace_site :: "config \<Rightarrow> route_table \<Rightarrow> trace_args \<Rightarrow> nat option" where
  "find_trace_site cfg tbl a =
     (let by_port = (if tr_port a \<noteq> 0 then rpsiod_config_find_site cfg tbl (trace_host a) (tr_port a) else None) in
      if by_port \<noteq> None then by_port
      else List.find (\<lambda>i. let site = cfg_sites cfg ! i in
             site_enabled site \<and> site_http_port site \<noteq> 0 \<and>
             list_ex (\<lambda>d. rpsiod_streq_ci d (trace_host a)) (site_domains site))
           [0..<length (cfg_sites cfg)])"

definition trace_address :: "site_config \<Rightarrow> u16 \<Rightarrow> string \<times> u16" where
  "trace_address site override_port =
     (if site_listen_ip site = ''0.0.0.0'' then ''127.0.0.1'' else site_listen_ip site,
      if override_port \<noteq> 0 then override_port else site_http_port site)"

definition trace_text :: "trace_args \<Rightarrow> string" where
  "trace_text a =
     ''GET '' @ tr_path a @ '' HTTP/1.1'' @ CRLF @ ''Host: '' @ trace_host a @ CRLF @
     ''User-Agent: rpsiod-trace/1.0'' @ CRLF @ ''Accept: */*'' @ CRLF @ ''X-Rpsiod-Trace: 1'' @ CRLF @
     ''Connection: close'' @ CRLF @ CRLF"

text \<open>The request, when it fits the buffer of 4096 bytes.\<close>

definition trace_request :: "trace_args \<Rightarrow> string option" where
  "trace_request a = (if 4096 \<le> length (trace_text a) then None else Some (trace_text a))"

datatype trace_read = Got string | Interrupted | Read_failed

text \<open>
  The number of bytes read and the header that is printed; \<open>None\<close> after a read error.  The end of
  the list is the end of the connection.
\<close>

fun trace_loop :: "trace_read list \<Rightarrow> nat \<Rightarrow> string option \<Rightarrow> (nat \<times> string option) option" where
  "trace_loop [] n printed = Some (n, printed)"
| "trace_loop (Interrupted # rs) n printed = trace_loop rs n printed"
| "trace_loop (Read_failed # rs) n printed = None"
| "trace_loop (Got buf # rs) n printed =
     (if buf = [] then Some (n, printed)
      else trace_loop rs (n + length buf)
        (if printed \<noteq> None then printed
         else case memmem (CRLF @ CRLF) buf of None \<Rightarrow> None | Some (h, _) \<Rightarrow> Some (h @ CRLF @ CRLF)))"

definition run_trace_request ::
  "loader \<Rightarrow> (string \<times> u16 \<Rightarrow> (bool \<times> trace_read list) option) \<Rightarrow> trace_args \<Rightarrow> int" where
  "run_trace_request load connect a =
     (case load \<lparr>pt_server = tr_server a, pt_sites = tr_sites a\<rparr> of
        Inl _ \<Rightarrow> 1
      | Inr (cfg, tbl) \<Rightarrow>
          (case find_trace_site cfg tbl a of
             None \<Rightarrow> 1
           | Some i \<Rightarrow>
               (case connect (trace_address (cfg_sites cfg ! i) (tr_port a)) of
                  None \<Rightarrow> 1
                | Some (write_ok, reads) \<Rightarrow>
                    if trace_request a = None \<or> \<not> write_ok then 1
                    else if trace_loop reads 0 None = None then 1 else 0)))"

definition rpsiod_trace_main ::
  "loader \<Rightarrow> (string \<times> u16 \<Rightarrow> (bool \<times> trace_read list) option) \<Rightarrow> string list \<Rightarrow> int" where
  "rpsiod_trace_main load connect argv =
     (case parse_trace_args argv of None \<Rightarrow> 2 | Some a \<Rightarrow> run_trace_request load connect a)"

definition trace_lines :: "trace_args \<Rightarrow> string list" where
  "trace_lines a = [''Host: '' @ trace_host a, ''User-Agent: rpsiod-trace/1.0'', ''Accept: */*'',
     ''X-Rpsiod-Trace: 1'', ''Connection: close'']"

lemma trace_headers:
  assumes "parse_host_value HOST_LEN (trace_host a) = Some h" and "length (trace_host a) < 256"
  shows "parse_header_lines (start_state r) (trace_lines a) =
     Inr ((start_state (r\<lparr>r_host := h, r_keep_alive := False, r_trace_request := True\<rparr>))
       \<lparr>ps_have_host := True, ps_header_count := 5\<rparr>)"
proof -
  have n: "valid_header_name ''User-Agent''" "valid_header_name ''Accept''"
    "valid_header_name ''X-Rpsiod-Trace''" "valid_header_name ''Connection''"
    "valid_header_value ''rpsiod-trace/1.0''" "valid_header_value ''*/*''" "valid_header_value ''1''"
    "valid_header_value ''close''" by code_simp+
  have t: "trim is_ows ''close'' = ''close''" "trim is_ows ''1'' = ''1''" by code_simp+
  have u: "list_all (\<lambda>k. \<not> rpsiod_streq_ci ''User-Agent'' k) known_headers"
    "list_all (\<lambda>k. \<not> rpsiod_streq_ci ''Accept'' k) known_headers" by code_simp+
  show ?thesis
    using parse_host_line [OF assms(1), of "start_state r"] assms(2)
      parse_field_line [OF n(1) _ n(5)] parse_field_line [OF n(2) _ n(6)]
      parse_field_line [OF n(3) _ n(7)] parse_field_line [OF n(4) _ n(8)] apply_unknown [OF u(1)] apply_unknown [OF u(2)]
    by (simp add: trace_lines_def t apply_connection_close apply_trace start_state_def)
qed

text \<open>
  the request of \<open>rpsiod trace\<close> is the one the operator asked for: for a valid host and an
  origin-form path, what the command writes fits its buffer and is accepted by the server's
  parser as a GET of exactly that path on that host, with tracing on and keep-alive off, so the
  connection ends after one response.
\<close>

theorem trace_request_understood:
  assumes "parse_trace_args argv = Some a" and "valid_request_target_bytes (tr_path a)"
    and "length (tr_path a) + 13 \<le> 2048"
    and "parse_host_value HOST_LEN (trace_host a) = Some h" and "length (trace_host a) < 256"
  shows "\<exists>t r. trace_request a = Some t \<and> rpsiod_http_parse_request t = Parsed r \<and> r_header_len r = length t \<and>
     r_method r = ''GET'' \<and> r_path r = tr_path a \<and> r_host r = h \<and> r_trace_request r \<and> \<not> r_keep_alive r \<and>
     r_content_length r = 0 \<and> \<not> r_internal_https r"
proof -
  let ?line = "''GET'' @ '' '' @ tr_path a @ '' HTTP/1.1''"
  have m: "valid_method ''GET''" by code_simp
  obtain p where p: "tr_path a = CHR ''/'' # p"
    using assms(1) by (cases "tr_path a") (auto simp: parse_trace_args_def split: list.splits option.splits if_splits)
  define n where "n = length (crlf_lines (?line # trace_lines a)) + 4"
  have whole: "trace_text a = crlf_lines (?line # trace_lines a) @ CRLF @ CRLF @ []"
    by (simp add: trace_text_def trace_lines_def)
  have n: "length (trace_text a) = n" unfolding whole n_def by (simp del: crlf_lines.simps)
  have len: "n < 4096" using assms(3,5) by (simp add: n_def trace_lines_def)
  have pl: "list_all plain_line (trace_lines a)"
    using host_value_chars(4,5) [OF assms(4)] by (simp add: plain_line_def trace_lines_def)
  have "rpsiod_http_parse_request (trace_text a) = finish_request (origin_line ''GET'' (tr_path a))
       ((start_state ((start_request n (origin_line ''GET'' (tr_path a)))
          \<lparr>r_host := h, r_keep_alive := False, r_trace_request := True\<rparr>))
         \<lparr>ps_have_host := True, ps_header_count := 5\<rparr>)"
    unfolding whole
    by (subst parse_written_request [OF m p assms(2) _ pl n_def [symmetric]])
       (use assms(3) in simp, use len in simp, simp only: trace_headers [OF assms(4,5)] sum.case)
  then show ?thesis
    using len n by (simp add: trace_request_def finish_request_def start_state_def start_request_def
        empty_request_def origin_line_def)
qed

theorem trace_request_understood_witness:
  "\<exists>a t r. parse_trace_args [''request'', ''--host'', ''ex.org'', ''--path'', ''/pma/''] = Some a \<and>
     trace_request a = Some t \<and> rpsiod_http_parse_request t = Parsed r \<and> r_path r = ''/pma/'' \<and> r_host r = ''ex.org'' \<and>
     r_trace_request r"
proof -
  let ?a = "\<lparr>tr_host = Some ''ex.org'', tr_path = ''/pma/'', tr_server = ''/etc/rpsiod/server.yml'', tr_sites = None, tr_port = 0\<rparr>"
  have a: "parse_trace_args [''request'', ''--host'', ''ex.org'', ''--path'', ''/pma/''] = Some ?a"
    by (simp add: parse_trace_args_def set_trace_def)
  have v: "valid_request_target_bytes (tr_path ?a)" "parse_host_value HOST_LEN (trace_host ?a) = Some ''ex.org''"
    by code_simp+
  show ?thesis
    using trace_request_understood [OF a v(1) _ v(2)] a by (simp add: trace_host_def) blast
qed

text \<open>A response header that arrives in two reads is never printed.\<close>

lemma trace_header_split:
  "trace_loop [Got (''HTTP/1.1 200 OK'' @ CRLF), Got (CRLF @ ''body'')] 0 None = Some (23, None)"
  by (simp add: starts_with_def)

end
