(* ===== verification/Status.thy ===== *)
theory Status
  imports Commands
begin

text \<open>
  The status report (\<open>src/status.c\<close>): what it reads from the pid file, from
  \<open>/proc/<pid>/stat\<close> and from \<open>/proc/net/tcp\<close>, and the state of each site's backends.  The
  floating point of the uptime and the printing are left out.
\<close>

section \<open>The start time of the server\<close>

abbreviation sp :: char where "sp \<equiv> CHR '' ''"

fun skip_fields :: "nat \<Rightarrow> string \<Rightarrow> string" where
  "skip_fields 0 p = p"
| "skip_fields (Suc k) p =
     (if p = [] then [] else skip_fields k (dropWhile (\<lambda>c. c \<noteq> sp) (dropWhile (\<lambda>c. c = sp) p)))"

text \<open>Fields 3 to 21 are skipped behind the last closing parenthesis; \<open>None\<close> when there is none.\<close>

definition stat_start_ticks :: "string \<Rightarrow> u64 option" where
  "stat_start_ticks buf =
     (case strrchr (CHR '')'') buf of
        None \<Rightarrow> None
      | Some (_, rest) \<Rightarrow>
          Some (case strtoull (dropWhile (\<lambda>c. c = sp) (skip_fields 19 (tl rest))) of
                  None \<Rightarrow> 0 | Some (n, _) \<Rightarrow> n))"

fun spaced :: "string list \<Rightarrow> string" where
  "spaced [] = []"
| "spaced (w # ws) = sp # w @ spaced ws"

definition stat_word :: "string \<Rightarrow> bool" where
  "stat_word w \<longleftrightarrow> w \<noteq> [] \<and> sp \<notin> set w \<and> CHR '')'' \<notin> set w"

lemma skip_spaced:
  "list_all stat_word ws \<Longrightarrow> k \<le> length ws \<Longrightarrow> skip_fields k (spaced ws) = spaced (drop k ws)"
proof (induction ws arbitrary: k)
  case (Cons w ws)
  show ?case
  proof (cases k)
    case (Suc j)
    have w: "w \<noteq> []" "\<forall>c \<in> set w. c \<noteq> sp" using Cons.prems(1) by (auto simp: stat_word_def)
    then have "dropWhile (\<lambda>c. c = sp) (w @ spaced ws) = w @ spaced ws" by (cases w) auto
    moreover have "dropWhile (\<lambda>c. c \<noteq> sp) (w @ spaced ws) = spaced ws"
      using w(2) by (cases ws) (simp_all add: dropWhile_append dropWhile_eq_Nil_conv)
    ultimately show ?thesis using Cons Suc by simp
  qed simp
qed simp

text \<open>
  The number printed is field 22 of the line, whatever the program name in parentheses contains.
\<close>

lemma stat_start_ticks_field:
  assumes "list_all stat_word ws" and "19 < length ws" and "ws ! 19 = dec n" and "n < 2 ^ 64"
  shows "stat_start_ticks (name @ '')'' @ spaced ws) = Some (word_of_nat n)"
proof -
  have "CHR '')'' \<notin> set (spaced ws)" using assms(1) by (induction ws) (auto simp: stat_word_def)
  then have r: "strrchr (CHR '')'') (name @ '')'' @ spaced ws) = Some (name, CHR '')'' # spaced ws)"
    by (simp add: strrchr_Some)
  obtain u v where d: "drop 19 ws = dec n # v" using assms(2,3) by (metis Cons_nth_drop_Suc)
  obtain c t where c: "dec n = c # t" "is_digit c" using dec_Cons by blast
  have "strtoull (dec n @ spaced v) = Some (word_of_nat n, spaced v, False)"
    by (rule strtoull_dec [OF _ assms(4)]) (cases v; simp add: is_digit_def uchar_def)
  moreover have "dropWhile (\<lambda>c. c = sp) (spaced (drop 19 ws)) = dec n @ spaced v"
    using c by (auto simp: d is_digit_def uchar_def)
  ultimately show ?thesis
    using skip_spaced [OF assms(1), of 19] assms(2) by (simp add: stat_start_ticks_def r [simplified])
qed

section \<open>Connections, pid and backends\<close>

definition read_pid_file :: "string option \<Rightarrow> int" where
  "read_pid_file contents =
     (case contents of
        None \<Rightarrow> - 1
      | Some t \<Rightarrow> (case strtol t of None \<Rightarrow> - 1 | Some (n, _) \<Rightarrow> n))"

text \<open>The rows of \<open>/proc/net/tcp\<close>: local port and state, \<open>None\<close> when they cannot be scanned.\<close>

definition counts_row :: "config \<Rightarrow> nat \<times> nat \<Rightarrow> bool" where
  "counts_row cfg row \<longleftrightarrow> (case row of (local_port, state) \<Rightarrow>
     state = 1 \<and> list_ex (\<lambda>s. unat (site_http_port s) = local_port \<or> unat (site_https_port s) = local_port) (cfg_sites cfg))"

definition count_active_connections :: "config \<Rightarrow> (nat \<times> nat) option list \<Rightarrow> nat" where
  "count_active_connections cfg rows =
     length (filter (\<lambda>r. case r of None \<Rightarrow> False | Some row \<Rightarrow> counts_row cfg row) rows)"

text \<open>The workers: processes whose parent is the server, from the entries that can be scanned.\<close>

definition count_worker_processes :: "int \<Rightarrow> (string \<times> int option) list \<Rightarrow> nat" where
  "count_worker_processes parent_pid entries =
     length (filter (\<lambda>(nm, ppid).
         (case strtol nm of None \<Rightarrow> False | Some (_, rest, _) \<Rightarrow> rest = []) \<and> ppid = Some parent_pid) entries)"

definition php_ok :: "(string \<Rightarrow> bool) \<Rightarrow> (string \<Rightarrow> u16 \<Rightarrow> bool) \<Rightarrow> site_config \<Rightarrow> bool" where
  "php_ok unix_ok tcp_ok site =
     (if \<not> site_php_enabled site then True
      else if rpsiod_streq_ci (site_php_handler_type site) ''socket'' then unix_ok (safe_copy 108 (site_php_socket site))
      else tcp_ok (site_php_host site) (site_php_port site))"

definition proxy_ok :: "(site_config \<Rightarrow> bool) \<Rightarrow> site_config \<Rightarrow> bool" where
  "proxy_ok connect_ok site = (if \<not> rpsiod_streq_ci (site_routing_type site) ''proxy'' then True else connect_ok site)"

record site_status =
  st_name :: string
  st_enabled :: bool
  st_ssl :: bool
  st_http2 :: bool
  st_php :: bool
  st_proxy :: "bool option"

definition site_report :: "(string \<Rightarrow> bool) \<Rightarrow> (string \<Rightarrow> u16 \<Rightarrow> bool) \<Rightarrow> (site_config \<Rightarrow> bool) \<Rightarrow> site_config \<Rightarrow> site_status" where
  "site_report unix_ok tcp_ok connect_ok site =
     \<lparr>st_name = site_name site, st_enabled = site_enabled site, st_ssl = site_ssl_enabled site,
      st_http2 = site_ssl_enabled site, st_php = php_ok unix_ok tcp_ok site,
      st_proxy = (if rpsiod_streq_ci (site_routing_type site) ''proxy'' then Some (proxy_ok connect_ok site) else None)\<rparr>"

definition rpsiod_status_main ::
  "loader \<Rightarrow> (site_config \<Rightarrow> site_status) \<Rightarrow> string list \<Rightarrow> int \<times> site_status list" where
  "rpsiod_status_main load report argv =
     (case parse_status_args argv of
        None \<Rightarrow> (2, [])
      | Some (paths, pid_file) \<Rightarrow>
          (case load paths of Inl _ \<Rightarrow> (1, []) | Inr (cfg, tbl) \<Rightarrow> (0, map report (cfg_sites cfg))))"

text \<open>The report and the self test ask the PHP backend in the same way.\<close>

lemma php_checks_agree: "php_ok unix_ok tcp_ok site = connect_php_handler unix_ok tcp_ok site"
  by (simp add: php_ok_def connect_php_handler_def)

end
