(* ===== verification/BenchLoad.thy ===== *)
theory BenchLoad
  imports Complex_Main Http2Text Process
begin

text \<open>
  The load benchmark of \<open>src/bench.c\<close>: its arguments, one request with its counters, and the loop
  over requests.  What the network answers to each request is a parameter; latencies are rational
  numbers, and the report with its percentiles (floating point, output) is left out.
\<close>

section \<open>Arguments\<close>

record bench_args =
  ba_site :: string
  ba_path :: string
  ba_connections :: int
  ba_duration :: int
  ba_server :: string
  ba_sites :: "string option"

definition parse_duration_arg :: "string \<Rightarrow> int \<Rightarrow> int" where
  "parse_duration_arg s fallback = (let sec = rpsiod_parse_duration_sec s fallback in if 0 < sec then sec else fallback)"

definition set_bench :: "string \<Rightarrow> string \<Rightarrow> bench_args \<Rightarrow> bench_args option" where
  "set_bench opt v a =
     (if opt = ''--site'' then Some (a\<lparr>ba_site := v\<rparr>)
      else if opt = ''--path'' then Some (a\<lparr>ba_path := v\<rparr>)
      else if opt = ''--connections'' then Some (a\<lparr>ba_connections := if atoi v \<le> 0 then 1 else atoi v\<rparr>)
      else if opt = ''--duration'' then Some (a\<lparr>ba_duration := parse_duration_arg v (ba_duration a)\<rparr>)
      else if opt = ''--server'' then Some (a\<lparr>ba_server := v\<rparr>)
      else if opt = ''--sites'' then Some (a\<lparr>ba_sites := Some v\<rparr>)
      else None)"

definition parse_bench_args :: "string list \<Rightarrow> bench_args option" where
  "parse_bench_args argv = parse_options set_bench argv
     \<lparr>ba_site = ''Example Website'', ba_path = ''/index.html'', ba_connections = 100, ba_duration = 10,
      ba_server = ''/etc/rpsiod/server.yml'', ba_sites = None\<rparr>"

definition parse_compare_args :: "string list \<Rightarrow> (string \<times> string) option" where
  "parse_compare_args argv =
     (case parse_options (\<lambda>opt v (b, a).
             if opt = ''--before'' then Some (Some v, a) else if opt = ''--after'' then Some (b, Some v) else None)
           argv (None, None) of
        Some (Some b, Some a) \<Rightarrow> Some (b, a)
      | _ \<Rightarrow> None)"

definition find_site_by_name :: "config \<Rightarrow> string \<Rightarrow> site_config option" where
  "find_site_by_name cfg nm = List.find (\<lambda>s. site_enabled s \<and> site_name s = nm) (cfg_sites cfg)"

section \<open>One request\<close>

record bench_result =
  br_requests :: nat
  br_failed :: nat
  br_timeouts :: nat
  br_bytes :: nat
  br_accepted :: nat
  br_closed :: nat
  br_read_errors :: nat
  br_write_errors :: nat
  br_socket_errors :: nat
  br_status :: "int \<Rightarrow> nat"
  br_peak :: nat
  br_latencies :: "rat list"
  br_latency_cap :: nat
  br_max_latency :: rat

definition empty_bench_result :: bench_result where
  "empty_bench_result = \<lparr>br_requests = 0, br_failed = 0, br_timeouts = 0, br_bytes = 0, br_accepted = 0,
     br_closed = 0, br_read_errors = 0, br_write_errors = 0, br_socket_errors = 0, br_status = (\<lambda>_. 0),
     br_peak = 0, br_latencies = [], br_latency_cap = 0, br_max_latency = 0\<rparr>"

definition record_latency :: "bool \<Rightarrow> rat \<Rightarrow> bench_result \<Rightarrow> bench_result" where
  "record_latency realloc_ok latency r =
     (let full = length (br_latencies r) = br_latency_cap r in
      if full \<and> \<not> realloc_ok then r
      else r\<lparr>br_latency_cap := (if full then (if br_latency_cap r = 0 then 4096 else br_latency_cap r * 2)
                                else br_latency_cap r),
             br_latencies := br_latencies r @ [latency],
             br_max_latency := (if br_max_latency r < latency then latency else br_max_latency r)\<rparr>)"

text \<open>What \<open>read\<close> answers; the end of the list is the end of the connection.\<close>

datatype bench_read = Data string | Eintr | Timed_out | Read_error

text \<open>The first bytes of the reply are kept until they hold the end of the status line.\<close>

definition bench_header :: "string \<Rightarrow> string \<times> bool \<times> bench_result \<Rightarrow> string \<times> bool \<times> bench_result" where
  "bench_header buf h = (case h of (header, recorded, r) \<Rightarrow>
     if \<not> recorded \<and> length header < 8191 then
       (let header1 = header @ take (8191 - length header) buf in
        if memmem CRLF (cstr header1) = None then (header1, False, r)
        else (header1, True,
              case scan_status (cstr header1) of
                None \<Rightarrow> r
              | Some status \<Rightarrow>
                  if 0 \<le> status \<and> status < 600 then r\<lparr>br_status := (br_status r)(status := br_status r status + 1)\<rparr> else r))
     else h)"

fun bench_reads :: "bench_read list \<Rightarrow> bool \<Rightarrow> string \<times> bool \<times> bench_result \<Rightarrow> (bool \<times> bench_result) + bench_result" where
  "bench_reads [] got (header, recorded, r) = Inl (got, r)"
| "bench_reads (Eintr # rs) got h = bench_reads rs got h"
| "bench_reads (Timed_out # rs) got (header, recorded, r) =
     Inr (r\<lparr>br_timeouts := br_timeouts r + 1, br_failed := br_failed r + 1, br_read_errors := br_read_errors r + 1\<rparr>)"
| "bench_reads (Read_error # rs) got (header, recorded, r) =
     Inr (r\<lparr>br_failed := br_failed r + 1, br_read_errors := br_read_errors r + 1\<rparr>)"
| "bench_reads (Data buf # rs) got (header, recorded, r) =
     (if buf = [] then Inl (got, r)
      else bench_reads rs True (bench_header buf (header, recorded, r\<lparr>br_bytes := br_bytes r + length buf\<rparr>)))"

record exchange =
  ex_connects :: bool
  ex_write_ok :: bool
  ex_reads :: "bench_read list"
  ex_latency :: rat
  ex_realloc_ok :: bool

definition bench_request_text :: "site_config \<Rightarrow> string \<Rightarrow> string" where
  "bench_request_text site path =
     ''GET '' @ path @ '' HTTP/1.1'' @ CRLF @ ''Host: '' @
     (if site_domains site \<noteq> [] then hd (site_domains site) else ''localhost'') @ CRLF @
     ''Connection: close'' @ CRLF @ CRLF"

definition one_request :: "site_config \<Rightarrow> string \<Rightarrow> exchange \<Rightarrow> bench_result \<Rightarrow> bench_result" where
  "one_request site path ex r =
     (if \<not> ex_connects ex then r\<lparr>br_failed := br_failed r + 1, br_socket_errors := br_socket_errors r + 1\<rparr>
      else
        let r1 = r\<lparr>br_accepted := br_accepted r + 1, br_peak := (if br_peak r < 1 then 1 else br_peak r)\<rparr> in
        if 4096 \<le> length (bench_request_text site path) then r1\<lparr>br_failed := br_failed r1 + 1\<rparr>
        else if \<not> ex_write_ok ex then r1\<lparr>br_failed := br_failed r1 + 1, br_write_errors := br_write_errors r1 + 1\<rparr>
        else case bench_reads (ex_reads ex) False ([], False, r1) of
          Inr r2 \<Rightarrow> r2
        | Inl (got, r2) \<Rightarrow>
            let r3 = r2\<lparr>br_closed := br_closed r2 + 1\<rparr> in
            if \<not> got then r3\<lparr>br_failed := br_failed r3 + 1\<rparr>
            else record_latency (ex_realloc_ok ex) (ex_latency ex) (r3\<lparr>br_requests := br_requests r3 + 1\<rparr>))"

text \<open>The requests made before the deadline, and the exit code of \<open>run_one_benchmark\<close>.\<close>

definition run_requests :: "site_config \<Rightarrow> string \<Rightarrow> exchange list \<Rightarrow> bench_result" where
  "run_requests site path exs = fold (one_request site path) exs empty_bench_result"

definition run_one_benchmark ::
  "(string \<times> string option \<Rightarrow> config_error + config \<times> route_table) \<Rightarrow> exchange list \<Rightarrow> bench_args \<Rightarrow> int" where
  "run_one_benchmark load exs a =
     (case load (ba_server a, ba_sites a) of
        Inl _ \<Rightarrow> 1
      | Inr (cfg, tbl) \<Rightarrow>
          (case find_site_by_name cfg (ba_site a) of
             None \<Rightarrow> 1
           | Some site \<Rightarrow> if 0 < br_requests (run_requests site (ba_path a) exs) then 0 else 1))"

section \<open>The counters add up\<close>

text \<open>
  After \<open>n\<close> requests each is counted once as answered or failed, and once as a connection or a
  socket error; every error is a failure, every recorded status and latency an accepted
  connection, and the largest latency is the maximum of the recorded ones.
\<close>

definition bench_ok :: "nat \<Rightarrow> bench_result \<Rightarrow> bool" where
  "bench_ok n r \<longleftrightarrow>
     br_requests r + br_failed r = n \<and> br_accepted r + br_socket_errors r = n \<and>
     br_read_errors r + br_write_errors r + br_socket_errors r \<le> br_failed r \<and>
     br_timeouts r \<le> br_read_errors r \<and> br_requests r \<le> br_closed r \<and> br_closed r \<le> br_accepted r \<and>
     length (br_latencies r) \<le> br_requests r \<and> length (br_latencies r) \<le> br_latency_cap r \<and>
     (\<forall>l \<in> set (br_latencies r). l \<le> br_max_latency r)"

definition counts :: "bench_result \<Rightarrow> nat list \<times> rat list \<times> rat" where
  "counts r = ([br_requests r, br_failed r, br_timeouts r, br_accepted r, br_closed r, br_read_errors r,
     br_write_errors r, br_socket_errors r, br_latency_cap r], br_latencies r, br_max_latency r)"

lemma bench_header_counts: "bench_header buf (header, recorded, r) = (header', recorded', r') \<Longrightarrow> counts r' = counts r"
  by (auto simp: bench_header_def counts_def Let_def split: if_splits option.splits)

text \<open>Reading the reply either ends it or counts one failed read.\<close>

definition failed_read :: "bench_result \<Rightarrow> bool \<Rightarrow> bench_result" where
  "failed_read r timeout = r\<lparr>br_timeouts := br_timeouts r + (if timeout then 1 else 0),
     br_failed := br_failed r + 1, br_read_errors := br_read_errors r + 1\<rparr>"

lemma counts_failed_read: "counts r = counts r' \<Longrightarrow> counts (failed_read r t) = counts (failed_read r' t)"
  by (simp add: counts_def failed_read_def)

lemma bench_reads_counts:
  "case bench_reads rs got (header, recorded, r) of
     Inl (got', r') \<Rightarrow> counts r' = counts r
   | Inr r' \<Rightarrow> \<exists>t. counts r' = counts (failed_read r t)"
proof (induction rs got "(header, recorded, r)" arbitrary: header recorded r rule: bench_reads.induct)
  case (3 rs got header recorded r)
  show ?case by (auto simp: counts_def failed_read_def intro: exI [of _ True])
next
  case (4 rs got header recorded r)
  show ?case by (auto simp: counts_def failed_read_def intro: exI [of _ False])
next
  case (5 buf rs got header recorded r)
  show ?case
  proof (cases "buf = []")
    case False
    let ?r = "r\<lparr>br_bytes := br_bytes r + length buf\<rparr>"
    obtain h' c' r' where b: "bench_header buf (header, recorded, ?r) = (h', c', r')" by (rule prod_cases3)
    have c: "counts r' = counts r" using bench_header_counts [OF b] by (simp add: counts_def)
    show ?thesis
      using 5 [OF False, of h' c' r'] b c counts_failed_read [OF c] False
      by (auto split: sum.splits)
  qed simp
qed simp_all

lemma bench_ok_counts: "counts r = counts r' \<Longrightarrow> bench_ok n r = bench_ok n r'"
  by (simp add: bench_ok_def counts_def)

lemma record_latency_ok:
  assumes "bench_ok n r" and "length (br_latencies r) < br_requests r"
  shows "bench_ok n (record_latency ok l r)"
proof (cases "length (br_latencies r) = br_latency_cap r \<and> \<not> ok")
  case True
  with assms(1) show ?thesis by (simp add: record_latency_def Let_def)
next
  case False
  have m: "\<forall>x \<in> set (br_latencies r @ [l]). x \<le> (if br_max_latency r < l then l else br_max_latency r)"
    using assms(1) by (auto simp: bench_ok_def)
  have c: "length (br_latencies r) < (if length (br_latencies r) = br_latency_cap r
      then (if br_latency_cap r = 0 then 4096 else br_latency_cap r * 2) else br_latency_cap r)"
    using assms(1) by (simp add: bench_ok_def)
  show ?thesis
    using assms m c False unfolding bench_ok_def record_latency_def Let_def by simp
qed

lemma answered_ok:
  assumes "bench_ok n r" and "counts r2 = counts (r\<lparr>br_accepted := br_accepted r + 1\<rparr>)"
  shows "bench_ok (n + 1) (r2\<lparr>br_closed := br_closed r2 + 1, br_failed := br_failed r2 + 1\<rparr>)"
    and "bench_ok (n + 1) (r2\<lparr>br_closed := br_closed r2 + 1, br_requests := br_requests r2 + 1\<rparr>)"
    and "length (br_latencies r2) < br_requests r2 + 1"
  using assms by (simp_all add: bench_ok_def counts_def)

lemma one_request_ok:
  assumes "bench_ok n r"
  shows "bench_ok (n + 1) (one_request site path ex r)"
proof -
  let ?r1 = "r\<lparr>br_accepted := br_accepted r + 1, br_peak := (if br_peak r < 1 then 1 else br_peak r)\<rparr>"
  let ?reads = "bench_reads (ex_reads ex) False ([], False, ?r1)"
  have peak: "counts ?r1 = counts (r\<lparr>br_accepted := br_accepted r + 1\<rparr>)" by (simp add: counts_def)
  show ?thesis
  proof (cases "ex_connects ex \<and> \<not> 4096 \<le> length (bench_request_text site path) \<and> ex_write_ok ex")
    case False
    have b: "bench_ok (n + 1) (r\<lparr>br_failed := br_failed r + 1, br_socket_errors := br_socket_errors r + 1\<rparr>)"
      "bench_ok (n + 1) (?r1\<lparr>br_failed := br_failed ?r1 + 1\<rparr>)"
      "bench_ok (n + 1) (?r1\<lparr>br_failed := br_failed ?r1 + 1, br_write_errors := br_write_errors ?r1 + 1\<rparr>)"
      using assms by (simp_all add: bench_ok_def)
    with False show ?thesis unfolding one_request_def Let_def by presburger
  next
    case True
    show ?thesis
    proof (cases ?reads)
      case (Inr r2)
      then obtain t where "counts r2 = counts (failed_read ?r1 t)"
        using bench_reads_counts [where rs = "ex_reads ex" and got = False and header = "[]" and recorded = False and r = ?r1]
        by auto
      moreover have "bench_ok (n + 1) (failed_read ?r1 t)" using assms by (simp add: bench_ok_def failed_read_def)
      ultimately have "bench_ok (n + 1) r2" using bench_ok_counts by blast
      then show ?thesis using True Inr by (simp add: one_request_def Let_def)
    next
      case (Inl a)
      obtain got r2 where a: "a = (got, r2)" by (rule prod.exhaust)
      then have "counts r2 = counts ?r1"
        using bench_reads_counts [where rs = "ex_reads ex" and got = False and header = "[]" and recorded = False and r = ?r1] Inl
        by simp
      note ok = answered_ok [OF assms this [unfolded peak]]
      have "bench_ok (n + 1) (record_latency (ex_realloc_ok ex) (ex_latency ex)
          (r2\<lparr>br_closed := br_closed r2 + 1, br_requests := br_requests r2 + 1\<rparr>))"
        by (rule record_latency_ok [OF ok(2)]) (use ok(3) in simp)
      with ok(1) show ?thesis using True Inl a by (simp add: one_request_def Let_def)
    qed
  qed
qed

lemma bench_accounting: "bench_ok (length exs) (run_requests site path exs)"
proof -
  have "bench_ok (n + length exs) (fold (one_request site path) exs r)" if "bench_ok n r" for n r
    using that
  proof (induction exs arbitrary: n r)
    case (Cons e exs)
    then show ?case using Cons.IH [OF one_request_ok [OF Cons.prems]] by simp
  qed simp
  from this [of 0 empty_bench_result] show ?thesis
    by (simp add: run_requests_def bench_ok_def empty_bench_result_def)
qed

text \<open>The configured number of connections is printed in the report and used nowhere.\<close>

lemma connections_unused: "run_one_benchmark load exs (a\<lparr>ba_connections := c\<rparr>) = run_one_benchmark load exs a"
  by (simp add: run_one_benchmark_def split: sum.splits option.splits)

text \<open>A connection closed after a failed read is never counted as closed.\<close>

lemma failed_read_not_closed:
  "br_closed (run_requests site_defaults ''/'' [\<lparr>ex_connects = True, ex_write_ok = True, ex_reads = [Read_error],
     ex_latency = 0, ex_realloc_ok = True\<rparr>]) = 0 \<and>
   br_accepted (run_requests site_defaults ''/'' [\<lparr>ex_connects = True, ex_write_ok = True, ex_reads = [Read_error],
     ex_latency = 0, ex_realloc_ok = True\<rparr>]) = 1"
  by (simp add: run_requests_def one_request_def empty_bench_result_def bench_request_text_def site_defaults_def Let_def)

end
