(* ===== verification/WorkerLoop.thy ===== *)
theory WorkerLoop
  imports Clients
begin

text \<open>
  The event loop of a worker (\<open>rpsiod_server_run_worker\<close> of \<open>src/server.c\<close>) over the heap of
  connections: batches of \<open>epoll\<close> events, the sweep behind each batch, and the clean-up behind the
  loop.  The kernel's answers are a list of turns; its end is the stop request.
\<close>

section \<open>One turn\<close>

text \<open>
  An event of a listener carries what \<open>accept4\<close> will answer; an event of a connection its
  address, the hang-up flags, what reading gives, and the socket to write to.
\<close>

datatype epoll_event =
    Listener_event listener surroundings "accept_result list"
  | Connection_event nat bool "nat \<Rightarrow> surroundings" "read_event list" io

record worker_state =
  ws_head :: "nat option"
  ws_heap :: heap
  ws_server :: server_state
  ws_sent :: "(nat \<times> io) list"
  ws_http2 :: "client list"

text \<open>
  \<open>Stale\<close>: the loop follows a pointer to a freed connection.  \<open>Request_crash\<close>: the request
  handler dereferences \<open>NULL\<close>.
\<close>

datatype worker_run = Running worker_state | Stale | Request_crash

definition worker_event :: "config \<Rightarrow> route_table \<Rightarrow> epoll_event \<Rightarrow> worker_state \<Rightarrow> worker_run" where
  "worker_event cfg tbl e ws =
     (case e of
        Listener_event l sr rs \<Rightarrow>
          (case accept_clients sr l cfg rs (ws_head ws) (ws_heap ws) (ws_server ws) of
             (head, h, st, h2s) \<Rightarrow>
               Running (ws\<lparr>ws_head := head, ws_heap := h, ws_server := st, ws_http2 := ws_http2 ws @ h2s\<rparr>))
      | Connection_event p hangup world reads w \<Rightarrow>
          if ws_heap ws p = None then Stale
          else (case client_event world cfg tbl hangup reads p (ws_head ws) (ws_heap ws) (ws_server ws) w of
                  (None, _, _) \<Rightarrow> Request_crash
                | (Some (head, h), st, w') \<Rightarrow>
                    Running (ws\<lparr>ws_head := head, ws_heap := h, ws_server := st, ws_sent := ws_sent ws @ [(p, w')]\<rparr>)))"

fun worker_events :: "config \<Rightarrow> route_table \<Rightarrow> epoll_event list \<Rightarrow> worker_state \<Rightarrow> worker_run" where
  "worker_events cfg tbl [] ws = Running ws"
| "worker_events cfg tbl (e # es) ws =
     (case worker_event cfg tbl e ws of Running ws' \<Rightarrow> worker_events cfg tbl es ws' | r \<Rightarrow> r)"

definition worker_sweep :: "config \<Rightarrow> timespec option \<Rightarrow> worker_state \<Rightarrow> worker_run" where
  "worker_sweep cfg now ws =
     (case sweep_idle_keep_alive_clients cfg now (ws_head ws) (ws_heap ws) of
        None \<Rightarrow> Stale
      | Some (head, h) \<Rightarrow> Running (ws\<lparr>ws_head := head, ws_heap := h\<rparr>))"

text \<open>What \<open>epoll_wait\<close> answers, with the clock of the sweep that follows.\<close>

datatype epoll_turn = Wait_intr | Wait_error | Events "epoll_event list" "timespec option"

fun worker_loop :: "config \<Rightarrow> route_table \<Rightarrow> epoll_turn list \<Rightarrow> worker_state \<Rightarrow> worker_run" where
  "worker_loop cfg tbl [] ws = Running ws"
| "worker_loop cfg tbl (Wait_intr # ts) ws = worker_loop cfg tbl ts ws"
| "worker_loop cfg tbl (Wait_error # ts) ws = Running ws"
| "worker_loop cfg tbl (Events es now # ts) ws =
     (case worker_events cfg tbl es ws of
        Running ws1 \<Rightarrow>
          (case worker_sweep cfg now ws1 of Running ws2 \<Rightarrow> worker_loop cfg tbl ts ws2 | r \<Rightarrow> r)
      | r \<Rightarrow> r)"

text \<open>Behind the loop the head of the list is closed until there is none.\<close>

partial_function (option) close_all :: "nat option \<Rightarrow> heap \<Rightarrow> heap option" where
  "close_all head h =
     (case head of
        None \<Rightarrow> Some h
      | Some p \<Rightarrow>
          if h p = None then None
          else case close_client head p h of (head1, h1) \<Rightarrow> close_all head1 h1)"

definition run_event_loop :: "config \<Rightarrow> route_table \<Rightarrow> epoll_turn list \<Rightarrow> worker_state \<Rightarrow> worker_run" where
  "run_event_loop cfg tbl ts ws =
     (case worker_loop cfg tbl ts ws of
        Running ws1 \<Rightarrow>
          (case close_all (ws_head ws1) (ws_heap ws1) of
             None \<Rightarrow> Stale
           | Some h \<Rightarrow> Running (ws1\<lparr>ws_head := None, ws_heap := h\<rparr>))
      | r \<Rightarrow> r)"

section \<open>What the kernel and the allocator promise\<close>

text \<open>
  \<open>calloc\<close> returns the address of no live object: \<open>live\<close> are the connections in the heap, and an
  accepted one joins them unless it is discarded.
\<close>

definition joins :: "listener \<Rightarrow> handshake \<Rightarrow> bool \<Rightarrow> bool" where
  "joins l hs epoll_ok \<longleftrightarrow> \<not> (ls_tls l \<and> hs = TlsFailed) \<and> \<not> (ls_tls l \<and> hs = TlsHttp2) \<and> epoll_ok"

fun fresh_accepts :: "listener \<Rightarrow> accept_result list \<Rightarrow> nat set \<Rightarrow> bool" where
  "fresh_accepts l [] live = True"
| "fresh_accepts l (AcceptEintr # rs) live = fresh_accepts l rs live"
| "fresh_accepts l (Accepted p peer own hs epoll_ok # rs) live \<longleftrightarrow>
     p \<notin> live \<and> fresh_accepts l rs (if joins l hs epoll_ok then insert p live else live)"
| "fresh_accepts l (_ # rs) live = True"

definition event_pointers :: "epoll_event list \<Rightarrow> nat list" where
  "event_pointers es = concat (map (\<lambda>e. case e of Connection_event p _ _ _ _ \<Rightarrow> [p] | _ \<Rightarrow> []) es)"

lemma event_pointers_simps [simp]:
  "event_pointers [] = []"
  "event_pointers (Listener_event l sr rs # es) = event_pointers es"
  "event_pointers (Connection_event p hangup world reads w # es) = p # event_pointers es"
  by (simp_all add: event_pointers_def)

text \<open>
  A batch names each connection at most once and only registered ones, that is, connections
  that are open when \<open>epoll_wait\<close> returns.  The condition on \<open>accept4\<close> is one on the heap at
  that point of the batch.
\<close>

fun accepts_ok :: "config \<Rightarrow> route_table \<Rightarrow> epoll_event list \<Rightarrow> worker_state \<Rightarrow> bool" where
  "accepts_ok cfg tbl [] ws = True"
| "accepts_ok cfg tbl (e # es) ws \<longleftrightarrow>
     (case e of Listener_event l sr rs \<Rightarrow> fresh_accepts l rs (dom (ws_heap ws)) | _ \<Rightarrow> True) \<and>
     (case worker_event cfg tbl e ws of Running ws' \<Rightarrow> accepts_ok cfg tbl es ws' | _ \<Rightarrow> True)"

definition batch_ok :: "config \<Rightarrow> route_table \<Rightarrow> epoll_event list \<Rightarrow> worker_state \<Rightarrow> bool" where
  "batch_ok cfg tbl es ws \<longleftrightarrow>
     distinct (event_pointers es) \<and> set (event_pointers es) \<subseteq> dom (ws_heap ws) \<and> accepts_ok cfg tbl es ws"

fun turns_ok :: "config \<Rightarrow> route_table \<Rightarrow> epoll_turn list \<Rightarrow> worker_state \<Rightarrow> bool" where
  "turns_ok cfg tbl [] ws = True"
| "turns_ok cfg tbl (Wait_intr # ts) ws = turns_ok cfg tbl ts ws"
| "turns_ok cfg tbl (Wait_error # ts) ws = True"
| "turns_ok cfg tbl (Events es now # ts) ws \<longleftrightarrow>
     batch_ok cfg tbl es ws \<and>
     (case worker_events cfg tbl es ws of
        Running ws1 \<Rightarrow> (case worker_sweep cfg now ws1 of Running ws2 \<Rightarrow> turns_ok cfg tbl ts ws2 | _ \<Rightarrow> True)
      | _ \<Rightarrow> True)"

section \<open>No stale pointer, no leak\<close>

text \<open>The heap holds exactly the connections of the list.\<close>

definition exact :: "heap \<Rightarrow> nat option \<Rightarrow> nat list \<Rightarrow> bool" where
  "exact h head ps \<longleftrightarrow> clients h head ps \<and> dom h = set ps"

lemma dom_holds: "dom (holds h) = dom h"
  by (auto simp: holds_def dom_def)

lemma close_exact:
  assumes "exact h head ps" and "p \<in> set ps" and "close_client head p h = (head', h')"
  shows "exact h' head' (remove1 p ps) \<and> dom h' = dom h - {p}"
proof -
  obtain qs rs where ps: "ps = qs @ p # rs" using assms(2) by (auto dest: split_list)
  have d: "distinct ps" using assms(1) by (simp add: exact_def clients_def)
  then have r: "remove1 p ps = qs @ rs" by (simp add: ps remove1_append)
  have "clients h head (qs @ p # rs)" using assms(1) by (simp add: exact_def ps)
  note l = close_list [OF this assms(3)]
  have "dom h' = dom h - {p}" using l dom_holds [of h] dom_holds [of h'] by simp
  with l r assms(1) d show ?thesis by (auto simp: exact_def ps)
qed

lemma accept_exact:
  assumes "accept_clients sr l cfg rs head h st = (head', h', st', h2s)" and "exact h head ps"
    and "fresh_accepts l rs (dom h)"
  shows "\<exists>ps'. exact h' head' ps' \<and> dom h \<subseteq> dom h'"
  using assms
proof (induction rs arbitrary: head h st ps h2s)
  case Nil
  then show ?case by auto
next
  case (Cons r rs)
  show ?case
  proof (cases r)
    case (Accepted p peer own hs epoll_ok)
    obtain cl st1 where a: "accepted_client sr l cfg peer own st = (cl, st1)" by (rule prod.exhaust)
    have p: "p \<notin> dom h" using Cons.prems(3) Accepted by simp
    show ?thesis
    proof (cases "joins l hs epoll_ok")
      case True
      let ?h = "h(p \<mapsto> \<lparr>nd_client = cl, nd_buf = [], nd_prev = None, nd_next = None\<rparr>)"
      obtain head1 h1 where add: "client_list_add head p ?h = (head1, h1)" by (rule prod.exhaust)
      have ps: "p \<notin> set ps" using p Cons.prems(2) by (simp add: exact_def)
      have "clients ?h head ps"
        using Cons.prems(2) ps dseg_cong [of ps ?h h] by (auto simp: exact_def clients_def)
      then have c: "clients h1 head1 (p # ps) \<and> holds h1 = holds ?h" using add_list [OF _ _ ps add] by simp
      then have d: "dom h1 = insert p (dom h)" using dom_holds [of h1] dom_holds [of ?h] by simp
      have e: "exact h1 head1 (p # ps)" using c d Cons.prems(2) by (simp add: exact_def)
      have "accept_clients sr l cfg rs head1 h1 st1 = (head', h', st', h2s)"
        using Cons.prems(1) Accepted a add True by (auto simp: Let_def joins_def)
      from Cons.IH [OF this e] Cons.prems(3) Accepted True d show ?thesis by auto
    next
      case False
      obtain h2s1 where "accept_clients sr l cfg rs head h st1 = (head', h', st', h2s1)"
        using Cons.prems(1) Accepted a False by (fastforce simp: Let_def joins_def split: prod.splits if_splits)
      from Cons.IH [OF this Cons.prems(2)] Cons.prems(3) Accepted False show ?thesis by simp
    qed
  next
    case AcceptEintr
    with Cons.prems Cons.IH [of head h st h2s ps] show ?thesis by simp
  qed (use Cons.prems in auto)
qed

lemma client_event_exact:
  assumes "client_event world cfg tbl hangup reads p head h st w = (Some (head', h'), st', w')"
    and "exact h head ps" and "h p = Some n"
  shows "\<exists>ps'. exact h' head' ps' \<and> dom h - {p} \<subseteq> dom h'"
proof -
  have p: "p \<in> set ps" using assms(2,3) by (auto simp: exact_def)
  consider (closed) "close_client head p h = (head', h')"
    | (kept) cl buf where "head' = head" "h' = h(p \<mapsto> n\<lparr>nd_client := cl, nd_buf := buf\<rparr>)"
    using assms(1,3) by (auto simp: client_event_def split: if_splits prod.splits outcome.splits)
  then show ?thesis
  proof cases
    case closed
    from close_exact [OF assms(2) p this] show ?thesis by auto
  next
    case kept
    have "dseg h' a b qs c d = dseg h a b qs c d" for a b qs c d
      unfolding kept(2) using assms(3) by (induction qs arbitrary: a b) (auto split: option.splits)
    then have "exact h' head' ps" using assms(2,3) kept by (auto simp: exact_def clients_def)
    then show ?thesis using kept(2) by auto
  qed
qed

definition run_safe :: "(worker_state \<Rightarrow> bool) \<Rightarrow> worker_run \<Rightarrow> bool" where
  "run_safe P r \<longleftrightarrow> (case r of Stale \<Rightarrow> False | Request_crash \<Rightarrow> True | Running ws \<Rightarrow> P ws)"

lemma run_safe_simps [simp]:
  "run_safe P (Running ws) = P ws" "\<not> run_safe P Stale" "run_safe P Request_crash"
  by (simp_all add: run_safe_def)

definition loop_inv :: "worker_state \<Rightarrow> bool" where
  "loop_inv ws \<longleftrightarrow> (\<exists>ps. exact (ws_heap ws) (ws_head ws) ps)"

lemma worker_event_safe:
  assumes "loop_inv ws" and "set (event_pointers [e]) \<subseteq> dom (ws_heap ws)"
    and "\<And>l sr rs. e = Listener_event l sr rs \<Longrightarrow> fresh_accepts l rs (dom (ws_heap ws))"
  shows "run_safe (\<lambda>ws'. loop_inv ws' \<and> dom (ws_heap ws) - set (event_pointers [e]) \<subseteq> dom (ws_heap ws'))
    (worker_event cfg tbl e ws)"
proof -
  obtain ps where ps: "exact (ws_heap ws) (ws_head ws) ps" using assms(1) by (auto simp: loop_inv_def)
  show ?thesis
  proof (cases e)
    case (Listener_event l sr rs)
    obtain head h st h2s where a: "accept_clients sr l cfg rs (ws_head ws) (ws_heap ws) (ws_server ws) = (head, h, st, h2s)"
      by (rule prod_cases4)
    from accept_exact [OF a ps assms(3) [OF Listener_event]] obtain ps' where
      "exact h head ps'" "dom (ws_heap ws) \<subseteq> dom h" by blast
    then show ?thesis using Listener_event a by (auto simp: worker_event_def loop_inv_def)
  next
    case (Connection_event p hangup world reads w)
    then obtain n where n: "ws_heap ws p = Some n" using assms(2) by auto
    obtain r st w' where c: "client_event world cfg tbl hangup reads p (ws_head ws) (ws_heap ws) (ws_server ws) w = (r, st, w')"
      by (rule prod_cases3)
    show ?thesis
    proof (cases r)
      case None
      then show ?thesis using Connection_event n c by (simp add: worker_event_def)
    next
      case (Some hh)
      obtain head h where "hh = (head, h)" by (rule prod.exhaust)
      with client_event_exact [of world cfg tbl hangup reads p "ws_head ws" "ws_heap ws" "ws_server ws" w head h st w' ps n]
        c Some ps n Connection_event
      show ?thesis by (auto simp: worker_event_def loop_inv_def)
    qed
  qed
qed

lemma worker_events_safe:
  assumes "loop_inv ws" and "batch_ok cfg tbl es ws"
  shows "run_safe loop_inv (worker_events cfg tbl es ws)"
  using assms
proof (induction es arbitrary: ws)
  case (Cons e es)
  have ps: "distinct (event_pointers (e # es))" "set (event_pointers (e # es)) \<subseteq> dom (ws_heap ws)"
    "accepts_ok cfg tbl (e # es) ws"
    using Cons.prems(2) by (auto simp: batch_ok_def)
  have split: "event_pointers (e # es) = event_pointers [e] @ event_pointers es" by (simp add: event_pointers_def)
  have safe: "run_safe (\<lambda>ws'. loop_inv ws' \<and> dom (ws_heap ws) - set (event_pointers [e]) \<subseteq> dom (ws_heap ws'))
      (worker_event cfg tbl e ws)"
    using ps(2,3) split by (intro worker_event_safe Cons.prems(1)) auto
  show ?case
  proof (cases "worker_event cfg tbl e ws")
    case (Running ws')
    with safe have l: "loop_inv ws'" and d: "dom (ws_heap ws) - set (event_pointers [e]) \<subseteq> dom (ws_heap ws')" by simp_all
    have "set (event_pointers es) \<subseteq> dom (ws_heap ws) - set (event_pointers [e])"
      using ps(1,2) unfolding split by auto
    with d have "set (event_pointers es) \<subseteq> dom (ws_heap ws')" by (meson order_trans)
    with ps(1,3) Running have "batch_ok cfg tbl es ws'" unfolding batch_ok_def split by simp
    with Cons.IH [OF l] Running show ?thesis by simp
  qed (use safe in simp_all)
qed simp

lemma worker_sweep_safe:
  assumes "loop_inv ws"
  shows "run_safe loop_inv (worker_sweep cfg now ws)"
proof -
  obtain ps where ps: "exact (ws_heap ws) (ws_head ws) ps" using assms by (auto simp: loop_inv_def)
  then have c: "clients (ws_heap ws) (ws_head ws) ([] @ ps)" by (simp add: exact_def)
  then have hd: "ws_head ws = (case ps of [] \<Rightarrow> None | p # _ \<Rightarrow> Some p)"
    by (cases ps) (auto simp: clients_def)
  have swept: "\<exists>head' h'. sweep_loop cfg t (ws_head ws) (ws_heap ws) (ws_head ws) = Some (head', h') \<and> loop_inv (ws\<lparr>ws_head := head', ws_heap := h'\<rparr>)" for t
  proof -
    obtain head' h' where r: "sweep_loop cfg t (ws_head ws) (ws_heap ws) (ws_head ws) = Some (head', h')"
      "clients h' head' ([] @ filter (\<lambda>p. \<not> expired_at cfg t (ws_heap ws) p) ps)"
      "\<forall>q. holds h' q = (if q \<in> set ps \<and> expired_at cfg t (ws_heap ws) q then None else holds (ws_heap ws) q)"
      using sweep_loop_list [OF c hd, of cfg t] by blast
    have k: "q \<in> dom (holds (ws_heap ws)) \<longleftrightarrow> q \<in> set ps" for q
      using ps by (simp add: dom_holds exact_def)
    have "dom (holds h') = set (filter (\<lambda>p. \<not> expired_at cfg t (ws_heap ws) p) ps)"
    proof (rule set_eqI)
      fix q
      have "holds h' q = (if q \<in> set ps \<and> expired_at cfg t (ws_heap ws) q then None else holds (ws_heap ws) q)"
        using r(3) by blast
      with k [of q] show "q \<in> dom (holds h') \<longleftrightarrow> q \<in> set (filter (\<lambda>p. \<not> expired_at cfg t (ws_heap ws) p) ps)"
        by (cases "q \<in> set ps"; cases "expired_at cfg t (ws_heap ws) q") (simp_all add: domIff)
    qed
    then have "dom h' = set (filter (\<lambda>p. \<not> expired_at cfg t (ws_heap ws) p) ps)" by (simp add: dom_holds)
    with r(1,2) show ?thesis by (auto simp: loop_inv_def exact_def)
  qed
  show ?thesis
    using assms swept by (auto simp: worker_sweep_def sweep_idle_keep_alive_clients_def split: option.splits)
       (metis option.inject prod.inject option.distinct(1))+
qed

lemma worker_loop_safe: "loop_inv ws \<Longrightarrow> turns_ok cfg tbl ts ws \<Longrightarrow> run_safe loop_inv (worker_loop cfg tbl ts ws)"
proof (induction cfg tbl ts ws rule: worker_loop.induct)
  case (4 cfg tbl es now ts ws)
  from worker_events_safe [OF 4(2)] 4(3) have e: "run_safe loop_inv (worker_events cfg tbl es ws)" by simp
  show ?case
  proof (cases "worker_events cfg tbl es ws")
    case (Running ws1)
    then have s: "run_safe loop_inv (worker_sweep cfg now ws1)" using e by (simp add: worker_sweep_safe)
    show ?thesis
    proof (cases "worker_sweep cfg now ws1")
      case ws2: (Running ws2)
      then show ?thesis using 4(1) [OF Running ws2] s 4(3) Running by simp
    qed (use s Running in simp_all)
  qed (use e in simp_all)
qed simp_all

lemma close_all_empty: "exact h head ps \<Longrightarrow> close_all head h = Some Map.empty"
proof (induction ps arbitrary: h head)
  case Nil
  then show ?case by (subst close_all.simps) (simp add: exact_def clients_def)
next
  case (Cons p ps)
  have p: "head = Some p" "h p \<noteq> None" using Cons.prems by (auto simp: exact_def clients_def)
  obtain head1 h1 where c: "close_client head p h = (head1, h1)" by (rule prod.exhaust)
  have "exact h1 head1 ps" using close_exact [OF Cons.prems _ c] by simp
  from Cons.IH [OF this] show ?case using p c by (subst close_all.simps) simp
qed

text \<open>
  C6: the event loop of a worker is memory safe and leaves nothing behind: for every sequence of
  \<open>epoll\<close> batches in which the kernel names registered connections at most once and \<open>calloc\<close>
  returns no live address, no connection object is used after it was freed, whatever the requests
  do, and when the loop ends by a stop request or an error of \<open>epoll_wait\<close>, the clean-up ends
  and every connection has been closed exactly once; the only other outcome is the null
  dereference of a request handler.
\<close>

theorem event_loop_closes_all:
  assumes "exact (ws_heap ws) (ws_head ws) ps" and "turns_ok cfg tbl ts ws"
  shows "case run_event_loop cfg tbl ts ws of
      Stale \<Rightarrow> False
    | Request_crash \<Rightarrow> worker_loop cfg tbl ts ws = Request_crash
    | Running ws' \<Rightarrow> ws_head ws' = None \<and> ws_heap ws' = Map.empty"
proof -
  have "run_safe loop_inv (worker_loop cfg tbl ts ws)"
    using assms by (intro worker_loop_safe) (auto simp: loop_inv_def)
  then show ?thesis
    by (auto simp: run_event_loop_def loop_inv_def close_all_empty run_safe_def split: worker_run.splits)
qed

theorem event_loop_closes_all_witness:
  "case run_event_loop rpsiod_config_defaults empty_route_table
      [Events [Connection_event 2 True (\<lambda>_. demo_surroundings) [] \<lparr>io_sent = [], io_in = [], io_events = []\<rparr>]
         (Some \<lparr>tv_sec = 31, tv_nsec = 5\<rparr>), Wait_error]
      \<lparr>ws_head = Some 1, ws_heap = demo_heap, ws_server = demo_state, ws_sent = [], ws_http2 = []\<rparr> of
     Running ws' \<Rightarrow> ws_heap ws' = Map.empty | _ \<Rightarrow> False"
proof -
  let ?w = "\<lparr>io_sent = [], io_in = [], io_events = []\<rparr> :: io"
  let ?es = "[Connection_event 2 True (\<lambda>_. demo_surroundings) [] ?w]"
  let ?ws = "\<lparr>ws_head = Some 1, ws_heap = demo_heap, ws_server = demo_state, ws_sent = [], ws_http2 = []\<rparr>"
  let ?ts = "[Events ?es (Some \<lparr>tv_sec = 31, tv_nsec = 5\<rparr>), Wait_error]"
  let ?cfg = rpsiod_config_defaults
  have e: "exact (ws_heap ?ws) (ws_head ?ws) [1, 2]" by (auto simp: exact_def clients_def demo_heap_def)
  have "demo_heap 2 \<noteq> None" by (simp add: demo_heap_def)
  then obtain ws1 where r: "worker_event ?cfg empty_route_table (hd ?es) ?ws = Running ws1"
    by (cases "close_client (Some 1) 2 demo_heap") (auto simp: worker_event_def client_event_def)
  have "batch_ok ?cfg empty_route_table ?es ?ws" by (simp add: batch_ok_def demo_heap_def split: worker_run.splits)
  then have ok: "turns_ok ?cfg empty_route_table ?ts ?ws" by (auto split: worker_run.splits)
  have "worker_loop ?cfg empty_route_table ?ts ?ws \<noteq> Request_crash"
    using r by (auto simp: worker_sweep_def split: worker_run.splits option.splits)
  with event_loop_closes_all [OF e ok] show ?thesis by (auto split: worker_run.splits)
qed

end
