(* ===== verification/Connect.thy ===== *)
theory Connect
  imports Workers Status BenchPage
begin

text \<open>
  Sockets: the table of descriptors of the process, and every function that connects or listens
  (\<open>connect_with_timeout\<close>, \<open>connect_php_fpm\<close>, \<open>create_listener\<close> of \<open>src/server.c\<close>,
  \<open>rpsiod_proxy_connect\<close> of \<open>src/proxy.c\<close>, and their relatives of \<open>src/main.c\<close>,
  \<open>src/doctor.c\<close>, \<open>src/status.c\<close>, \<open>src/trace.c\<close> and \<open>src/bench.c\<close>).  What the kernel answers is an
  argument.  The loop over the addresses of a host is one interface, the locale
  \<open>connect_attempt\<close>.
\<close>

section \<open>Descriptors\<close>

text \<open>
  What the program sets on a socket: \<open>O_NONBLOCK\<close>, the timeouts in seconds (0 for none),
  \<open>TCP_NODELAY\<close>; \<open>so_peer\<close> is the address it is connected to, \<open>so_backlog\<close> that of a listener.
\<close>

record socket =
  so_nonblock :: bool
  so_rcvtimeo :: int
  so_sndtimeo :: int
  so_nodelay :: bool
  so_peer :: "string option"
  so_local :: "(string \<times> u16) option"
  so_backlog :: "int option"

definition new_socket :: socket where
  "new_socket = \<lparr>so_nonblock = False, so_rcvtimeo = 0, so_sndtimeo = 0, so_nodelay = False, so_peer = None,
     so_local = None, so_backlog = None\<rparr>"

type_synonym fds = "int \<Rightarrow> socket option"

definition on_fd :: "int \<Rightarrow> (socket \<Rightarrow> socket) \<Rightarrow> fds \<Rightarrow> fds" where
  "on_fd fd f fds = fds(fd := map_option f (fds fd))"

lemma on_fd_upd [simp]: "on_fd fd f (fds(fd \<mapsto> s)) = fds(fd \<mapsto> f s)"
  by (simp add: on_fd_def)

lemma close_fresh [simp]: "fds fd = None \<Longrightarrow> fds(fd := None) = fds"
  by auto

datatype connect_answer = Connect_ok | Connect_pending | Connect_refused

datatype poll_answer = Poll_ready | Poll_timeout | Poll_intr | Poll_error

text \<open>
  What the kernel answers for one address: the calls in the order of the code, \<open>at_polls\<close> as a
  function of the timeout passed to \<open>poll\<close>, in milliseconds.
\<close>

record attempt =
  at_address :: string
  at_socket :: "int option"
  at_rcvtimeo :: bool
  at_sndtimeo :: bool
  at_nodelay :: bool
  at_getfl :: bool
  at_nonblock :: bool
  at_connect :: connect_answer
  at_polls :: "int \<Rightarrow> poll_answer list"
  at_so_error :: "int option"
  at_restore :: bool

section \<open>Connecting with a timeout\<close>

text \<open>\<open>timeout_sec * 1000\<close> is computed in an \<open>int\<close>.\<close>

definition poll_timeout_ms :: "int \<Rightarrow> int" where
  "poll_timeout_ms timeout_sec = (if timeout_sec > 0 then to_int32 (timeout_sec * 1000) else 5000)"

text \<open>\<open>poll\<close> is repeated after an interruption; \<open>None\<close> when it never returns.\<close>

fun poll_loop :: "poll_answer list \<Rightarrow> poll_answer option" where
  "poll_loop [] = None"
| "poll_loop (Poll_intr # ps) = poll_loop ps"
| "poll_loop (p # ps) = Some p"

definition wait_for_fd :: "(int \<Rightarrow> poll_answer list) \<Rightarrow> poll_answer option" where
  "wait_for_fd polls = poll_loop (polls 1000)"

definition set_blocking :: "bool \<Rightarrow> bool \<Rightarrow> int \<Rightarrow> fds \<Rightarrow> bool \<times> fds" where
  "set_blocking getfl_ok setfl_ok fd fds =
     (if \<not> getfl_ok \<or> \<not> setfl_ok then (False, fds) else (True, on_fd fd (so_nonblock_update (\<lambda>_. False)) fds))"

definition finish_connect :: "bool \<Rightarrow> int \<Rightarrow> attempt \<Rightarrow> fds \<Rightarrow> bool \<times> fds" where
  "finish_connect flags fd a fds =
     (let fds1 = on_fd fd (so_peer_update (\<lambda>_. Some (at_address a))) fds in
      if at_restore a then (True, on_fd fd (so_nonblock_update (\<lambda>_. flags)) fds1) else (False, fds1))"

definition connect_with_timeout :: "int \<Rightarrow> int \<Rightarrow> attempt \<Rightarrow> fds \<Rightarrow> (bool \<times> fds) option" where
  "connect_with_timeout timeout_sec fd a fds =
     (if \<not> at_getfl a \<or> \<not> at_nonblock a then Some (False, fds)
      else
        let flags = (case fds fd of None \<Rightarrow> False | Some s \<Rightarrow> so_nonblock s);
            fds1 = on_fd fd (so_nonblock_update (\<lambda>_. True)) fds in
        case at_connect a of
          Connect_refused \<Rightarrow> Some (False, fds1)
        | Connect_ok \<Rightarrow> Some (finish_connect flags fd a fds1)
        | Connect_pending \<Rightarrow>
            (case poll_loop (at_polls a (poll_timeout_ms timeout_sec)) of
               None \<Rightarrow> None
             | Some Poll_ready \<Rightarrow>
                 if at_so_error a \<noteq> Some 0 then Some (False, fds1) else Some (finish_connect flags fd a fds1)
             | Some _ \<Rightarrow> Some (False, fds1)))"

section \<open>The addresses of a host\<close>

text \<open>
  The loop over the result of \<open>getaddrinfo\<close>, which the program writes eight times: a socket that
  is not connected is closed and the next address tried.
\<close>

fun connect_addresses :: "(int \<Rightarrow> attempt \<Rightarrow> fds \<Rightarrow> (bool \<times> fds) option) \<Rightarrow> attempt list \<Rightarrow> fds \<Rightarrow> (int \<times> fds) option" where
  "connect_addresses go [] fds = Some (- 1, fds)"
| "connect_addresses go (a # as) fds =
     (case at_socket a of
        None \<Rightarrow> connect_addresses go as fds
      | Some fd \<Rightarrow>
          (case go fd a (fds(fd \<mapsto> new_socket)) of
             None \<Rightarrow> None
           | Some (True, fds1) \<Rightarrow> Some (fd, fds1)
           | Some (False, fds1) \<Rightarrow> connect_addresses go as (fds1(fd := None))))"

definition set_timeouts :: "int \<Rightarrow> int \<Rightarrow> int \<Rightarrow> attempt \<Rightarrow> fds \<Rightarrow> fds" where
  "set_timeouts rcv sndt fd a fds =
     on_fd fd (\<lambda>s. s\<lparr>so_rcvtimeo := if at_rcvtimeo a then rcv else so_rcvtimeo s,
                    so_sndtimeo := if at_sndtimeo a then sndt else so_sndtimeo s\<rparr>) fds"

definition set_nodelay :: "int \<Rightarrow> attempt \<Rightarrow> fds \<Rightarrow> fds" where
  "set_nodelay fd a fds = on_fd fd (so_nodelay_update (\<lambda>d. at_nodelay a \<or> d)) fds"

text \<open>\<open>connect\<close> on a blocking socket; a pending answer does not occur there.\<close>

definition connect_blocking :: "int \<Rightarrow> attempt \<Rightarrow> fds \<Rightarrow> (bool \<times> fds) option" where
  "connect_blocking fd a fds =
     (if at_connect a = Connect_ok then Some (True, on_fd fd (so_peer_update (\<lambda>_. Some (at_address a))) fds)
      else Some (False, fds))"

text \<open>\<open>getaddrinfo\<close>: a host and the text of a port to the attempts that follow, or an error.\<close>

type_synonym resolver = "string \<Rightarrow> string \<Rightarrow> attempt list option"

definition connect_host ::
  "(int \<Rightarrow> attempt \<Rightarrow> fds \<Rightarrow> (bool \<times> fds) option) \<Rightarrow> resolver \<Rightarrow> string \<Rightarrow> u16 \<Rightarrow> fds \<Rightarrow> (int \<times> fds) option" where
  "connect_host go resolve host port fds =
     (case resolve host (dec (unat port)) of
        None \<Rightarrow> Some (- 1, fds)
      | Some as \<Rightarrow> connect_addresses go as fds)"

definition proxy_attempt :: "site_config \<Rightarrow> int \<Rightarrow> attempt \<Rightarrow> fds \<Rightarrow> (bool \<times> fds) option" where
  "proxy_attempt site fd a fds =
     connect_with_timeout (site_proxy_connect_timeout_sec site) fd a
       (set_timeouts (site_proxy_read_timeout_sec site) (site_proxy_write_timeout_sec site) fd a fds)"

definition rpsiod_proxy_connect :: "resolver \<Rightarrow> site_config \<Rightarrow> fds \<Rightarrow> (int \<times> fds) option" where
  "rpsiod_proxy_connect resolve site fds =
     connect_host (proxy_attempt site) resolve (site_proxy_host site) (site_proxy_port site) fds"

text \<open>A socket of the file system: the path is cut to the 108 bytes of \<open>sun_path\<close>.\<close>

definition connect_unix :: "(string \<Rightarrow> attempt) \<Rightarrow> string \<Rightarrow> fds \<Rightarrow> int \<times> fds" where
  "connect_unix unix path fds =
     (let a = unix (safe_copy 108 path) in
      case at_socket a of
        None \<Rightarrow> (- 1, fds)
      | Some fd \<Rightarrow>
          (case connect_blocking fd a (fds(fd \<mapsto> new_socket)) of
             Some (True, fds1) \<Rightarrow> (fd, fds1)
           | _ \<Rightarrow> (- 1, (fds(fd \<mapsto> new_socket))(fd := None))))"

definition connect_php_fpm :: "(string \<Rightarrow> attempt) \<Rightarrow> resolver \<Rightarrow> site_config \<Rightarrow> fds \<Rightarrow> (int \<times> fds) option" where
  "connect_php_fpm unix resolve site fds =
     (if rpsiod_streq_ci (site_php_handler_type site) ''socket'' then Some (connect_unix unix (site_php_socket site) fds)
      else connect_host (connect_with_timeout (site_php_connect_timeout_sec site)) resolve
             (site_php_host site) (site_php_port site) fds)"

section \<open>The commands\<close>

text \<open>The checks close the descriptor again and keep whether there was one.\<close>

definition probe :: "int \<times> fds \<Rightarrow> bool \<times> fds" where
  "probe r = (case r of (fd, fds) \<Rightarrow> if 0 \<le> fd then (True, fds(fd := None)) else (False, fds))"

definition connect_tcp_host :: "resolver \<Rightarrow> string \<Rightarrow> u16 \<Rightarrow> fds \<Rightarrow> (bool \<times> fds) option" where
  "connect_tcp_host resolve host port fds = map_option probe (connect_host connect_blocking resolve host port fds)"

definition probe_unix :: "(string \<Rightarrow> attempt) \<Rightarrow> string \<Rightarrow> fds \<Rightarrow> bool \<times> fds" where
  "probe_unix unix path fds = probe (connect_unix unix path fds)"

text \<open>\<open>php_ok\<close> of the status command asks through the proxy client, with the default timeout.\<close>

definition php_ok_site :: "site_config \<Rightarrow> site_config" where
  "php_ok_site site = site_defaults\<lparr>site_proxy_host := safe_copy 256 (site_php_host site),
     site_proxy_port := site_php_port site, site_proxy_connect_timeout_sec := 0,
     site_proxy_read_timeout_sec := site_php_read_timeout_sec site,
     site_proxy_write_timeout_sec := site_php_write_timeout_sec site\<rparr>"

definition probe_proxy :: "resolver \<Rightarrow> site_config \<Rightarrow> fds \<Rightarrow> (bool \<times> fds) option" where
  "probe_proxy resolve site fds = map_option probe (rpsiod_proxy_connect resolve site fds)"

definition connect_site_http :: "resolver \<Rightarrow> site_config \<Rightarrow> u16 \<Rightarrow> fds \<Rightarrow> (int \<times> fds) option" where
  "connect_site_http resolve site override_port fds =
     (case trace_address site override_port of
        (ip, port) \<Rightarrow>
          connect_host (\<lambda>fd a fds. connect_blocking fd a (set_nodelay fd a (set_timeouts 10 10 fd a fds))) resolve ip port fds)"

definition connect_site :: "resolver \<Rightarrow> site_config \<Rightarrow> fds \<Rightarrow> (int \<times> fds) option" where
  "connect_site resolve site fds =
     connect_host (\<lambda>fd a fds. connect_blocking fd a (set_timeouts 5 5 fd a fds)) resolve
       (if site_listen_ip site = ''0.0.0.0'' then ''127.0.0.1'' else site_listen_ip site)
       (if site_http_port site \<noteq> 0 then site_http_port site else site_https_port site) fds"

definition connect_target :: "resolver \<Rightarrow> page_target \<Rightarrow> fds \<Rightarrow> (int \<times> fds) option" where
  "connect_target resolve target fds =
     connect_host (\<lambda>fd a fds. connect_blocking fd a (set_nodelay fd a (set_timeouts 10 10 fd a fds))) resolve
       (pt_connect_host target) (pt_port target) fds"

section \<open>What connecting promises\<close>

text \<open>
  \<open>accepts\<close>: the address can be connected to; \<open>final\<close>: the socket then; \<open>answers\<close>: the attempt
  returns.  A failed attempt changes nothing but its own socket, which the loop closes.
\<close>

locale connect_attempt =
  fixes go :: "int \<Rightarrow> attempt \<Rightarrow> fds \<Rightarrow> (bool \<times> fds) option"
    and answers :: "attempt \<Rightarrow> bool"
    and accepts :: "attempt \<Rightarrow> bool"
    and final :: "attempt \<Rightarrow> socket"
  assumes returns: "answers a \<Longrightarrow> go fd a (fds(fd \<mapsto> new_socket)) \<noteq> None"
    and accepted: "go fd a (fds(fd \<mapsto> new_socket)) = Some (True, fds1) \<Longrightarrow> accepts a \<and> fds1 = fds(fd \<mapsto> final a)"
    and refused: "go fd a (fds(fd \<mapsto> new_socket)) = Some (False, fds1) \<Longrightarrow> \<not> accepts a \<and> fds1(fd := None) = fds(fd := None)"
begin

lemma connect_addresses_spec:
  assumes "\<forall>a \<in> set as. answers a" and "\<forall>a \<in> set as. \<forall>fd. at_socket a = Some fd \<longrightarrow> fds fd = None"
  shows "connect_addresses go as fds =
    Some (case find (\<lambda>a. at_socket a \<noteq> None \<and> accepts a) as of
            None \<Rightarrow> (- 1, fds)
          | Some a \<Rightarrow> (the (at_socket a), fds(the (at_socket a) \<mapsto> final a)))"
  using assms
proof (induction as)
  case (Cons a as)
  show ?case
  proof (cases "at_socket a")
    case None
    with Cons show ?thesis by simp
  next
    case (Some fd)
    have fresh: "fds(fd := None) = fds" using Cons.prems(2) Some by auto
    from returns Cons.prems(1) obtain b fds1 where r: "go fd a (fds(fd \<mapsto> new_socket)) = Some (b, fds1)" by fastforce
    show ?thesis
    proof (cases b)
      case True
      with accepted r Some show ?thesis by simp
    next
      case False
      with refused r have "\<not> accepts a" "fds1(fd := None) = fds" using fresh by auto
      with r False Some Cons show ?thesis by simp
    qed
  qed
qed simp

lemma connect_host_spec:
  assumes "resolve host (dec (unat port)) = Some as"
    and "\<forall>a \<in> set as. answers a" and "\<forall>a \<in> set as. \<forall>fd. at_socket a = Some fd \<longrightarrow> fds fd = None"
  shows "connect_host go resolve host port fds =
    Some (case find (\<lambda>a. at_socket a \<noteq> None \<and> accepts a) as of
            None \<Rightarrow> (- 1, fds)
          | Some a \<Rightarrow> (the (at_socket a), fds(the (at_socket a) \<mapsto> final a)))"
  using assms by (simp add: connect_host_def connect_addresses_spec)

end


text \<open>\<open>connect_with_timeout\<close>: \<open>connected\<close> says when the address can be connected to.\<close>

definition connected :: "int \<Rightarrow> attempt \<Rightarrow> bool" where
  "connected timeout_sec a \<longleftrightarrow>
     at_getfl a \<and> at_nonblock a \<and> at_restore a \<and>
     (at_connect a = Connect_ok \<or>
      at_connect a = Connect_pending \<and> poll_loop (at_polls a (poll_timeout_ms timeout_sec)) = Some Poll_ready \<and>
      at_so_error a = Some 0)"

definition poll_returns :: "int \<Rightarrow> attempt \<Rightarrow> bool" where
  "poll_returns timeout_sec a \<longleftrightarrow> poll_loop (at_polls a (poll_timeout_ms timeout_sec)) \<noteq> None"

lemma connect_with_timeout_spec:
  assumes "connect_with_timeout t fd a (fds(fd \<mapsto> s)) = Some (b, fds1)" and "\<not> so_nonblock s"
  shows "(b \<longleftrightarrow> connected t a) \<and>
    (if b then fds1 = fds(fd \<mapsto> s\<lparr>so_peer := Some (at_address a)\<rparr>) else fds1(fd := None) = fds(fd := None))"
  using assms
  by (cases "poll_loop (at_polls a (poll_timeout_ms t))")
     (auto simp: connect_with_timeout_def connected_def finish_connect_def Let_def
       split: if_splits connect_answer.splits poll_answer.splits)

lemma connect_with_timeout_returns: "poll_returns t a \<Longrightarrow> connect_with_timeout t fd a fds \<noteq> None"
  by (auto simp: connect_with_timeout_def poll_returns_def Let_def split: connect_answer.splits poll_answer.splits)

text \<open>
  The socket a successful attempt leaves: blocking, connected, with the timeouts the kernel took.
\<close>

definition upstream_socket :: "int \<Rightarrow> int \<Rightarrow> attempt \<Rightarrow> socket" where
  "upstream_socket rcv sndt a = new_socket\<lparr>so_rcvtimeo := if at_rcvtimeo a then rcv else 0,
     so_sndtimeo := if at_sndtimeo a then sndt else 0, so_peer := Some (at_address a)\<rparr>"

interpretation php_tcp: connect_attempt "connect_with_timeout t" "poll_returns t" "connected t"
  "\<lambda>a. new_socket\<lparr>so_peer := Some (at_address a)\<rparr>" for t
proof (unfold_locales, goal_cases)
  case (1 a fd fds)
  then show ?case by (rule connect_with_timeout_returns)
next
  case (2 fd fds a fds1)
  from connect_with_timeout_spec [OF this] show ?case by (simp add: new_socket_def)
next
  case (3 fd fds a fds1)
  from connect_with_timeout_spec [OF this] show ?case by (simp add: new_socket_def)
qed

interpretation upstream: connect_attempt "proxy_attempt site" "poll_returns (site_proxy_connect_timeout_sec site)"
  "connected (site_proxy_connect_timeout_sec site)"
  "upstream_socket (site_proxy_read_timeout_sec site) (site_proxy_write_timeout_sec site)" for site
proof (unfold_locales, goal_cases)
  case (1 a fd fds)
  then show ?case unfolding proxy_attempt_def by (rule connect_with_timeout_returns)
next
  case (2 fd fds a fds1)
  from connect_with_timeout_spec [OF this [unfolded proxy_attempt_def set_timeouts_def on_fd_upd]]
  show ?case by (simp add: new_socket_def upstream_socket_def)
next
  case (3 fd fds a fds1)
  from connect_with_timeout_spec [OF this [unfolded proxy_attempt_def set_timeouts_def on_fd_upd]]
  show ?case by (simp add: new_socket_def)
qed

interpretation plain: connect_attempt connect_blocking "\<lambda>_. True" "\<lambda>a. at_connect a = Connect_ok"
  "\<lambda>a. new_socket\<lparr>so_peer := Some (at_address a)\<rparr>"
  by unfold_locales (auto simp: connect_blocking_def split: if_splits)

interpretation timed: connect_attempt "\<lambda>fd a fds. connect_blocking fd a (set_timeouts t t fd a fds)" "\<lambda>_. True"
  "\<lambda>a. at_connect a = Connect_ok" "upstream_socket t t" for t
  by unfold_locales
     (auto simp: connect_blocking_def set_timeouts_def upstream_socket_def new_socket_def split: if_splits)

interpretation timed_nodelay: connect_attempt
  "\<lambda>fd a fds. connect_blocking fd a (set_nodelay fd a (set_timeouts t t fd a fds))" "\<lambda>_. True"
  "\<lambda>a. at_connect a = Connect_ok" "\<lambda>a. upstream_socket t t a\<lparr>so_nodelay := at_nodelay a\<rparr>" for t
  by unfold_locales
     (auto simp: connect_blocking_def set_timeouts_def set_nodelay_def upstream_socket_def new_socket_def split: if_splits)

section \<open>Connections of the server\<close>

text \<open>Timeouts up to 2147483 seconds reach \<open>poll\<close> as they are meant, and \<open>poll\<close> then returns.\<close>

definition poll_timely :: "attempt \<Rightarrow> bool" where
  "poll_timely a \<longleftrightarrow> (\<forall>ms. 0 \<le> ms \<longrightarrow> poll_loop (at_polls a ms) \<noteq> None)"

lemma poll_timeout_exact: "0 < t \<Longrightarrow> t \<le> 2147483 \<Longrightarrow> poll_timeout_ms t = t * 1000"
  by (simp add: poll_timeout_ms_def to_int32_id)

lemma poll_timely_returns: "poll_timely a \<Longrightarrow> t \<le> 2147483 \<Longrightarrow> poll_returns t a"
  using poll_timeout_exact [of t] by (cases "0 < t") (auto simp: poll_timely_def poll_returns_def poll_timeout_ms_def)

text \<open>
  A timeout of 25 days, which the configuration accepts, becomes negative: \<open>poll\<close> takes that as
  no timeout, and the worker waits for the upstream server as long as that likes.
\<close>

theorem connect_timeout_wraps:
  "rpsiod_parse_duration_sec ''25d'' 5 = 2160000 \<and> poll_timeout_ms 2160000 < 0"
proof
  have "\<not> is_digit (CHR ''d'')" by code_simp
  then have "strtol (dec 25 @ ''d'') = Some (25, ''d'', False)" by (subst strtol_dec) (simp_all add: LONG_MAX_def)
  moreover have "dec 25 = ''25''" by code_simp
  moreover have "rpsiod_streq_ci ''d'' ''d''" "\<not> rpsiod_streq_ci ''d'' ''m''" "\<not> rpsiod_streq_ci ''d'' ''h''"
    "\<not> rpsiod_streq_ci ''d'' ''ms''" "\<not> c_isspace (CHR ''d'')" by code_simp+
  ultimately show "rpsiod_parse_duration_sec ''25d'' 5 = 2160000"
    by (simp add: rpsiod_parse_duration_sec_def INT_MAX_def)
  show "poll_timeout_ms 2160000 < 0" by (simp add: poll_timeout_ms_def to_int32_def)
qed

text \<open>
  C21: connecting to the upstream server neither leaks descriptors nor waits for ever: for connect
  timeouts up to 2147483 seconds \<open>rpsiod_proxy_connect\<close> returns; it fails exactly when no address
  of the host accepts, and then the table of descriptors is what it was; otherwise the result is
  a socket for the first address that does, blocking again and with the configured timeouts, and
  it is the only new entry of the table.
\<close>

theorem upstream_connection_owned:
  assumes "resolve (site_proxy_host site) (dec (unat (site_proxy_port site))) = Some as"
    and "site_proxy_connect_timeout_sec site \<le> 2147483"
    and "\<forall>a \<in> set as. poll_timely a \<and> (\<forall>fd. at_socket a = Some fd \<longrightarrow> fds fd = None)"
  shows "rpsiod_proxy_connect resolve site fds =
    Some (case find (\<lambda>a. at_socket a \<noteq> None \<and> connected (site_proxy_connect_timeout_sec site) a) as of
            None \<Rightarrow> (- 1, fds)
          | Some a \<Rightarrow> (the (at_socket a), fds(the (at_socket a) \<mapsto>
              upstream_socket (site_proxy_read_timeout_sec site) (site_proxy_write_timeout_sec site) a)))"
  unfolding rpsiod_proxy_connect_def
  by (rule upstream.connect_host_spec [where resolve = resolve and host = "site_proxy_host site" and port = "site_proxy_port site", OF assms(1)]) (use assms(2,3) poll_timely_returns in blast)+

definition demo_attempt :: "string \<Rightarrow> int option \<Rightarrow> connect_answer \<Rightarrow> attempt" where
  "demo_attempt ip fd c = \<lparr>at_address = ip, at_socket = fd, at_rcvtimeo = True, at_sndtimeo = True, at_nodelay = True,
     at_getfl = True, at_nonblock = True, at_connect = c, at_polls = (\<lambda>_. [Poll_intr, Poll_ready]),
     at_so_error = Some 0, at_restore = True\<rparr>"

theorem upstream_connection_owned_witness:
  "rpsiod_proxy_connect
     (\<lambda>_ _. Some [demo_attempt ''::1'' (Some 7) Connect_refused, demo_attempt ''127.0.0.1'' (Some 7) Connect_pending])
     site_defaults Map.empty =
   Some (7, [7 \<mapsto> upstream_socket 30 30 (demo_attempt ''127.0.0.1'' (Some 7) Connect_pending)])"
proof -
  have t: "site_proxy_connect_timeout_sec site_defaults = 5" "site_proxy_read_timeout_sec site_defaults = 30"
    "site_proxy_write_timeout_sec site_defaults = 30" by (simp_all add: site_defaults_def)
  show ?thesis
    by (subst upstream_connection_owned [OF refl]) (simp_all add: t poll_timely_def demo_attempt_def connected_def)
qed

text \<open>The same of the connection to the application server, over TCP or a socket of the file system.\<close>

theorem php_connection_owned:
  assumes "site_php_connect_timeout_sec site \<le> 2147483"
    and "\<And>host port as a. resolve host port = Some as \<Longrightarrow> a \<in> set as \<Longrightarrow>
        poll_timely a \<and> (\<forall>fd. at_socket a = Some fd \<longrightarrow> 0 \<le> fd \<and> fds fd = None)"
    and "\<And>path fd. at_socket (unix path) = Some fd \<Longrightarrow> 0 \<le> fd \<and> fds fd = None"
  shows "\<exists>fd fds1. connect_php_fpm unix resolve site fds = Some (fd, fds1) \<and>
    (if fd < 0 then fds1 = fds
     else fds fd = None \<and> (\<exists>ip. fds1 = fds(fd \<mapsto> new_socket\<lparr>so_peer := Some ip\<rparr>)))"
proof (cases "rpsiod_streq_ci (site_php_handler_type site) ''socket''")
  case True
  let ?a = "unix (safe_copy 108 (site_php_socket site))"
  show ?thesis
  proof (cases "at_socket ?a")
    case None
    with True show ?thesis by (simp add: connect_php_fpm_def connect_unix_def)
  next
    case (Some fd)
    with assms(3) have "0 \<le> fd" "fds fd = None" by blast+
    then have "fds(fd := None) = fds" by auto
    with True Some \<open>0 \<le> fd\<close> \<open>fds fd = None\<close> show ?thesis
      by (simp add: connect_php_fpm_def connect_unix_def connect_blocking_def Let_def) blast
  qed
next
  case False
  let ?host = "site_php_host site" and ?port = "site_php_port site" and ?t = "site_php_connect_timeout_sec site"
  show ?thesis
  proof (cases "resolve ?host (dec (unat ?port))")
    case None
    with False show ?thesis by (simp add: connect_php_fpm_def connect_host_def)
  next
    case (Some as)
    let ?f = "find (\<lambda>a. at_socket a \<noteq> None \<and> connected ?t a) as"
    have "connect_host (connect_with_timeout ?t) resolve ?host ?port fds =
        Some (case ?f of None \<Rightarrow> (- 1, fds)
              | Some a \<Rightarrow> (the (at_socket a), fds(the (at_socket a) \<mapsto> new_socket\<lparr>so_peer := Some (at_address a)\<rparr>)))"
      by (rule php_tcp.connect_host_spec [where resolve = resolve and host = ?host and port = ?port, OF Some]) (use assms(1,2) Some poll_timely_returns in blast)+
    moreover have "a \<in> set as \<and> at_socket a \<noteq> None" if "?f = Some a" for a
      using that by (auto simp: find_Some_iff)
    ultimately show ?thesis
      using False assms(2) [OF Some] by (cases ?f) (fastforce simp: connect_php_fpm_def)+
  qed
qed

text \<open>
  \<open>sun_path\<close> holds 107 characters and the configuration 255: of a longer path the server
  connects to the beginning.
\<close>

theorem php_socket_truncated:
  assumes "rpsiod_streq_ci (site_php_handler_type site) ''socket''" and "107 \<le> length (site_php_socket site)"
  shows "connect_php_fpm unix resolve site fds =
    connect_php_fpm unix resolve (site\<lparr>site_php_socket := take 107 (site_php_socket site)\<rparr>) fds"
  using assms by (simp add: connect_php_fpm_def connect_unix_def safe_copy_def)

text \<open>The probes of the commands leave the table of descriptors as it was.\<close>

lemma probe_restores:
  assumes "fd < 0 \<Longrightarrow> fds1 = fds" and "0 \<le> fd \<Longrightarrow> fds fd = None \<and> (\<exists>s. fds1 = fds(fd \<mapsto> s))"
  shows "probe (fd, fds1) = (0 \<le> fd, fds)"
  using assms by (auto simp: probe_def)

theorem probe_tcp_restores:
  assumes "\<And>host port as a fd. resolve host port = Some as \<Longrightarrow> a \<in> set as \<Longrightarrow> at_socket a = Some fd \<Longrightarrow>
      0 \<le> fd \<and> fds fd = None"
  shows "connect_tcp_host resolve host port fds =
    Some (case resolve host (dec (unat port)) of
            None \<Rightarrow> False
          | Some as \<Rightarrow> \<exists>a \<in> set as. at_socket a \<noteq> None \<and> at_connect a = Connect_ok, fds)"
proof (cases "resolve host (dec (unat port))")
  case None
  then show ?thesis by (simp add: connect_tcp_host_def connect_host_def probe_def)
next
  case (Some as)
  let ?f = "find (\<lambda>a. at_socket a \<noteq> None \<and> at_connect a = Connect_ok) as"
  have h: "connect_host connect_blocking resolve host port fds =
      Some (case ?f of None \<Rightarrow> (- 1, fds)
            | Some a \<Rightarrow> (the (at_socket a), fds(the (at_socket a) \<mapsto> new_socket\<lparr>so_peer := Some (at_address a)\<rparr>)))"
    by (rule plain.connect_host_spec [where resolve = resolve and host = host and port = port, OF Some]) (use assms [OF Some] in blast)+
  show ?thesis
  proof (cases ?f)
    case None
    then have "\<not> (\<exists>a \<in> set as. at_socket a \<noteq> None \<and> at_connect a = Connect_ok)" by (auto simp: find_None_iff)
    with h [unfolded None] Some show ?thesis by (simp add: connect_tcp_host_def probe_def)
  next
    case f: (Some a)
    then have "a \<in> set as" "at_socket a \<noteq> None" "at_connect a = Connect_ok" by (auto simp: find_Some_iff)
    with assms [OF Some] f h Some show ?thesis by (auto simp: connect_tcp_host_def probe_def)
  qed
qed

section \<open>Listening\<close>

text \<open>
  What the kernel answers to \<open>create_listener\<close>; an error is its \<open>errno\<close> text.  \<open>la_numeric\<close> says
  whether \<open>inet_pton\<close> reads the address.
\<close>

record listen_answer =
  la_socket :: "string + int"
  la_numeric :: bool
  la_bind :: "string option"
  la_listen :: "string option"
  la_nonblock :: "string option"

definition create_listener ::
  "nat \<Rightarrow> listen_answer \<Rightarrow> string \<Rightarrow> u16 \<Rightarrow> config \<Rightarrow> fds \<Rightarrow> (string + int) \<times> fds" where
  "create_listener err_len la ip port cfg fds =
     (let err = safe_copy err_len; at = ip @ '':'' @ dec (unat port) in
      case la_socket la of
        Inl e \<Rightarrow> (Inl (err (''socket failed: '' @ e)), fds)
      | Inr fd \<Rightarrow>
          let fds1 = fds(fd \<mapsto> new_socket) in
          if \<not> la_numeric la then (Inl (err (''invalid listen IP '' @ ip)), fds1(fd := None))
          else case la_bind la of
            Some e \<Rightarrow> (Inl (err (''bind '' @ at @ '' failed: '' @ e)), fds1(fd := None))
          | None \<Rightarrow>
              let fds2 = on_fd fd (so_local_update (\<lambda>_. Some (ip, port))) fds1 in
              (case la_listen la of
                 Some e \<Rightarrow> (Inl (err (''listen '' @ at @ '' failed: '' @ e)), fds2(fd := None))
               | None \<Rightarrow>
                   let fds3 = on_fd fd (so_backlog_update (\<lambda>_. Some (cfg_backlog cfg))) fds2 in
                   (case la_nonblock la of
                      Some e \<Rightarrow> (Inl (err (''nonblocking listen socket failed: '' @ e)), fds3(fd := None))
                    | None \<Rightarrow> (Inr fd, on_fd fd (so_nonblock_update (\<lambda>_. True)) fds3))))"

text \<open>On every error path the socket is closed; a listener never blocks the event loop.\<close>

theorem create_listener_owned:
  assumes "\<And>fd. la_socket la = Inr fd \<Longrightarrow> fds fd = None"
  shows "case create_listener err_len la ip port cfg fds of
      (Inl e, fds1) \<Rightarrow> fds1 = fds
    | (Inr fd, fds1) \<Rightarrow> fds fd = None \<and>
        fds1 = fds(fd \<mapsto> new_socket\<lparr>so_nonblock := True, so_local := Some (ip, port), so_backlog := Some (cfg_backlog cfg)\<rparr>)"
proof (cases "la_socket la")
  case (Inl e)
  then show ?thesis by (simp add: create_listener_def)
next
  case (Inr fd)
  with assms have n: "fds fd = None" by blast
  then have "fds(fd := None) = fds" by auto
  with Inr n show ?thesis
    by (simp add: create_listener_def Let_def new_socket_def split: option.splits)
qed

section \<open>The descriptors of the open-file caches\<close>

text \<open>
  \<open>rpsiod_config_close_site_caches\<close>: of an entry of the cache only its descriptor and its flag
  matter; a site is its list of entries.
\<close>

record cache_slot =
  cs_fd :: int
  cs_valid :: bool

definition close_slot :: "cache_slot \<Rightarrow> fds \<Rightarrow> cache_slot \<times> fds" where
  "close_slot s fds =
     (if 0 \<le> cs_fd s then (\<lparr>cs_fd = - 1, cs_valid = False\<rparr>, fds(cs_fd s := None))
      else (s\<lparr>cs_valid := False\<rparr>, fds))"

fun close_slots :: "cache_slot list \<Rightarrow> fds \<Rightarrow> cache_slot list \<times> fds" where
  "close_slots [] fds = ([], fds)"
| "close_slots (s # ss) fds =
     (case close_slot s fds of (s1, fds1) \<Rightarrow> case close_slots ss fds1 of (ss1, fds2) \<Rightarrow> (s1 # ss1, fds2))"

fun rpsiod_config_close_site_caches :: "cache_slot list list \<Rightarrow> fds \<Rightarrow> cache_slot list list \<times> fds" where
  "rpsiod_config_close_site_caches [] fds = ([], fds)"
| "rpsiod_config_close_site_caches (site # sites) fds =
     (case close_slots site fds of (site1, fds1) \<Rightarrow>
        case rpsiod_config_close_site_caches sites fds1 of (sites1, fds2) \<Rightarrow> (site1 # sites1, fds2))"

lemma close_slots_spec:
  "close_slots ss fds = (ss1, fds1) \<Longrightarrow>
   (\<forall>s \<in> set ss1. cs_fd s < 0 \<and> \<not> cs_valid s) \<and>
   (\<forall>fd. fds1 fd = (if \<exists>s \<in> set ss. 0 \<le> cs_fd s \<and> cs_fd s = fd then None else fds fd))"
proof (induction ss fds arbitrary: ss1 fds1 rule: close_slots.induct)
  case (2 s ss fds)
  obtain s1 fdsA where a: "close_slot s fds = (s1, fdsA)" by (rule prod.exhaust)
  obtain ssB fdsB where b: "close_slots ss fdsA = (ssB, fdsB)" by (rule prod.exhaust)
  have r: "ss1 = s1 # ssB" "fds1 = fdsB" using 2(2) a b by simp_all
  have "cs_fd s1 < 0 \<and> \<not> cs_valid s1 \<and> (\<forall>fd. fdsA fd = (if 0 \<le> cs_fd s \<and> cs_fd s = fd then None else fds fd))"
    using a by (auto simp: close_slot_def split: if_splits)
  with 2(1) [OF a [symmetric] b] show ?case by (auto simp: r)
qed simp

text \<open>Every descriptor in a cache is closed, nothing else is, and no entry can be used again.\<close>

theorem close_site_caches_exact:
  "rpsiod_config_close_site_caches sites fds = (sites1, fds1) \<Longrightarrow>
   (\<forall>site \<in> set sites1. \<forall>s \<in> set site. cs_fd s < 0 \<and> \<not> cs_valid s) \<and>
   (\<forall>fd. fds1 fd = (if \<exists>site \<in> set sites. \<exists>s \<in> set site. 0 \<le> cs_fd s \<and> cs_fd s = fd then None else fds fd))"
proof (induction sites fds arbitrary: sites1 fds1 rule: rpsiod_config_close_site_caches.induct)
  case (2 site sites fds)
  obtain site1 fdsA where a: "close_slots site fds = (site1, fdsA)" by (rule prod.exhaust)
  obtain sitesB fdsB where b: "rpsiod_config_close_site_caches sites fdsA = (sitesB, fdsB)" by (rule prod.exhaust)
  have r: "sites1 = site1 # sitesB" "fds1 = fdsB" using 2(2) a b by simp_all
  from 2(1) [OF a [symmetric] b] close_slots_spec [OF a] show ?case by (auto simp: r)
qed simp

section \<open>Opening files of a site\<close>

text \<open>The flags of \<open>openat2\<close> (\<open>rpsiod_static_open_site_path\<close> of \<open>src/static.c\<close>).\<close>

record open_how =
  oh_beneath :: bool
  oh_no_magiclinks :: bool
  oh_no_symlinks :: bool

definition site_open_how :: "site_config \<Rightarrow> open_how" where
  "site_open_how site = \<lparr>oh_beneath = True, oh_no_magiclinks = True, oh_no_symlinks = \<not> site_allow_symlinks site\<rparr>"

definition rpsiod_static_open_site_path :: "(int \<Rightarrow> string \<Rightarrow> open_how \<Rightarrow> 'f option) \<Rightarrow> site_config \<Rightarrow> string \<Rightarrow> 'f option" where
  "rpsiod_static_open_site_path openat2 site relative_path =
     openat2 (site_static_root_fd site) relative_path (site_open_how site)"

text \<open>
  With a kernel that resolves as \<open>openat2\<close> documents, \<open>walk\<close> being the directories and links a
  path leads through, no file outside the root of the site is opened, and none through a symbolic
  link unless the site allows them.
\<close>

theorem site_open_confined:
  assumes "\<And>fd path how f. openat2 fd path how = Some f \<Longrightarrow>
        (oh_beneath how \<longrightarrow> (\<forall>d \<in> walk fd path. below fd d)) \<and>
        (oh_no_symlinks how \<longrightarrow> (\<forall>d \<in> walk fd path. \<not> is_link d))"
    and "rpsiod_static_open_site_path openat2 site path = Some f" and "d \<in> walk (site_static_root_fd site) path"
  shows "below (site_static_root_fd site) d \<and> (is_link d \<longrightarrow> site_allow_symlinks site)"
  using assms(1) [OF assms(2) [unfolded rpsiod_static_open_site_path_def]] assms(3)
  by (auto simp: site_open_how_def)

end
