(* ===== verification/HttpDate.thy ===== *)
theory HttpDate
  imports Response
begin

text \<open>
  The dates of HTTP messages (\<open>format_http_time\<close> and \<open>parse_http_time\<close> of \<open>src/server.c\<close>), with
  the calendar functions of the C library they call: \<open>gmtime_r\<close>, \<open>timegm\<close>, and \<open>strftime\<close> and
  \<open>strptime\<close> in the C locale for the conversions used.
\<close>

section \<open>The calendar\<close>

definition leap :: "int \<Rightarrow> bool" where
  "leap y \<longleftrightarrow> 4 dvd y \<and> (\<not> 100 dvd y \<or> 400 dvd y)"

text \<open>Days from the first of January of the year 0 to that of the year \<open>y\<close>.\<close>

definition days_before :: "int \<Rightarrow> int" where
  "days_before y = 365 * y + (y + 3) div 4 - (y + 99) div 100 + (y + 399) div 400"

lemma ceiling_step:
  fixes y k :: int
  assumes "0 < k"
  shows "(y + k) div k = (y + (k - 1)) div k + (if k dvd y then 1 else 0)"
proof -
  define q r where "q = y div k" and "r = y mod k"
  have y: "y = r + k * q" and r: "0 \<le> r" "r < k" using assms by (simp_all add: q_def r_def)
  have "(y + k) div k = q + 1" using assms div_add_self2 [of k y] by (simp add: q_def)
  moreover have "(y + (k - 1)) div k = q + (r + (k - 1)) div k"
  proof -
    have "y + (k - 1) = (r + (k - 1)) + k * q" using y by simp
    then show ?thesis using assms by (simp only: div_mult_self2)
  qed
  moreover have "(r + (k - 1)) div k = (if r = 0 then 0 else 1)"
    using r by (auto intro: int_div_pos_eq [where r = "r - 1"])
  moreover have "k dvd y \<longleftrightarrow> r = 0" by (simp add: r_def dvd_eq_mod_eq_0)
  ultimately show ?thesis by simp
qed

lemma days_before_Suc: "days_before (y + 1) = days_before y + (if leap y then 366 else 365)"
proof -
  define a b c :: int where "a = (if 4 dvd y then 1 else 0)" and "b = (if 100 dvd y then 1 else 0)"
    and "c = (if 400 dvd y then 1 else 0)"
  have "(y + 4) div 4 = (y + 3) div 4 + a" "(y + 100) div 100 = (y + 99) div 100 + b"
    "(y + 400) div 400 = (y + 399) div 400 + c"
    using ceiling_step [of 4 y] ceiling_step [of 100 y] ceiling_step [of 400 y] by (simp_all add: a_def b_def c_def)
  then have "days_before (y + 1) = days_before y + (365 + a - b + c)"
    by (simp add: days_before_def algebra_simps)
  moreover have "400 dvd y \<Longrightarrow> 100 dvd y" by (rule dvd_trans [of 100 400]) simp_all
  moreover have "100 dvd y \<Longrightarrow> 4 dvd y" by (rule dvd_trans [of 4 100]) simp_all
  ultimately show ?thesis
    by (cases "4 dvd y"; cases "100 dvd y"; cases "400 dvd y") (simp_all add: a_def b_def c_def leap_def)
qed

lemma days_before_zero: "days_before 0 = 0"
  by (simp add: days_before_def)

lemma days_before_upper: "0 \<le> y \<Longrightarrow> days_before y \<le> 366 * y"
  by (induction rule: int_ge_induct) (auto simp: days_before_Suc days_before_zero)

lemma days_before_lower: "y \<le> 0 \<Longrightarrow> days_before y \<le> 365 * y"
proof (induction rule: int_le_induct)
  case (step i)
  with days_before_Suc [of "i - 1"] show ?case by (simp split: if_splits)
qed (simp add: days_before_zero)

definition month_lengths :: "int \<Rightarrow> int list" where
  "month_lengths y = [31, if leap y then 29 else 28, 31, 30, 31, 30, 31, 31, 30, 31, 30, 31]"

lemma sum_month_lengths: "sum_list (month_lengths y) = days_before (y + 1) - days_before y"
  by (simp add: month_lengths_def days_before_Suc)

function year_from :: "int \<Rightarrow> int \<Rightarrow> int" where
  "year_from d y = (if days_before (y + 1) \<le> d then year_from d (y + 1) else y)"
  by pat_completeness auto
termination
  by (relation "measure (\<lambda>(d, y). nat (d - days_before y))") (auto simp: days_before_Suc split: if_splits)

declare year_from.simps [simp del]

definition year_of :: "int \<Rightarrow> int" where
  "year_of d = year_from d (if 0 \<le> d then d div 366 else d div 365 - 1)"

fun split_month :: "int list \<Rightarrow> int \<Rightarrow> nat \<times> int" where
  "split_month [] r = (0, r)"
| "split_month (l # ls) r = (if r < l then (0, r) else case split_month ls (r - l) of (m, r') \<Rightarrow> (Suc m, r'))"

record tm =
  tm_sec :: int
  tm_min :: int
  tm_hour :: int
  tm_mday :: int
  tm_mon :: nat
  tm_year :: int
  tm_wday :: nat

definition epoch_day :: int where "epoch_day = 719528"

text \<open>\<open>gmtime_r\<close> fails when the year does not fit an \<open>int\<close>.\<close>

definition gmtime :: "int \<Rightarrow> tm option" where
  "gmtime t =
     (let d = t div 86400 + epoch_day; s = t mod 86400; y = year_of d in
      case split_month (month_lengths y) (d - days_before y) of
        (m, r) \<Rightarrow>
          if y - 1900 > INT_MAX \<or> y - 1900 < - INT_MAX - 1 then None
          else Some \<lparr>tm_sec = s mod 60, tm_min = s div 60 mod 60, tm_hour = s div 3600, tm_mday = r + 1,
                     tm_mon = m, tm_year = y - 1900, tm_wday = nat ((d + 6) mod 7)\<rparr>)"

definition timegm :: "tm \<Rightarrow> int" where
  "timegm tm =
     (let y = tm_year tm + 1900 in
      (days_before y + sum_list (take (tm_mon tm) (month_lengths y)) + tm_mday tm - 1 - epoch_day) * 86400 +
      tm_hour tm * 3600 + tm_min tm * 60 + tm_sec tm)"

lemma year_from_spec:
  assumes "days_before y \<le> d"
  shows "days_before (year_from d y) \<le> d \<and> d < days_before (year_from d y + 1)"
  using assms
  by (induction d y rule: year_from.induct) (subst (1 2) year_from.simps, auto)

lemma year_of_spec: "days_before (year_of d) \<le> d \<and> d < days_before (year_of d + 1)"
proof -
  have "days_before (d div 366) \<le> d" if "0 \<le> d"
  proof -
    have "366 * (d div 366) + d mod 366 = d" "0 \<le> d mod 366" "0 \<le> d div 366"
      using that by (simp_all add: pos_imp_zdiv_nonneg_iff)
    then show ?thesis using days_before_upper [OF \<open>0 \<le> d div 366\<close>] by linarith
  qed
  moreover have "days_before (d div 365 - 1) \<le> d" if "\<not> 0 \<le> d"
  proof -
    have "365 * (d div 365) + d mod 365 = d" "0 \<le> d mod 365" "d div 365 < 0"
      using that by (simp_all add: pos_imp_zdiv_neg_iff)
    then show ?thesis using days_before_lower [of "d div 365 - 1"] by simp
  qed
  ultimately show ?thesis unfolding year_of_def by (intro year_from_spec) simp
qed

lemma split_month_spec:
  "split_month ls r = (m, r') \<Longrightarrow> 0 \<le> r \<Longrightarrow> r < sum_list ls \<Longrightarrow>
   m < length ls \<and> sum_list (take m ls) + r' = r \<and> 0 \<le> r' \<and> r' < ls ! m"
  by (induction ls r arbitrary: m r' rule: split_month.induct) (fastforce split: if_splits prod.splits)+

lemma days_before_mono: "x \<le> y \<Longrightarrow> days_before x \<le> days_before y"
  by (induction rule: int_ge_induct) (auto simp: days_before_Suc)

lemma length_month_lengths [simp]: "length (month_lengths y) = 12"
  by (simp add: month_lengths_def)

lemma month_lengths_31: "m < 12 \<Longrightarrow> month_lengths y ! m \<le> 31"
proof -
  assume "m < 12"
  then have "month_lengths y ! m \<in> set (month_lengths y)" by simp
  moreover have "\<forall>x \<in> set (month_lengths y). x \<le> 31" by (simp add: month_lengths_def)
  ultimately show ?thesis by blast
qed

lemma clock_split:
  fixes s :: int
  shows "s div 3600 * 3600 + s div 60 mod 60 * 60 + s mod 60 = s"
proof -
  have "s div 3600 = s div 60 div 60" by (simp add: zdiv_zmult2_eq)
  moreover have "s div 60 div 60 * 60 + s div 60 mod 60 = s div 60" "s div 60 * 60 + s mod 60 = s"
    by (rule div_mult_mod_eq)+
  ultimately show ?thesis by linarith
qed

lemma gmtime_spec:
  assumes "gmtime t = Some tm"
  shows "timegm tm = t \<and> 0 \<le> tm_sec tm \<and> tm_sec tm < 60 \<and> 0 \<le> tm_min tm \<and> tm_min tm < 60 \<and>
    0 \<le> tm_hour tm \<and> tm_hour tm < 24 \<and> 1 \<le> tm_mday tm \<and> tm_mday tm \<le> 31 \<and> tm_mon tm < 12 \<and> tm_wday tm < 7 \<and>
    tm_year tm = year_of (t div 86400 + epoch_day) - 1900"
proof -
  let ?d = "t div 86400 + epoch_day" and ?s = "t mod 86400"
  let ?y = "year_of ?d"
  obtain m r where m: "split_month (month_lengths ?y) (?d - days_before ?y) = (m, r)" by (rule prod.exhaust)
  have "0 \<le> ?d - days_before ?y" "?d - days_before ?y < sum_list (month_lengths ?y)"
    using year_of_spec [of ?d] by (simp_all add: sum_month_lengths)
  from split_month_spec [OF m this]
  have r: "m < 12" "sum_list (take m (month_lengths ?y)) + r = ?d - days_before ?y" "0 \<le> r" "r < month_lengths ?y ! m"
    by simp_all
  have tm: "tm = \<lparr>tm_sec = ?s mod 60, tm_min = ?s div 60 mod 60, tm_hour = ?s div 3600, tm_mday = r + 1,
      tm_mon = m, tm_year = ?y - 1900, tm_wday = nat ((?d + 6) mod 7)\<rparr>"
    using assms m by (auto simp: gmtime_def Let_def split: if_splits)
  have "days_before ?y + sum_list (take m (month_lengths ?y)) + (r + 1) - 1 - epoch_day = t div 86400"
    using r(2) by simp
  then have "timegm tm = t div 86400 * 86400 + (?s div 3600 * 3600 + ?s div 60 mod 60 * 60 + ?s mod 60)"
    unfolding tm timegm_def Let_def tm.simps diff_add_cancel by simp
  then have "timegm tm = t div 86400 * 86400 + ?s" unfolding clock_split .
  then have t: "timegm tm = t" by simp
  have h: "0 \<le> ?s div 3600" "?s div 3600 < 24"
    by (simp_all add: pos_imp_zdiv_nonneg_iff div_less_iff_less_mult)
  have w: "nat ((?d + 6) mod 7) < 7" by (simp add: nat_less_iff)
  have d: "1 \<le> r + 1" "r + 1 \<le> 31" using r(3,4) month_lengths_31 [OF r(1), of ?y] by linarith+
  show ?thesis
    by (intro conjI t) (simp_all only: tm tm.simps h w d r(1) pos_mod_bound pos_mod_sign zero_less_numeral)
qed

section \<open>Printing\<close>

definition weekday_names :: "string list" where
  "weekday_names = [''Sunday'', ''Monday'', ''Tuesday'', ''Wednesday'', ''Thursday'', ''Friday'', ''Saturday'']"

definition month_names :: "string list" where
  "month_names = [''January'', ''February'', ''March'', ''April'', ''May'', ''June'', ''July'', ''August'',
     ''September'', ''October'', ''November'', ''December'']"

definition pad2 :: "int \<Rightarrow> string" where
  "pad2 n = [char_of (48 + nat (n div 10)), char_of (48 + nat (n mod 10))]"

definition strftime_conversion :: "char \<Rightarrow> tm \<Rightarrow> string" where
  "strftime_conversion c tm =
     (if c = CHR ''a'' then take 3 (weekday_names ! tm_wday tm)
      else if c = CHR ''b'' then take 3 (month_names ! tm_mon tm)
      else if c = CHR ''d'' then pad2 (tm_mday tm)
      else if c = CHR ''Y'' then dec_int (tm_year tm + 1900)
      else if c = CHR ''H'' then pad2 (tm_hour tm)
      else if c = CHR ''M'' then pad2 (tm_min tm)
      else if c = CHR ''S'' then pad2 (tm_sec tm)
      else [])"

fun strftime_text :: "string \<Rightarrow> tm \<Rightarrow> string" where
  "strftime_text [] tm = []"
| "strftime_text [c] tm = [c]"
| "strftime_text (c # d # fmt) tm =
     (if c = CHR ''%'' then strftime_conversion d tm @ strftime_text fmt tm else c # strftime_text (d # fmt) tm)"

definition http_format :: string where "http_format = ''%a, %d %b %Y %H:%M:%S GMT''"

definition format_http_time :: "nat \<Rightarrow> int \<Rightarrow> string" where
  "format_http_time out_len t =
     (case gmtime t of
        None \<Rightarrow> safe_copy out_len ''Thu, 01 Jan 1970 00:00:00 GMT''
      | Some tm \<Rightarrow>
          if out_len \<le> length (strftime_text http_format tm) then safe_copy out_len ''Thu, 01 Jan 1970 00:00:00 GMT''
          else strftime_text http_format tm)"

section \<open>Reading\<close>

text \<open>
  A number of \<open>strptime\<close>: blanks, then a digit, then further digits while there can be more
  and the value stays in range.
\<close>

definition digit_value :: "char \<Rightarrow> int" where
  "digit_value c = int (uchar c) - 48"

fun number_loop :: "nat \<Rightarrow> int \<Rightarrow> int \<Rightarrow> string \<Rightarrow> int \<times> string" where
  "number_loop (Suc n) hi v (c # cs) =
     (if v * 10 \<le> hi \<and> is_digit c then number_loop n hi (v * 10 + digit_value c) cs else (v, c # cs))"
| "number_loop n hi v s = (v, s)"

definition get_number :: "int \<Rightarrow> int \<Rightarrow> nat \<Rightarrow> string \<Rightarrow> (int \<times> string) option" where
  "get_number lo hi n s =
     (case dropWhile (\<lambda>c. c = CHR '' '') s of
        [] \<Rightarrow> None
      | c # cs \<Rightarrow>
          if \<not> is_digit c then None
          else case number_loop (n - 1) hi (digit_value c) cs of
            (v, rest) \<Rightarrow> if v < lo \<or> v > hi then None else Some (v, rest))"

text \<open>A name, in full or by its first three letters, in any case.\<close>

fun match_string :: "string \<Rightarrow> string \<Rightarrow> string option" where
  "match_string [] s = Some s"
| "match_string (c # cs) [] = None"
| "match_string (c # cs) (d # ds) = (if c_tolower c = c_tolower d then match_string cs ds else None)"

fun match_name :: "string list \<Rightarrow> string \<Rightarrow> (nat \<times> string) option" where
  "match_name [] s = None"
| "match_name (n # ns) s =
     (case match_string n s of
        Some rest \<Rightarrow> Some (0, rest)
      | None \<Rightarrow>
          (case match_string (take 3 n) s of
             Some rest \<Rightarrow> Some (0, rest)
           | None \<Rightarrow> map_option (\<lambda>(i, rest). (Suc i, rest)) (match_name ns s)))"

definition strptime_conversion :: "char \<Rightarrow> string \<Rightarrow> tm \<Rightarrow> (tm \<times> string) option" where
  "strptime_conversion c s tm =
     (if c = CHR ''a'' \<or> c = CHR ''A'' then map_option (\<lambda>(i, r). (tm\<lparr>tm_wday := i\<rparr>, r)) (match_name weekday_names s)
      else if c = CHR ''b'' then map_option (\<lambda>(i, r). (tm\<lparr>tm_mon := i\<rparr>, r)) (match_name month_names s)
      else if c = CHR ''d'' \<or> c = CHR ''e'' then map_option (\<lambda>(v, r). (tm\<lparr>tm_mday := v\<rparr>, r)) (get_number 1 31 2 s)
      else if c = CHR ''Y'' then map_option (\<lambda>(v, r). (tm\<lparr>tm_year := v - 1900\<rparr>, r)) (get_number 0 9999 4 s)
      else if c = CHR ''y'' then
        map_option (\<lambda>(v, r). (tm\<lparr>tm_year := if 69 \<le> v then v else v + 100\<rparr>, r)) (get_number 0 99 2 s)
      else if c = CHR ''H'' then map_option (\<lambda>(v, r). (tm\<lparr>tm_hour := v\<rparr>, r)) (get_number 0 23 2 s)
      else if c = CHR ''M'' then map_option (\<lambda>(v, r). (tm\<lparr>tm_min := v\<rparr>, r)) (get_number 0 59 2 s)
      else if c = CHR ''S'' then map_option (\<lambda>(v, r). (tm\<lparr>tm_sec := v\<rparr>, r)) (get_number 0 61 2 s)
      else None)"

fun strptime :: "string \<Rightarrow> string \<Rightarrow> tm \<Rightarrow> (tm \<times> string) option" where
  "strptime [] s tm = Some (tm, s)"
| "strptime (c # fmt) s tm =
     (if c_isspace c then strptime fmt (dropWhile c_isspace s) tm
      else if c = CHR ''%'' then
        (case fmt of
           [] \<Rightarrow> None
         | d # fmt' \<Rightarrow>
             (case strptime_conversion d s tm of None \<Rightarrow> None | Some (tm', s') \<Rightarrow> strptime fmt' s' tm'))
      else (case s of [] \<Rightarrow> None | x # s' \<Rightarrow> if x = c then strptime fmt s' tm else None))"

definition zero_tm :: tm where
  "zero_tm = \<lparr>tm_sec = 0, tm_min = 0, tm_hour = 0, tm_mday = 0, tm_mon = 0, tm_year = 0, tm_wday = 0\<rparr>"

text \<open>The three forms of a date, the first that can be read, with nothing but blanks behind it.\<close>

definition parse_http_time :: "string \<Rightarrow> int option" where
  "parse_http_time val =
     (if val = [] then None
      else
        let r = strptime http_format val zero_tm;
            r = (if r = None then strptime ''%A, %d-%b-%y %H:%M:%S GMT'' val zero_tm else r);
            r = (if r = None then strptime ''%a %b %e %H:%M:%S %Y'' val zero_tm else r) in
        case r of
          None \<Rightarrow> None
        | Some (tm, end) \<Rightarrow> if dropWhile is_ows end \<noteq> [] then None else Some (timegm tm))"

section \<open>Round trip\<close>

lemma digit_char:
  assumes "n < 10"
  shows "is_digit (char_of (48 + n))" "digit_value (char_of (48 + n)) = int n"
    "char_of (48 + n) \<noteq> CHR '' ''" "\<not> c_isspace (char_of (48 + n))"
proof -
  have u: "uchar (char_of (48 + n)) = 48 + n" using assms by simp
  have "uchar (CHR '' '') = 32" by code_simp
  with u show "char_of (48 + n) \<noteq> CHR '' ''" by auto
  show "is_digit (char_of (48 + n))" unfolding is_digit_def u using assms by simp
  show "digit_value (char_of (48 + n)) = int n" unfolding digit_value_def u by simp
  show "\<not> c_isspace (char_of (48 + n))" unfolding c_isspace_def u by simp
qed

lemma pad2_digits:
  assumes "0 \<le> v" "v < 100"
  shows "\<exists>a b. pad2 v = [char_of (48 + a), char_of (48 + b)] \<and> a < 10 \<and> b < 10 \<and> v = int a * 10 + int b"
proof (intro exI conjI)
  show "pad2 v = [char_of (48 + nat (v div 10)), char_of (48 + nat (v mod 10))]" by (simp add: pad2_def)
  show "nat (v div 10) < 10" "nat (v mod 10) < 10" using assms by (simp_all add: nat_less_iff div_less_iff_less_mult)
  show "v = int (nat (v div 10)) * 10 + int (nat (v mod 10))"
    using assms div_mult_mod_eq [of v 10] by (simp add: pos_imp_zdiv_nonneg_iff)
qed

lemma get_number_pad2:
  assumes "0 \<le> v" "lo \<le> v" "v \<le> hi" "hi < 100"
  shows "get_number lo hi 2 (pad2 v @ rest) = Some (v, rest)"
proof -
  obtain a b where p: "pad2 v = [char_of (48 + a), char_of (48 + b)]" "a < 10" "b < 10" "v = int a * 10 + int b"
    using pad2_digits [of v] assms by auto
  have "int a * 10 \<le> hi" using p assms by linarith
  with p assms show ?thesis
    using number_loop.simps(1) [of 0] by (simp add: get_number_def digit_char)
qed

lemma space_pad2: "0 \<le> v \<Longrightarrow> v < 100 \<Longrightarrow> dropWhile c_isspace (pad2 v @ rest) = pad2 v @ rest"
  using pad2_digits [of v] by (auto simp: digit_char)

lemma dec_four:
  assumes "1000 \<le> n" "n < 10000"
  shows "\<exists>a b c d. dec n = [char_of (48 + a), char_of (48 + b), char_of (48 + c), char_of (48 + d)] \<and>
    a < 10 \<and> b < 10 \<and> c < 10 \<and> d < 10 \<and> n = a * 1000 + b * 100 + c * 10 + d"
proof (intro exI conjI)
  have q: "n div 10 div 10 div 10 < 10" "\<not> n < 10" "\<not> n div 10 < 10" "\<not> n div 10 div 10 < 10"
    using assms by (simp_all add: div_less_iff_less_mult flip: div_mult2_eq)
  then show "dec n = [char_of (48 + n div 10 div 10 div 10), char_of (48 + n div 10 div 10 mod 10),
      char_of (48 + n div 10 mod 10), char_of (48 + n mod 10)]"
    by (subst dec.simps, simp, subst dec.simps, simp, subst dec.simps, simp, subst dec.simps, simp)
  show "n div 10 div 10 div 10 < 10" by (rule q(1))
  show "n = n div 10 div 10 div 10 * 1000 + n div 10 div 10 mod 10 * 100 + n div 10 mod 10 * 10 + n mod 10"
    using div_mult_mod_eq [of n 10] div_mult_mod_eq [of "n div 10" 10] div_mult_mod_eq [of "n div 10 div 10" 10]
    by linarith
qed simp_all

lemma year_digits:
  assumes "1000 \<le> y" "y < 10000"
  shows "get_number 0 9999 4 (dec_int y @ rest) = Some (y, rest)"
    and "dropWhile c_isspace (dec_int y @ rest) = dec_int y @ rest" and "length (dec_int y) = 4"
proof -
  have "1000 \<le> nat y" "nat y < 10000" using assms by simp_all
  from dec_four [OF this] obtain a b c d where
    n: "dec (nat y) = [char_of (48 + a), char_of (48 + b), char_of (48 + c), char_of (48 + d)]"
      "a < 10" "b < 10" "c < 10" "d < 10" "nat y = a * 1000 + b * 100 + c * 10 + d" by blast
  have y: "dec_int y = dec (nat y)" "y = int a * 1000 + int b * 100 + int c * 10 + int d"
    using assms n(6) by (simp_all add: dec_int_def)
  have "number_loop 3 9999 (int a) (char_of (48 + b) # char_of (48 + c) # char_of (48 + d) # rest) = (y, rest)"
    using n(2-5) y(2) by (simp add: numeral_3_eq_3 digit_char)
  with n y assms show "get_number 0 9999 4 (dec_int y @ rest) = Some (y, rest)"
    by (simp add: get_number_def digit_char)
  show "dropWhile c_isspace (dec_int y @ rest) = dec_int y @ rest" "length (dec_int y) = 4"
    using n y by (simp_all add: digit_char)
qed

lemma below_seven: "w < 7 \<Longrightarrow> w \<in> {0, 1, 2, 3, 4, 5, 6 :: nat}"
  by auto

lemma below_twelve: "m < 12 \<Longrightarrow> m \<in> {0, 1, 2, 3, 4, 5, 6, 7, 8, 9, 10, 11 :: nat}"
  unfolding insert_iff empty_iff by presburger

lemma lower_letters:
  "c_tolower (CHR ''S'') = CHR ''s''" "c_tolower (CHR ''M'') = CHR ''m''" "c_tolower (CHR ''T'') = CHR ''t''"
  "c_tolower (CHR ''W'') = CHR ''w''" "c_tolower (CHR ''F'') = CHR ''f''" "c_tolower (CHR ''J'') = CHR ''j''"
  "c_tolower (CHR ''A'') = CHR ''a''" "c_tolower (CHR ''O'') = CHR ''o''" "c_tolower (CHR ''N'') = CHR ''n''"
  "c_tolower (CHR ''D'') = CHR ''d''" "c_tolower (CHR '','') = CHR '',''" "c_tolower (CHR '' '') = CHR '' ''"
  "c_tolower (CHR ''a'') = CHR ''a''" "c_tolower (CHR ''b'') = CHR ''b''" "c_tolower (CHR ''c'') = CHR ''c''"
  "c_tolower (CHR ''d'') = CHR ''d''" "c_tolower (CHR ''e'') = CHR ''e''" "c_tolower (CHR ''g'') = CHR ''g''"
  "c_tolower (CHR ''h'') = CHR ''h''" "c_tolower (CHR ''i'') = CHR ''i''" "c_tolower (CHR ''l'') = CHR ''l''"
  "c_tolower (CHR ''m'') = CHR ''m''" "c_tolower (CHR ''n'') = CHR ''n''" "c_tolower (CHR ''o'') = CHR ''o''"
  "c_tolower (CHR ''p'') = CHR ''p''" "c_tolower (CHR ''r'') = CHR ''r''" "c_tolower (CHR ''s'') = CHR ''s''"
  "c_tolower (CHR ''t'') = CHR ''t''" "c_tolower (CHR ''u'') = CHR ''u''" "c_tolower (CHR ''v'') = CHR ''v''"
  "c_tolower (CHR ''y'') = CHR ''y''" "c_tolower (CHR ''f'') = CHR ''f''"
  by code_simp+

lemma weekday_read:
  "w < 7 \<Longrightarrow> match_name weekday_names (take 3 (weekday_names ! w) @ CHR '','' # rest) = Some (w, CHR '','' # rest)"
  using below_seven [of w] by (auto simp: weekday_names_def lower_letters)

lemma month_read:
  "m < 12 \<Longrightarrow> match_name month_names (take 3 (month_names ! m) @ CHR '' '' # rest) = Some (m, CHR '' '' # rest)"
  using below_twelve [of m] by (auto simp: month_names_def lower_letters)

lemma initial_letters:
  "\<not> c_isspace (CHR ''J'')" "\<not> c_isspace (CHR ''F'')" "\<not> c_isspace (CHR ''M'')" "\<not> c_isspace (CHR ''A'')"
  "\<not> c_isspace (CHR ''S'')" "\<not> c_isspace (CHR ''O'')" "\<not> c_isspace (CHR ''N'')" "\<not> c_isspace (CHR ''D'')"
  by code_simp+

lemma month_letter: "m < 12 \<Longrightarrow> dropWhile c_isspace (take 3 (month_names ! m) @ rest) = take 3 (month_names ! m) @ rest"
  using below_twelve [of m] initial_letters by (auto simp: month_names_def)

lemma name_lengths: "w < 7 \<Longrightarrow> length (weekday_names ! w) \<ge> 3" "m < 12 \<Longrightarrow> length (month_names ! m) \<ge> 3"
  using below_seven [of w] below_twelve [of m] by (auto simp: weekday_names_def month_names_def)

definition broken_down :: "tm \<Rightarrow> bool" where
  "broken_down tm \<longleftrightarrow> 0 \<le> tm_sec tm \<and> tm_sec tm < 60 \<and> 0 \<le> tm_min tm \<and> tm_min tm < 60 \<and>
    0 \<le> tm_hour tm \<and> tm_hour tm < 24 \<and> 1 \<le> tm_mday tm \<and> tm_mday tm \<le> 31 \<and> tm_mon tm < 12 \<and> tm_wday tm < 7 \<and>
    1000 \<le> tm_year tm + 1900 \<and> tm_year tm + 1900 < 10000"

lemma http_date_text:
  "strftime_text http_format tm =
     take 3 (weekday_names ! tm_wday tm) @ '', '' @ pad2 (tm_mday tm) @ '' '' @ take 3 (month_names ! tm_mon tm) @ '' '' @
     dec_int (tm_year tm + 1900) @ '' '' @ pad2 (tm_hour tm) @ '':'' @ pad2 (tm_min tm) @ '':'' @ pad2 (tm_sec tm) @ '' GMT''"
  by (simp add: http_format_def strftime_conversion_def)

lemma strptime_strftime:
  assumes "broken_down tm"
  shows "strptime http_format (strftime_text http_format tm) zero_tm = Some (tm, [])"
proof -
  have n: "\<not> c_isspace (CHR ''%'')" "\<not> c_isspace (CHR '','')" "\<not> c_isspace (CHR '':'')" "c_isspace (CHR '' '')"
    "\<not> c_isspace (CHR ''G'')" "\<not> c_isspace (CHR ''M'')" "\<not> c_isspace (CHR ''T'')" by code_simp+
  have "strptime_conversion (CHR ''a'') (take 3 (weekday_names ! tm_wday tm) @ CHR '','' # rest) t =
      Some (t\<lparr>tm_wday := tm_wday tm\<rparr>, CHR '','' # rest)" for t rest
    using assms by (simp add: strptime_conversion_def weekday_read broken_down_def)
  moreover have "strptime_conversion (CHR ''b'') (take 3 (month_names ! tm_mon tm) @ CHR '' '' # rest) t =
      Some (t\<lparr>tm_mon := tm_mon tm\<rparr>, CHR '' '' # rest)" for t rest
    using assms by (simp add: strptime_conversion_def month_read broken_down_def)
  moreover have "strptime_conversion (CHR ''d'') (pad2 (tm_mday tm) @ rest) t = Some (t\<lparr>tm_mday := tm_mday tm\<rparr>, rest)"
    "strptime_conversion (CHR ''H'') (pad2 (tm_hour tm) @ rest) t = Some (t\<lparr>tm_hour := tm_hour tm\<rparr>, rest)"
    "strptime_conversion (CHR ''M'') (pad2 (tm_min tm) @ rest) t = Some (t\<lparr>tm_min := tm_min tm\<rparr>, rest)"
    "strptime_conversion (CHR ''S'') (pad2 (tm_sec tm) @ rest) t = Some (t\<lparr>tm_sec := tm_sec tm\<rparr>, rest)"
    "strptime_conversion (CHR ''Y'') (dec_int (tm_year tm + 1900) @ rest) t = Some (t\<lparr>tm_year := tm_year tm\<rparr>, rest)" for t rest
    using assms by (simp_all add: strptime_conversion_def get_number_pad2 year_digits broken_down_def)
  moreover have "dropWhile c_isspace (pad2 (tm_mday tm) @ rest) = pad2 (tm_mday tm) @ rest"
    "dropWhile c_isspace (pad2 (tm_hour tm) @ rest) = pad2 (tm_hour tm) @ rest"
    "dropWhile c_isspace (dec_int (tm_year tm + 1900) @ rest) = dec_int (tm_year tm + 1900) @ rest"
    "dropWhile c_isspace (take 3 (month_names ! tm_mon tm) @ rest) = take 3 (month_names ! tm_mon tm) @ rest" for rest
    using assms by (simp_all add: space_pad2 year_digits month_letter broken_down_def)
  ultimately show ?thesis
    unfolding http_date_text by (simp add: http_format_def n zero_tm_def)
qed

lemma gmtime_year:
  assumes "0 \<le> t" "t < 253402300800"
  shows "1970 \<le> year_of (t div 86400 + epoch_day) \<and> year_of (t div 86400 + epoch_day) < 10000"
proof -
  let ?d = "t div 86400 + epoch_day"
  have d: "days_before 1970 \<le> ?d" "?d < days_before 10000"
    using assms by (simp_all add: days_before_def epoch_day_def pos_imp_zdiv_nonneg_iff div_less_iff_less_mult)
  note y = year_of_spec [of ?d]
  have "\<not> year_of ?d + 1 \<le> 1970" using days_before_mono [of "year_of ?d + 1" 1970] y d(1) by linarith
  moreover have "\<not> 10000 \<le> year_of ?d" using days_before_mono [of 10000 "year_of ?d"] y d(2) by linarith
  ultimately show ?thesis by linarith
qed

lemma gmtime_broken_down:
  assumes "0 \<le> t" "t < 253402300800"
  obtains tm where "gmtime t = Some tm" "broken_down tm" "timegm tm = t"
proof -
  note y = gmtime_year [OF assms]
  then have "gmtime t \<noteq> None" by (auto simp: gmtime_def Let_def INT_MAX_def split: prod.splits)
  then obtain tm where tm: "gmtime t = Some tm" by blast
  from gmtime_spec [OF tm] y have "broken_down tm" "timegm tm = t" by (auto simp: broken_down_def)
  with tm that show thesis by blast
qed

lemma format_http_time_read:
  assumes "0 \<le> t" "t < 253402300800" "30 \<le> out_len"
  shows "length (format_http_time out_len t) = 29 \<and> parse_http_time (format_http_time out_len t) = Some t"
proof -
  obtain tm where tm: "gmtime t = Some tm" "broken_down tm" "timegm tm = t" using gmtime_broken_down assms by blast
  have l: "length (strftime_text http_format tm) = 29"
    using tm(2) name_lengths(1) [of "tm_wday tm"] name_lengths(2) [of "tm_mon tm"] year_digits(3) [of "tm_year tm + 1900"]
    by (simp add: http_date_text broken_down_def pad2_def)
  then have f: "format_http_time out_len t = strftime_text http_format tm"
    using tm(1) assms(3) by (simp add: format_http_time_def)
  have "strftime_text http_format tm \<noteq> []" using l by auto
  then have "parse_http_time (strftime_text http_format tm) = Some t"
    using strptime_strftime [OF tm(2)] tm(3) by (simp add: parse_http_time_def)
  with f l show ?thesis by simp
qed

text \<open>
  C22: dates survive the round trip: for every second of the years 1970 to 9999 the text that
  \<open>format_http_time\<close> writes is one of exactly 29 characters that \<open>parse_http_time\<close> reads back as
  that second, through the calendar, the names and the padding of both directions.
\<close>

theorem http_date_roundtrip:
  assumes "0 \<le> t" and "t < 253402300800"
  shows "length (format_http_time 64 t) = 29 \<and> parse_http_time (format_http_time 64 t) = Some t"
  by (rule format_http_time_read [OF assms]) simp

theorem http_date_roundtrip_witness: "parse_http_time (format_http_time 64 951827696) = Some 951827696"
  using http_date_roundtrip [of 951827696] by simp

text \<open>The example of the standard in its two obsolete forms.\<close>

theorem http_date_forms:
  "parse_http_time ''Sunday, 06-Nov-94 08:49:37 GMT'' = Some 784111777"
  "parse_http_time ''Sun Nov  6 08:49:37 1994'' = Some 784111777"
  by code_simp+

text \<open>
  A client that sends back the modification date it was given is told that the file has not
  changed exactly as long as its modification time is the same or older.
\<close>

theorem last_modified_revalidates:
  assumes "e_parse_http_time env = parse_http_time"
    and "r_method req = ''GET''" and "r_if_none_match req = []"
    and "r_if_modified_since req = format_http_time 64 (st_mtime old)"
    and "0 \<le> st_mtime old" and "st_mtime old < 253402300800"
  shows "request_cache_validator_matches env req st etag \<longleftrightarrow> st_mtime st \<le> st_mtime old"
proof -
  have r: "parse_http_time (r_if_modified_since req) = Some (st_mtime old)" "r_if_modified_since req \<noteq> []"
    using format_http_time_read [OF assms(5,6), of 64] assms(4) by auto
  have "rpsiod_streq_ci ''GET'' ''GET''" by code_simp
  with r show ?thesis using assms(1-3) by (simp add: request_cache_validator_matches_def)
qed

end
