(* ===== verification/Encoders.thy ===== *)
theory Encoders
  imports Send
begin

text \<open>
  The compressors that are loaded at run time (\<open>rpsiod_gzip_compress\<close> and
  \<open>rpsiod_brotli_compress\<close> of \<open>src/compress.c\<close>) over the two libraries, and what a client gets
  when it decodes the body it was sent.
\<close>

section \<open>The libraries\<close>

text \<open>
  What \<open>dlopen\<close>, \<open>dlsym\<close> and the functions found answer.  \<open>z_deflate d a\<close> is \<open>deflate\<close> with
  \<open>Z_FINISH\<close> on the input \<open>d\<close> and room for \<open>a\<close> bytes: its code and the bytes written.
\<close>

record zlib =
  z_open :: bool
  z_symbols :: bool
  z_init :: bool
  z_deflate :: "byte list \<Rightarrow> nat \<Rightarrow> int \<times> byte list"

record brotli =
  br_open :: bool
  br_symbols :: bool
  br_max_size :: "nat \<Rightarrow> nat"
  br_compress :: "byte list \<Rightarrow> nat \<Rightarrow> byte list option"

definition UINT_MAX :: nat where "UINT_MAX = 4294967295"

definition Z_STREAM_END :: int where "Z_STREAM_END = 1"

text \<open>The size of the output buffer, in a \<open>size_t\<close>.\<close>

definition gzip_capacity :: "u64 \<Rightarrow> u64" where
  "gzip_capacity in_len = (let cap = in_len + in_len div 8 + 1024 in if cap < 4096 then 4096 else cap)"

definition rpsiod_gzip_compress :: "zlib \<Rightarrow> bool \<Rightarrow> byte list \<Rightarrow> byte list option" where
  "rpsiod_gzip_compress z malloc_ok data =
     (if \<not> z_open z then None
      else if \<not> z_symbols z then None
      else
        let cap = unat (gzip_capacity (word_of_nat (length data))) in
        if \<not> malloc_ok then None
        else if \<not> z_init z then None
        else
          case z_deflate z (take (min (length data) UINT_MAX) data) (min cap UINT_MAX) of
            (rc, out) \<Rightarrow> if rc \<noteq> Z_STREAM_END then None else Some out)"

definition rpsiod_brotli_compress :: "brotli \<Rightarrow> bool \<Rightarrow> byte list \<Rightarrow> byte list option" where
  "rpsiod_brotli_compress b malloc_ok data =
     (if \<not> br_open b then None
      else if \<not> br_symbols b then None
      else
        let m = br_max_size b (length data);
            cap = (if m = 0 then length data + 1024 else m) in
        if \<not> malloc_ok then None else br_compress b data cap)"

section \<open>What a client decodes\<close>

text \<open>
  What the libraries document: a stream that was finished within its room decodes to its input,
  and a decoder reads stored blocks.
\<close>

definition zlib_lossless :: "zlib \<Rightarrow> (byte list \<Rightarrow> byte list option) \<Rightarrow> bool" where
  "zlib_lossless z gunzip \<longleftrightarrow>
     (\<forall>d a out. z_deflate z d a = (Z_STREAM_END, out) \<longrightarrow> gunzip out = Some d \<and> length out \<le> a) \<and>
     (\<forall>s d. gunzip_stored s = Some d \<longrightarrow> gunzip s = Some d)"

definition brotli_lossless :: "brotli \<Rightarrow> (byte list \<Rightarrow> byte list option) \<Rightarrow> bool" where
  "brotli_lossless b unbrotli \<longleftrightarrow>
     (\<forall>d a out. br_compress b d a = Some out \<longrightarrow> unbrotli out = Some d \<and> length out \<le> a)"

lemma bytes_of_string_of_bytes [simp]: "bytes_of (string_of_bytes bs) = bs"
proof -
  have "(word_of_nat (uchar (char_of (unat b))) :: byte) = b" for b :: byte
    using unsigned_less [of b, where ?'a = nat] by simp
  then show ?thesis by (simp add: bytes_of_def string_of_bytes_def o_def)
qed

lemma length_bytes_of [simp]: "length (bytes_of s) = length s"
  by (simp add: bytes_of_def)

lemma gzip_capacity_exact:
  "n \<le> 16777216 \<Longrightarrow> unat (gzip_capacity (word_of_nat n)) = max 4096 (n + n div 8 + 1024)"
proof -
  assume n: "n \<le> 16777216"
  let ?w = "word_of_nat n :: u64"
  have u: "unat ?w = n" using n by (simp add: unat_of_nat)
  have d: "unat (?w div 8) = n div 8" using u by (simp add: unat_div)
  have s: "unat (?w + ?w div 8) = n + n div 8" using n u d by (subst unat_add_lem [THEN iffD1]) simp_all
  have "unat (?w + ?w div 8 + 1024) = n + n div 8 + 1024" using n s by (subst unat_add_lem [THEN iffD1]) simp_all
  then show ?thesis by (simp add: gzip_capacity_def Let_def word_less_nat_alt max_def)
qed

text \<open>A result is lossless, and was written within the buffer, up to the size the server compresses.\<close>

lemma gzip_compress_lossless:
  assumes "zlib_lossless z gunzip" and "rpsiod_gzip_compress z ok data = Some out" and "length data \<le> 16777216"
  shows "gunzip out = Some data \<and> length out \<le> max 4096 (length data + length data div 8 + 1024)"
proof -
  have m: "min (length data) UINT_MAX = length data" using assms(3) by (simp add: UINT_MAX_def)
  have "z_deflate z data (min (unat (gzip_capacity (word_of_nat (length data)))) UINT_MAX) = (Z_STREAM_END, out)"
    using assms(2) m by (auto simp: rpsiod_gzip_compress_def Let_def split: if_splits prod.splits)
  with assms(1) have "gunzip out = Some data \<and>
      length out \<le> min (unat (gzip_capacity (word_of_nat (length data)))) UINT_MAX"
    unfolding zlib_lossless_def by blast
  with gzip_capacity_exact [OF assms(3)] show ?thesis by simp
qed

lemma brotli_compress_lossless:
  "brotli_lossless b unbrotli \<Longrightarrow> rpsiod_brotli_compress b ok data = Some out \<Longrightarrow> unbrotli out = Some data"
  by (auto simp: rpsiod_brotli_compress_def brotli_lossless_def Let_def split: if_splits)

text \<open>
  C23: compression is lossless on every path: whichever of the three ways (brotli, zlib, or the
  stored blocks written when zlib is missing or fails) makes the body of a compressed response,
  a decoder for the encoding it is labelled with recovers exactly the bytes of the file, for files
  up to the size the server compresses; and the label is one that was asked for.
\<close>

theorem compressed_body_decodes:
  assumes "zlib_lossless z gunzip" and "brotli_lossless b unbrotli"
    and "e_gzip env = (\<lambda>s. map_option string_of_bytes (rpsiod_gzip_compress z malloc_ok (bytes_of s)))"
    and "e_brotli env = (\<lambda>s. map_option string_of_bytes (rpsiod_brotli_compress b malloc_ok (bytes_of s)))"
    and "length plain \<le> 16777216" and "compress_body env br gz plain = Some (encoding, body)"
  shows "encoding = ''br'' \<and> br \<and> unbrotli (bytes_of body) = Some (bytes_of plain) \<or>
    encoding = ''gzip'' \<and> gz \<and> gunzip (bytes_of body) = Some (bytes_of plain)"
proof -
  have stored: "gunzip (rpsiod_gzip_store (bytes_of plain)) = Some (bytes_of plain)"
    using assms(1) gzip_store_roundtrip [of "bytes_of plain"] by (simp add: zlib_lossless_def)
  show ?thesis
    using assms(3-6) stored gzip_compress_lossless [OF assms(1), of malloc_ok "bytes_of plain"]
      brotli_compress_lossless [OF assms(2), of malloc_ok "bytes_of plain"]
    by (auto simp: compress_body_def split: if_splits option.splits)
qed

definition demo_zlib :: zlib where
  "demo_zlib = \<lparr>z_open = True, z_symbols = True, z_init = True,
     z_deflate = (\<lambda>d a. if length (rpsiod_gzip_store d) \<le> a then (1, rpsiod_gzip_store d) else (0, []))\<rparr>"

definition demo_brotli :: brotli where
  "demo_brotli = \<lparr>br_open = False, br_symbols = True, br_max_size = (\<lambda>n. n), br_compress = (\<lambda>d a. None)\<rparr>"

theorem compressed_body_decodes_witness:
  "\<exists>body. compress_body (demo_env\<lparr>
       e_gzip := (\<lambda>s. map_option string_of_bytes (rpsiod_gzip_compress demo_zlib True (bytes_of s))),
       e_brotli := (\<lambda>s. map_option string_of_bytes (rpsiod_brotli_compress demo_brotli True (bytes_of s)))\<rparr>)
     True True ''hello'' = Some (''gzip'', body) \<and> gunzip_stored (bytes_of body) = Some (bytes_of ''hello'')"
proof -
  let ?env = "demo_env\<lparr>
       e_gzip := (\<lambda>s. map_option string_of_bytes (rpsiod_gzip_compress demo_zlib True (bytes_of s))),
       e_brotli := (\<lambda>s. map_option string_of_bytes (rpsiod_brotli_compress demo_brotli True (bytes_of s)))\<rparr>"
  have z: "zlib_lossless demo_zlib gunzip_stored"
    by (auto simp: zlib_lossless_def demo_zlib_def gzip_store_roundtrip Z_STREAM_END_def split: if_splits)
  have b: "brotli_lossless demo_brotli Some" by (simp add: brotli_lossless_def demo_brotli_def)
  obtain body where body: "compress_body ?env True True ''hello'' = Some (''gzip'', body)"
    by (simp add: compress_body_def rpsiod_brotli_compress_def demo_brotli_def)
  have "gunzip_stored (bytes_of body) = Some (bytes_of ''hello'')"
    using compressed_body_decodes [OF z b _ _ _ body, of True] by simp
  with body show ?thesis by blast
qed

end
