(* ===== verification/BenchMain.thy ===== *)
theory BenchMain
  imports BenchPage BenchLoad
begin

text \<open>
  The benchmark command of \<open>src/bench.c\<close>: the choice of a benchmark, the arguments and the course
  of the page benchmark around its worker threads, the external tools for \<open>https\<close>, and the list
  of the slowest assets.  Printing is left out.
\<close>

section \<open>Arguments of the page benchmark\<close>

record page_args =
  pg_url :: "string option"
  pg_host :: "string option"
  pg_protocol :: string
  pg_concurrency :: int

definition known_protocol :: "string \<Rightarrow> bool" where
  "known_protocol p \<longleftrightarrow> rpsiod_streq_ci p ''auto'' \<or> rpsiod_streq_ci p ''http1'' \<or> rpsiod_streq_ci p ''h2''"

definition clamp_concurrency :: "int \<Rightarrow> int" where
  "clamp_concurrency n = (let n = (if n \<le> 0 then 1 else n) in if n > 32 then 32 else n)"

definition set_page :: "string \<Rightarrow> string \<Rightarrow> page_args \<Rightarrow> page_args option" where
  "set_page opt v a =
     (if opt = ''--url'' then Some (a\<lparr>pg_url := Some v\<rparr>)
      else if opt = ''--host'' then Some (a\<lparr>pg_host := Some v\<rparr>)
      else if opt = ''--protocol'' then (if known_protocol v then Some (a\<lparr>pg_protocol := v\<rparr>) else None)
      else if opt = ''--concurrency'' then Some (a\<lparr>pg_concurrency := clamp_concurrency (atoi v)\<rparr>)
      else None)"

definition parse_page_args :: "string list \<Rightarrow> page_args option" where
  "parse_page_args argv =
     (case parse_options set_page argv
             \<lparr>pg_url = None, pg_host = None, pg_protocol = ''auto'', pg_concurrency = 6\<rparr> of
        None \<Rightarrow> None
      | Some a \<Rightarrow> if pg_url a = None then None else Some a)"

definition page_args_ok :: "page_args \<Rightarrow> bool" where
  "page_args_ok a \<longleftrightarrow> 1 \<le> pg_concurrency a \<and> pg_concurrency a \<le> 32 \<and> known_protocol (pg_protocol a)"

lemma parse_options_keeps:
  "parse_options f argv a = Some r \<Longrightarrow> P a \<Longrightarrow> (\<And>opt v a a'. f opt v a = Some a' \<Longrightarrow> P a \<Longrightarrow> P a') \<Longrightarrow> P r"
  by (induction f argv a rule: parse_options.induct) (auto split: option.splits)

text \<open>The arrays of threads hold 32 entries; so does every accepted number of workers.\<close>

theorem parse_page_args_ok: "parse_page_args argv = Some a \<Longrightarrow> page_args_ok a \<and> pg_url a \<noteq> None"
proof -
  assume "parse_page_args argv = Some a"
  then have p: "parse_options set_page argv
      \<lparr>pg_url = None, pg_host = None, pg_protocol = ''auto'', pg_concurrency = 6\<rparr> = Some a" "pg_url a \<noteq> None"
    by (auto simp: parse_page_args_def split: option.splits if_splits)
  have "known_protocol ''auto''" by code_simp
  then have start: "page_args_ok \<lparr>pg_url = None, pg_host = None, pg_protocol = ''auto'', pg_concurrency = 6\<rparr>"
    by (simp add: page_args_ok_def)
  have "page_args_ok a'" if "set_page opt v a = Some a'" "page_args_ok a" for opt v a a'
    using that by (auto simp: set_page_def page_args_ok_def clamp_concurrency_def Let_def split: if_splits)
  with parse_options_keeps [OF p(1), where P = page_args_ok] start p(2) show ?thesis by blast
qed

section \<open>External tools\<close>

datatype wait_answer = Wait_interrupted | Wait_failed | Exited int | Signalled int | Wait_other

fun wait_child :: "wait_answer list \<Rightarrow> int option" where
  "wait_child [] = None"
| "wait_child (Wait_interrupted # ws) = wait_child ws"
| "wait_child (Wait_failed # ws) = Some (- 1)"
| "wait_child (Exited n # ws) = Some n"
| "wait_child (Signalled n # ws) = Some (128 + n)"
| "wait_child (Wait_other # ws) = Some 1"

text \<open>\<open>None\<close>: the child never ends.\<close>

definition run_child_tool :: "bool \<Rightarrow> (string list \<Rightarrow> wait_answer list) \<Rightarrow> string list \<Rightarrow> int option" where
  "run_child_tool fork_ok child argv = (if \<not> fork_ok then Some (- 1) else wait_child (child argv))"

text \<open>The command line for the tool; the format text of \<open>curl\<close> is a parameter.\<close>

definition external_command :: "string \<Rightarrow> page_args \<Rightarrow> string \<Rightarrow> string list option" where
  "external_command curl_format a url =
     (let protocol = (if rpsiod_streq_ci (pg_protocol a) ''auto'' then ''h2'' else pg_protocol a) in
      if rpsiod_streq_ci protocol ''h2'' then Some [''nghttp'', ''-y'', ''-n'', ''-a'', ''-s'', url]
      else if rpsiod_streq_ci protocol ''http1'' then
        Some [''curl'', ''-k'', ''--http1.1'', ''-w'', curl_format, ''-o'', ''/dev/null'', url]
      else None)"

definition run_external_https_page_benchmark ::
  "string \<Rightarrow> bool \<Rightarrow> (string list \<Rightarrow> wait_answer list) \<Rightarrow> page_args \<Rightarrow> string \<Rightarrow> int option" where
  "run_external_https_page_benchmark curl_format fork_ok child a url =
     (case external_command curl_format a url of None \<Rightarrow> Some 2 | Some argv \<Rightarrow> run_child_tool fork_ok child argv)"

text \<open>No argument that was accepted ends in the message about an unsupported protocol.\<close>

lemma external_command_known: "page_args_ok a \<Longrightarrow> external_command f a url \<noteq> None"
proof -
  have "rpsiod_streq_ci ''h2'' ''h2''" by code_simp
  then show "page_args_ok a \<Longrightarrow> ?thesis" by (auto simp: external_command_def page_args_ok_def known_protocol_def Let_def)
qed

section \<open>The course of the page benchmark\<close>

text \<open>
  \<open>fetch\<close> is the exchange for the page itself: the code of \<open>fetch_asset_on_fd\<close>, the asset, the
  text of the page.  \<open>threads\<close> is what the worker threads make of the context.
\<close>

record page_env =
  pe_connect :: "page_target \<Rightarrow> bool"
  pe_fetch :: "page_target \<Rightarrow> int \<times> page_asset \<times> string option"
  pe_threads :: "page_context \<Rightarrow> page_context"
  pe_external :: "page_args \<Rightarrow> string \<Rightarrow> int option"

text \<open>Behind the threads the connection of the page is closed, unless it was before.\<close>

definition run_page_benchmark :: "page_env \<Rightarrow> string list \<Rightarrow> int option \<times> page_context option" where
  "run_page_benchmark pe argv =
     (case parse_page_args argv of
        None \<Rightarrow> (Some 2, None)
      | Some a \<Rightarrow>
          (let url = the (pg_url a) in
           if rpsiod_starts_with url ''https://'' then (pe_external pe a url, None)
           else if \<not> rpsiod_streq_ci (pg_protocol a) ''auto'' \<and> \<not> rpsiod_streq_ci (pg_protocol a) ''http1''
           then (Some 2, None)
           else case parse_http_url url (pg_host a) of
             None \<Rightarrow> (Some 2, None)
           | Some target \<Rightarrow>
               if \<not> pe_connect pe target then (Some 1, None)
               else (case pe_fetch pe target of
                       (rc, html_asset, html) \<Rightarrow>
                         if pa_failed html_asset \<or> html = None then (Some 1, None)
                         else
                           let assets = parse_html_assets target [html_asset] (the html);
                               ctx = pe_threads pe (start_workers assets (if rc \<noteq> 0 then 1 else 0) (nat (pg_concurrency a)));
                               ctx1 = ctx\<lparr>pc_closed := pc_closed ctx + (if rc \<noteq> 0 then 0 else 1)\<rparr> in
                           (Some (if page_failures ctx1 = 0 then 0 else 1), Some ctx1))))"

subsection \<open>The slowest assets\<close>

text \<open>One pass over the assets, and up to ten passes; only the order of the times matters.\<close>

fun pick_loop :: "('a::linorder) list \<Rightarrow> nat list \<Rightarrow> nat list \<Rightarrow> nat option \<Rightarrow> nat option" where
  "pick_loop ms printed [] best = best"
| "pick_loop ms printed (i # ks) best =
     pick_loop ms printed ks
       (if i \<notin> set printed \<and> (case best of None \<Rightarrow> True | Some b \<Rightarrow> ms ! i > ms ! b) then Some i else best)"

fun rank_loop :: "nat \<Rightarrow> ('a::linorder) list \<Rightarrow> nat list \<Rightarrow> nat list" where
  "rank_loop 0 ms printed = []"
| "rank_loop (Suc n) ms printed =
     (case pick_loop ms printed [0..<length ms] None of
        None \<Rightarrow> []
      | Some b \<Rightarrow> b # rank_loop n ms (b # printed))"

definition slowest_assets :: "('a::linorder) list \<Rightarrow> nat list" where
  "slowest_assets ms = rank_loop (min 10 (length ms)) ms []"

lemma pick_loop_spec:
  assumes "\<And>b. best = Some b \<Longrightarrow> b \<notin> set printed"
  shows "case pick_loop ms printed ks best of
      None \<Rightarrow> best = None \<and> set ks \<subseteq> set printed
    | Some b \<Rightarrow> b \<notin> set printed \<and> (b \<in> set ks \<or> best = Some b) \<and>
        (\<forall>i \<in> set ks. i \<notin> set printed \<longrightarrow> ms ! i \<le> ms ! b) \<and> (\<forall>b0. best = Some b0 \<longrightarrow> ms ! b0 \<le> ms ! b)"
  using assms
proof (induction ms printed ks best rule: pick_loop.induct)
  case (1 ms printed best)
  then show ?case by (cases best) auto
next
  case (2 ms printed i ks best)
  let ?new = "if i \<notin> set printed \<and> (case best of None \<Rightarrow> True | Some b \<Rightarrow> ms ! i > ms ! b) then Some i else best"
  have "\<And>b. ?new = Some b \<Longrightarrow> b \<notin> set printed" using "2.prems" by (auto split: if_splits)
  from "2.IH" [OF this] "2.prems" show ?case
    by (cases "pick_loop ms printed ks ?new"; cases best) (fastforce split: if_splits)+
qed

lemma rank_loop_spec:
  assumes "distinct printed" and "set printed \<subseteq> {..<length ms}" and "length printed + n \<le> length ms"
  shows "length (rank_loop n ms printed) = n \<and> distinct (printed @ rank_loop n ms printed) \<and>
    set (rank_loop n ms printed) \<subseteq> {..<length ms} \<and>
    sorted_wrt (\<lambda>a b. ms ! b \<le> ms ! a) (rank_loop n ms printed) \<and>
    (\<forall>j \<in> set (rank_loop n ms printed). \<forall>i < length ms.
       i \<notin> set printed \<longrightarrow> i \<notin> set (rank_loop n ms printed) \<longrightarrow> ms ! i \<le> ms ! j)"
  using assms
proof (induction n arbitrary: printed)
  case (Suc n)
  have "\<not> {..<length ms} \<subseteq> set printed"
  proof
    assume "{..<length ms} \<subseteq> set printed"
    then have "length ms \<le> card (set printed)" using card_mono [of "set printed" "{..<length ms}"] by simp
    with Suc.prems show False by (simp add: distinct_card)
  qed
  then obtain b where b: "pick_loop ms printed [0..<length ms] None = Some b"
    and s: "b \<notin> set printed" "b < length ms" "\<forall>i < length ms. i \<notin> set printed \<longrightarrow> ms ! i \<le> ms ! b"
    using pick_loop_spec [where best = None and printed = printed and ms = ms and ks = "[0..<length ms]"]
    by (cases "pick_loop ms printed [0..<length ms] None") (auto simp: lessThan_atLeast0)
  let ?r = "rank_loop n ms (b # printed)"
  from Suc.IH [of "b # printed"] Suc.prems s
  have r: "length ?r = n" "distinct ((b # printed) @ ?r)" "set ?r \<subseteq> {..<length ms}"
    "sorted_wrt (\<lambda>a b. ms ! b \<le> ms ! a) ?r"
    "\<forall>j \<in> set ?r. \<forall>i < length ms. i \<notin> set (b # printed) \<longrightarrow> i \<notin> set ?r \<longrightarrow> ms ! i \<le> ms ! j"
    by simp_all
  have "\<forall>j \<in> set ?r. ms ! j \<le> ms ! b" using r(2,3) s(3) by auto
  with b r s show ?case by auto
qed simp

text \<open>
  The list of the slowest assets is right: ten different assets, or all when there are fewer,
  slowest first, and no asset outside the list is slower than one of it.
\<close>

theorem slowest_assets_ranked:
  "length (slowest_assets ms) = min 10 (length ms) \<and> distinct (slowest_assets ms) \<and>
   set (slowest_assets ms) \<subseteq> {..<length ms} \<and>
   sorted_wrt (\<lambda>a b. ms ! b \<le> ms ! a) (slowest_assets ms) \<and>
   (\<forall>j \<in> set (slowest_assets ms). \<forall>i < length ms. i \<notin> set (slowest_assets ms) \<longrightarrow> ms ! i \<le> ms ! j)"
  using rank_loop_spec [of "[]" ms "min 10 (length ms)"] by (simp add: slowest_assets_def)

section \<open>The command\<close>

definition report_path :: "config \<Rightarrow> string \<Rightarrow> int \<Rightarrow> string" where
  "report_path cfg kind now =
     safe_copy 1024 (cfg_benchmarks_storage_path cfg @ ''/'' @ kind @ ''-'' @ dec_int now @ ''.txt'')"

definition run_compare :: "string list \<Rightarrow> int" where
  "run_compare argv = (case parse_compare_args argv of None \<Rightarrow> 2 | Some _ \<Rightarrow> 0)"

definition rpsiod_bench_main ::
  "(string \<times> string option \<Rightarrow> config_error + config \<times> route_table) \<Rightarrow> exchange list \<Rightarrow> page_env \<Rightarrow> string list \<Rightarrow> int option" where
  "rpsiod_bench_main load exs pe argv =
     (case argv of
        [] \<Rightarrow> Some 2
      | kind # rest \<Rightarrow>
          if kind = ''compare'' then Some (run_compare rest)
          else if kind = ''page'' then fst (run_page_benchmark pe rest)
          else case parse_bench_args rest of
            None \<Rightarrow> Some 2
          | Some a \<Rightarrow>
              if kind = ''all'' then Some (run_one_benchmark load exs a)
              else if kind = ''static'' \<or> kind = ''proxy'' \<or> kind = ''php'' \<or> kind = ''tls''
              then Some (run_one_benchmark load exs a)
              else Some 2)"

text \<open>
  The kinds of benchmark are names of one and the same: \<open>tls\<close> sends its requests in plain text
  to the plain port, and \<open>all\<close> runs one.
\<close>

theorem bench_kind_ignored:
  assumes "kind \<in> {''all'', ''proxy'', ''php'', ''tls''}"
  shows "rpsiod_bench_main load exs pe (kind # rest) = rpsiod_bench_main load exs pe (''static'' # rest)"
  using assms by (auto simp: rpsiod_bench_main_def split: option.splits)

end
