(* ===== verification/Tunnel.thy ===== *)
theory Tunnel
  imports Proxy
begin

text \<open>
  What \<open>websocket_tunnel\<close> of \<open>src/server.c\<close> makes of two connections: each side receives the bytes
  the other side sent, in both directions at once and for every order in which \<open>select\<close> reports
  the two.
\<close>

text \<open>
  \<open>relayed a b a' b' lost\<close>: between the two states of the connections the bytes read from \<open>a\<close>
  were sent to \<open>b\<close>, in order, except for \<open>lost\<close> behind them.
\<close>

definition relayed :: "io \<Rightarrow> io \<Rightarrow> io \<Rightarrow> io \<Rightarrow> string \<Rightarrow> bool" where
  "relayed a b a' b' lost \<longleftrightarrow>
     (\<exists>passed. io_in a = passed @ lost @ io_in a' \<and> io_sent b' = io_sent b @ passed)"

definition both_relayed :: "io \<Rightarrow> io \<Rightarrow> io \<Rightarrow> io \<Rightarrow> string \<Rightarrow> string \<Rightarrow> bool" where
  "both_relayed a b a' b' lost lost' \<longleftrightarrow> relayed a b a' b' lost \<and> relayed b a b' a' lost'"

lemma both_relayed_refl: "both_relayed a b a b [] []"
  by (simp add: both_relayed_def relayed_def)

lemma both_relayed_sym: "both_relayed a b a' b' l l' \<Longrightarrow> both_relayed b a b' a' l' l"
  by (simp add: both_relayed_def)

lemma both_relayed_trans:
  assumes "both_relayed a b a1 b1 [] []" and "both_relayed a1 b1 a2 b2 l l'"
  shows "both_relayed a b a2 b2 l l'"
  using assms by (fastforce simp: both_relayed_def relayed_def)

lemma client_read_relays:
  "client_read n a = (r, a') \<Longrightarrow> io_in a = (case r of None \<Rightarrow> [] | Some s \<Rightarrow> s) @ io_in a' \<and> io_sent a' = io_sent a \<and>
     r \<noteq> Some []"
  by (auto simp: client_read_def split: prod.splits sys_result.splits if_splits dest!: sys_read_facts)

text \<open>
  One direction of a turn, and what it can have done: passed a non-empty chunk on, met the end
  of the reading side, or lost the end of one chunk in a failed write.
\<close>

definition relay_half :: "(string \<Rightarrow> io \<Rightarrow> bool \<times> io) \<Rightarrow> bool \<Rightarrow> io \<Rightarrow> io \<Rightarrow> int option \<times> io \<times> io" where
  "relay_half wr ready a b =
     (if ready then
        (case client_read TUNNEL_BUF a of
           (None, a') \<Rightarrow> (Some 0, a', b)
         | (Some s, a') \<Rightarrow> (case wr s b of (ok, b') \<Rightarrow> (if ok then None else Some (-1), a', b')))
      else (None, a, b))"

definition write_lost :: "(string \<Rightarrow> io \<Rightarrow> bool \<times> io) \<Rightarrow> string \<Rightarrow> io \<Rightarrow> bool" where
  "write_lost wr lost b' \<longleftrightarrow> (\<exists>s b. wr s b = (False, b') \<and> (\<exists>p. s = p @ lost \<and> io_sent b' = io_sent b @ p))"

lemma relay_half_spec:
  assumes "\<And>s b. delivers s b (wr s b)" and "relay_half wr ready a b = (code, a', b')"
  shows "(code = None \<and> both_relayed a b a' b' [] [] \<and> length (io_in a') + of_bool ready \<le> length (io_in a)) \<or>
    (code = Some 0 \<and> both_relayed a b a' b' [] [] \<and> client_read TUNNEL_BUF a = (None, a')) \<or>
    (code = Some (-1) \<and> (\<exists>lost. both_relayed a b a' b' lost [] \<and> write_lost wr lost b'))"
proof (cases ready)
  case False
  with assms(2) both_relayed_refl show ?thesis by (auto simp: relay_half_def)
next
  case True
  obtain r a1 where r: "client_read TUNNEL_BUF a = (r, a1)" by (rule prod.exhaust)
  note read = client_read_relays [OF r]
  show ?thesis
  proof (cases r)
    case None
    with True r assms(2) read show ?thesis by (auto simp: relay_half_def both_relayed_def relayed_def)
  next
    case (Some s)
    obtain ok b1 where wr: "wr s b = (ok, b1)" by (rule prod.exhaust)
    obtain p q where pq: "s = p @ q" "io_sent b1 = io_sent b @ p" "ok \<longrightarrow> q = []" "io_in b1 = io_in b"
      using assms(1) [of s b] wr by (auto simp: delivers_def)
    have ends: "code = (if ok then None else Some (-1))" "a' = a1" "b' = b1"
      using True r Some wr assms(2) by (simp_all add: relay_half_def)
    have rel: "both_relayed a b a' b' q []"
      using read Some pq ends by (auto simp: both_relayed_def relayed_def)
    show ?thesis
    proof (cases ok)
      case True
      have "length (io_in a) = length s + length (io_in a')" "s \<noteq> []" using read Some ends by auto
      then have "length (io_in a') + 1 \<le> length (io_in a)" by (cases s) auto
      with rel True pq(3) ends show ?thesis by simp
    next
      case False
      have "wr s b = (False, b') \<and> s = p @ q \<and> io_sent b' = io_sent b @ p" using wr pq ends False by simp
      then have "write_lost wr q b'" unfolding write_lost_def by blast
      with rel False ends show ?thesis by auto
    qed
  qed
qed

lemma tunnel_turn:
  "websocket_tunnel tls ((c, u) # ready) w up =
     (case relay_half rpsiod_write_all c w up of (end1, w1, up1) \<Rightarrow>
        if end1 \<noteq> None then (end1, w1, up1)
        else case relay_half (client_write_all tls) u up1 w1 of (end2, up2, w2) \<Rightarrow>
          if end2 \<noteq> None then (end2, w2, up2) else websocket_tunnel tls ready w2 up2)"
  by (cases "client_read TUNNEL_BUF w") (auto simp: relay_half_def split: prod.splits option.splits)

text \<open>The contract of a whole tunnel.\<close>

definition tunnel_result :: "bool \<Rightarrow> (bool \<times> bool) list \<Rightarrow> io \<Rightarrow> io \<Rightarrow> int option \<times> io \<times> io \<Rightarrow> bool" where
  "tunnel_result tls ready w up r \<longleftrightarrow> (case r of (code, w', up') \<Rightarrow>
     (code = None \<and> both_relayed w up w' up' [] [] \<and>
        length (io_in w') + length (filter fst ready) \<le> length (io_in w) \<and>
        length (io_in up') + length (filter snd ready) \<le> length (io_in up)) \<or>
     (code = Some 0 \<and> both_relayed w up w' up' [] [] \<and>
        (\<exists>a. client_read TUNNEL_BUF a = (None, w') \<or> client_read TUNNEL_BUF a = (None, up'))) \<or>
     (code = Some (-1) \<and>
        ((\<exists>lost. both_relayed w up w' up' lost [] \<and> write_lost rpsiod_write_all lost up') \<or>
         (\<exists>lost. both_relayed w up w' up' [] lost \<and> write_lost (client_write_all tls) lost w'))))"

lemma both_relayed_in:
  "both_relayed a b a' b' l l' \<Longrightarrow> length (io_in a') \<le> length (io_in a) \<and> length (io_in b') \<le> length (io_in b)"
  by (auto simp: both_relayed_def relayed_def)

lemma tunnel_result_turn:
  assumes "both_relayed w up w2 up2 [] []" and "length (io_in w2) + of_bool c \<le> length (io_in w)"
    and "length (io_in up2) + of_bool u \<le> length (io_in up)" and "tunnel_result tls ready w2 up2 r"
  shows "tunnel_result tls ((c, u) # ready) w up r"
proof -
  obtain code w' up' where r: "r = (code, w', up')" by (rule prod_cases3)
  note trans = both_relayed_trans [OF assms(1)]
  from assms(4) [unfolded tunnel_result_def r prod.case]
  show ?thesis unfolding tunnel_result_def r prod.case
  proof (elim disjE conjE exE)
    assume "code = None" and "both_relayed w2 up2 w' up' [] []"
      and n: "length (io_in w') + length (filter fst ready) \<le> length (io_in w2)"
        "length (io_in up') + length (filter snd ready) \<le> length (io_in up2)"
    moreover have "length (io_in w') + length (filter fst ((c, u) # ready)) \<le> length (io_in w)"
      "length (io_in up') + length (filter snd ((c, u) # ready)) \<le> length (io_in up)"
      using n assms(2,3) by (cases c; cases u; simp)+
    ultimately show "(code = None \<and> both_relayed w up w' up' [] [] \<and>
        length (io_in w') + length (filter fst ((c, u) # ready)) \<le> length (io_in w) \<and>
        length (io_in up') + length (filter snd ((c, u) # ready)) \<le> length (io_in up)) \<or>
     (code = Some 0 \<and> both_relayed w up w' up' [] [] \<and>
        (\<exists>a. client_read TUNNEL_BUF a = (None, w') \<or> client_read TUNNEL_BUF a = (None, up'))) \<or>
     (code = Some (-1) \<and>
        ((\<exists>lost. both_relayed w up w' up' lost [] \<and> write_lost rpsiod_write_all lost up') \<or>
         (\<exists>lost. both_relayed w up w' up' [] lost \<and> write_lost (client_write_all tls) lost w')))"
      using trans by blast
  qed (use trans in blast)+
qed

lemma tunnel_relays: "tunnel_result tls ready w up (websocket_tunnel tls ready w up)"
proof (induction ready arbitrary: w up)
  case Nil
  show ?case using both_relayed_refl by (simp add: tunnel_result_def)
next
  case (Cons cu ready)
  obtain c u where cu: "cu = (c, u)" by (rule prod.exhaust)
  obtain end1 w1 up1 where 1: "relay_half rpsiod_write_all c w up = (end1, w1, up1)" by (rule prod_cases3)
  obtain end2 up2 w2 where 2: "relay_half (client_write_all tls) u up1 w1 = (end2, up2, w2)" by (rule prod_cases3)
  note half1 = relay_half_spec [OF write_all.write_delivers 1]
  note half2 = relay_half_spec [OF client_write.write_delivers 2]
  note run = tunnel_turn [of tls c u ready w up, unfolded 1 prod.case 2]
  show ?case
  proof (cases end1)
    case (Some code)
    with run half1 show ?thesis unfolding cu by (auto simp: tunnel_result_def)
  next
    case None
    with half1 have a: "both_relayed w up w1 up1 [] []" and na: "length (io_in w1) + of_bool c \<le> length (io_in w)"
      by auto
    note on = both_relayed_trans [OF a]
    show ?thesis
    proof (cases end2)
      case (Some code)
      have run: "websocket_tunnel tls (cu # ready) w up = (Some code, w2, up2)"
        using run None Some unfolding cu by simp
      from half2 Some
      consider "code = 0" "both_relayed w1 up1 w2 up2 [] []" "client_read TUNNEL_BUF up1 = (None, up2)"
        | lost where "code = -1" "both_relayed w1 up1 w2 up2 [] lost" "write_lost (client_write_all tls) lost w2"
        using both_relayed_sym by blast
      then show ?thesis unfolding run tunnel_result_def using on by cases auto
    next
      case end2: None
      with half2 have b: "both_relayed w1 up1 w2 up2 [] []" and nb: "length (io_in up2) + of_bool u \<le> length (io_in up1)"
        using both_relayed_sym by blast+
      from run None end2 have "websocket_tunnel tls (cu # ready) w up = websocket_tunnel tls ready w2 up2"
        unfolding cu by simp
      moreover have "length (io_in w2) + of_bool c \<le> length (io_in w)" "length (io_in up2) + of_bool u \<le> length (io_in up)"
        using na nb both_relayed_in [OF a] both_relayed_in [OF b] by linarith+
      ultimately show ?thesis unfolding cu using tunnel_result_turn [OF on [OF b] _ _ Cons.IH [of w2 up2]] by simp
    qed
  qed
qed




text \<open>
  A read that would block, as \<open>SSL_read\<close> does while only a part of a TLS record has arrived,
  ends the tunnel although both sides are still open.
\<close>

theorem tunnel_ends_on_partial_record:
  assumes "io_events w = Again r # es"
  shows "websocket_tunnel tls ((True, u) # ready) w up = (Some 0, w\<lparr>io_events := es\<rparr>, up)"
  using assms by (simp add: client_read_def sys_read_def sys_count_def)

end
