(* ===== verification/Clock.thy ===== *)
theory Clock
  imports Clients
begin

text \<open>
  Clock values are ordered as the code compares them, seconds first.  Along that order the idle
  sweep (\<open>sweep_idle_keep_alive_clients\<close> of \<open>src/server.c\<close>) only ever finds more connections.
\<close>

instantiation timespec_ext :: (linorder) linorder
begin

definition less_eq_timespec_ext :: "('a::linorder) timespec_scheme \<Rightarrow> 'a timespec_scheme \<Rightarrow> bool" where
  "less_eq_timespec_ext x y \<longleftrightarrow>
     tv_sec x < tv_sec y \<or> tv_sec x = tv_sec y \<and>
     (tv_nsec x < tv_nsec y \<or> tv_nsec x = tv_nsec y \<and> timespec.more x \<le> timespec.more y)"

definition less_timespec_ext :: "('a::linorder) timespec_scheme \<Rightarrow> 'a timespec_scheme \<Rightarrow> bool" where
  "less_timespec_ext x y \<longleftrightarrow> x \<le> y \<and> \<not> y \<le> x"

instance
proof
  fix x y z :: "'a timespec_scheme"
  show "x < y \<longleftrightarrow> x \<le> y \<and> \<not> y \<le> x" by (rule less_timespec_ext_def)
  show "x \<le> x" by (simp add: less_eq_timespec_ext_def)
  show "x \<le> y \<Longrightarrow> y \<le> z \<Longrightarrow> x \<le> z" by (auto simp: less_eq_timespec_ext_def)
  show "x \<le> y \<Longrightarrow> y \<le> x \<Longrightarrow> x = y" by (auto simp: less_eq_timespec_ext_def intro: timespec.equality)
  show "x \<le> y \<or> y \<le> x" by (auto simp: less_eq_timespec_ext_def)
qed

end

lemma elapsed_mono: "now \<le> now' \<Longrightarrow> timespec_elapsed_sec start now seconds \<Longrightarrow> timespec_elapsed_sec start now' seconds"
  by (auto simp: timespec_elapsed_sec_def less_eq_timespec_ext_def Let_def split: if_splits)

lemma expired_mono: "now \<le> now' \<Longrightarrow> expired_at cfg now h p \<Longrightarrow> expired_at cfg now' h p"
  by (auto simp: expired_at_def idle_expired_def intro: elapsed_mono split: option.splits)

text \<open>
  An earlier sweep makes no difference to a later one: sweeping twice leaves the connections that
  the later sweep alone would leave, in the same order and with the same contents.
\<close>

theorem sweep_absorbs:
  assumes "clients h head ps" and "now \<le> now'"
  shows "\<exists>head1 h1 head2 h2 head' h' rest.
    sweep_loop cfg now head h head = Some (head1, h1) \<and> sweep_loop cfg now' head1 h1 head1 = Some (head2, h2) \<and>
    sweep_loop cfg now' head h head = Some (head', h') \<and>
    clients h2 head2 rest \<and> clients h' head' rest \<and> holds h2 = holds h'"
proof -
  have first: "hd = (case qs of [] \<Rightarrow> None | p # _ \<Rightarrow> Some p)" if "clients g hd qs" for g hd qs
    using that by (cases qs) (auto simp: clients_def)
  have sweep: "\<exists>hd' g'. sweep_loop cfg t hd g hd = Some (hd', g') \<and> clients g' hd' (filter (\<lambda>p. \<not> expired_at cfg t g p) qs) \<and>
      (\<forall>q. holds g' q = (if q \<in> set qs \<and> expired_at cfg t g q then None else holds g q))" if "clients g hd qs" for g hd qs t
    using sweep_loop_list [of g hd "[]" qs hd cfg t] first [OF that] that by simp
  obtain head1 h1 where 1: "sweep_loop cfg now head h head = Some (head1, h1)"
    "clients h1 head1 (filter (\<lambda>p. \<not> expired_at cfg now h p) ps)"
    "\<forall>q. holds h1 q = (if q \<in> set ps \<and> expired_at cfg now h q then None else holds h q)"
    using sweep [OF assms(1)] by blast
  let ?ps = "filter (\<lambda>p. \<not> expired_at cfg now h p) ps"
  obtain head2 h2 where 2: "sweep_loop cfg now' head1 h1 head1 = Some (head2, h2)"
    "clients h2 head2 (filter (\<lambda>p. \<not> expired_at cfg now' h1 p) ?ps)"
    "\<forall>q. holds h2 q = (if q \<in> set ?ps \<and> expired_at cfg now' h1 q then None else holds h1 q)"
    using sweep [OF 1(2)] by blast
  obtain head' h' where 3: "sweep_loop cfg now' head h head = Some (head', h')"
    "clients h' head' (filter (\<lambda>p. \<not> expired_at cfg now' h p) ps)"
    "\<forall>q. holds h' q = (if q \<in> set ps \<and> expired_at cfg now' h q then None else holds h q)"
    using sweep [OF assms(1)] by blast
  have same: "expired_at cfg now' h1 q = expired_at cfg now' h q" if "q \<in> set ?ps" for q
    using that 1(3) by (intro expired_at_holds) auto
  have mono: "expired_at cfg now h q \<Longrightarrow> expired_at cfg now' h q" for q by (rule expired_mono [OF assms(2)])
  have "filter (\<lambda>p. \<not> expired_at cfg now' h1 p) ?ps = filter (\<lambda>p. \<not> expired_at cfg now' h p) ?ps"
    using same by (intro filter_cong) auto
  also have "\<dots> = filter (\<lambda>p. \<not> expired_at cfg now' h p) ps"
    unfolding filter_filter using mono by (intro filter_cong) auto
  finally have l: "filter (\<lambda>p. \<not> expired_at cfg now' h1 p) ?ps = filter (\<lambda>p. \<not> expired_at cfg now' h p) ps" .
  have "holds h2 q = holds h' q" for q using 1(3) 2(3) 3(3) same [of q] mono [of q] by auto
  then have "holds h2 = holds h'" by (rule ext)
  with 1(1) 2(1,2) 3(1,2) l show ?thesis by metis
qed

end
