(* ===== verification/Spec2Isabelle.thy ===== *)
theory Spec2Isabelle
  imports HttpProps PathProps Security RateLimit ConfigLoadProps Php Compress Redirect Io
    HeaderText Response StaticCache Send Fcgi Static Proxy ProxyRequest Dispatch Connection Clients Workers
    Http2Text Http2 Http2Loop Tls BenchPage
    RequestText Loopback Log Process Commands Status BenchLoad WorkerLoop
    Connect HttpDate Encoders BenchMain Tunnel Clock
begin

text \<open>
  rpsiod is a web server for Linux written in C (\<open>src/\<close>): a parent process reads
  \<open>server.yml\<close> and \<open>sites.yml\<close>, forks workers and supervises them; a worker accepts
  connections, parses HTTP/1.1 requests, finds the site, and answers with a static file, by a
  PHP script over FastCGI, from an upstream server, or with a redirect or an error page.  HTTP/2
  is a front end that talks HTTP/1.1 to the server itself over a loopback connection.

  \<^bold>\<open>Theories, bottom up.\<close>

    \<^item> \<open>Prelude\<close>, \<open>CString\<close>: C integers, characters and strings; the library functions the
      program computes with (\<open>strchr\<close>, \<open>memmem\<close>, \<open>strtoull\<close>, \<open>strtol\<close>, \<open>atoi\<close>,
      \<open>snprintf\<close> of numbers).  Collections \<open>ctype_simps\<close>, \<open>cstr_bounds\<close>.
    \<^item> \<open>Util\<close>, \<open>PathProps\<close> (\<open>util.c\<close>): scalars of the configuration, percent decoding, the
      segment check, joining, MIME types.  Decoding, checking and joining stays below the root.
    \<^item> \<open>ListScan\<close>: the interface of the comma-separated list loops as locales
      (\<open>comma_first\<close>, \<open>comma_any\<close>), interpreted in \<open>HttpProps\<close> and \<open>Compress\<close>.
    \<^item> \<open>Http\<close>, \<open>HttpProps\<close> (\<open>http.c\<close>): the request parser, function by function; its
      verdicts are stable, its results bounded, its message framing unambiguous.
    \<^item> \<open>Config\<close>, \<open>ConfigParse\<close>, \<open>ConfigProps\<close>, \<open>ConfigValidate\<close>, \<open>RouteTable\<close>,
      \<open>ConfigLoadProps\<close> (\<open>config.h\<close>, \<open>config.c\<close>): the two files, validation, the open-addressing
      route table as an implementation of a finite map (a locale, interpreted on the code's
      insertion and lookup), and routing.
    \<^item> \<open>Security\<close>, \<open>RateLimit\<close>, \<open>Php\<close>, \<open>Compress\<close>, \<open>Redirect\<close> (\<open>security.c\<close>,
      \<open>rate_limit.c\<close>, \<open>php.c\<close>, \<open>compress.c\<close>, \<open>route.c\<close> and \<open>static.c\<close>).
    \<^item> \<open>Io\<close>: the write, gather, copy and \<open>sendfile\<close> loops of \<open>util.c\<close> and \<open>server.c\<close>.  The
      locale \<open>byte_writer\<close> states what every such loop promises its callers and is interpreted
      on each of them.
    \<^item> \<open>HeaderText\<close>, \<open>Response\<close> (\<open>server.c\<close>): header blocks and the fields a receiver reads of
      them by name, validators, the headers of scripts, chunked bodies.
    \<^item> \<open>StaticCache\<close>, \<open>Send\<close>, \<open>Static\<close> (\<open>server.c\<close>): the two caches of a site,
      \<open>send_file_fd\<close> with its ranges and variants, error pages, \<open>serve_static\<close>.  A successful
      answer is exactly one reply unless a write stalls (\<open>stalls\<close> of \<open>Io\<close>).
    \<^item> \<open>Fcgi\<close> (\<open>server.c\<close>): \<open>send_php_fpm\<close> with the encoding of records and parameters and
      the loop over the records of the answer.
    \<^item> \<open>Proxy\<close>, \<open>ProxyRequest\<close>, \<open>Tunnel\<close> (\<open>proxy.c\<close>, \<open>server.c\<close>): the request for the upstream
      server, of whose fields the upstream server reads the proxy's own ones; the response loop;
      the tunnel, which is transparent in both directions up to a write that fails.
    \<^item> \<open>Dispatch\<close>, \<open>Connection\<close>, \<open>Clients\<close> (\<open>server.c\<close>): \<open>serve_request\<close>;
      \<open>handle_client_event\<close> over the bytes that arrive, whatever the pieces, against the answers
      to the whole input (\<open>drain\<close>); the linked list of connections in a
      heap with accepting, closing and the idle sweep.
    \<^item> \<open>Workers\<close> (\<open>server.c\<close>): listening sockets, and the parent as a step relation.
    \<^item> \<open>Tls\<close> (\<open>tls.c\<close>): protocol selection, the certificate files of the sites as a map,
      their validation and generation, the context of a worker.
    \<^item> \<open>Http2Text\<close>, \<open>Http2\<close>, \<open>Http2Loop\<close> (\<open>http2.c\<close>): what the front end makes of the
      response it reads back; the streams of a connection with their loopback requests, the
      callbacks and an abstract step relation; the loop, which refines it for every behaviour of
      the HTTP/2 library (a function of the connection) within its documented order.
    \<^item> \<open>RequestText\<close>, \<open>Loopback\<close> (\<open>http.c\<close>, \<open>http2.c\<close>): requests the program writes
      itself, printed as lines and read back by its own parser; the loopback request of an HTTP/2
      stream is understood as the request of that stream.
    \<^item> \<open>Log\<close> (\<open>log.c\<close>): which descriptor a message goes to, and the lines written.
    \<^item> \<open>Process\<close> (\<open>signals.c\<close>, \<open>reload.c\<close>, \<open>util.c\<close>, \<open>server.c\<close>): signals, the pid
      file, giving up privileges, the start of a worker, the reload command.
    \<^item> \<open>WorkerLoop\<close>, \<open>Clock\<close> (\<open>server.c\<close>): the event loop of a worker over the heap of
      connections, whose clean-up closes each of them exactly once; clock values as an ordered
      type, along which an earlier idle sweep is absorbed by a later one.
    \<^item> \<open>Commands\<close>, \<open>Status\<close> (\<open>main.c\<close>, \<open>config_validate.c\<close>, \<open>doctor.c\<close>, \<open>trace.c\<close>,
      \<open>status.c\<close>): the other commands with their checks and exit codes.
    \<^item> \<open>BenchPage\<close>, \<open>BenchLoad\<close>, \<open>BenchMain\<close> (\<open>bench.c\<close>): the page benchmark, whose worker
      threads are a step relation, so that what is proved holds for every interleaving, the load
      benchmark with its counters, and the command around them.
    \<^item> \<open>Connect\<close> (\<open>server.c\<close>, \<open>proxy.c\<close> and the commands): the table of descriptors;
      connecting, with the loop over the addresses of a host as a locale that is interpreted for
      each caller, listening, and closing the caches.  No path leaks a descriptor.
    \<^item> \<open>HttpDate\<close> (\<open>server.c\<close>): HTTP dates and the calendar; written dates are read back.
    \<^item> \<open>Encoders\<close> (\<open>compress.c\<close>): the calls into zlib and brotli; whichever path makes a
      compressed body, it decodes to the file.

  \<^bold>\<open>State.\<close>  Site and server configuration are the records \<open>site_config\<close> and \<open>config\<close>
  (fields prefixed \<open>site_\<close>, \<open>cfg_\<close>); the caches and rate buckets embedded in the C structs are
  passed separately (\<open>site_cache\<close>, lists of \<open>rate_bucket\<close>) and gathered in \<open>server_state\<close>.
  \<open>client\<close> holds the fields of \<open>client_object\<close> that a request sees, its buffer is a string, its
  list links are in \<open>node\<close>.  A descriptor to write to or read from is the record \<open>io\<close>: the
  schedule of results that the next system calls give, the bytes accepted, the bytes to come.
  Errors are values: \<open>option\<close>, a sum, or a verdict datatype; a null dereference is the outcome
  \<open>Crash\<close>.

  \<^bold>\<open>Bounds, fuel and schedules.\<close>  No definition uses fuel.  Buffer sizes are those of the source
  and every \<open>snprintf\<close> or \<open>memcpy\<close> that is refused or truncated there is so here.  The system
  call schedules are finite lists; behind their end calls transfer everything, so the loops
  terminate by a measure, and every terminating behaviour of the C loops is the run of some
  schedule.  The walk over the client list is a \<open>partial_function\<close>; that it ends is a property.

  \<^bold>\<open>Library parameters.\<close>  The record \<open>host_env\<close> holds what the operating system and the
  libraries answer during a request: the clock, \<open>openat2\<close>, \<open>dup\<close>, the compressors.
  \<open>surroundings\<close> adds the connections to the application and upstream server.  \<open>realpath\<close>,
  \<open>fork\<close>, \<open>bind\<close> and the TLS handshake are arguments of the definitions that need them.

  \<^bold>\<open>Not modelled.\<close>  The insides of OpenSSL, nghttp2 and the compressors, and what the kernel
  does in \<open>getaddrinfo\<close>, \<open>connect\<close>, \<open>poll\<close> or \<open>epoll\<close>: their answers are parameters or events of
  the step relations.  Floating point (percentiles and averages of the reports of \<open>bench.c\<close>, the
  uptime of \<open>status.c\<close>), printed output, timing diagnostics and the counters of \<open>perf.c\<close>, which
  nothing reads.  Failing memory allocations are left out throughout, except where their answer is
  an argument.
\<close>

end
